(* ===== verification/Prelude.thy ===== *)
theory Prelude
  imports Main "HOL-Library.Word" "HOL-Library.Multiset" "HOL-Library.Char_ord" "HOL-Library.List_Lexorder"
begin

text \<open>
  Shared vocabulary of the development: the result type of code that can throw, the checked
  accesses of the C++ containers, decimal conversion (\<open>std::to_string\<close>, \<open>atoi\<close>), separator-joined
  strings and the contract of the tokenizer, and the counting idiom
  "insert 1, or add 1 to the stored number" that several classes repeat.
  The collection \<open>checked\<close> holds the rules for checked accesses, \<open>counting\<close> those for counters.
\<close>

named_theorems checked
named_theorems counting

section \<open>Code that can throw\<close>

text \<open>
  \<open>OutOfRange\<close> is \<open>std::out_of_range\<close>, thrown by \<open>at\<close>; \<open>NullPointer\<close> the dereference of a null
  pointer; \<open>DivideByZero\<close> the trap of \<open>% 0\<close>; \<open>Malformed\<close> an exception raised by a decoder on its input; \<open>StackOverflow\<close> a recursion
  that outruns the bound it is given; \<open>Waits\<close> a thread that waits on a condition variable;
  \<open>Diverges\<close> a loop that never ends.
\<close>

datatype exn = OutOfRange | NullPointer | DivideByZero | Malformed | StackOverflow | Waits | Diverges
  | BadRLP | OversizeRLP | UndersizeRLP | BadCast | RLPException | InValidSyncPacket
  | EmptySealers | BlockSealerListWrong | OverThresTransNum | DisabledFutureTime | InvalidBlockHeight
  | ParentNoneExist | WrongParentHash

type_synonym 'a result = "exn + 'a"

definition rbind :: "'a result \<Rightarrow> ('a \<Rightarrow> 'b result) \<Rightarrow> 'b result" where
  "rbind r f = (case r of Inl e \<Rightarrow> Inl e | Inr x \<Rightarrow> f x)"

lemma rbind_simps [simp]:
  "rbind (Inl e) f = Inl e"
  "rbind (Inr x) f = f x"
  by (simp_all add: rbind_def)

lemma rbind_cong:
  "r = r' \<Longrightarrow> (\<And>x. r' = Inr x \<Longrightarrow> f x = g x) \<Longrightarrow> rbind r f = rbind r' g"
  by (cases r') auto

lemma rbind_Inr_iff [checked]:
  "rbind r f = Inr y \<longleftrightarrow> (\<exists>x. r = Inr x \<and> f x = Inr y)"
  by (cases r) auto

fun rfold :: "('a \<Rightarrow> 's \<Rightarrow> 's result) \<Rightarrow> 'a list \<Rightarrow> 's \<Rightarrow> 's result" where
  "rfold f [] s = Inr s"
| "rfold f (x # xs) s = rbind (f x s) (rfold f xs)"

fun rmap :: "('a \<Rightarrow> 'b result) \<Rightarrow> 'a list \<Rightarrow> 'b list result" where
  "rmap f [] = Inr []"
| "rmap f (x # xs) = rbind (f x) (\<lambda>y. rbind (rmap f xs) (\<lambda>ys. Inr (y # ys)))"

lemma rfold_append: "rfold f (xs @ ys) s = rbind (rfold f xs s) (rfold f ys)"
  by (induction xs arbitrary: s) (auto simp: rbind_def split: sum.splits)

lemma rfold_total:
  assumes "\<And>x s. x \<in> set xs \<Longrightarrow> f x s = Inr (g x s)"
  shows "rfold f xs s = Inr (fold g xs s)"
  using assms by (induction xs arbitrary: s) auto

lemma rfold_invariant:
  assumes "rfold f xs s = Inr t" and "P s"
    and "\<And>x s t. x \<in> set xs \<Longrightarrow> P s \<Longrightarrow> f x s = Inr t \<Longrightarrow> P t"
  shows "P t"
  using assms by (induction xs arbitrary: s) (auto simp: checked)

lemma rmap_total:
  assumes "\<And>x. x \<in> set xs \<Longrightarrow> f x = Inr (g x)"
  shows "rmap f xs = Inr (map g xs)"
  using assms by (induction xs) auto

lemma rmap_length: "rmap f xs = Inr ys \<Longrightarrow> length ys = length xs"
  by (induction xs arbitrary: ys) (auto simp: checked)

definition vec_at :: "'a list \<Rightarrow> nat \<Rightarrow> 'a result" where
  "vec_at xs i = (if i < length xs then Inr (xs ! i) else Inl OutOfRange)"

lemma vec_at_simps [simp]:
  "i < length xs \<Longrightarrow> vec_at xs i = Inr (xs ! i)"
  "length xs \<le> i \<Longrightarrow> vec_at xs i = Inl OutOfRange"
  by (simp_all add: vec_at_def)

lemma vec_at_Inr_iff [checked]: "vec_at xs i = Inr x \<longleftrightarrow> i < length xs \<and> x = xs ! i"
  by (auto simp: vec_at_def)

lemma vec_at_Cons [checked]:
  "vec_at (x # xs) 0 = Inr x"
  "vec_at (x # xs) (Suc n) = vec_at xs n"
  "vec_at (x # xs) 1 = vec_at xs 0"
  "vec_at (x # xs) (numeral k) = vec_at xs (pred_numeral k)"
  by (simp_all add: vec_at_def numeral_eq_Suc)

lemma rfold_elem:
  assumes "rfold f xs s = Inr t" and "x \<in> set xs"
  shows "\<exists>s1 s2. f x s1 = Inr s2"
  using assms by (induction xs arbitrary: s) (auto simp: checked)

definition map_at :: "('k \<rightharpoonup> 'v) \<Rightarrow> 'k \<Rightarrow> 'v result" where
  "map_at m k = (case m k of None \<Rightarrow> Inl OutOfRange | Some v \<Rightarrow> Inr v)"

lemma map_at_simps [simp]:
  "m k = Some v \<Longrightarrow> map_at m k = Inr v"
  "m k = None \<Longrightarrow> map_at m k = Inl OutOfRange"
  by (simp_all add: map_at_def)

lemma map_at_Inr_iff [checked]: "map_at m k = Inr v \<longleftrightarrow> m k = Some v"
  by (auto simp: map_at_def split: option.splits)

lemma find_append: "find P (xs @ ys) = (case find P xs of None \<Rightarrow> find P ys | Some x \<Rightarrow> Some x)"
  by (induction xs) auto

lemma rmap_Inr_list_all2: "rmap f xs = Inr ys \<longleftrightarrow> list_all2 (\<lambda>x y. f x = Inr y) xs ys"
  by (induction xs arbitrary: ys) (auto simp: checked list_all2_Cons1)

lemma rmap_Inl:
  assumes "x \<in> set xs" and "f x = Inl e" and only: "\<And>y e'. f y = Inl e' \<Longrightarrow> e' = e"
  shows "rmap f xs = Inl e"
  using assms(1)
proof (induction xs)
  case (Cons y ys)
  show ?case
  proof (cases "f y")
    case (Inl e')
    then show ?thesis using only [OF Inl] by simp
  next
    case (Inr z)
    then have "x \<in> set ys" using Cons.prems assms(2) by auto
    then show ?thesis using Cons.IH Inr by simp
  qed
qed simp

lemma filter_mono_length: "(\<And>x. P x \<Longrightarrow> Q x) \<Longrightarrow> length (filter P xs) \<le> length (filter Q xs)"
  by (induction xs) (auto intro: le_SucI)

lemma vec_at_mem: "vec_at xs i = Inr x \<Longrightarrow> x \<in> set xs"
  by (auto simp: checked)

text \<open>\<open>std::map::insert\<close>: an existing entry is kept.\<close>

definition map_insert :: "('k \<rightharpoonup> 'v) \<Rightarrow> 'k \<Rightarrow> 'v \<Rightarrow> ('k \<rightharpoonup> 'v)" where
  "map_insert m k v = (case m k of None \<Rightarrow> m(k \<mapsto> v) | Some _ \<Rightarrow> m)"

lemma map_insert_lookup:
  "map_insert m k v j = (if j = k \<and> m k = None then Some v else m j)"
  by (auto simp: map_insert_def split: option.splits)

lemma dom_map_insert [simp]: "dom (map_insert m k v) = insert k (dom m)"
  by (auto simp: map_insert_def split: option.splits)

section \<open>Ordered maps\<close>

text \<open>
  A \<open>std::map\<close> that the code iterates is the list of its entries in key order. \<open>om_insert\<close> is
  \<open>insert\<close> (an existing entry is kept), \<open>om_set\<close> the assignment \<open>at(k) = v\<close> to an existing entry.
\<close>

type_synonym ('k, 'v) omap = "('k \<times> 'v) list"

fun om_insert :: "'k::linorder \<Rightarrow> 'v \<Rightarrow> ('k, 'v) omap \<Rightarrow> ('k, 'v) omap" where
  "om_insert k v [] = [(k, v)]"
| "om_insert k v ((j, w) # m) =
     (if k < j then (k, v) # (j, w) # m else if k = j then (j, w) # m else (j, w) # om_insert k v m)"

definition om_set :: "'k \<Rightarrow> 'v \<Rightarrow> ('k, 'v) omap \<Rightarrow> ('k, 'v) omap" where
  "om_set k v m = map (\<lambda>(j, w). if j = k then (j, v) else (j, w)) m"

definition om_ok :: "('k::linorder, 'v) omap \<Rightarrow> bool" where
  "om_ok m \<longleftrightarrow> sorted_wrt (<) (map fst m)"

lemma om_ok_simps [simp]:
  "om_ok []"
  "om_ok ((k, v) # m) \<longleftrightarrow> (\<forall>j \<in> fst ` set m. k < j) \<and> om_ok m"
  by (auto simp: om_ok_def)

lemma keys_om_set [simp]: "map fst (om_set k v m) = map fst m"
  by (induction m) (auto simp: om_set_def)

lemma keys_om_insert [simp]: "fst ` set (om_insert k v m) = insert k (fst ` set m)"
  by (induction k v m rule: om_insert.induct) auto

lemma om_ok_insert [simp, intro]: "om_ok m \<Longrightarrow> om_ok (om_insert k v m)"
  by (induction k v m rule: om_insert.induct) auto

lemma om_ok_set [simp]: "om_ok (om_set k v m) \<longleftrightarrow> om_ok m"
  by (simp add: om_ok_def)

lemma map_of_below: "\<forall>j \<in> fst ` set m. k < j \<Longrightarrow> map_of m (k::'k::linorder) = None"
  by (auto simp: map_of_eq_None_iff)

lemma map_of_om_insert [simp]: "om_ok m \<Longrightarrow> map_of (om_insert k v m) = map_insert (map_of m) k v"
proof (induction k v m rule: om_insert.induct)
  case (2 k v j w m)
  have below: "k < j \<Longrightarrow> map_of m k = None"
    using 2(2) by (intro map_of_below) (auto intro: less_trans)
  show ?case using 2 below by (auto simp: map_insert_lookup fun_eq_iff)
qed (auto simp: map_insert_lookup)

lemma map_of_om_set [simp]:
  "map_of (om_set k v m) j = (if j = k \<and> map_of m k \<noteq> None then Some v else map_of m j)"
  by (induction m) (auto simp: om_set_def)

lemma om_ok_distinct: "om_ok m \<Longrightarrow> distinct (map fst m)"
  by (simp add: om_ok_def strict_sorted_iff)

section \<open>Counters\<close>

text \<open>
  The idiom \<open>if (m.count(k) == 0) m.insert({k, 1}); else m.at(k) = m.at(k) + 1;\<close> and the
  number stored, 0 when there is no entry.
\<close>

definition bump :: "('k \<rightharpoonup> int) \<Rightarrow> 'k \<Rightarrow> ('k \<rightharpoonup> int)" where
  "bump m k = (case m k of None \<Rightarrow> m(k \<mapsto> 1) | Some n \<Rightarrow> m(k \<mapsto> n + 1))"

definition count_of :: "('k \<rightharpoonup> int) \<Rightarrow> 'k \<Rightarrow> int" where
  "count_of m k = (case m k of None \<Rightarrow> 0 | Some n \<Rightarrow> n)"

definition om_bump :: "'k::linorder \<Rightarrow> ('k, int) omap \<Rightarrow> ('k, int) omap" where
  "om_bump k m = (case map_of m k of None \<Rightarrow> om_insert k 1 m | Some n \<Rightarrow> om_set k (n + 1) m)"

lemma om_ok_bump [simp]: "om_ok m \<Longrightarrow> om_ok (om_bump k m)"
  by (simp add: om_bump_def split: option.splits)

lemma map_of_om_bump [simp]: "om_ok m \<Longrightarrow> map_of (om_bump k m) = bump (map_of m) k"
  by (auto simp: om_bump_def bump_def map_insert_lookup fun_eq_iff split: option.splits)

lemma count_of_bump [counting]: "count_of (bump m k) j = count_of m j + (if j = k then 1 else 0)"
  by (auto simp: bump_def count_of_def split: option.splits)

lemma dom_bump [simp]: "dom (bump m k) = insert k (dom m)"
  by (auto simp: bump_def split: option.splits)

lemma count_of_empty [simp]: "count_of Map.empty k = 0"
  by (simp add: count_of_def)

lemma count_of_upd [simp]: "count_of (m(k \<mapsto> n)) j = (if j = k then n else count_of m j)"
  by (simp add: count_of_def)

lemma count_of_Some: "m k = Some n \<Longrightarrow> count_of m k = n"
  by (simp add: count_of_def)

lemma count_of_fold_bump [counting]:
  "count_of (fold (\<lambda>k m. bump m k) ks m) j = count_of m j + int (count_list ks j)"
  by (induction ks arbitrary: m) (auto simp: counting)

lemma dom_fold_bump [simp]: "dom (fold (\<lambda>k m. bump m k) ks m) = dom m \<union> set ks"
  by (induction ks arbitrary: m) auto


section \<open>Decimal numbers and joined strings\<close>

definition digit_char :: "nat \<Rightarrow> char" where
  "digit_char d = char_of (48 + d)"

definition is_digit :: "char \<Rightarrow> bool" where
  "is_digit c \<longleftrightarrow> 48 \<le> (of_char c :: nat) \<and> (of_char c :: nat) \<le> 57"

definition digit_val :: "char \<Rightarrow> int" where
  "digit_val c = int (of_char c) - 48"

lemma is_digit_char: "d < 10 \<Longrightarrow> is_digit (digit_char d)"
  by (simp add: is_digit_def digit_char_def)

lemma digit_val_char: "d < 10 \<Longrightarrow> digit_val (digit_char d) = int d"
  by (simp add: digit_val_def digit_char_def)

fun nat_digits :: "nat \<Rightarrow> string" where
  "nat_digits n = (if n < 10 then [digit_char n] else nat_digits (n div 10) @ [digit_char (n mod 10)])"

declare nat_digits.simps [simp del]

text \<open>\<open>std::to_string\<close> on integers.\<close>

definition to_string :: "int \<Rightarrow> string" where
  "to_string i = (if i < 0 then CHR ''-'' # nat_digits (nat (- i)) else nat_digits (nat i))"

text \<open>
  \<open>atoi\<close>: leading white space, an optional sign, then the longest run of digits; 0 when there is
  none. A value outside \<open>int\<close> is undefined behaviour in C; the model returns the number itself.
\<close>

definition is_space :: "char \<Rightarrow> bool" where
  "is_space c \<longleftrightarrow> (of_char c :: nat) = 32 \<or> (9 \<le> (of_char c :: nat) \<and> (of_char c :: nat) \<le> 13)"

fun digits_acc :: "int \<Rightarrow> string \<Rightarrow> int" where
  "digits_acc acc [] = acc"
| "digits_acc acc (c # cs) = (if is_digit c then digits_acc (10 * acc + digit_val c) cs else acc)"

definition atoi :: "string \<Rightarrow> int" where
  "atoi s =
     (case dropWhile is_space s of
        [] \<Rightarrow> 0
      | c # cs \<Rightarrow>
          (if c = CHR ''-'' then - digits_acc 0 cs
           else if c = CHR ''+'' then digits_acc 0 cs
           else digits_acc 0 (c # cs)))"

lemma nat_digits_nonempty: "nat_digits n \<noteq> []"
  by (subst nat_digits.simps) simp

lemma nat_digits_are_digits: "c \<in> set (nat_digits n) \<Longrightarrow> is_digit c"
proof (induction n rule: nat_digits.induct)
  case (1 n)
  then show ?case
    by (subst (asm) nat_digits.simps) (auto simp: is_digit_char split: if_splits)
qed

lemma digits_acc_append:
  "(\<And>c. c \<in> set xs \<Longrightarrow> is_digit c) \<Longrightarrow> digits_acc acc (xs @ ys) = digits_acc (digits_acc acc xs) ys"
  by (induction xs arbitrary: acc) auto

lemma digits_acc_nat_digits: "digits_acc 0 (nat_digits n) = int n"
proof (induction n rule: nat_digits.induct)
  case (1 n)
  show ?case
  proof (cases "n < 10")
    case True
    then show ?thesis
      by (subst nat_digits.simps) (simp add: is_digit_char digit_val_char)
  next
    case False
    then have "digits_acc 0 (nat_digits n) = 10 * int (n div 10) + int (n mod 10)"
      using 1 by (subst nat_digits.simps)
        (simp add: digits_acc_append nat_digits_are_digits is_digit_char digit_val_char)
    also have "\<dots> = int n"
      by (metis mult_div_mod_eq of_nat_add of_nat_mult of_nat_numeral)
    finally show ?thesis .
  qed
qed

lemma digit_not_sign:
  "is_digit c \<Longrightarrow> c \<noteq> CHR ''-'' \<and> c \<noteq> CHR ''+'' \<and> \<not> is_space c"
  by (auto simp: is_digit_def is_space_def)

lemma atoi_digits:
  assumes "xs \<noteq> []" and "\<And>c. c \<in> set xs \<Longrightarrow> is_digit c"
  shows "atoi xs = digits_acc 0 xs"
  using assms by (cases xs) (auto simp: atoi_def dest: digit_not_sign)

lemma atoi_to_string [simp]: "atoi (to_string i) = i"
proof (cases "i < 0")
  case True
  then show ?thesis
    by (simp add: to_string_def atoi_def is_space_def digits_acc_nat_digits)
next
  case False
  then show ?thesis
    using atoi_digits [OF nat_digits_nonempty nat_digits_are_digits, of "nat i"]
    by (simp add: to_string_def digits_acc_nat_digits)
qed

lemma to_string_inj [simp]: "to_string i = to_string j \<longleftrightarrow> i = j"
  by (metis atoi_to_string)

lemma to_string_nonempty [simp]: "to_string i \<noteq> []"
  by (simp add: to_string_def nat_digits_nonempty)

text \<open>\<open>numeric\<close> strings: what \<open>to_string\<close> prints. None of the protocol's separators is among them.\<close>

lemma to_string_chars: "c \<in> set (to_string i) \<Longrightarrow> is_digit c \<or> c = CHR ''-''"
  by (auto simp: to_string_def split: if_splits dest: nat_digits_are_digits)

definition separator :: "char \<Rightarrow> bool" where
  "separator c \<longleftrightarrow> c \<in> {CHR ''|'', CHR '','', CHR ''_'', CHR ''#'', CHR ''&'', CHR '':''}"

lemma separator_not_in_to_string: "separator c \<Longrightarrow> c \<notin> set (to_string i)"
  by (auto simp: separator_def is_digit_def dest!: to_string_chars)

text \<open>The idiom \<open>for (i...) if (i == 0) s = xs[i]; else s = s + flag + xs[i];\<close>.\<close>

fun join_with :: "string \<Rightarrow> string list \<Rightarrow> string" where
  "join_with sep [] = []"
| "join_with sep [x] = x"
| "join_with sep (x # y # ys) = x @ sep @ join_with sep (y # ys)"

lemma join_with_snoc:
  "join_with sep (xs @ [y]) = (if xs = [] then y else join_with sep xs @ sep @ y)"
  by (induction sep xs rule: join_with.induct) auto

lemma join_with_Cons:
  "join_with sep (x # xs) = (if xs = [] then x else x @ sep @ join_with sep xs)"
  by (cases xs) auto

lemma join_with_append:
  "xs \<noteq> [] \<Longrightarrow> ys \<noteq> [] \<Longrightarrow> join_with sep (xs @ ys) = join_with sep xs @ sep @ join_with sep ys"
  by (induction sep xs rule: join_with.induct) (auto simp: join_with_Cons)

text \<open>
  \<open>boost::split(v, s, is_any_of(c), token_compress_on)\<close> is library code: the model takes the
  tokenizer as an argument. What the code relies on is that a string without the separator is one
  token, and that a non-empty piece before a separator (and not before two of them) is the first
  token, followed by the tokens of the rest.
\<close>

type_synonym tokenizer = "char \<Rightarrow> string \<Rightarrow> string list"

definition splits_ok :: "tokenizer \<Rightarrow> bool" where
  "splits_ok sp \<longleftrightarrow>
     (\<forall>c s. c \<notin> set s \<longrightarrow> sp c s = [s])
   \<and> (\<forall>c t r. t \<noteq> [] \<and> c \<notin> set t \<and> (r = [] \<or> hd r \<noteq> c) \<longrightarrow> sp c (t @ c # r) = t # sp c r)"

lemma splits_single: "splits_ok sp \<Longrightarrow> c \<notin> set s \<Longrightarrow> sp c s = [s]"
  by (simp add: splits_ok_def)

lemma splits_Cons:
  "splits_ok sp \<Longrightarrow> t \<noteq> [] \<Longrightarrow> c \<notin> set t \<Longrightarrow> r = [] \<or> hd r \<noteq> c \<Longrightarrow> sp c (t @ c # r) = t # sp c r"
  by (simp add: splits_ok_def)

lemma splits_join:
  assumes sp: "splits_ok sp" and "ts \<noteq> []" and "\<And>t. t \<in> set ts \<Longrightarrow> t \<noteq> [] \<and> c \<notin> set t"
  shows "sp c (join_with [c] ts) = ts"
  using assms(2,3)
proof (induction ts)
  case (Cons t ts)
  show ?case
  proof (cases ts)
    case Nil
    then show ?thesis using Cons.prems by (simp add: splits_single [OF sp])
  next
    case (Cons u us)
    have u: "u \<noteq> []" "c \<notin> set u" using Cons.prems(2) [of u] Cons by auto
    have "hd (join_with [c] (u # us)) \<noteq> c" using u by (cases u) (auto simp: join_with_Cons)
    then have "sp c (t @ c # join_with [c] ts) = t # sp c (join_with [c] ts)"
      using Cons.prems(2) [of t] Cons by (intro splits_Cons [OF sp]) auto
    moreover have "sp c (join_with [c] ts) = ts" using Cons.IH Cons.prems(2) Cons by simp
    ultimately show ?thesis using Cons by (simp add: join_with_Cons)
  qed
qed simp

lemma splits_numbers:
  assumes "splits_ok sp" and "separator c" and "is \<noteq> []"
  shows "sp c (join_with [c] (map to_string is)) = map to_string is"
  using assms by (intro splits_join) (auto simp: separator_not_in_to_string)

text \<open>A tokenizer that satisfies the contract: it cuts at every occurrence of the separator.\<close>

fun cut :: "char \<Rightarrow> string \<Rightarrow> string list" where
  "cut c [] = [[]]"
| "cut c (x # xs) = (if x = c then [] # cut c xs
     else (case cut c xs of [] \<Rightarrow> [[x]] | t # ts \<Rightarrow> (x # t) # ts))"

lemma cut_free: "c \<notin> set s \<Longrightarrow> cut c s = [s]"
  by (induction s) auto

lemma cut_append_sep: "c \<notin> set s \<Longrightarrow> cut c (s @ c # r) = s # cut c r"
  by (induction s) auto

lemma cut_join:
  "ts \<noteq> [] \<Longrightarrow> \<forall>t \<in> set ts. c \<notin> set t \<Longrightarrow> cut c (join_with [c] ts) = ts"
  by (induction "[c]" ts rule: join_with.induct) (auto simp: cut_free cut_append_sep)

lemma splits_ok_cut: "splits_ok cut"
  by (auto simp: splits_ok_def cut_free cut_append_sep)

end
