(* ===== verification/ShardTree.thy ===== *)
theory ShardTree
  imports Prelude
begin

text \<open>
  The tree of shards (\<open>libplugin/hieraShardTree.cpp\<close>, \<open>libplugin/hieraShardTree.h\<close>).
  A \<open>HieraShardNode\<close> is a \<open>shard_node\<close>; a pointer to a node, as \<open>get_shard_by_internal_groupId\<close>
  returns it, is a \<open>cursor\<close>: the node and the chain of its \<open>coordinator\<close> pointers, nearest first
  (\<open>recursionInsertChild\<close> is the only place that links nodes and it makes the coordinator the parent).
  A node key (\<open>h512\<close>) is its hex string. The parsed \<open>tree.json\<close> is the map of its string members.
\<close>

section \<open>Nodes, the tree and its counters\<close>

datatype shard_node =
  ShardNode (internal_groupId: int) (nodeIDs: "string list") (children: "shard_node list")

type_synonym cursor = "shard_node \<times> shard_node list"
type_synonym json = "string \<rightharpoonup> string"

record hiera_tree =
  root :: shard_node
  hiera_shard_number :: int
  intra_shard_number :: int
  inter_shard_number :: int
  cross_layer_shard_number :: int

definition new_HieraShardTree :: hiera_tree where
  "new_HieraShardTree = \<lparr>root = ShardNode (- 1) [] [], hiera_shard_number = 1,
     intra_shard_number = 0, inter_shard_number = 0, cross_layer_shard_number = 0\<rparr>"

definition is_leaf :: "shard_node \<Rightarrow> bool" where
  "is_leaf shard \<longleftrightarrow> length (children shard) = 0"

definition is_inter :: "shard_node \<Rightarrow> bool" where
  "is_inter shard \<longleftrightarrow> \<not> is_leaf shard"

definition is_cross_layer :: "shard_node \<Rightarrow> bool" where
  "is_cross_layer shard \<longleftrightarrow> list_ex (\<lambda>c. \<not> is_leaf c) (children shard)"

text \<open>\<open>dfs\<close> counts the nodes below a shard and updates the tree's three counters on the way.\<close>

definition count_shard :: "shard_node \<Rightarrow> hiera_tree \<Rightarrow> hiera_tree" where
  "count_shard shard t =
     (let t1 = (if is_leaf shard then t\<lparr>intra_shard_number := intra_shard_number t + 1\<rparr> else t);
          t2 = (if is_inter shard then t1\<lparr>inter_shard_number := inter_shard_number t1 + 1\<rparr> else t1)
      in if is_cross_layer shard
         then t2\<lparr>cross_layer_shard_number := cross_layer_shard_number t2 + 1\<rparr> else t2)"

fun dfs :: "shard_node \<Rightarrow> hiera_tree \<Rightarrow> int \<times> hiera_tree"
and dfs_children :: "shard_node list \<Rightarrow> int \<Rightarrow> hiera_tree \<Rightarrow> int \<times> hiera_tree" where
  "dfs (ShardNode g ns cs) t =
     (let t1 = count_shard (ShardNode g ns cs) t
      in if length cs = 0 then (0, t1) else dfs_children cs 0 t1)"
| "dfs_children [] number t = (number, t)"
| "dfs_children (c # cs) number t =
     (let (n, t1) = dfs c t in dfs_children cs (number + 1 + n) t1)"

section \<open>Building the tree\<close>

definition insertChild :: "shard_node \<Rightarrow> shard_node \<Rightarrow> shard_node" where
  "insertChild shard coordinator =
     ShardNode (internal_groupId coordinator) (nodeIDs coordinator) (children coordinator @ [shard])"

definition insertChildren :: "shard_node list \<Rightarrow> shard_node \<Rightarrow> shard_node" where
  "insertChildren shards coordinator = fold insertChild shards coordinator"

text \<open>
  \<open>recursionInsertChild\<close> adds a child per listed id and recurses as long as the JSON has a member
  for the child. Nothing in the code bounds the depth; the model counts it down and ends in
  \<open>StackOverflow\<close>. The shard under construction is the accumulator of the loop.
\<close>

fun recursionInsertChild ::
  "tokenizer \<Rightarrow> json \<Rightarrow> nat \<Rightarrow> shard_node \<Rightarrow> string list \<Rightarrow> shard_node result" where
  "recursionInsertChild sp result 0 shard subShards =
     (if subShards = [] then Inr shard else Inl StackOverflow)"
| "recursionInsertChild sp result (Suc depth) shard subShards =
     rfold (\<lambda>item acc.
        let subShard = ShardNode (atoi item) [] [] in
        case result (to_string (atoi item)) of
          None \<Rightarrow> Inr (insertChild subShard acc)
        | Some subShardsStr \<Rightarrow>
            rbind (recursionInsertChild sp result depth subShard (sp CHR '','' subShardsStr))
              (\<lambda>sub. Inr (insertChild sub acc)))
       subShards shard"

definition json_asString :: "json \<Rightarrow> string \<Rightarrow> string" where
  "json_asString result k = (case result k of None \<Rightarrow> [] | Some s \<Rightarrow> s)"

definition buildFromJson ::
  "tokenizer \<Rightarrow> nat \<Rightarrow> json option \<Rightarrow> hiera_tree \<Rightarrow> hiera_tree result" where
  "buildFromJson sp depth parsed t =
     (case parsed of
        None \<Rightarrow> Inr t
      | Some result \<Rightarrow>
          (let root_id = json_asString result ''root'';
               r = ShardNode (atoi root_id) (nodeIDs (root t)) (children (root t));
               items = sp CHR '','' (json_asString result root_id)
           in rbind (recursionInsertChild sp result depth r items) (\<lambda>r'.
                let (number, t1) = dfs r' (t\<lparr>root := r'\<rparr>)
                in Inr (t1\<lparr>hiera_shard_number := 1 + number\<rparr>))))"

section \<open>Lookups\<close>

fun search_shard :: "int \<Rightarrow> shard_node list \<Rightarrow> shard_node \<Rightarrow> cursor option"
and search_children :: "int \<Rightarrow> shard_node list \<Rightarrow> shard_node list \<Rightarrow> cursor option" where
  "search_shard g up (ShardNode i ns cs) = search_children g (ShardNode i ns cs # up) cs"
| "search_children g up [] = None"
| "search_children g up (c # cs) =
     (if internal_groupId c = g then Some (c, up)
      else case search_shard g up c of Some r \<Rightarrow> Some r | None \<Rightarrow> search_children g up cs)"

definition get_shard_by_internal_groupId :: "hiera_tree \<Rightarrow> int \<Rightarrow> cursor option" where
  "get_shard_by_internal_groupId t g =
     (if internal_groupId (root t) = g then Some (root t, []) else search_shard g [] (root t))"

text \<open>The callers dereference the pointer they get.\<close>

definition shard_deref :: "hiera_tree \<Rightarrow> int \<Rightarrow> cursor result" where
  "shard_deref t g =
     (case get_shard_by_internal_groupId t g of None \<Rightarrow> Inl NullPointer | Some c \<Rightarrow> Inr c)"

definition get_nodeIDs :: "hiera_tree \<Rightarrow> int \<Rightarrow> string list result" where
  "get_nodeIDs t g = rbind (shard_deref t g) (\<lambda>c. Inr (nodeIDs (fst c)))"

definition get_forward_nodeId :: "hiera_tree \<Rightarrow> int \<Rightarrow> string result" where
  "get_forward_nodeId t g = rbind (shard_deref t g) (\<lambda>c. vec_at (nodeIDs (fst c)) 0)"

definition is_forward_node :: "hiera_tree \<Rightarrow> int \<Rightarrow> string \<Rightarrow> bool result" where
  "is_forward_node t g nodeIdHex =
     rbind (shard_deref t g) (\<lambda>c. rbind (vec_at (nodeIDs (fst c)) 0) (\<lambda>n. Inr (nodeIdHex = n)))"

definition is_leaf_id :: "hiera_tree \<Rightarrow> int \<Rightarrow> bool result" where
  "is_leaf_id t g = rbind (shard_deref t g) (\<lambda>c. Inr (is_leaf (fst c)))"

definition is_inter_id :: "hiera_tree \<Rightarrow> int \<Rightarrow> bool result" where
  "is_inter_id t g = rbind (shard_deref t g) (\<lambda>c. Inr (is_inter (fst c)))"

definition is_cross_layer_id :: "hiera_tree \<Rightarrow> int \<Rightarrow> bool result" where
  "is_cross_layer_id t g = rbind (shard_deref t g) (\<lambda>c. Inr (is_cross_layer (fst c)))"

fun get_all_child :: "shard_node \<Rightarrow> int list"
and get_all_children :: "shard_node list \<Rightarrow> int list" where
  "get_all_child (ShardNode g ns cs) = get_all_children cs"
| "get_all_children [] = []"
| "get_all_children (c # cs) = internal_groupId c # get_all_child c @ get_all_children cs"

text \<open>
  \<open>get_shard_info_by_internal_groupId\<close> prints the coordinators above a shard and the shards below
  it. The walk up the coordinator chain appends, at each coordinator that has a coordinator itself,
  the ids of all children of that next coordinator, and ends with the root.
\<close>

definition comma_ids :: "int list \<Rightarrow> string" where
  "comma_ids gs = concat (map (\<lambda>g. to_string g @ '','') gs)"

fun coordinator_walk :: "shard_node \<Rightarrow> shard_node list \<Rightarrow> string" where
  "coordinator_walk tmp [] = to_string (internal_groupId tmp)"
| "coordinator_walk tmp (up # ups) =
     comma_ids (map internal_groupId (children up)) @ coordinator_walk up ups"

definition upper_string :: "cursor \<Rightarrow> int \<Rightarrow> string" where
  "upper_string c g =
     (case snd c of
        [] \<Rightarrow> to_string g
      | tmp # ups \<Rightarrow>
          (if is_inter (fst c) then to_string g @ '','' else []) @ coordinator_walk tmp ups)"

definition lower_string :: "cursor \<Rightarrow> int \<Rightarrow> string" where
  "lower_string c g =
     (if length (children (fst c)) = 0 then ''N/A''
      else to_string g @ '','' @ join_with '','' (map to_string (get_all_child (fst c))))"

definition get_shard_info_by_internal_groupId :: "hiera_tree \<Rightarrow> int \<Rightarrow> (string \<times> string) result" where
  "get_shard_info_by_internal_groupId t g =
     rbind (shard_deref t g) (\<lambda>c. Inr (upper_string c g, lower_string c g))"

text \<open>
  \<open>getLCA\<close>. Both lists of upper ids are split from the first shard's string: the second
  \<open>boost::split\<close> is given \<open>shard_1_upper\<close>. The accesses are checked before the bounds are tested.
\<close>

function lca_loop :: "string list \<Rightarrow> string list \<Rightarrow> nat \<Rightarrow> nat \<Rightarrow> int result" where
  "lca_loop us1 us2 i1 i2 =
     (case vec_at us1 i1 of Inl e \<Rightarrow> Inl e
      | Inr a \<Rightarrow>
        (case vec_at us2 i2 of Inl e \<Rightarrow> Inl e
         | Inr b \<Rightarrow>
             (if a = b then Inr (atoi a)
              else if length us1 \<le> i1 \<or> length us2 \<le> i2 then Inr (- 1)
              else lca_loop us1 us2 (i1 + 1) (i2 + 1))))"
  by pat_completeness auto
termination
  by (relation "measure (\<lambda>(us1, us2, i1, i2). length us1 - i1)") (auto simp: checked)

definition getLCA :: "tokenizer \<Rightarrow> hiera_tree \<Rightarrow> int \<Rightarrow> int \<Rightarrow> int result" where
  "getLCA sp t g1 g2 =
     rbind (get_shard_info_by_internal_groupId t g1) (\<lambda>info1.
     rbind (get_shard_info_by_internal_groupId t g2) (\<lambda>info2.
     rbind (is_leaf_id t g1) (\<lambda>leaf1.
     rbind (is_leaf_id t g2) (\<lambda>leaf2.
       let us1 = sp CHR '','' (fst info1);
           us2 = sp CHR '','' (fst info1);
           d1 = length us1 + (if leaf1 then 1 else 0);
           d2 = length us2 + (if leaf2 then 1 else 0)
       in if d1 \<ge> d2 then lca_loop us1 us2 0 (d1 - d2) else lca_loop us1 us2 (d2 - d1) 0))))"


section \<open>Node keys from the configuration\<close>

text \<open>
  \<open>putGroupPubKeyIntoService\<close> walks the \<open>group\<close> section; every \<open>groups.*\<close> entry lists the node keys
  of the next shard, separated by colons, and ends with the group id. The keys are pushed into the
  shard and into one list that is handed to the service under the last group id
  (\<open>None\<close>: the variable is never assigned).
\<close>

fun push_nodeID :: "int \<Rightarrow> string \<Rightarrow> shard_node \<Rightarrow> shard_node option"
and push_nodeID_children :: "int \<Rightarrow> string \<Rightarrow> shard_node list \<Rightarrow> shard_node list option" where
  "push_nodeID g h (ShardNode i ns cs) =
     (if i = g then Some (ShardNode i (ns @ [h]) cs)
      else map_option (ShardNode i ns) (push_nodeID_children g h cs))"
| "push_nodeID_children g h [] = None"
| "push_nodeID_children g h (c # cs) =
     (case push_nodeID g h c of
        Some c' \<Rightarrow> Some (c' # cs)
      | None \<Rightarrow> map_option (\<lambda>cs'. c # cs') (push_nodeID_children g h cs))"

record group_conf =
  gc_root :: shard_node
  gc_index :: int
  gc_node_list :: "string list"
  gc_groupId :: "int option"

definition push_group_key :: "string \<Rightarrow> group_conf \<Rightarrow> group_conf result" where
  "push_group_key h st =
     (case push_nodeID (gc_index st) h (gc_root st) of
        None \<Rightarrow> Inl NullPointer
      | Some r \<Rightarrow> Inr (st\<lparr>gc_root := r, gc_node_list := gc_node_list st @ [h]\<rparr>))"

definition read_group_line :: "tokenizer \<Rightarrow> string \<times> string \<Rightarrow> group_conf \<Rightarrow> group_conf result" where
  "read_group_line sp line st =
     (if take 7 (fst line) = ''groups.'' then
        (let s = sp CHR '':'' (snd line) in
         rbind (rfold push_group_key (take (length s - 1) s) st) (\<lambda>st1.
         rbind (vec_at s (length s - 1)) (\<lambda>g.
           Inr (st1\<lparr>gc_groupId := Some (atoi g), gc_index := gc_index st1 + 1\<rparr>))))
      else Inr st)"

definition putGroupPubKeyIntoService ::
  "tokenizer \<Rightarrow> (string \<times> string) list \<Rightarrow> hiera_tree \<Rightarrow> (hiera_tree \<times> int option \<times> string list) result" where
  "putGroupPubKeyIntoService sp pt_group t =
     rbind (rfold (read_group_line sp) pt_group
              \<lparr>gc_root = root t, gc_index = 1, gc_node_list = [], gc_groupId = None\<rparr>)
       (\<lambda>st. Inr (t\<lparr>root := gc_root st\<rparr>, gc_groupId st, gc_node_list st))"

section \<open>Random pairs of shards for generated transactions\<close>

text \<open>
  The values of \<open>rand()\<close> are the stream \<open>rnd\<close>; the loops that draw again until the two picks
  differ may run forever, which is \<open>None\<close>.
\<close>

partial_function (option) redraw ::
  "(nat \<Rightarrow> nat) \<Rightarrow> nat \<Rightarrow> (nat \<Rightarrow> bool) \<Rightarrow> nat \<Rightarrow> (nat \<times> nat) option" where
  "redraw rnd n same k =
     (if same (rnd k mod n) then redraw rnd n same (k + 1) else Some (rnd k mod n, k + 1))"

definition get_inter_childs :: "hiera_tree \<Rightarrow> int \<Rightarrow> (nat \<Rightarrow> nat) \<Rightarrow> (int \<times> int) result option" where
  "get_inter_childs t g rnd =
     (case get_shard_by_internal_groupId t g of
        None \<Rightarrow> Some (Inl NullPointer)
      | Some (shard, _) \<Rightarrow>
          (let childs = internal_groupId shard # map internal_groupId (children shard);
               i1 = rnd 0 mod length childs
           in map_option (\<lambda>(i2, k). Inr (childs ! i1, childs ! i2))
                (redraw rnd (length childs) (\<lambda>i2. i1 = i2) 1)))"

definition first_cross_pick ::
  "int \<Rightarrow> shard_node \<Rightarrow> shard_node list \<Rightarrow> shard_node list \<Rightarrow> (nat \<Rightarrow> nat) \<Rightarrow> (int \<times> int \<times> nat) result" where
  "first_cross_pick g shard cross_layer_childs leaf_childs rnd =
     (if length cross_layer_childs > 1 then
        rbind (vec_at (children shard) (rnd 0 mod length (children shard))) (\<lambda>subShard_1.
          let all_child_1 = get_all_child subShard_1 @ [g] @ [internal_groupId subShard_1]
          in rbind (vec_at all_child_1 (rnd 1 mod length all_child_1)) (\<lambda>pick.
               Inr (pick, internal_groupId subShard_1, 2)))
      else if rnd 0 mod 2 = 0 then
        (if length (children shard) = 0 then Inl DivideByZero
         else rbind (vec_at leaf_childs (rnd 1 mod length (children shard)))
           (\<lambda>leaf. Inr (internal_groupId leaf, g, 2)))
      else Inr (g, g, 1))"

definition get_cross_layer_childs :: "hiera_tree \<Rightarrow> int \<Rightarrow> (nat \<Rightarrow> nat) \<Rightarrow> (int \<times> int) result option" where
  "get_cross_layer_childs t g rnd =
     (case get_shard_by_internal_groupId t g of
        None \<Rightarrow> Some (Inl NullPointer)
      | Some (shard, _) \<Rightarrow>
          (let cross = filter is_inter (children shard);
               leafs = filter (\<lambda>c. \<not> is_inter c) (children shard)
           in case first_cross_pick g shard cross leafs rnd of
                Inl e \<Rightarrow> Some (Inl e)
              | Inr (dblsubShard_1, subShard_1_groupId, k) \<Rightarrow>
                  (if length cross = 0 then Some (Inl DivideByZero)
                   else case redraw rnd (length cross)
                               (\<lambda>i. internal_groupId (cross ! i) = subShard_1_groupId) k of
                          None \<Rightarrow> None
                        | Some (i2, k2) \<Rightarrow>
                            (let all_child_2 = get_all_child (cross ! i2)
                             in Some (rbind (vec_at all_child_2 (rnd k2 mod length all_child_2))
                                        (\<lambda>pick. Inr (dblsubShard_1, pick)))))))"


section \<open>Lemmas\<close>

fun shard_nodes :: "shard_node \<Rightarrow> shard_node list" where
  "shard_nodes (ShardNode g ns cs) = ShardNode g ns cs # concat (map shard_nodes cs)"

lemma get_all_child_nodes:
  "get_all_child s = map internal_groupId (tl (shard_nodes s))"
  "get_all_children cs = map internal_groupId (concat (map shard_nodes cs))"
proof (induction s and cs rule: get_all_child_get_all_children.induct)
  case (3 c cs)
  then show ?case by (cases c) auto
qed auto

lemma count_shard_simps [simp]:
  "root (count_shard s t) = root t"
  "hiera_shard_number (count_shard s t) = hiera_shard_number t"
  "intra_shard_number (count_shard s t) = intra_shard_number t + (if is_leaf s then 1 else 0)"
  "inter_shard_number (count_shard s t) = inter_shard_number t + (if is_inter s then 1 else 0)"
  "cross_layer_shard_number (count_shard s t) =
     cross_layer_shard_number t + (if is_cross_layer s then 1 else 0)"
  by (simp_all add: count_shard_def Let_def)

lemma dfs_spec:
  "root (snd (dfs s t)) = root t \<and> hiera_shard_number (snd (dfs s t)) = hiera_shard_number t
   \<and> fst (dfs s t) = int (length (get_all_child s))
   \<and> intra_shard_number (snd (dfs s t)) = intra_shard_number t + int (length (filter is_leaf (shard_nodes s)))
   \<and> inter_shard_number (snd (dfs s t)) = inter_shard_number t + int (length (filter is_inter (shard_nodes s)))
   \<and> cross_layer_shard_number (snd (dfs s t)) =
       cross_layer_shard_number t + int (length (filter is_cross_layer (shard_nodes s)))"
  (is "?P s t")
  "root (snd (dfs_children cs number t)) = root t
   \<and> hiera_shard_number (snd (dfs_children cs number t)) = hiera_shard_number t
   \<and> fst (dfs_children cs number t) = number + int (length (get_all_children cs))
   \<and> intra_shard_number (snd (dfs_children cs number t)) = intra_shard_number t
       + int (length (filter is_leaf (concat (map shard_nodes cs))))
   \<and> inter_shard_number (snd (dfs_children cs number t)) = inter_shard_number t
       + int (length (filter is_inter (concat (map shard_nodes cs))))
   \<and> cross_layer_shard_number (snd (dfs_children cs number t)) = cross_layer_shard_number t
       + int (length (filter is_cross_layer (concat (map shard_nodes cs))))"
  (is "?Q cs number t")
proof (induction s t and cs number t rule: dfs_dfs_children.induct)
  case (1 g ns cs t)
  then show ?case
    by (cases cs) (simp_all add: Let_def)
next
  case (3 c cs number t)
  obtain m t1 where c: "dfs c t = (m, t1)" by (cases "dfs c t")
  with 3 show ?case by simp
qed simp

lemma shard_nodes_ne: "shard_nodes s = s # tl (shard_nodes s)"
  by (cases s) simp

lemma search_spec:
  "map_option fst (search_shard g up s) = find (\<lambda>n. internal_groupId n = g) (tl (shard_nodes s))"
  "map_option fst (search_children g up cs) =
     find (\<lambda>n. internal_groupId n = g) (concat (map shard_nodes cs))"
proof (induction g up s and g up cs rule: search_shard_search_children.induct)
  case (3 g up c cs)
  have "find (\<lambda>n. internal_groupId n = g) (shard_nodes c @ concat (map shard_nodes cs))
      = (if internal_groupId c = g then Some c
         else case find (\<lambda>n. internal_groupId n = g) (tl (shard_nodes c)) of
                None \<Rightarrow> find (\<lambda>n. internal_groupId n = g) (concat (map shard_nodes cs))
              | Some x \<Rightarrow> Some x)"
    by (subst shard_nodes_ne) (simp add: find_append)
  with 3 show ?case
    by (cases "internal_groupId c = g") (auto split: option.splits)
qed auto

fun linked :: "shard_node \<Rightarrow> shard_node list \<Rightarrow> shard_node \<Rightarrow> bool" where
  "linked c [] r \<longleftrightarrow> c = r"
| "linked c (u # us) r \<longleftrightarrow> c \<in> set (children u) \<and> linked u us r"



lemma search_linked:
  "linked s up r \<Longrightarrow> search_shard g up s = Some (c, us) \<Longrightarrow> linked c us r \<and> us \<noteq> [] \<and> internal_groupId c = g"
  "ups = p # up \<Longrightarrow> linked p up r \<Longrightarrow> set cs \<subseteq> set (children p) \<Longrightarrow>
   search_children g ups cs = Some (c, us) \<Longrightarrow> linked c us r \<and> us \<noteq> [] \<and> internal_groupId c = g"
proof (induction g up s and g ups cs arbitrary: c us and c us p up rule: search_shard_search_children.induct)
  case (1 g up i ns cs)
  then show ?case by simp
next
  case (2 g up)
  then show ?case by simp
next
  case (3 g ups c' cs)
  have l: "linked c' ups r" using "3.prems"(1-3) by simp
  show ?case
  proof (cases "internal_groupId c' = g")
    case True
    with "3.prems"(4) have "c' = c" "ups = us" by simp_all
    with l True "3.prems"(1) show ?thesis by simp
  next
    case False
    show ?thesis
    proof (cases "search_shard g ups c'")
      case None
      with False "3.prems" "3.IH"(2) [OF False None, of p up c us] show ?thesis by simp
    next
      case (Some a)
      with False "3.prems"(4) have "a = (c, us)" by simp
      with l Some "3.IH"(1) [OF False, of c us] show ?thesis by simp
    qed
  qed
qed

definition shard_ids :: "shard_node \<Rightarrow> int list" where
  "shard_ids s = map internal_groupId (shard_nodes s)"

lemma shard_ids_Cons: "shard_ids s = internal_groupId s # get_all_child s"
  using shard_nodes_ne [of s] by (simp add: shard_ids_def get_all_child_nodes) (metis list.simps(9))

lemma get_all_child_concat: "get_all_child s = concat (map shard_ids (children s))"
  by (cases s) (simp add: get_all_child_nodes shard_ids_def [abs_def] map_concat o_def)

lemma shard_ids_child: "c \<in> set (children s) \<Longrightarrow> set (shard_ids c) \<subseteq> set (get_all_child s)"
  by (auto simp: get_all_child_concat)

lemma distinct_child:
  "distinct (shard_ids s) \<Longrightarrow> c \<in> set (children s) \<Longrightarrow> distinct (shard_ids c)"
  unfolding shard_ids_Cons [of s] get_all_child_concat
  by (auto simp: distinct_concat_iff in_set_conv_decomp)

lemma get_shard_find:
  "map_option fst (get_shard_by_internal_groupId t g) =
     find (\<lambda>n. internal_groupId n = g) (shard_nodes (root t))"
  by (subst shard_nodes_ne) (simp add: get_shard_by_internal_groupId_def search_spec)

lemma get_shard_linked:
  "get_shard_by_internal_groupId t g = Some (c, up) \<Longrightarrow>
   linked c up (root t) \<and> internal_groupId c = g \<and> (up = [] \<longleftrightarrow> g = internal_groupId (root t))"
  using search_linked(1) [of "root t" "[]" "root t" g c up]
  by (auto simp: get_shard_by_internal_groupId_def split: if_splits)

fun walk_ids :: "shard_node \<Rightarrow> shard_node list \<Rightarrow> int list" where
  "walk_ids tmp [] = [internal_groupId tmp]"
| "walk_ids tmp (up # ups) = map internal_groupId (children up) @ walk_ids up ups"

definition upper_ids :: "cursor \<Rightarrow> int list" where
  "upper_ids c =
     (case snd c of
        [] \<Rightarrow> [internal_groupId (fst c)]
      | tmp # ups \<Rightarrow> (if is_inter (fst c) then [internal_groupId (fst c)] else []) @ walk_ids tmp ups)"

lemma comma_ids_join:
  "hs \<noteq> [] \<Longrightarrow> comma_ids gs @ join_with '','' (map to_string hs) = join_with '','' (map to_string (gs @ hs))"
  by (induction gs) (auto simp: comma_ids_def join_with_Cons)

lemma walk_ids_nonempty [simp]: "walk_ids tmp ups \<noteq> []"
  by (induction ups arbitrary: tmp) auto

lemma coordinator_walk_ids: "coordinator_walk tmp ups = join_with '','' (map to_string (walk_ids tmp ups))"
  by (induction ups arbitrary: tmp) (auto simp: comma_ids_join simp flip: map_append)

lemma upper_string_ids:
  "internal_groupId (fst c) = g \<Longrightarrow> upper_string c g = join_with '','' (map to_string (upper_ids c))"
  by (auto simp: upper_string_def upper_ids_def coordinator_walk_ids join_with_Cons split: list.splits)

lemma upper_ids_nonempty [simp]: "upper_ids c \<noteq> []"
  by (auto simp: upper_ids_def split: list.splits)

lemma split_upper:
  assumes "splits_ok sp" and "internal_groupId (fst c) = g"
  shows "sp CHR '','' (upper_string c g) = map to_string (upper_ids c)"
  using assms by (simp add: upper_string_ids splits_numbers separator_def)

text \<open>disjointness up the chain\<close>

lemma linked_ids: "linked c up r \<Longrightarrow> set (shard_ids c) \<subseteq> set (shard_ids r)"
proof (induction up arbitrary: c)
  case (Cons u us)
  then have "set (shard_ids c) \<subseteq> set (get_all_child u)" by (simp add: shard_ids_child)
  also have "\<dots> \<subseteq> set (shard_ids u)" by (auto simp: shard_ids_Cons)
  finally show ?case using Cons by fastforce
qed simp

lemma linked_distinct: "linked c up r \<Longrightarrow> distinct (shard_ids r) \<Longrightarrow> distinct (shard_ids c)"
  by (induction up arbitrary: c) (auto intro: distinct_child)

lemma children_ids_distinct:
  "distinct (shard_ids s) \<Longrightarrow> distinct (map internal_groupId (children s))"
proof -
  have "distinct (concat (map shard_ids cs)) \<Longrightarrow> distinct (map internal_groupId cs)" for cs
  proof (induction cs)
    case (Cons c cs)
    have "internal_groupId ` set cs \<subseteq> (\<Union>x \<in> set cs. set (shard_ids x))"
      by (auto simp: shard_ids_Cons)
    moreover have "internal_groupId c \<in> set (shard_ids c)" by (simp add: shard_ids_Cons)
    ultimately have "internal_groupId c \<notin> internal_groupId ` set cs" using Cons.prems by auto
    with Cons show ?case by simp
  qed simp
  moreover assume "distinct (shard_ids s)"
  then have "distinct (get_all_child s)" by (simp add: shard_ids_Cons)
  ultimately show ?thesis unfolding get_all_child_concat by blast
qed

lemma child_ids_in: "c \<in> set (children s) \<Longrightarrow> internal_groupId c \<in> set (get_all_child s)"
  using shard_ids_child [of c s] by (auto simp: shard_ids_Cons)

lemma sibling_ids_outside:
  assumes "distinct (shard_ids s)" and "c \<in> set (children s)"
  shows "set (map internal_groupId (children s)) \<inter> set (get_all_child c) = {}"
proof -
  from assms(2) obtain xs ys where cs: "children s = xs @ c # ys" by (meson split_list)
  have "distinct (concat (map shard_ids (xs @ c # ys)))"
    using assms(1) unfolding shard_ids_Cons [of s] get_all_child_concat [of s] cs by simp
  then have d: "distinct (shard_ids c)" "\<And>x. x \<in> set (xs @ ys) \<Longrightarrow> set (shard_ids x) \<inter> set (shard_ids c) = {}"
    by auto
  have "internal_groupId x \<notin> set (get_all_child c)" if "x \<in> set (children s)" for x
  proof (cases "x = c")
    case True
    then show ?thesis using d(1) by (simp add: shard_ids_Cons)
  next
    case False
    then have "x \<in> set (xs @ ys)" using that cs by auto
    from d(2) [OF this] show ?thesis by (auto simp: shard_ids_Cons)
  qed
  then show ?thesis by auto
qed

lemma walk_ids_outside:
  assumes "linked tmp ups r" and "distinct (shard_ids r)"
  shows "distinct (walk_ids tmp ups) \<and> set (walk_ids tmp ups) \<inter> set (get_all_child tmp) = {}"
  using assms(1)
proof (induction ups arbitrary: tmp)
  case Nil
  then show ?case using assms(2) by (simp add: shard_ids_Cons)
next
  case (Cons u us)
  then have u: "linked u us r" and tc: "tmp \<in> set (children u)" by simp_all
  have du: "distinct (shard_ids u)" using linked_distinct [OF u assms(2)] .
  have IH: "distinct (walk_ids u us)" "set (walk_ids u us) \<inter> set (get_all_child u) = {}"
    using Cons.IH [OF u] by auto
  have sub: "set (map internal_groupId (children u)) \<subseteq> set (get_all_child u)"
    by (auto intro: child_ids_in)
  have "set (get_all_child tmp) \<subseteq> set (get_all_child u)"
    using shard_ids_child [OF tc] by (auto simp: shard_ids_Cons)
  with IH sub children_ids_distinct [OF du] sibling_ids_outside [OF du tc] show ?case
    by auto
qed

lemma upper_ids_distinct:
  assumes "linked c up r" and "distinct (shard_ids r)"
  shows "distinct (upper_ids (c, up))"
proof (cases up)
  case Nil
  then show ?thesis by (simp add: upper_ids_def)
next
  case (Cons tmp ups)
  with assms have "linked tmp ups r" "c \<in> set (children tmp)" by simp_all
  with walk_ids_outside [OF this(1) assms(2)] child_ids_in [of c tmp] Cons show ?thesis
    by (auto simp: upper_ids_def)
qed

declare lca_loop.simps [simp del]

lemma lca_loop_hit:
  "us \<noteq> [] \<Longrightarrow> lca_loop us us 0 0 = Inr (atoi (hd us))"
  by (subst lca_loop.simps) (simp add: hd_conv_nth)

lemma lca_loop_shift1:
  assumes "distinct us" shows "lca_loop us us i (Suc i) = Inl OutOfRange"
  using assms
proof (induction "length us - i" arbitrary: i)
  case 0
  then show ?case by (subst lca_loop.simps) simp
next
  case (Suc n)
  then have "lca_loop us us (Suc i) (Suc (Suc i)) = Inl OutOfRange" by simp
  with Suc show ?case
    by (subst lca_loop.simps) (auto simp: vec_at_def nth_eq_iff_index_eq)
qed

lemma lca_loop_shift2:
  assumes "distinct us" shows "lca_loop us us (Suc i) i = Inl OutOfRange"
  using assms
proof (induction "length us - i" arbitrary: i)
  case 0
  then show ?case by (subst lca_loop.simps) simp
next
  case (Suc n)
  then have "lca_loop us us (Suc (Suc i)) (Suc i) = Inl OutOfRange" by simp
  with Suc show ?case
    by (subst lca_loop.simps) (auto simp: vec_at_def nth_eq_iff_index_eq)
qed

text \<open>
  What \<open>getLCA\<close> returns. The second \<open>boost::split\<close> is given the first shard's coordinators, so the
  second shard only matters through its being a leaf: two leaves, or two inner shards, get the first
  upper id of the first shard; a leaf and an inner shard end in \<open>std::out_of_range\<close>.
\<close>

theorem getLCA_result:
  assumes sp: "splits_ok sp"
    and d: "distinct (shard_ids (root t))"
    and c1: "get_shard_by_internal_groupId t g1 = Some c1"
    and c2: "get_shard_by_internal_groupId t g2 = Some c2"
  shows "getLCA sp t g1 g2 =
     (if is_leaf (fst c1) = is_leaf (fst c2) then Inr (hd (upper_ids c1)) else Inl OutOfRange)"
proof -
  obtain n1 up1 where c1': "c1 = (n1, up1)" by (cases c1)
  have l1: "linked n1 up1 (root t)" "internal_groupId n1 = g1"
    using get_shard_linked [of t g1 n1 up1] c1 c1' by simp_all
  have us: "sp CHR '','' (upper_string c1 g1) = map to_string (upper_ids c1)"
    using split_upper [OF sp, of c1 g1] l1 c1' by simp
  have dist: "distinct (map to_string (upper_ids c1))"
    using upper_ids_distinct [OF l1(1) d] c1' by (simp add: distinct_map inj_on_def)
  show ?thesis
    using lca_loop_shift1 [OF dist, of 0] lca_loop_shift2 [OF dist, of 0]
    by (simp add: getLCA_def get_shard_info_by_internal_groupId_def is_leaf_id_def shard_deref_def c1 c2
        Let_def us lca_loop_hit hd_map)
qed

definition build_node :: "tokenizer \<Rightarrow> json \<Rightarrow> nat \<Rightarrow> string \<Rightarrow> shard_node result" where
  "build_node sp result depth item =
     (case result (to_string (atoi item)) of
        None \<Rightarrow> Inr (ShardNode (atoi item) [] [])
      | Some s \<Rightarrow> recursionInsertChild sp result depth (ShardNode (atoi item) [] []) (sp CHR '','' s))"

lemma recursionInsertChild_Suc:
  "recursionInsertChild sp result (Suc depth) shard items =
     rbind (rmap (build_node sp result depth) items)
       (\<lambda>cs. Inr (ShardNode (internal_groupId shard) (nodeIDs shard) (children shard @ cs)))"
proof (induction items arbitrary: shard)
  case Nil
  then show ?case by (cases shard) simp
next
  case (Cons item items)
  then show ?case
    by (auto simp: build_node_def insertChild_def Let_def rbind_def split: option.splits sum.splits)
qed

declare recursionInsertChild.simps(2) [simp del]

definition children_listed :: "tokenizer \<Rightarrow> json \<Rightarrow> shard_node \<Rightarrow> bool" where
  "children_listed sp result n \<longleftrightarrow>
     map internal_groupId (children n) =
       (case result (to_string (internal_groupId n)) of None \<Rightarrow> [] | Some s \<Rightarrow> map atoi (sp CHR '','' s))"

lemma build_node_step:
  "build_node sp result depth item = Inr n \<Longrightarrow>
     (result (to_string (atoi item)) = None \<and> n = ShardNode (atoi item) [] [])
   \<or> (\<exists>s d cs. result (to_string (atoi item)) = Some s \<and> depth = Suc d
        \<and> rmap (build_node sp result d) (sp CHR '','' s) = Inr cs \<and> n = ShardNode (atoi item) [] cs)
   \<or> (\<exists>s. result (to_string (atoi item)) = Some s \<and> depth = 0 \<and> sp CHR '','' s = [] \<and> n = ShardNode (atoi item) [] [])"
  by (cases depth)
     (auto simp: build_node_def recursionInsertChild_Suc checked split: option.splits if_splits)

lemma build_node_listed:
  "build_node sp result depth item = Inr n \<Longrightarrow>
     internal_groupId n = atoi item \<and> (\<forall>m \<in> set (shard_nodes n). children_listed sp result m)"
proof (induction depth arbitrary: item n)
  case 0
  then show ?case by (auto simp: children_listed_def dest!: build_node_step)
next
  case (Suc d)
  from build_node_step [OF Suc.prems] show ?case
  proof (elim disjE conjE exE)
    fix s d' cs
    assume s: "result (to_string (atoi item)) = Some s" and d: "Suc d = Suc d'"
      and cs: "rmap (build_node sp result d') (sp CHR '','' s) = Inr cs"
      and n: "n = ShardNode (atoi item) [] cs"
    have all2: "list_all2 (\<lambda>x y. build_node sp result d x = Inr y) (sp CHR '','' s) cs"
      using cs d by (simp add: rmap_Inr_list_all2)
    have "map internal_groupId cs = map atoi (sp CHR '','' s)"
      using all2 Suc.IH by (induction rule: list_all2_induct) auto
    moreover have "\<forall>c \<in> set cs. \<forall>m \<in> set (shard_nodes c). children_listed sp result m"
      using all2 Suc.IH by (induction rule: list_all2_induct) auto
    ultimately show ?thesis using s n by (auto simp: children_listed_def)
  qed (auto simp: children_listed_def)
qed

lemma build_enough:
  assumes rank: "\<And>g s item. result (to_string g) = Some s \<Longrightarrow> item \<in> set (sp CHR '','' s) \<Longrightarrow> rank (atoi item) < rank g"
  shows "rank (atoi item) \<le> depth \<Longrightarrow> \<exists>n. build_node sp result depth item = Inr n"
proof (induction depth arbitrary: item)
  case 0
  show ?case
  proof (cases "result (to_string (atoi item))")
    case None
    then show ?thesis by (simp add: build_node_def)
  next
    case (Some s)
    with 0 rank [OF Some] have "sp CHR '','' s = []" by (cases "sp CHR '','' s") auto
    with Some show ?thesis by (simp add: build_node_def)
  qed
next
  case (Suc d)
  show ?case
  proof (cases "result (to_string (atoi item))")
    case None
    then show ?thesis by (simp add: build_node_def)
  next
    case (Some s)
    have "\<exists>n. build_node sp result d i = Inr n" if "i \<in> set (sp CHR '','' s)" for i
      using Suc rank [OF Some that] by fastforce
    then obtain g where "\<And>i. i \<in> set (sp CHR '','' s) \<Longrightarrow> build_node sp result d i = Inr (g i)" by metis
    then have "rmap (build_node sp result d) (sp CHR '','' s) = Inr (map g (sp CHR '','' s))"
      by (rule rmap_total)
    with Some show ?thesis by (simp add: build_node_def recursionInsertChild_Suc)
  qed
qed

lemma build_node_only_overflow: "build_node sp result depth item = Inl e \<Longrightarrow> e = StackOverflow"
proof (induction depth arbitrary: item e)
  case 0
  then show ?case by (auto simp: build_node_def split: option.splits if_splits)
next
  case (Suc d)
  have map: "rmap (build_node sp result d) xs = Inl e' \<Longrightarrow> e' = StackOverflow" for xs e'
  proof (induction xs)
    case (Cons x xs)
    then show ?case
      using Suc.IH [of x e'] by (cases "build_node sp result d x"; cases "rmap (build_node sp result d) xs") auto
  qed simp
  from Suc.prems obtain s where "rmap (build_node sp result d) (sp CHR '','' s) = Inl e"
    by (auto simp: build_node_def recursionInsertChild_Suc rbind_def split: option.splits sum.splits)
  with map show ?case by blast
qed

lemma build_cycle:
  assumes cyc: "\<And>g. g \<in> C \<Longrightarrow> \<exists>s item. result (to_string g) = Some s \<and> item \<in> set (sp CHR '','' s) \<and> atoi item \<in> C"
  shows "atoi item \<in> C \<Longrightarrow> build_node sp result depth item = Inl StackOverflow"
proof (induction depth arbitrary: item)
  case 0
  with cyc [OF 0] show ?case by (auto simp: build_node_def)
next
  case (Suc d)
  from cyc [OF Suc.prems] obtain s i where
    s: "result (to_string (atoi item)) = Some s" "i \<in> set (sp CHR '','' s)" "atoi i \<in> C" by blast
  have "rmap (build_node sp result d) (sp CHR '','' s) = Inl StackOverflow"
    by (rule rmap_Inl [where x = i]) (use s Suc.IH build_node_only_overflow in auto)
  with s show ?case by (simp add: build_node_def recursionInsertChild_Suc)
qed


lemma shard_split: "is_inter s \<longleftrightarrow> \<not> is_leaf s"
  by (simp add: is_inter_def)

lemma cross_is_inter: "is_cross_layer s \<Longrightarrow> is_inter s"
  by (cases "children s") (auto simp: is_cross_layer_def is_inter_def is_leaf_def)

lemma buildFromJson_root:
  assumes "buildFromJson sp depth (Some result) t0 = Inr t"
  shows "recursionInsertChild sp result depth
           (ShardNode (atoi (json_asString result ''root'')) (nodeIDs (root t0)) (children (root t0)))
           (sp CHR '','' (json_asString result (json_asString result ''root''))) = Inr (root t)
    \<and> t = (snd (dfs (root t) (t0\<lparr>root := root t\<rparr>)))\<lparr>hiera_shard_number := 1 + fst (dfs (root t) (t0\<lparr>root := root t\<rparr>))\<rparr>"
proof -
  obtain r where r: "recursionInsertChild sp result depth
      (ShardNode (atoi (json_asString result ''root'')) (nodeIDs (root t0)) (children (root t0)))
      (sp CHR '','' (json_asString result (json_asString result ''root''))) = Inr r"
    and t: "t = (snd (dfs r (t0\<lparr>root := r\<rparr>)))\<lparr>hiera_shard_number := 1 + fst (dfs r (t0\<lparr>root := r\<rparr>))\<rparr>"
    using assms by (auto simp: buildFromJson_def Let_def checked case_prod_beta)
  have "root t = r" using t dfs_spec(1) [of r "t0\<lparr>root := r\<rparr>"] by simp
  with r t show ?thesis by simp
qed

text \<open>
  After \<open>buildFromJson\<close> on a fresh tree the shard number is the number of nodes, every node is
  counted as a leaf or as an inner shard and never both, and the cross-layer shards are inner shards.
\<close>

theorem buildFromJson_counts:
  assumes "buildFromJson sp depth (Some result) new_HieraShardTree = Inr t"
  shows "hiera_shard_number t = int (length (shard_nodes (root t)))
    \<and> intra_shard_number t + inter_shard_number t = hiera_shard_number t
    \<and> intra_shard_number t = int (length (filter is_leaf (shard_nodes (root t))))
    \<and> cross_layer_shard_number t = int (length (filter is_cross_layer (shard_nodes (root t))))
    \<and> cross_layer_shard_number t \<le> inter_shard_number t"
proof -
  let ?t0 = "new_HieraShardTree\<lparr>root := root t\<rparr>"
  let ?ns = "shard_nodes (root t)"
  have t: "t = (snd (dfs (root t) ?t0))\<lparr>hiera_shard_number := 1 + fst (dfs (root t) ?t0)\<rparr>"
    using buildFromJson_root [OF assms] by simp
  have c: "hiera_shard_number t = 1 + int (length (get_all_child (root t)))"
    "intra_shard_number t = int (length (filter is_leaf ?ns))"
    "inter_shard_number t = int (length (filter is_inter ?ns))"
    "cross_layer_shard_number t = int (length (filter is_cross_layer ?ns))"
    by (subst t, use dfs_spec(1) [of "root t" ?t0] in \<open>simp add: new_HieraShardTree_def\<close>)+
  have "length ?ns = Suc (length (get_all_child (root t)))"
    by (subst shard_nodes_ne) (simp add: get_all_child_nodes)
  moreover have "length (filter is_leaf ?ns) + length (filter is_inter ?ns) = length ?ns"
    by (simp add: is_inter_def [abs_def] sum_length_filter_compl)
  moreover have "length (filter is_cross_layer ?ns) \<le> length (filter is_inter ?ns)"
    by (rule filter_mono_length) (rule cross_is_inter)
  ultimately show ?thesis using c by simp
qed

lemma recursionInsertChild_listed:
  assumes "recursionInsertChild sp result depth shard items = Inr r" and "children shard = []"
  shows "internal_groupId r = internal_groupId shard \<and> map internal_groupId (children r) = map atoi items
    \<and> (\<forall>m \<in> set (tl (shard_nodes r)). children_listed sp result m)"
proof (cases depth)
  case 0
  with assms show ?thesis by (cases shard) (auto split: if_splits)
next
  case (Suc d)
  from assms obtain cs where cs: "rmap (build_node sp result d) items = Inr cs"
    and r: "r = ShardNode (internal_groupId shard) (nodeIDs shard) cs"
    by (auto simp: Suc recursionInsertChild_Suc checked)
  have all2: "list_all2 (\<lambda>x y. build_node sp result d x = Inr y) items cs"
    using cs by (simp add: rmap_Inr_list_all2)
  have "map internal_groupId cs = map atoi items"
    using all2 build_node_listed by (induction rule: list_all2_induct) auto
  moreover have "\<forall>c \<in> set cs. \<forall>m \<in> set (shard_nodes c). children_listed sp result m"
    using all2 build_node_listed by (induction rule: list_all2_induct) auto
  ultimately show ?thesis using r by auto
qed

text \<open>
  The tree built is the tree the JSON describes: the root has the id of the \<open>root\<close> member, and the
  children of every node, in order, are the ids its member lists (none when it has no member).
\<close>

theorem buildFromJson_structure:
  assumes "buildFromJson sp depth (Some result) new_HieraShardTree = Inr t"
  shows "internal_groupId (root t) = atoi (json_asString result ''root'')
    \<and> map internal_groupId (children (root t)) =
        map atoi (sp CHR '','' (json_asString result (json_asString result ''root'')))
    \<and> (\<forall>n \<in> set (tl (shard_nodes (root t))). children_listed sp result n)"
  using recursionInsertChild_listed [OF conjunct1 [OF buildFromJson_root [OF assms]]]
  by (simp add: new_HieraShardTree_def)

text \<open>
  C40: The recursion of \<open>recursionInsertChild\<close> ends when the JSON describes a tree: if a rank decreases
  from each listed parent to its children, a depth one above the rank of the root's children is enough.
\<close>

theorem buildFromJson_terminates:
  assumes "\<And>g s item. result (to_string g) = Some s \<Longrightarrow> item \<in> set (sp CHR '','' s) \<Longrightarrow>
             rank (atoi item) < rank g"
    and "\<And>item. item \<in> set (sp CHR '','' (json_asString result (json_asString result ''root''))) \<Longrightarrow>
             rank (atoi item) \<le> depth"
  shows "\<exists>t'. buildFromJson sp (Suc depth) (Some result) t = Inr t'"
proof -
  let ?items = "sp CHR '','' (json_asString result (json_asString result ''root''))"
  have "\<exists>n. build_node sp result depth i = Inr n" if "i \<in> set ?items" for i
    by (rule build_enough [where rank = rank]) (use assms that in blast)+
  then obtain g where "\<And>i. i \<in> set ?items \<Longrightarrow> build_node sp result depth i = Inr (g i)" by metis
  then have "rmap (build_node sp result depth) ?items = Inr (map g ?items)" by (rule rmap_total)
  then show ?thesis
    by (simp add: buildFromJson_def recursionInsertChild_Suc Let_def split: prod.splits)
qed

text \<open>
  On a JSON in which some group below the root is listed under itself through members of a set of
  groups, no depth is enough: the recursion never ends.
\<close>

theorem buildFromJson_cycle:
  assumes "\<And>g. g \<in> C \<Longrightarrow>
             \<exists>s item. result (to_string g) = Some s \<and> item \<in> set (sp CHR '','' s) \<and> atoi item \<in> C"
    and "item \<in> set (sp CHR '','' (json_asString result (json_asString result ''root'')))" and "atoi item \<in> C"
  shows "buildFromJson sp depth (Some result) t = Inl StackOverflow"
proof (cases depth)
  case 0
  with assms(2) show ?thesis by (auto simp: buildFromJson_def Let_def)
next
  case (Suc d)
  have "rmap (build_node sp result d) (sp CHR '','' (json_asString result (json_asString result ''root'')))
      = Inl StackOverflow"
    by (rule rmap_Inl [OF assms(2)], rule build_cycle [where C = C])
      (use assms build_node_only_overflow in blast)+
  with Suc show ?thesis by (simp add: buildFromJson_def recursionInsertChild_Suc Let_def)
qed

text \<open>
  \<open>get_shard_by_internal_groupId\<close> finds a shard exactly when the id is in the tree; it is the first
  in preorder, and its chain of coordinators is a path of parents that ends in the root.
\<close>

theorem get_shard_lookup:
  "(get_shard_by_internal_groupId t g = None \<longleftrightarrow> g \<notin> set (shard_ids (root t)))
   \<and> (\<forall>c up. get_shard_by_internal_groupId t g = Some (c, up) \<longrightarrow>
        find (\<lambda>n. internal_groupId n = g) (shard_nodes (root t)) = Some c \<and> linked c up (root t))"
proof (cases "get_shard_by_internal_groupId t g")
  case None
  with get_shard_find [of t g] show ?thesis
    by (auto simp: shard_ids_def find_None_iff dest!: sym [where s = None])
next
  case (Some r)
  obtain c up where r: "r = (c, up)" by (cases r)
  have f: "find (\<lambda>n. internal_groupId n = g) (shard_nodes (root t)) = Some c"
    using get_shard_find [of t g] Some r by simp
  then have "g \<in> set (shard_ids (root t))"
    by (auto simp: shard_ids_def find_Some_iff)
  with f Some r get_shard_linked [of t g c up] show ?thesis by auto
qed

lemma redraw_result:
  assumes "redraw rnd n same k = Some r" shows "\<not> same (fst r) \<and> (\<exists>j \<ge> k. fst r = rnd j mod n \<and> snd r = j + 1)"
proof (rule redraw.raw_induct [where P = "\<lambda>rnd n same k r. \<not> same (fst r) \<and> (\<exists>j \<ge> k. fst r = rnd j mod n \<and> snd r = j + 1)", OF _ assms])
  fix f :: "(nat \<Rightarrow> nat) \<Rightarrow> nat \<Rightarrow> (nat \<Rightarrow> bool) \<Rightarrow> nat \<Rightarrow> (nat \<times> nat) option" and rnd n same k r
  assume IH: "\<And>rnd n same k r. f rnd n same k = Some r \<Longrightarrow> \<not> same (fst r) \<and> (\<exists>j \<ge> k. fst r = rnd j mod n \<and> snd r = j + 1)"
    and eq: "(if same (rnd k mod n) then f rnd n same (k + 1) else Some (rnd k mod n, k + 1)) = Some r"
  show "\<not> same (fst r) \<and> (\<exists>j \<ge> k. fst r = rnd j mod n \<and> snd r = j + 1)"
  proof (cases "same (rnd k mod n)")
    case True
    with eq have "f rnd n same (k + 1) = Some r" by simp
    from IH [OF this] show ?thesis by (meson add_leD1)
  next
    case False
    with eq show ?thesis by auto
  qed
qed

lemma redraw_returns:
  "\<not> same (rnd (k + d) mod n) \<Longrightarrow> \<exists>r. redraw rnd n same k = Some r"
proof (induction d arbitrary: k)
  case 0
  then show ?case by (subst redraw.simps) simp
next
  case (Suc d)
  then have "\<exists>r. redraw rnd n same (Suc k) = Some r" by simp
  then show ?case by (subst redraw.simps) simp
qed

text \<open>
  \<open>get_inter_childs\<close> loops forever on a leaf; otherwise it returns as soon as a later draw differs
  from the first, and the pair comes from two different positions of the shard and its children.
\<close>

theorem get_inter_childs_result:
  assumes g: "get_shard_by_internal_groupId t g = Some (shard, up)"
  shows "(is_leaf shard \<longrightarrow> get_inter_childs t g rnd = None)
    \<and> (\<forall>j \<ge> 1. rnd j mod Suc (length (children shard)) \<noteq> rnd 0 mod Suc (length (children shard)) \<longrightarrow>
         (\<exists>a b. get_inter_childs t g rnd = Some (Inr (a, b))))
    \<and> (\<forall>r. get_inter_childs t g rnd = Some r \<longrightarrow>
         (\<exists>i j. i \<noteq> j \<and> i \<le> length (children shard) \<and> j \<le> length (children shard)
            \<and> r = Inr ((g # map internal_groupId (children shard)) ! i,
                       (g # map internal_groupId (children shard)) ! j)))"
proof -
  let ?n = "Suc (length (children shard))"
  let ?same = "\<lambda>i2. rnd 0 mod ?n = i2"
  let ?cs = "g # map internal_groupId (children shard)"
  have gid: "internal_groupId shard = g" using get_shard_linked [OF g] by simp
  have eq: "get_inter_childs t g rnd =
      map_option (\<lambda>(i2, k). Inr (?cs ! (rnd 0 mod ?n), ?cs ! i2)) (redraw rnd ?n ?same 1)"
    using g gid by (simp add: get_inter_childs_def Let_def)
  have leaf: "redraw rnd ?n ?same 1 = None" if "is_leaf shard"
  proof (rule ccontr)
    assume "redraw rnd ?n ?same 1 \<noteq> None"
    then obtain r where "redraw rnd ?n ?same 1 = Some r" by auto
    from redraw_result [OF this] that show False by (auto simp: is_leaf_def)
  qed
  have ret: "\<exists>r. redraw rnd ?n ?same 1 = Some r" if "j \<ge> 1" "rnd j mod ?n \<noteq> rnd 0 mod ?n" for j
    using redraw_returns [of ?same rnd 1 "j - 1" ?n] that by simp
  have res: "\<exists>i j. i \<noteq> j \<and> i \<le> length (children shard) \<and> j \<le> length (children shard)
        \<and> r = Inr (?cs ! i, ?cs ! j)" if r: "get_inter_childs t g rnd = Some r" for r
  proof -
    from r eq obtain i2 k where "redraw rnd ?n ?same 1 = Some (i2, k)"
      and rr: "r = Inr (?cs ! (rnd 0 mod ?n), ?cs ! i2)" by auto
    from redraw_result [OF this(1)] have "rnd 0 mod ?n \<noteq> i2" "i2 < ?n" by auto
    with rr show ?thesis
      by (intro exI [of _ "rnd 0 mod ?n"] exI [of _ i2]) (auto simp: less_Suc_eq_le [symmetric])
  qed
  show ?thesis using leaf ret res by (auto simp: eq)
qed

lemma first_cross_pick_result:
  assumes "first_cross_pick g shard cross leafs rnd = Inr (a, sub1, k)"
  shows "(a = g \<and> sub1 = g)
    \<or> (\<exists>c1 \<in> set (children shard). sub1 = internal_groupId c1 \<and> (a = g \<or> a \<in> set (shard_ids c1)))
    \<or> (\<exists>c1 \<in> set leafs. a = internal_groupId c1 \<and> sub1 = g)"
proof (cases "length cross > 1")
  case True
  with assms obtain c1 where c1: "vec_at (children shard) (rnd 0 mod length (children shard)) = Inr c1"
      "sub1 = internal_groupId c1"
    and "vec_at (get_all_child c1 @ [g] @ [internal_groupId c1])
      (rnd 1 mod length (get_all_child c1 @ [g] @ [internal_groupId c1])) = Inr a"
    by (auto simp: first_cross_pick_def Let_def rbind_Inr_iff)
  then have "c1 \<in> set (children shard)" "a \<in> set (get_all_child c1 @ [g] @ [internal_groupId c1])"
    using vec_at_mem by metis+
  with c1 show ?thesis by (auto simp: shard_ids_Cons)
next
  case False
  with assms show ?thesis
    by (auto simp: first_cross_pick_def rbind_Inr_iff split: if_splits dest: vec_at_mem)
qed

text \<open>
  A pair returned by \<open>get_cross_layer_childs\<close> really crosses subtrees: the second shard is strictly
  below an inner child, and the first is the coordinator itself or lies under another child.
\<close>

theorem get_cross_layer_childs_result:
  assumes g: "get_shard_by_internal_groupId t g = Some (shard, up)"
    and r: "get_cross_layer_childs t g rnd = Some (Inr (a, b))"
  shows "\<exists>c2 \<in> set (children shard). is_inter c2 \<and> b \<in> set (get_all_child c2) \<and>
    (a = g \<or> (\<exists>c1 \<in> set (children shard). c1 \<noteq> c2 \<and> a \<in> set (shard_ids c1)))"
proof -
  let ?cross = "filter is_inter (children shard)"
  let ?leafs = "filter (\<lambda>c. \<not> is_inter c) (children shard)"
  obtain sub1 k where p: "first_cross_pick g shard ?cross ?leafs rnd = Inr (a, sub1, k)"
    using g r by (auto simp: get_cross_layer_childs_def Let_def rbind_Inr_iff
        split: sum.splits if_splits option.splits)
  obtain i2 k2 where d: "redraw rnd (length ?cross) (\<lambda>i. internal_groupId (?cross ! i) = sub1) k = Some (i2, k2)"
    and bv: "vec_at (get_all_child (?cross ! i2)) (rnd k2 mod length (get_all_child (?cross ! i2))) = Inr b"
    and ne: "?cross \<noteq> []"
    using g r p by (auto simp: get_cross_layer_childs_def Let_def rbind_Inr_iff
        split: if_splits option.splits)
  from bv have b: "b \<in> set (get_all_child (?cross ! i2))" by (rule vec_at_mem)
  let ?c2 = "?cross ! i2"
  have "internal_groupId ?c2 \<noteq> sub1" and "i2 < length ?cross"
    using redraw_result [OF d] ne by auto
  moreover from this have "?c2 \<in> set (children shard)" "is_inter ?c2"
    using nth_mem [of i2 ?cross] by auto
  moreover have "a = g \<or> (\<exists>c1 \<in> set (children shard). c1 \<noteq> ?c2 \<and> a \<in> set (shard_ids c1))"
    using first_cross_pick_result [OF p] calculation by (auto simp: shard_ids_Cons)
  ultimately show ?thesis using b by blast
qed

text \<open>
  With one inner child, \<open>get_cross_layer_childs\<close> draws the leaf's index among all children and not
  among the leaves: the draw that exceeds the number of leaves throws.
\<close>

theorem get_cross_layer_childs_out_of_range:
  assumes g: "get_shard_by_internal_groupId t g = Some (shard, up)"
    and one: "length (filter is_inter (children shard)) = 1"
    and draw: "even (rnd 0)" "rnd 1 mod length (children shard) = length (children shard) - 1"
  shows "get_cross_layer_childs t g rnd = Some (Inl OutOfRange)"
proof -
  have "length (filter is_inter (children shard)) + length (filter (\<lambda>c. \<not> is_inter c) (children shard))
      = length (children shard)" by (rule sum_length_filter_compl)
  then have "length (filter (\<lambda>c. \<not> is_inter c) (children shard)) = length (children shard) - 1"
    and "children shard \<noteq> []" using one by auto
  then show ?thesis
    using g one draw by (simp add: get_cross_layer_childs_def first_cross_pick_def Let_def even_iff_mod_2_eq_zero)
qed


section \<open>The nine-shard tree\<close>

text \<open>The tree of the README, used to apply the properties at a concrete input.\<close>

definition json_9 :: json where
  "json_9 = [''root'' \<mapsto> ''9'', ''9'' \<mapsto> ''4,8'', ''4'' \<mapsto> ''1,2,3'', ''8'' \<mapsto> ''5,6,7'']"

definition root_9 :: shard_node where
  "root_9 = ShardNode 9 []
     [ShardNode 4 [] [ShardNode 1 [] [], ShardNode 2 [] [], ShardNode 3 [] []],
      ShardNode 8 [] [ShardNode 5 [] [], ShardNode 6 [] [], ShardNode 7 [] []]]"

definition tree_9 :: hiera_tree where
  "tree_9 = \<lparr>root = root_9, hiera_shard_number = 9, intra_shard_number = 6,
     inter_shard_number = 3, cross_layer_shard_number = 1\<rparr>"

lemma buildFromJson_9: "buildFromJson cut 3 (Some json_9) new_HieraShardTree = Inr tree_9"
  by code_simp

lemma lookups_9:
  "get_shard_by_internal_groupId tree_9 5 = Some (ShardNode 5 [] [], [children root_9 ! 1, root_9])"
  "get_shard_by_internal_groupId tree_9 6 = Some (ShardNode 6 [] [], [children root_9 ! 1, root_9])"
  "get_shard_by_internal_groupId tree_9 9 = Some (root_9, [])"
  "get_shard_by_internal_groupId tree_9 4 = Some (children root_9 ! 0, [root_9])"
  by (simp_all add: tree_9_def root_9_def get_shard_by_internal_groupId_def)

lemma getLCA_result_witness:
  "getLCA cut tree_9 5 6 = Inr 4 \<and> getLCA cut tree_9 5 9 = Inl OutOfRange"
proof -
  have d: "distinct (shard_ids (root tree_9))"
    by (simp add: tree_9_def root_9_def shard_ids_def)
  show ?thesis
    using getLCA_result [OF splits_ok_cut d lookups_9(1) lookups_9(2)]
      getLCA_result [OF splits_ok_cut d lookups_9(1) lookups_9(3)]
    by (simp add: is_leaf_def is_inter_def upper_ids_def root_9_def)
qed

lemma buildFromJson_counts_witness:
  "hiera_shard_number tree_9 = int (length (shard_nodes (root tree_9)))
    \<and> intra_shard_number tree_9 + inter_shard_number tree_9 = 9"
  using buildFromJson_counts [OF buildFromJson_9] by (simp add: tree_9_def)

lemma buildFromJson_structure_witness:
  "internal_groupId (root tree_9) = 9 \<and> list_all (children_listed cut json_9) (tl (shard_nodes (root tree_9)))"
  using buildFromJson_structure [OF buildFromJson_9] by (simp add: tree_9_def root_9_def)

lemma json_9_cases:
  "json_9 (to_string g) = Some s \<Longrightarrow> (g = 9 \<and> s = ''4,8'') \<or> (g = 4 \<and> s = ''1,2,3'') \<or> (g = 8 \<and> s = ''5,6,7'')"
proof -
  assume a: "json_9 (to_string g) = Some s"
  have n: "to_string 9 = ''9''" "to_string 4 = ''4''" "to_string 8 = ''8''" by code_simp+
  have r: "to_string g \<noteq> ''root''"
    using to_string_chars [of "CHR ''r''" g] by (auto simp: is_digit_def)
  from a r show ?thesis
    unfolding json_9_def n(1) [symmetric] n(2) [symmetric] n(3) [symmetric]
    by (auto split: if_splits)
qed

lemma buildFromJson_terminates_witness:
  "\<exists>t'. buildFromJson cut (Suc 1) (Some json_9) new_HieraShardTree = Inr t'"
proof (rule buildFromJson_terminates [where rank = "\<lambda>g. if g = 9 then 2 else if g = 4 \<or> g = 8 then 1 else 0"])
  show "(if atoi item = 9 then 2 else if atoi item = 4 \<or> atoi item = 8 then 1 else 0)
      < (if g = 9 then 2 else if g = 4 \<or> g = 8 then 1 else (0::nat))"
    if "json_9 (to_string g) = Some s" "item \<in> set (cut CHR '','' s)" for g s item
    using json_9_cases [OF that(1)] that(2)
    by (elim disjE conjE) (auto simp: atoi_def is_space_def is_digit_def digit_val_def)
  show "(if atoi item = 9 then 2 else if atoi item = 4 \<or> atoi item = 8 then 1 else 0) \<le> (1::nat)"
    if "item \<in> set (cut CHR '','' (json_asString json_9 (json_asString json_9 ''root'')))" for item
    using that by (auto simp: json_9_def json_asString_def atoi_def is_space_def is_digit_def digit_val_def)
qed

lemma get_cross_layer_childs_result_witness:
  "\<exists>c2 \<in> set (children root_9). is_inter c2 \<and> 5 \<in> set (get_all_child c2) \<and>
    (1 = (9::int) \<or> (\<exists>c1 \<in> set (children root_9). c1 \<noteq> c2 \<and> 1 \<in> set (shard_ids c1)))"
proof -
  have r: "get_cross_layer_childs tree_9 9 (\<lambda>k. if k = 2 then 1 else 0) = Some (Inr (1, 5))"
    by (simp add: get_cross_layer_childs_def lookups_9 first_cross_pick_def Let_def root_9_def
        is_inter_def is_leaf_def redraw.simps [of _ _ _ 2] vec_at_def)
  show ?thesis
    using get_cross_layer_childs_result [OF lookups_9(3) r] by simp
qed

definition root_4 :: shard_node where
  "root_4 = ShardNode 4 [] [ShardNode 1 [] [], ShardNode 3 [] [ShardNode 2 [] []]]"

lemma get_cross_layer_childs_out_of_range_witness:
  "get_cross_layer_childs (new_HieraShardTree\<lparr>root := root_4\<rparr>) 4 (\<lambda>k. k) = Some (Inl OutOfRange)"
proof (rule get_cross_layer_childs_out_of_range)
  show "get_shard_by_internal_groupId (new_HieraShardTree\<lparr>root := root_4\<rparr>) 4 = Some (root_4, [])"
    by (simp add: get_shard_by_internal_groupId_def root_4_def)
qed (simp_all add: root_4_def is_inter_def is_leaf_def)

lemma get_inter_childs_result_witness:
  "get_inter_childs tree_9 5 (\<lambda>k. k) = None
   \<and> (\<exists>a b. get_inter_childs tree_9 9 (\<lambda>k. k) = Some (Inr (a, b)))"
proof -
  have "\<exists>a b. get_inter_childs tree_9 9 (\<lambda>k. k) = Some (Inr (a, b))"
    using get_inter_childs_result [OF lookups_9(3), of "\<lambda>k. k"]
    by (auto simp: root_9_def)
  with get_inter_childs_result [OF lookups_9(1), of "\<lambda>k. k"] show ?thesis
    by (simp add: is_leaf_def)
qed

lemma buildFromJson_cycle_witness:
  "buildFromJson cut 7 (Some [''root'' \<mapsto> ''9'', ''9'' \<mapsto> ''4'', ''4'' \<mapsto> ''4'']) new_HieraShardTree = Inl StackOverflow"
proof (rule buildFromJson_cycle [where C = "{4}" and item = "''4''"])
  have n: "to_string 4 = ''4''" "atoi ''4'' = 4" by code_simp+
  show "\<exists>s item. [''root'' \<mapsto> ''9'', ''9'' \<mapsto> ''4'', ''4'' \<mapsto> ''4''] (to_string g) = Some s
      \<and> item \<in> set (cut CHR '','' s) \<and> atoi item \<in> {4}" if "g \<in> {4}" for g
    using that n by (intro exI [of _ "''4''"]) simp
  show "''4'' \<in> set (cut CHR '','' (json_asString [''root'' \<mapsto> ''9'', ''9'' \<mapsto> ''4'', ''4'' \<mapsto> ''4'']
      (json_asString [''root'' \<mapsto> ''9'', ''9'' \<mapsto> ''4'', ''4'' \<mapsto> ''4''] ''root'')))"
    by (simp add: json_asString_def)
  show "atoi ''4'' \<in> {4}" using n by simp
qed

lemma get_shard_lookup_witness:
  "get_shard_by_internal_groupId tree_9 10 = None \<and> linked (ShardNode 5 [] []) [children root_9 ! 1, root_9] root_9"
proof -
  have "root tree_9 = root_9" by (simp add: tree_9_def)
  moreover have "10 \<notin> set (shard_ids root_9)" by (simp add: root_9_def shard_ids_def)
  ultimately show ?thesis
    using get_shard_lookup [of tree_9 10] get_shard_lookup [of tree_9 5] lookups_9(1) by auto
qed

end
