(* ===== verification/ShardHierarchy.thy ===== *)
theory ShardHierarchy
  imports Prelude
begin

text \<open>
  The fixed shard hierarchies and their common ancestors (\<open>Hierarchical_Shard\<close> and
  \<open>Hierarchical_Structure\<close> of \<open>libplugin/Common.h\<close>). The shards of a structure are the list of its
  vector; a pointer to a shard is its index there, and an entry holds the shard's id and its
  \<open>preshard\<close> pointer (\<open>None\<close> is null).
\<close>

type_synonym hierarchy = "(int \<times> nat option) list"

definition Hierarchical_Structure :: "int \<Rightarrow> hierarchy" where
  "Hierarchical_Structure hiera_shard_number =
     (if hiera_shard_number = 3 then [(1, Some 2), (2, Some 2), (3, None)]
      else if hiera_shard_number = 4 then [(1, Some 3), (2, Some 3), (3, Some 3), (4, None)]
      else if hiera_shard_number = 9 then
        [(1, Some 3), (2, Some 3), (3, Some 3), (4, Some 8), (5, Some 7), (6, Some 7), (7, Some 7),
         (8, Some 8), (9, None)]
      else [])"

definition preshard :: "hierarchy \<Rightarrow> nat \<Rightarrow> nat option" where
  "preshard h p = snd (h ! p)"

text \<open>
  The two loops of \<open>getLCA\<close> follow \<open>preshard\<close> until it is null; on a cyclic structure they never
  return, which is \<open>None\<close>.
\<close>

partial_function (option) collect_ancestors :: "hierarchy \<Rightarrow> nat option \<Rightarrow> nat list \<Rightarrow> nat list option" where
  "collect_ancestors h shard1 ancestors =
     (case shard1 of None \<Rightarrow> Some ancestors
      | Some p \<Rightarrow> collect_ancestors h (preshard h p) (List.insert p ancestors))"

partial_function (option) first_in :: "hierarchy \<Rightarrow> nat list \<Rightarrow> nat option \<Rightarrow> nat option option" where
  "first_in h ancestors shard2 =
     (case shard2 of None \<Rightarrow> Some None
      | Some p \<Rightarrow> (if p \<in> set ancestors then Some (Some p) else first_in h ancestors (preshard h p)))"

definition hs_getLCA :: "hierarchy \<Rightarrow> nat option \<Rightarrow> nat option \<Rightarrow> nat option option" where
  "hs_getLCA h shard1 shard2 =
     Option.bind (collect_ancestors h shard1 []) (\<lambda>ancestors. first_in h ancestors shard2)"

section \<open>Ancestors\<close>

definition hier_wf :: "hierarchy \<Rightarrow> bool" where
  "hier_wf h \<longleftrightarrow> (\<forall>p < length h. \<forall>q. preshard h p = Some q \<longrightarrow> p < q \<and> q < length h)"

lemma hier_wfD: "hier_wf h \<Longrightarrow> preshard h p = Some q \<Longrightarrow> p < length h \<Longrightarrow> p < q \<and> q < length h"
  unfolding hier_wf_def by blast

inductive ancestor :: "hierarchy \<Rightarrow> nat \<Rightarrow> nat \<Rightarrow> bool" for h where
  anc_self: "ancestor h p p"
| anc_up: "preshard h p = Some q \<Longrightarrow> ancestor h q r \<Longrightarrow> ancestor h p r"

inductive_cases ancestorE: "ancestor h p r"

lemma ancestor_unfold:
  "ancestor h p r \<longleftrightarrow> r = p \<or> (\<exists>q. preshard h p = Some q \<and> ancestor h q r)"
  by (auto intro: ancestor.intros elim: ancestorE)

lemma ancestor_None: "preshard h p = None \<Longrightarrow> ancestor h p r \<longleftrightarrow> r = p"
  by (subst ancestor_unfold) simp

lemma ancestor_trans: "ancestor h p q \<Longrightarrow> ancestor h q r \<Longrightarrow> ancestor h p r"
  by (induction rule: ancestor.induct) (auto intro: ancestor.intros)

lemma ancestor_total:
  "ancestor h p q \<Longrightarrow> ancestor h p r \<Longrightarrow> ancestor h q r \<or> ancestor h r q"
proof (induction rule: ancestor.induct)
  case (anc_up p q' q)
  then show ?case
    by (metis ancestor.simps option.inject)
qed simp

lemma hier_wf_Structure: "hier_wf (Hierarchical_Structure n)"
  by (auto simp: hier_wf_def preshard_def Hierarchical_Structure_def nth_Cons less_Suc_eq split: nat.splits)

lemma collect_ancestors_spec:
  assumes "hier_wf h"
  shows "p < length h \<Longrightarrow> \<exists>as. collect_ancestors h (Some p) acc = Some as \<and> set as = set acc \<union> {q. ancestor h p q}"
proof (induction "length h - p" arbitrary: p acc rule: less_induct)
  case less
  show ?case
  proof (cases "preshard h p")
    case None
    have "{q. ancestor h p q} = {p}" using ancestor_None [OF None] by auto
    moreover have "collect_ancestors h (Some p) acc = Some (List.insert p acc)"
      using None by (simp add: collect_ancestors.simps [of h "Some p"] collect_ancestors.simps [of h None])
    ultimately show ?thesis by simp
  next
    case (Some q)
    have q: "p < q" "q < length h" using hier_wfD [OF assms Some less.prems] by simp_all
    then have "length h - q < length h - p" by simp
    from less.hyps [OF this q(2), of "List.insert p acc"] obtain as where
      as: "collect_ancestors h (Some q) (List.insert p acc) = Some as"
        "set as = set (List.insert p acc) \<union> {r. ancestor h q r}" by auto
    have "{r. ancestor h p r} = insert p {r. ancestor h q r}"
      using Some by (subst ancestor_unfold) auto
    with as Some show ?thesis
      by (subst collect_ancestors.simps) auto
  qed
qed

lemma first_in_spec:
  assumes "hier_wf h"
  shows "p < length h \<Longrightarrow>
     \<exists>res. first_in h as (Some p) = Some res \<and>
       (case res of None \<Rightarrow> \<forall>q. ancestor h p q \<longrightarrow> q \<notin> set as
        | Some a \<Rightarrow> a \<in> set as \<and> ancestor h p a \<and> (\<forall>q. ancestor h p q \<and> q \<in> set as \<longrightarrow> ancestor h a q))"
proof (induction "length h - p" arbitrary: p rule: less_induct)
  case less
  show ?case
  proof (cases "p \<in> set as")
    case True
    then show ?thesis by (subst first_in.simps) (auto intro: ancestor.intros)
  next
    case False
    show ?thesis
    proof (cases "preshard h p")
      case None
      then have "first_in h as (Some p) = Some None"
        using False by (simp add: first_in.simps [of h as "Some p"] first_in.simps [of h as None])
      then show ?thesis using False ancestor_None [OF None] by simp
    next
      case (Some q)
      have q: "p < q" "q < length h" using hier_wfD [OF assms Some less.prems] by simp_all
      then have "length h - q < length h - p" by simp
      from less.hyps [OF this q(2)] obtain res where res: "first_in h as (Some q) = Some res"
        and post: "case res of None \<Rightarrow> \<forall>r. ancestor h q r \<longrightarrow> r \<notin> set as
          | Some a \<Rightarrow> a \<in> set as \<and> ancestor h q a \<and> (\<forall>r. ancestor h q r \<and> r \<in> set as \<longrightarrow> ancestor h a r)"
        by auto
      have "first_in h as (Some p) = Some res"
        using False Some res by (subst first_in.simps) simp
      moreover have "ancestor h p r \<longleftrightarrow> r = p \<or> ancestor h q r" for r
        using Some by (subst ancestor_unfold) auto
      ultimately show ?thesis using post False by (cases res) auto
    qed
  qed
qed

text \<open>
  In an acyclic hierarchy \<open>getLCA\<close> returns; a null result means the two shards have no common
  ancestor, and otherwise the result is a common ancestor that lies below every other one.
\<close>

theorem hs_getLCA_lowest:
  assumes "hier_wf h" and "p1 < length h" and "p2 < length h"
  shows "\<exists>res. hs_getLCA h (Some p1) (Some p2) = Some res \<and>
    (case res of
       None \<Rightarrow> \<not> (\<exists>q. ancestor h p1 q \<and> ancestor h p2 q)
     | Some a \<Rightarrow> ancestor h p1 a \<and> ancestor h p2 a
         \<and> (\<forall>q. ancestor h p1 q \<and> ancestor h p2 q \<longrightarrow> ancestor h a q))"
proof -
  obtain as where as: "collect_ancestors h (Some p1) [] = Some as" "set as = {q. ancestor h p1 q}"
    using collect_ancestors_spec [OF assms(1,2), of "[]"] by auto
  with first_in_spec [OF assms(1,3), of as] show ?thesis
    by (auto simp: hs_getLCA_def split: option.splits)
qed

lemma hs_getLCA_lowest_witness:
  "\<exists>res. hs_getLCA (Hierarchical_Structure 9) (Some 4) (Some 5) = Some res \<and> res \<noteq> None"
proof -
  let ?h = "Hierarchical_Structure 9"
  have "ancestor ?h 4 7" "ancestor ?h 5 7"
    by (auto intro!: anc_up [where q = 7] anc_self simp: preshard_def Hierarchical_Structure_def)
  moreover have "4 < length ?h" "5 < length ?h"
    by (simp_all add: Hierarchical_Structure_def)
  ultimately show ?thesis
    using hs_getLCA_lowest [OF hier_wf_Structure, of 4 9 5] by (auto split: option.splits)
qed

end
