(* ===== verification/StateStats.thy ===== *)
theory StateStats
  imports Prelude
begin

text \<open>
  Access statistics of the states of a shard (\<open>LRU_StatesInfo\<close> of \<open>libplugin/Common.h\<close>): how often
  intra-shard transactions touch a local state, how often a local state meets a remote one in a
  cross-shard transaction, and the contention other shards report for their states. The mutexes
  serialise the operations, which are the functions below.
\<close>

record remoteKeyContention =
  rk_shardid :: string
  rk_contention :: string
  rk_stateAddress :: string

record LRU_StatesInfo =
  localkeys_intraTx :: "string list"
  localkeys_intraTx_summarized :: "string \<rightharpoonup> int"
  localkeys_interTx :: "(string, (string, int) omap) omap"
  localkeys_interTx_summarized :: "(string, (string, int) omap) omap"
  remotekeys_intraTx :: "string \<rightharpoonup> remoteKeyContention"
  intraTx_count :: int
  interTx_count :: int

definition new_LRU_StatesInfo :: LRU_StatesInfo where
  "new_LRU_StatesInfo = \<lparr>localkeys_intraTx = [], localkeys_intraTx_summarized = Map.empty,
     localkeys_interTx = [], localkeys_interTx_summarized = [],
     remotekeys_intraTx = Map.empty, intraTx_count = 0, interTx_count = 0\<rparr>"

text \<open>
  Each access is queued; the queue keeps the last 1000, and at every 1000th access it is drained
  into a fresh summary. The drain counts the front of the queue and pops it, once per entry.
\<close>

fun summarize :: "nat \<Rightarrow> string list \<Rightarrow> (string \<rightharpoonup> int) \<Rightarrow> string list \<times> (string \<rightharpoonup> int)" where
  "summarize 0 q m = (q, m)"
| "summarize (Suc n) q m = (case q of [] \<Rightarrow> (q, m) | k # ks \<Rightarrow> summarize n ks (bump m k))"

definition update_lru_localkeys_intraTx :: "string \<Rightarrow> LRU_StatesInfo \<Rightarrow> LRU_StatesInfo" where
  "update_lru_localkeys_intraTx key s =
     (let q = localkeys_intraTx s @ [key];
          c = intraTx_count s + 1;
          q1 = (if length q > 1000 then tl q else q)
      in if c = 1000 then
           (let (q2, m) = summarize (length q1) q1 Map.empty
            in s\<lparr>localkeys_intraTx := q2, localkeys_intraTx_summarized := m, intraTx_count := 0\<rparr>)
         else s\<lparr>localkeys_intraTx := q1, intraTx_count := c\<rparr>)"

definition bump_pair ::
  "(string, (string, int) omap) omap \<Rightarrow> string \<Rightarrow> string \<Rightarrow> (string, (string, int) omap) omap" where
  "bump_pair m localkey remotekey =
     (case map_of m localkey of
        None \<Rightarrow> om_insert localkey [(remotekey, 1)] m
      | Some item \<Rightarrow> om_set localkey (om_bump remotekey item) m)"

definition update_lru_localkeys_interTx :: "string \<Rightarrow> string \<Rightarrow> LRU_StatesInfo \<Rightarrow> LRU_StatesInfo" where
  "update_lru_localkeys_interTx localkey remotekey s =
     (let c = interTx_count s + 1;
          m = bump_pair (localkeys_interTx s) localkey remotekey
      in if c = 500 then
           s\<lparr>interTx_count := 0, localkeys_interTx_summarized := m, localkeys_interTx := []\<rparr>
         else s\<lparr>interTx_count := c, localkeys_interTx := m\<rparr>)"

definition updateRemoteKeyContention :: "string \<Rightarrow> string \<Rightarrow> string \<Rightarrow> LRU_StatesInfo \<Rightarrow> LRU_StatesInfo" where
  "updateRemoteKeyContention remotekey number shardid s =
     (case remotekeys_intraTx s remotekey of
        Some item \<Rightarrow> s\<lparr>remotekeys_intraTx :=
           (remotekeys_intraTx s)(remotekey \<mapsto> item\<lparr>rk_contention := number, rk_shardid := shardid\<rparr>)\<rparr>
      | None \<Rightarrow> s\<lparr>remotekeys_intraTx := (remotekeys_intraTx s)(remotekey \<mapsto>
           \<lparr>rk_shardid = shardid, rk_contention = number, rk_stateAddress = remotekey\<rparr>)\<rparr>)"

definition getLocalKeyIntraContention :: "LRU_StatesInfo \<Rightarrow> string \<Rightarrow> string" where
  "getLocalKeyIntraContention s key =
     (case localkeys_intraTx_summarized s key of Some n \<Rightarrow> to_string n | None \<Rightarrow> ''0'')"

definition getLocalKeyInterContention :: "LRU_StatesInfo \<Rightarrow> string \<Rightarrow> string \<Rightarrow> int" where
  "getLocalKeyInterContention s key remotekey =
     (case map_of (localkeys_interTx_summarized s) key of
        Some item \<Rightarrow> (case map_of item remotekey of Some n \<Rightarrow> n | None \<Rightarrow> 0)
      | None \<Rightarrow> 0)"

text \<open>The two output parameters: \<open>shardid\<close> keeps the caller's value when the key is unknown.\<close>

definition getRemoteKeyIntraContention :: "LRU_StatesInfo \<Rightarrow> string \<Rightarrow> string \<Rightarrow> string \<times> string" where
  "getRemoteKeyIntraContention s shardid remotekey =
     (case remotekeys_intraTx s remotekey of
        None \<Rightarrow> (shardid, ''none'')
      | Some item \<Rightarrow> (rk_shardid item, rk_contention item))"

section \<open>Windows of accesses\<close>

lemma summarize_all: "summarize (length q) q m = ([], fold (\<lambda>k m. bump m k) q m)"
  by (induction q arbitrary: m) auto

definition intra_inv :: "LRU_StatesInfo \<Rightarrow> bool" where
  "intra_inv s \<longleftrightarrow> intraTx_count s = int (length (localkeys_intraTx s)) \<and> length (localkeys_intraTx s) < 1000"

lemma intra_inv_new: "intra_inv new_LRU_StatesInfo"
  by (simp add: intra_inv_def new_LRU_StatesInfo_def)

lemma update_intra_step:
  assumes "intra_inv s"
  shows "update_lru_localkeys_intraTx key s =
    (if length (localkeys_intraTx s) = 999 then
       s\<lparr>localkeys_intraTx := [],
         localkeys_intraTx_summarized := fold (\<lambda>k m. bump m k) (localkeys_intraTx s @ [key]) Map.empty,
         intraTx_count := 0\<rparr>
     else s\<lparr>localkeys_intraTx := localkeys_intraTx s @ [key], intraTx_count := intraTx_count s + 1\<rparr>)"
proof -
  have "length (localkeys_intraTx s) = 999 \<Longrightarrow>
      summarize 1000 (localkeys_intraTx s @ [key]) Map.empty
        = ([], fold (\<lambda>k m. bump m k) (localkeys_intraTx s @ [key]) Map.empty)"
    using summarize_all [of "localkeys_intraTx s @ [key]" Map.empty] by simp
  then show ?thesis
    using assms by (auto simp: update_lru_localkeys_intraTx_def intra_inv_def Let_def simp del: summarize.simps)
qed

lemma intra_inv_update: "intra_inv s \<Longrightarrow> intra_inv (update_lru_localkeys_intraTx key s)"
  by (simp add: update_intra_step) (auto simp: intra_inv_def)

lemma intra_inv_updates: "intra_inv s \<Longrightarrow> intra_inv (fold update_lru_localkeys_intraTx ks s)"
  by (induction ks arbitrary: s) (auto intro: intra_inv_update)

lemma intra_partial_window:
  "intra_inv s \<Longrightarrow> length (localkeys_intraTx s) + length ks < 1000 \<Longrightarrow>
   fold update_lru_localkeys_intraTx ks s =
     s\<lparr>localkeys_intraTx := localkeys_intraTx s @ ks, intraTx_count := intraTx_count s + int (length ks)\<rparr>"
proof (induction ks arbitrary: s)
  case (Cons k ks)
  let ?s = "update_lru_localkeys_intraTx k s"
  have s: "?s = s\<lparr>localkeys_intraTx := localkeys_intraTx s @ [k], intraTx_count := intraTx_count s + 1\<rparr>"
    using Cons.prems by (simp add: update_intra_step)
  have "fold update_lru_localkeys_intraTx ks ?s =
      ?s\<lparr>localkeys_intraTx := localkeys_intraTx ?s @ ks, intraTx_count := intraTx_count ?s + int (length ks)\<rparr>"
    using Cons.prems s by (intro Cons.IH intra_inv_update) simp_all
  then show ?case by (simp add: s)
qed simp

lemma intra_full_window:
  assumes "intra_inv s" and "localkeys_intraTx s = []" and "length ks = 1000"
  shows "fold update_lru_localkeys_intraTx ks s =
    s\<lparr>localkeys_intraTx := [], localkeys_intraTx_summarized := fold (\<lambda>k m. bump m k) ks Map.empty, intraTx_count := 0\<rparr>"
proof -
  obtain us k where ks: "ks = us @ [k]" using assms(3) by (cases ks rule: rev_cases) auto
  let ?s = "fold update_lru_localkeys_intraTx us s"
  have s: "?s = s\<lparr>localkeys_intraTx := us, intraTx_count := intraTx_count s + int (length us)\<rparr>"
    using intra_partial_window [OF assms(1), of us] assms ks by simp
  have "intra_inv ?s" by (rule intra_inv_updates [OF assms(1)])
  from update_intra_step [OF this, of k] s assms(3) ks show ?thesis by simp
qed

text \<open>
  The contention a shard reports for a state is the number of accesses in the last full window of
  1000: after a window \<open>w\<close> that starts on an empty queue and any further run shorter than a window,
  \<open>getLocalKeyIntraContention\<close> prints exactly how often the key occurs in \<open>w\<close>.
\<close>

theorem intra_contention_window:
  assumes "intra_inv s" and "localkeys_intraTx s = []" and "length w = 1000" and "length rest < 1000"
  shows "getLocalKeyIntraContention (fold update_lru_localkeys_intraTx (w @ rest) s) key =
    to_string (int (count_list w key))"
proof -
  let ?s = "fold update_lru_localkeys_intraTx w s"
  have s: "?s = s\<lparr>localkeys_intraTx := [],
      localkeys_intraTx_summarized := fold (\<lambda>k m. bump m k) w Map.empty, intraTx_count := 0\<rparr>"
    by (rule intra_full_window [OF assms(1-3)])
  have "fold update_lru_localkeys_intraTx rest ?s =
      ?s\<lparr>localkeys_intraTx := localkeys_intraTx ?s @ rest, intraTx_count := intraTx_count ?s + int (length rest)\<rparr>"
    using assms(4) s by (intro intra_partial_window intra_inv_updates [OF assms(1)]) simp
  then have summ: "localkeys_intraTx_summarized (fold update_lru_localkeys_intraTx (w @ rest) s)
      = fold (\<lambda>k m. bump m k) w Map.empty"
    using s by (simp only: fold_append comp_apply) simp
  have dom: "dom (fold (\<lambda>k m. bump m k) w Map.empty) = set w" by simp
  have cnt: "count_of (fold (\<lambda>k m. bump m k) w Map.empty) key = int (count_list w key)"
    by (simp add: counting)
  show ?thesis
  proof (cases "key \<in> set w")
    case True
    with dom obtain n where "fold (\<lambda>k m. bump m k) w Map.empty key = Some n" by blast
    with cnt have "localkeys_intraTx_summarized (fold update_lru_localkeys_intraTx (w @ rest) s) key
        = Some (int (count_list w key))"
      unfolding summ by (simp add: count_of_Some)
    then show ?thesis unfolding getLocalKeyIntraContention_def by simp
  next
    case False
    with dom have "fold (\<lambda>k m. bump m k) w Map.empty key = None" by blast
    moreover have "to_string 0 = ''0''" by code_simp
    ultimately show ?thesis
      using False unfolding getLocalKeyIntraContention_def summ by simp
  qed
qed

lemma intra_contention_window_witness:
  "getLocalKeyIntraContention
     (fold update_lru_localkeys_intraTx (replicate 1000 ''stateA'' @ [''stateB'']) new_LRU_StatesInfo) ''stateA''
   = ''1000''"
proof -
  have "to_string (int (count_list (replicate 1000 ''stateA'') ''stateA'')) = ''1000''"
  proof -
    have "count_list (replicate n x) x = n" for n and x :: string by (induction n) auto
    then have "count_list (replicate 1000 ''stateA'') ''stateA'' = 1000" by blast
    moreover have "to_string 1000 = ''1000''" by code_simp
    ultimately show ?thesis by simp
  qed
  then show ?thesis
    using intra_contention_window [OF intra_inv_new, of "replicate 1000 ''stateA''" "[''stateB'']" "''stateA''"]
    by (simp add: new_LRU_StatesInfo_def)
qed

text \<open>The pairs of a local and a remote state, over windows of 500.\<close>

definition pair_count :: "(string, (string, int) omap) omap \<Rightarrow> string \<Rightarrow> string \<Rightarrow> int" where
  "pair_count m l r = (case map_of m l of None \<Rightarrow> 0 | Some item \<Rightarrow> count_of (map_of item) r)"

definition pairs_ok :: "(string, (string, int) omap) omap \<Rightarrow> bool" where
  "pairs_ok m \<longleftrightarrow> om_ok m \<and> (\<forall>l item. map_of m l = Some item \<longrightarrow> om_ok item)"

lemma pairs_ok_bump: "pairs_ok m \<Longrightarrow> pairs_ok (bump_pair m l r)"
  by (auto simp: pairs_ok_def bump_pair_def map_insert_lookup split: option.splits if_splits)

lemma pair_count_bump [counting]:
  "pairs_ok m \<Longrightarrow>
   pair_count (bump_pair m l r) l' r' = pair_count m l' r' + (if l' = l \<and> r' = r then 1 else 0)"
  by (cases "map_of m l") (auto simp: pair_count_def bump_pair_def pairs_ok_def map_insert_lookup counting)

lemma getLocalKeyInterContention_count:
  "getLocalKeyInterContention s l r = pair_count (localkeys_interTx_summarized s) l r"
  by (simp add: getLocalKeyInterContention_def pair_count_def count_of_def split: option.splits)

definition inter_inv :: "(string \<times> string) list \<Rightarrow> LRU_StatesInfo \<Rightarrow> bool" where
  "inter_inv w s \<longleftrightarrow> interTx_count s = int (length w) \<and> length w < 500 \<and> pairs_ok (localkeys_interTx s)
     \<and> (\<forall>l r. pair_count (localkeys_interTx s) l r = int (count_list w (l, r)))"

lemma count_list_snoc: "count_list (xs @ [y]) x = count_list xs x + (if x = y then 1 else 0)"
  by (induction xs) auto

lemma inter_inv_new: "inter_inv [] new_LRU_StatesInfo"
  by (simp add: inter_inv_def new_LRU_StatesInfo_def pairs_ok_def pair_count_def)

lemma inter_inv_update:
  assumes "inter_inv w s"
  shows "if length w = 499
    then inter_inv [] (update_lru_localkeys_interTx l r s)
      \<and> (\<forall>l' r'. getLocalKeyInterContention (update_lru_localkeys_interTx l r s) l' r'
            = int (count_list (w @ [(l, r)]) (l', r')))
    else inter_inv (w @ [(l, r)]) (update_lru_localkeys_interTx l r s)
      \<and> localkeys_interTx_summarized (update_lru_localkeys_interTx l r s) = localkeys_interTx_summarized s"
  using assms
  by (auto simp: inter_inv_def update_lru_localkeys_interTx_def Let_def counting count_list_snoc
      getLocalKeyInterContention_count pairs_ok_bump pair_count_def [of "[]"] pairs_ok_def [of "[]"])

end
