(* ===== verification/Containers.thy ===== *)
theory Containers
  imports Prelude
begin

text \<open>
  The containers shared by the threads of a shard (\<open>libplugin/Common.h\<close>): the sub-transactions a
  coordinator accumulates for one shard (\<open>cachedSubTxsContainer\<close>), the read-write sets received from
  other shards (\<open>ReadWriteSetManager\<close>), the bounded queue (\<open>BlockingQueue\<close>), the transaction with
  its read-write set and the ordered set that reorders an epoch. Each class guards every operation
  with one mutex, so an operation is one atomic step.
\<close>

section \<open>Accumulated sub-transactions\<close>

record cachedSubTxsContainer =
  m_txNum :: int
  m_epochId :: int
  m_destinshardId :: int
  m_sourceshardId :: int
  m_subtxs :: string
  m_intrashardtxs :: string

definition new_cachedSubTxsContainer ::
  "int \<Rightarrow> int \<Rightarrow> int \<Rightarrow> int \<Rightarrow> string \<Rightarrow> string \<Rightarrow> cachedSubTxsContainer" where
  "new_cachedSubTxsContainer sourceshardId txNum epochId destinshardId subtxs intrashardtxs =
     \<lparr>m_txNum = txNum, m_epochId = epochId, m_destinshardId = destinshardId,
      m_sourceshardId = sourceshardId, m_subtxs = subtxs, m_intrashardtxs = intrashardtxs\<rparr>"

definition insertSubTx :: "string \<Rightarrow> cachedSubTxsContainer \<Rightarrow> cachedSubTxsContainer" where
  "insertSubTx subtx c =
     c\<lparr>m_subtxs := (if m_subtxs c = '''' then subtx else m_subtxs c @ ''&'' @ subtx),
       m_txNum := m_txNum c + 1\<rparr>"

definition insertIntraShardTx :: "string \<Rightarrow> cachedSubTxsContainer \<Rightarrow> cachedSubTxsContainer" where
  "insertIntraShardTx intrashardtx c =
     c\<lparr>m_intrashardtxs := (if m_intrashardtxs c = '''' then intrashardtx
                          else m_intrashardtxs c @ ''&'' @ intrashardtx),
       m_txNum := m_txNum c + 1\<rparr>"

text \<open>\<open>getTxs\<close> fills its argument with a copy and empties the container; the epoch is left as it is.\<close>

definition getTxs :: "cachedSubTxsContainer \<Rightarrow> cachedSubTxsContainer \<times> cachedSubTxsContainer" where
  "getTxs c =
     (\<lparr>m_txNum = m_txNum c, m_epochId = m_epochId c, m_destinshardId = m_destinshardId c,
       m_sourceshardId = m_sourceshardId c, m_subtxs = m_subtxs c, m_intrashardtxs = m_intrashardtxs c\<rparr>,
      c\<lparr>m_txNum := 0, m_subtxs := '''', m_intrashardtxs := ''''\<rparr>)"

definition getTxSize :: "cachedSubTxsContainer \<Rightarrow> int" where
  "getTxSize c = m_txNum c"

text \<open>A container holds the sub-transactions \<open>ts\<close>, joined by \<open>&\<close>, and their number.\<close>

definition holds :: "cachedSubTxsContainer \<Rightarrow> string list \<Rightarrow> bool" where
  "holds c ts \<longleftrightarrow> m_txNum c = int (length ts) \<and> m_subtxs c = join_with ''&'' ts \<and> m_intrashardtxs c = ''''
     \<and> (\<forall>t \<in> set ts. t \<noteq> '''' \<and> CHR ''&'' \<notin> set t)"

lemma join_with_empty_iff: "\<forall>t \<in> set ts. t \<noteq> [] \<Longrightarrow> join_with sep ts = [] \<longleftrightarrow> ts = []"
  by (cases ts) (auto simp: join_with_Cons)

lemma holds_insertSubTx:
  assumes "holds c ts" and "t \<noteq> ''''" and "CHR ''&'' \<notin> set t"
  shows "holds (insertSubTx t c) (ts @ [t])"
  using assms by (auto simp: holds_def insertSubTx_def join_with_snoc join_with_empty_iff)

lemma getTxs_fields [simp]:
  "m_txNum (fst (getTxs c)) = m_txNum c" "m_epochId (fst (getTxs c)) = m_epochId c"
  "m_destinshardId (fst (getTxs c)) = m_destinshardId c" "m_subtxs (fst (getTxs c)) = m_subtxs c"
  "m_intrashardtxs (fst (getTxs c)) = m_intrashardtxs c"
  "m_txNum (snd (getTxs c)) = 0" "m_epochId (snd (getTxs c)) = m_epochId c"
  "m_destinshardId (snd (getTxs c)) = m_destinshardId c" "m_subtxs (snd (getTxs c)) = ''''"
  "m_intrashardtxs (snd (getTxs c)) = ''''"
  by (simp_all add: getTxs_def)

lemma holds_getTxs:
  assumes "holds c ts"
  shows "holds (fst (getTxs c)) ts" and "holds (snd (getTxs c)) []"
  using assms by (simp_all add: holds_def)

section \<open>Received read-write sets\<close>

record ReadWriteSetManager =
  receivedTxRWset :: "string \<rightharpoonup> int"
  receivedContentionRates :: "string \<rightharpoonup> string"

definition new_ReadWriteSetManager :: ReadWriteSetManager where
  "new_ReadWriteSetManager = \<lparr>receivedTxRWset = Map.empty, receivedContentionRates = Map.empty\<rparr>"

definition deleteRwset :: "string \<Rightarrow> ReadWriteSetManager \<Rightarrow> ReadWriteSetManager result" where
  "deleteRwset key m =
     rbind (map_at (receivedTxRWset m) key) (\<lambda>number.
       Inr (m\<lparr>receivedTxRWset := (receivedTxRWset m)(key \<mapsto> number - 1)\<rparr>))"

definition insertReceivedRwset :: "string \<Rightarrow> ReadWriteSetManager \<Rightarrow> ReadWriteSetManager" where
  "insertReceivedRwset originalKey m = m\<lparr>receivedTxRWset := bump (receivedTxRWset m) originalKey\<rparr>"

definition checkReceivedRwset :: "ReadWriteSetManager \<Rightarrow> string \<Rightarrow> bool" where
  "checkReceivedRwset m key =
     (case receivedTxRWset m key of None \<Rightarrow> False | Some n \<Rightarrow> n \<noteq> 0)"

text \<open>The overload with \<open>lastTxInEpoch\<close> answers the same; its extra branch is commented out.\<close>

definition checkReceivedRwset_last :: "ReadWriteSetManager \<Rightarrow> string \<Rightarrow> bool \<Rightarrow> bool" where
  "checkReceivedRwset_last m key lastTxInEpoch =
     (case receivedTxRWset m key of None \<Rightarrow> False
      | Some n \<Rightarrow> if n = 0 then False else if lastTxInEpoch then True else True)"

definition received :: "ReadWriteSetManager \<Rightarrow> string \<Rightarrow> int" where
  "received m key = count_of (receivedTxRWset m) key"

lemma received_insert [counting]:
  "received (insertReceivedRwset k m) j = received m j + (if j = k then 1 else 0)"
  by (simp add: received_def insertReceivedRwset_def counting)

lemma received_delete [counting]:
  "deleteRwset k m = Inr m' \<Longrightarrow> received m' j = received m j - (if j = k then 1 else 0)"
  by (auto simp: deleteRwset_def received_def checked count_of_Some)

lemma checkReceivedRwset_iff: "checkReceivedRwset m key \<longleftrightarrow> received m key \<noteq> 0"
  by (simp add: checkReceivedRwset_def received_def count_of_def split: option.splits)

lemma deleteRwset_known:
  "receivedTxRWset m key = Some n \<Longrightarrow>
   deleteRwset key m = Inr (m\<lparr>receivedTxRWset := (receivedTxRWset m)(key \<mapsto> n - 1)\<rparr>)"
  by (simp add: deleteRwset_def)

section \<open>The bounded queue\<close>

text \<open>
  \<open>enqueue\<close> and \<open>dequeue\<close> wait on a condition; \<open>None\<close> says that the caller has to wait. \<open>front\<close>
  on an empty queue is undefined behaviour, reported as \<open>OutOfRange\<close>.
\<close>

record 'a BlockingQueue =
  max_size :: nat
  queue_of :: "'a list"

definition new_BlockingQueue :: "'a BlockingQueue" where
  "new_BlockingQueue = \<lparr>max_size = 2 ^ 64 - 1, queue_of = []\<rparr>"

definition enqueue :: "'a \<Rightarrow> 'a BlockingQueue \<Rightarrow> 'a BlockingQueue option" where
  "enqueue x q =
     (if length (queue_of q) < max_size q then Some (q\<lparr>queue_of := queue_of q @ [x]\<rparr>) else None)"

definition dequeue :: "'a BlockingQueue \<Rightarrow> ('a \<times> 'a BlockingQueue) option" where
  "dequeue q =
     (case queue_of q of [] \<Rightarrow> None | x # xs \<Rightarrow> Some (x, q\<lparr>queue_of := xs\<rparr>))"

definition queue_size :: "'a BlockingQueue \<Rightarrow> nat" where
  "queue_size q = length (queue_of q)"

definition queue_front :: "'a BlockingQueue \<Rightarrow> 'a result" where
  "queue_front q = vec_at (queue_of q) 0"

section \<open>Transactions\<close>

text \<open>
  What the plugin reads of a \<open>dev::eth::Transaction\<close>: the data field, the RLP in hex and the hash.
  Bytes are characters. A \<open>transactionWithReadWriteSet\<close> carries the sub-transactions of one
  cross-shard transaction; \<open>tx\<close> is \<open>None\<close> when the constructor leaves the pointer null.
\<close>

record transaction =
  tx_data :: string
  tx_rlp :: string
  tx_hash :: string

record transactionWithReadWriteSet =
  txid :: string
  minimum_participant_shardid :: int
  emptyTransaction :: bool
  is_intershardTx :: bool
  lastTxInEpoch :: bool
  lastTxInBatch :: bool
  shuffle_states :: bool
  participantIds :: string
  localreadwriteKey :: string
  interShardTxEpochID :: string
  interShardTxBatchId :: string
  rwkeys :: string
  intershardTxId :: string
  coordinator_shardid :: string
  shuffle_states_contents :: string
  sub_txs :: "transaction list"
  rwkeysTosend :: "string list"
  rwkeyToReceive :: "string list"
  blockingQueue_keys :: "int list"
  tx_ptr :: "transaction option"

text \<open>The default constructor; \<open>minimum_participant_shardid\<close> is left uninitialised and not read.\<close>

definition new_transactionWithReadWriteSet :: transactionWithReadWriteSet where
  "new_transactionWithReadWriteSet =
     \<lparr>txid = '''', minimum_participant_shardid = 0, emptyTransaction = False, is_intershardTx = False,
      lastTxInEpoch = False, lastTxInBatch = False, shuffle_states = False, participantIds = '''',
      localreadwriteKey = '''', interShardTxEpochID = '''', interShardTxBatchId = '''', rwkeys = '''',
      intershardTxId = '''', coordinator_shardid = '''', shuffle_states_contents = '''', sub_txs = [],
      rwkeysTosend = [], rwkeyToReceive = [], blockingQueue_keys = [], tx_ptr = None\<rparr>"

definition new_transactionWithReadWriteSet_of ::
  "string \<Rightarrow> string \<Rightarrow> string \<Rightarrow> string \<Rightarrow> string \<Rightarrow> string \<Rightarrow> int \<Rightarrow> transactionWithReadWriteSet" where
  "new_transactionWithReadWriteSet_of pids localkey keys epochId interId coordinator minimum =
     new_transactionWithReadWriteSet\<lparr>participantIds := pids, localreadwriteKey := localkey, rwkeys := keys,
       interShardTxEpochID := epochId, intershardTxId := interId, coordinator_shardid := coordinator,
       minimum_participant_shardid := minimum\<rparr>"

text \<open>
  The set that reorders an epoch compares with \<open>\<le>\<close> (\<open>ReadWriteKeyCompare\<close>). The tree insertion
  descends to the left whenever the new element is \<open>\<le>\<close> the visited one, so the element lands before
  all equal ones and its predecessor is strictly smaller: nothing is ever a duplicate.
\<close>

definition ReadWriteKeyCompare ::
  "transactionWithReadWriteSet \<Rightarrow> transactionWithReadWriteSet \<Rightarrow> bool" where
  "ReadWriteKeyCompare t1 t2 \<longleftrightarrow> participantIds t1 \<le> participantIds t2"

fun reorder_insert ::
  "transactionWithReadWriteSet \<Rightarrow> transactionWithReadWriteSet list \<Rightarrow> transactionWithReadWriteSet list" where
  "reorder_insert t [] = [t]"
| "reorder_insert t (u # us) =
     (if ReadWriteKeyCompare t u then t # u # us else u # reorder_insert t us)"

lemma reorder_insert_insort: "reorder_insert t us = insort_key participantIds t us"
  by (induction us) (auto simp: ReadWriteKeyCompare_def)

lemma reorder_all: "fold reorder_insert ts [] = sort_key participantIds (rev ts)"
proof -
  have "fold reorder_insert ts us = foldr (insort_key participantIds) (rev ts) us" for us
    by (simp add: foldr_conv_fold reorder_insert_insort [abs_def] fun_eq_iff)
  then show ?thesis by (simp add: sort_key_def)
qed

end
