(* ===== verification/BlockingQueues.thy ===== *)
theory BlockingQueues
  imports Containers
begin

text \<open>
  The queue of blocked transactions with its lock table (\<open>libplugin/BlockingTxQueue.cpp\<close>,
  \<open>libplugin/BlockingTxQueue.h\<close>). One queue exists per coordinator; \<open>lockingkeys\<close> counts, for each
  local state, the queued transactions that access it. \<open>front\<close> and \<open>pop\<close> of an empty
  \<open>std::queue\<close> are undefined behaviour, reported as \<open>OutOfRange\<close>.
\<close>

record BlockingTxQueue =
  queued_txs :: "transactionWithReadWriteSet list"
  lockingkeys :: "string \<rightharpoonup> int"

definition new_BlockingTxQueue :: BlockingTxQueue where
  "new_BlockingTxQueue = \<lparr>queued_txs = [], lockingkeys = Map.empty\<rparr>"

definition key_locked :: "(string \<rightharpoonup> int) \<Rightarrow> string \<Rightarrow> bool" where
  "key_locked m key = (case m key of None \<Rightarrow> False | Some n \<Rightarrow> n \<noteq> 0)"

definition isBlocked :: "tokenizer \<Rightarrow> BlockingTxQueue \<Rightarrow> string \<Rightarrow> bool" where
  "isBlocked sp q keys = list_ex (key_locked (lockingkeys q)) (sp CHR ''_'' keys)"

definition insertTx :: "tokenizer \<Rightarrow> transactionWithReadWriteSet \<Rightarrow> BlockingTxQueue \<Rightarrow> BlockingTxQueue" where
  "insertTx sp tx q =
     q\<lparr>lockingkeys := fold (\<lambda>key m. bump m key) (sp CHR ''_'' (localreadwriteKey tx)) (lockingkeys q),
       queued_txs := queued_txs q @ [tx]\<rparr>"

text \<open>
  \<open>insertTxs\<close> also stamps the end time of the transaction with the id \<open>a3084\<close>, once; the map of end
  times is shared, so it is passed through.
\<close>

definition stamp :: "string \<Rightarrow> int \<Rightarrow> (string, int) omap \<Rightarrow> (string, int) omap" where
  "stamp i now endtimes = (if i = ''a3084'' then om_insert i now endtimes else endtimes)"

definition insertTxs ::
  "tokenizer \<Rightarrow> int \<Rightarrow> transactionWithReadWriteSet list \<Rightarrow> BlockingTxQueue \<times> (string, int) omap
     \<Rightarrow> BlockingTxQueue \<times> (string, int) omap" where
  "insertTxs sp now reorderedTxs s =
     fold (\<lambda>tx (q, endtimes). (insertTx sp tx q, stamp (txid tx) now endtimes)) reorderedTxs s"

definition frontTx :: "BlockingTxQueue \<Rightarrow> transactionWithReadWriteSet option" where
  "frontTx q = (case queued_txs q of [] \<Rightarrow> None | tx # _ \<Rightarrow> Some tx)"

definition unlock :: "string \<Rightarrow> (string \<rightharpoonup> int) \<Rightarrow> (string \<rightharpoonup> int) result" where
  "unlock key m = rbind (map_at m key) (\<lambda>lockNum. Inr (m(key \<mapsto> lockNum - 1)))"

definition deleteTx :: "tokenizer \<Rightarrow> BlockingTxQueue \<Rightarrow> BlockingTxQueue result" where
  "deleteTx sp q =
     (case queued_txs q of [] \<Rightarrow> Inl OutOfRange
      | tx # txs \<Rightarrow>
          rbind (rfold unlock (sp CHR ''_'' (localreadwriteKey tx)) (lockingkeys q)) (\<lambda>m.
            Inr (q\<lparr>lockingkeys := m, queued_txs := txs\<rparr>)))"

text \<open>\<open>batch_pop\<close> moves all transactions to another queue. It does not touch \<open>lockingkeys\<close>.\<close>

definition batch_pop ::
  "BlockingTxQueue \<Rightarrow> transactionWithReadWriteSet list
     \<Rightarrow> BlockingTxQueue \<times> transactionWithReadWriteSet list" where
  "batch_pop q txQueue =
     (if length (queued_txs q) = 0 then (q, txQueue)
      else (q\<lparr>queued_txs := []\<rparr>, txQueue @ queued_txs q))"

definition txsize :: "BlockingTxQueue \<Rightarrow> int" where
  "txsize q = int (length (queued_txs q))"

section \<open>A queue with a lock table\<close>

text \<open>
  What the executer relies on: a queue whose lock table counts the keys of the transactions it
  was given. \<open>balanced\<close> says that the table agrees with the queue's content.
\<close>

locale lock_queue =
  fixes keys_of :: "'t \<Rightarrow> 'k list"
    and content :: "'q \<Rightarrow> 't list"
    and locks :: "'q \<Rightarrow> 'k \<Rightarrow> int"
    and put :: "'t \<Rightarrow> 'q \<Rightarrow> 'q"
    and pop :: "'q \<Rightarrow> 'q result"
  assumes content_put: "content (put t q) = content q @ [t]"
    and locks_put: "locks (put t q) k = locks q k + int (count_list (keys_of t) k)"
    and pop_ok: "content q = t # ts \<Longrightarrow> (\<And>k. k \<in> set (keys_of t) \<Longrightarrow> 0 < locks q k) \<Longrightarrow>
          \<exists>q'. pop q = Inr q'"
    and pop_content: "pop q = Inr q' \<Longrightarrow> content q = t # ts \<Longrightarrow> content q' = ts"
    and locks_pop: "pop q = Inr q' \<Longrightarrow> content q = t # ts \<Longrightarrow>
          locks q' k = locks q k - int (count_list (keys_of t) k)"
begin

definition demand :: "'t list \<Rightarrow> 'k \<Rightarrow> int" where
  "demand ts k = sum_list (map (\<lambda>t. int (count_list (keys_of t) k)) ts)"

definition balanced :: "'q \<Rightarrow> bool" where
  "balanced q \<longleftrightarrow> (\<forall>k. locks q k = demand (content q) k)"

lemma demand_simps [simp]:
  "demand [] k = 0"
  "demand (t # ts) k = int (count_list (keys_of t) k) + demand ts k"
  "demand (ts @ us) k = demand ts k + demand us k"
  by (simp_all add: demand_def)

lemma demand_nonneg: "0 \<le> demand ts k"
  by (induction ts) auto

lemma demand_pos_iff: "0 < demand ts k \<longleftrightarrow> (\<exists>t \<in> set ts. k \<in> set (keys_of t))"
proof (induction ts)
  case (Cons t ts)
  have "0 < int (count_list (keys_of t) k) \<longleftrightarrow> k \<in> set (keys_of t)"
    using count_list_0_iff [of "keys_of t" k] by auto
  then show ?case using Cons demand_nonneg [of ts k] by (auto simp: count_notin)
qed simp

lemma balanced_put: "balanced q \<Longrightarrow> balanced (put t q)"
  by (simp add: balanced_def content_put locks_put)

lemma balanced_puts: "balanced q \<Longrightarrow> balanced (fold put ts q) \<and> content (fold put ts q) = content q @ ts"
  by (induction ts arbitrary: q) (auto simp: balanced_put content_put)

lemma balanced_pop:
  assumes "balanced q" and "content q = t # ts"
  obtains q' where "pop q = Inr q'" "content q' = ts" "balanced q'"
proof -
  have "0 < locks q k" if "k \<in> set (keys_of t)" for k
  proof -
    from that have "0 < demand (content q) k" unfolding demand_pos_iff by (auto simp: assms(2))
    then show ?thesis using assms(1) by (simp add: balanced_def)
  qed
  from pop_ok [OF assms(2) this] obtain q' where q': "pop q = Inr q'" by blast
  then have "content q' = ts" and "balanced q'"
    using pop_content [OF q' assms(2)] locks_pop [OF q' assms(2)] assms
    by (auto simp: balanced_def)
  with q' that show thesis by blast
qed

lemma balanced_locked_iff:
  "balanced q \<Longrightarrow> locks q k \<noteq> 0 \<longleftrightarrow> (\<exists>t \<in> set (content q). k \<in> set (keys_of t))"
  using demand_pos_iff [of "content q" k] demand_nonneg [of "content q" k] by (auto simp: balanced_def)

lemma drained:
  assumes "balanced q" and "content q = []"
  shows "locks q k = 0"
  using assms by (simp add: balanced_def)

end

definition lock_count :: "BlockingTxQueue \<Rightarrow> string \<Rightarrow> int" where
  "lock_count q k = count_of (lockingkeys q) k"

definition tx_keys :: "tokenizer \<Rightarrow> transactionWithReadWriteSet \<Rightarrow> string list" where
  "tx_keys sp tx = sp CHR ''_'' (localreadwriteKey tx)"

lemma unlock_Inr_iff: "unlock key m = Inr m' \<longleftrightarrow> (\<exists>n. m key = Some n \<and> m' = m(key \<mapsto> n - 1))"
  by (auto simp: unlock_def checked)

lemma count_unlocks:
  "rfold unlock ks m = Inr m' \<Longrightarrow> count_of m' k = count_of m k - int (count_list ks k)"
  by (induction ks arbitrary: m) (auto simp: rbind_Inr_iff unlock_Inr_iff count_of_Some)

lemma unlocks_total: "set ks \<subseteq> dom m \<Longrightarrow> \<exists>m'. rfold unlock ks m = Inr m'"
proof (induction ks arbitrary: m)
  case (Cons k ks)
  from Cons.prems obtain n where n: "m k = Some n" by auto
  have "set ks \<subseteq> dom (m(k \<mapsto> n - 1))" using Cons.prems by auto
  have u: "unlock k m = Inr (m(k \<mapsto> n - 1))" using n by (simp add: unlock_def)
  from Cons.IH [OF \<open>set ks \<subseteq> _\<close>] show ?case by (simp only: rfold.simps u rbind_simps)
qed simp

lemma deleteTx_iff:
  "deleteTx sp q = Inr q' \<longleftrightarrow>
   (\<exists>tx txs m. queued_txs q = tx # txs \<and> rfold unlock (tx_keys sp tx) (lockingkeys q) = Inr m
      \<and> q' = q\<lparr>lockingkeys := m, queued_txs := txs\<rparr>)"
  by (auto simp: deleteTx_def tx_keys_def checked split: list.splits)

lemma pop_of_locked:
  assumes "queued_txs q = t # ts" and pos: "\<And>k. k \<in> set (tx_keys sp t) \<Longrightarrow> 0 < lock_count q k"
  shows "\<exists>q'. deleteTx sp q = Inr q'"
proof -
  have "k \<in> dom (lockingkeys q)" if "k \<in> set (tx_keys sp t)" for k
    using pos [OF that] by (cases "lockingkeys q k") (auto simp: lock_count_def count_of_def)
  then obtain m where "rfold unlock (tx_keys sp t) (lockingkeys q) = Inr m"
    using unlocks_total [of "tx_keys sp t" "lockingkeys q"] by blast
  with assms(1) show ?thesis by (auto simp: deleteTx_iff)
qed

interpretation btq: lock_queue "tx_keys sp" queued_txs lock_count "insertTx sp" "deleteTx sp" for sp
proof (unfold_locales, goal_cases)
  case (1 t q) show ?case by (simp add: insertTx_def)
next
  case (2 t q k) show ?case by (simp add: insertTx_def lock_count_def tx_keys_def counting)
next
  case (3 q t ts) then show ?case by (rule pop_of_locked)
next
  case (4 q q' t ts) then show ?case by (auto simp: deleteTx_iff)
next
  case (5 q q' t ts k) then show ?case by (auto simp: deleteTx_iff lock_count_def count_unlocks)
qed

lemma insertTxs_fold: "fst (insertTxs sp now ts s) = fold (insertTx sp) ts (fst s)"
  unfolding insertTxs_def by (induction ts arbitrary: s) (auto split: prod.splits)

lemma isBlocked_iff: "isBlocked sp q keys \<longleftrightarrow> (\<exists>k \<in> set (sp CHR ''_'' keys). lock_count q k \<noteq> 0)"
  by (auto simp: isBlocked_def list_ex_iff key_locked_def lock_count_def count_of_def split: option.splits)

lemma balanced_new: "btq.balanced sp new_BlockingTxQueue"
  by (simp add: btq.balanced_def new_BlockingTxQueue_def lock_count_def)

fun delete_n :: "tokenizer \<Rightarrow> nat \<Rightarrow> BlockingTxQueue \<Rightarrow> BlockingTxQueue result" where
  "delete_n sp 0 q = Inr q"
| "delete_n sp (Suc n) q = rbind (deleteTx sp q) (delete_n sp n)"

lemma delete_n_ok:
  "btq.balanced sp q \<Longrightarrow> n \<le> length (queued_txs q) \<Longrightarrow>
   \<exists>q'. delete_n sp n q = Inr q' \<and> queued_txs q' = drop n (queued_txs q) \<and> btq.balanced sp q'"
proof (induction n arbitrary: q)
  case (Suc n)
  then obtain t ts where c: "queued_txs q = t # ts" by (cases "queued_txs q") auto
  from btq.balanced_pop [OF Suc.prems(1) c] obtain q1
    where q1: "deleteTx sp q = Inr q1" "queued_txs q1 = ts" "btq.balanced sp q1" by blast
  have "n \<le> length (queued_txs q1)" using Suc.prems(2) c q1(2) by simp
  from Suc.IH [OF q1(3) this] q1 c show ?case by simp
qed simp

text \<open>
  C36: Locking is exact. From an empty queue, after any transactions \<open>ts\<close> are inserted and the first
  \<open>n\<close> of them are deleted, the deletions succeed, the rest is still queued in arrival order, and
  \<open>isBlocked\<close> answers yes for a list of states exactly when a transaction that is still queued
  accesses one of them.
\<close>

theorem isBlocked_exact:
  assumes "n \<le> length ts"
  shows "\<exists>q. delete_n sp n (fold (insertTx sp) ts new_BlockingTxQueue) = Inr q
    \<and> queued_txs q = drop n ts
    \<and> (\<forall>keys. isBlocked sp q keys \<longleftrightarrow>
         (\<exists>t \<in> set (drop n ts). set (sp CHR ''_'' keys) \<inter> set (tx_keys sp t) \<noteq> {}))"
proof -
  let ?q = "fold (insertTx sp) ts new_BlockingTxQueue"
  have b: "btq.balanced sp ?q" and c: "queued_txs ?q = ts"
    using btq.balanced_puts [OF balanced_new] by (auto simp: new_BlockingTxQueue_def)
  from delete_n_ok [OF b, of n] c assms obtain q
    where q: "delete_n sp n ?q = Inr q" "queued_txs q = drop n ts" "btq.balanced sp q" by auto
  have "isBlocked sp q keys \<longleftrightarrow> (\<exists>t \<in> set (drop n ts). set (sp CHR ''_'' keys) \<inter> set (tx_keys sp t) \<noteq> {})"
    for keys
    using btq.balanced_locked_iff [OF q(3)] q(2) by (auto simp: isBlocked_iff)
  with q(1,2) show ?thesis by blast
qed

definition example_tx :: "string \<Rightarrow> string \<Rightarrow> transactionWithReadWriteSet" where
  "example_tx i keys = new_transactionWithReadWriteSet\<lparr>txid := i, localreadwriteKey := keys\<rparr>"

lemma isBlocked_exact_witness:
  "\<exists>q. delete_n cut 1 (fold (insertTx cut) [example_tx ''a'' ''x_y'', example_tx ''b'' ''y''] new_BlockingTxQueue)
       = Inr q \<and> isBlocked cut q ''y'' \<and> \<not> isBlocked cut q ''x''"
  using isBlocked_exact [of 1 "[example_tx ''a'' ''x_y'', example_tx ''b'' ''y'']" cut]
  by (auto simp: tx_keys_def example_tx_def new_transactionWithReadWriteSet_def)

text \<open>
  \<open>batch_pop\<close> hands the transactions over in order and leaves every lock in place: the queue is
  empty afterwards, and a state that a transaction had locked stays blocked.
\<close>

theorem batch_pop_keeps_locks:
  assumes "batch_pop q txQueue = (q', txQueue')" and "btq.balanced sp q"
  shows "queued_txs q' = [] \<and> txQueue' = txQueue @ queued_txs q
    \<and> (\<forall>keys. isBlocked sp q' keys \<longleftrightarrow>
          (\<exists>t \<in> set (queued_txs q). set (sp CHR ''_'' keys) \<inter> set (tx_keys sp t) \<noteq> {}))"
proof -
  have eqs: "lockingkeys q' = lockingkeys q" "queued_txs q' = []" "txQueue' = txQueue @ queued_txs q"
    using assms(1) by (auto simp: batch_pop_def split: if_splits)
  have "isBlocked sp q' keys = isBlocked sp q keys" for keys by (simp add: isBlocked_def eqs)
  then have "isBlocked sp q' keys \<longleftrightarrow>
      (\<exists>t \<in> set (queued_txs q). set (sp CHR ''_'' keys) \<inter> set (tx_keys sp t) \<noteq> {})" for keys
    using btq.balanced_locked_iff [OF assms(2)] by (auto simp: isBlocked_iff)
  with eqs show ?thesis by blast
qed

lemma batch_pop_keeps_locks_witness:
  "isBlocked cut (fst (batch_pop (insertTx cut (example_tx ''a'' ''x'') new_BlockingTxQueue) [])) ''x''"
proof -
  let ?q = "insertTx cut (example_tx ''a'' ''x'') new_BlockingTxQueue"
  have "btq.balanced cut ?q" by (rule btq.balanced_put [OF balanced_new])
  from batch_pop_keeps_locks [OF prod.collapse [symmetric] this, of "[]"]
  show ?thesis by (simp add: insertTx_def new_BlockingTxQueue_def tx_keys_def example_tx_def
        new_transactionWithReadWriteSet_def)
qed

end
