(* ===== verification/HexCodec.thy ===== *)
theory HexCodec
  imports Prelude
begin

text \<open>
  Hexadecimal text and the reading of a transaction's data field: \<open>fromHexChar\<close>, \<open>isHex\<close>,
  \<open>fromHex\<close>, \<open>toHex\<close>, \<open>asNibbles\<close>, the big-endian conversions (\<open>libdevcore/CommonData.cpp\<close>,
  \<open>CommonData.h\<close>), \<open>jsToBytes\<close> (\<open>CommonJS.cpp\<close>), and \<open>dataToHexString\<close> and
  \<open>checkTransactionType\<close> of \<open>libplugin/TransactionExecuter.cpp\<close>. A byte is a character.
\<close>

section \<open>Hexadecimal text\<close>

definition fromHexChar :: "char \<Rightarrow> int" where
  "fromHexChar c =
     (let i = of_char c :: int
      in if 48 \<le> i \<and> i \<le> 57 then i - 48
         else if 97 \<le> i \<and> i \<le> 102 then i - 97 + 10
         else if 65 \<le> i \<and> i \<le> 70 then i - 65 + 10
         else - 1)"

definition isHex :: "string \<Rightarrow> bool" where
  "isHex s = list_all (\<lambda>c. fromHexChar c \<noteq> - 1) (if take 2 s = ''0x'' then drop 2 s else s)"

definition hexdigit :: "nat \<Rightarrow> char" where
  "hexdigit d = ''0123456789abcdef'' ! d"

definition toHex :: "string \<Rightarrow> string \<Rightarrow> string" where
  "toHex bs prefix =
     prefix @ concat (map (\<lambda>b. [hexdigit (of_char b div 16 mod 16), hexdigit (of_char b mod 16)]) bs)"

fun hex_pairs :: "bool \<Rightarrow> string \<Rightarrow> string \<Rightarrow> string result" where
  "hex_pairs throw ret (c # d # cs) =
     (let h = fromHexChar c; l = fromHexChar d
      in if h \<noteq> - 1 \<and> l \<noteq> - 1 then hex_pairs throw (ret @ [char_of (h * 16 + l)]) cs
         else if throw then Inl Malformed else Inr [])"
| "hex_pairs throw ret _ = Inr ret"

definition fromHex :: "bool \<Rightarrow> string \<Rightarrow> string result" where
  "fromHex throw s =
     (let r = (if length s \<ge> 2 \<and> take 2 s = ''0x'' then drop 2 s else s)
      in if odd (length s) then
           (case r of [] \<Rightarrow> Inr []
            | c # cs \<Rightarrow>
                (let h = fromHexChar c
                 in if h \<noteq> - 1 then hex_pairs throw [char_of h] cs
                    else if throw then Inl Malformed else Inr []))
         else hex_pairs throw [] r)"

text \<open>\<open>OnFailed\<close>: what \<open>jsToBytes\<close> does with text that is not hexadecimal.\<close>

datatype OnFailed = InterpretRaw | Empty | Throw

definition jsToBytes :: "string \<Rightarrow> OnFailed \<Rightarrow> string result" where
  "jsToBytes s f =
     (case fromHex True s of
        Inr bs \<Rightarrow> Inr bs
      | Inl _ \<Rightarrow> (case f of InterpretRaw \<Rightarrow> Inr s | Throw \<Rightarrow> Inl Malformed | Empty \<Rightarrow> Inr []))"

definition asNibbles :: "string \<Rightarrow> nat list" where
  "asNibbles bs = concat (map (\<lambda>b. [of_char b div 16, of_char b mod 16]) bs)"

lemma hexdigit_set: "d < 16 \<Longrightarrow> fromHexChar (hexdigit d) = int d"
proof -
  have "\<forall>d \<in> set [0..<16]. fromHexChar (hexdigit d) = int d" by code_simp
  then show "d < 16 \<Longrightarrow> fromHexChar (hexdigit d) = int d" by (auto simp: atLeast0LessThan)
qed

lemma byte_of_nibbles:
  "char_of (int (of_char b div 16 mod 16) * 16 + int (of_char b mod 16)) = b"
proof -
  have "(of_char b :: nat) div 16 < 16" using nat_of_char_less_256 [of b] by linarith
  then have "int (of_char b div 16 mod 16) * 16 + int (of_char b mod 16) = int (of_char b)"
    by (simp add: mod_less) (metis mult.commute mult_div_mod_eq of_nat_add of_nat_mult of_nat_numeral)
  then show ?thesis by (simp only: of_nat_of_char char_of_char)
qed

lemma hex_pairs_toHex: "hex_pairs throw ret (toHex bs []) = Inr (ret @ bs)"
proof (induction bs arbitrary: ret)
  case (Cons b bs)
  then show ?case
    by (simp add: toHex_def Let_def hexdigit_set byte_of_nibbles)
qed (simp add: toHex_def)

lemma toHex_prefix: "toHex bs p = p @ toHex bs []"
  by (simp add: toHex_def)

lemma length_toHex: "length (toHex bs []) = 2 * length bs"
  by (induction bs) (auto simp: toHex_def)

lemma hexdigit_not_x: "d < 16 \<Longrightarrow> hexdigit d \<noteq> CHR ''x''"
proof -
  have "\<forall>d \<in> set [0..<16]. hexdigit d \<noteq> CHR ''x''" by code_simp
  then show "d < 16 \<Longrightarrow> hexdigit d \<noteq> CHR ''x''" by (auto simp: atLeast0LessThan)
qed

lemma toHex_no_prefix: "take 2 (toHex bs []) \<noteq> ''0x''"
  using hexdigit_not_x by (cases bs) (auto simp: toHex_def)

text \<open>
  Hexadecimal text round-trips: reading what \<open>toHex\<close> prints gives the bytes back, with and
  without the \<open>0x\<close> prefix, in the throwing and in the lenient mode, and \<open>jsToBytes\<close> reads it too.
\<close>

theorem fromHex_toHex:
  "fromHex throw (toHex bs '''') = Inr bs \<and> fromHex throw (toHex bs ''0x'') = Inr bs
   \<and> jsToBytes (toHex bs '''') f = Inr bs \<and> jsToBytes (toHex bs ''0x'') f = Inr bs"
proof -
  have "fromHex thr (toHex bs '''') = Inr bs" for thr
    using toHex_no_prefix [of bs] hex_pairs_toHex [of thr "[]" bs] length_toHex [of bs]
    by (simp add: fromHex_def)
  moreover have "fromHex thr (toHex bs ''0x'') = Inr bs" for thr
    using hex_pairs_toHex [of thr "[]" bs] length_toHex [of bs]
    by (simp add: fromHex_def toHex_prefix [of bs "''0x''"])
  ultimately show ?thesis by (simp add: jsToBytes_def)
qed

section \<open>The big-endian conversions\<close>

text \<open>
  \<open>toBigEndian\<close> fills the output from its last byte, \<open>toCompactBigEndian\<close> takes as many bytes as
  the value needs and at least \<open>min\<close>; the numbers are the unsigned \<open>bigint\<close> of the source.
\<close>

fun toBigEndian :: "nat \<Rightarrow> nat \<Rightarrow> string \<Rightarrow> string" where
  "toBigEndian 0 val acc = acc"
| "toBigEndian (Suc i) val acc = toBigEndian i (val div 256) (char_of (val mod 256) # acc)"

definition fromBigEndian :: "string \<Rightarrow> nat" where
  "fromBigEndian bs = fold (\<lambda>b ret. ret * 256 + of_char b) bs 0"

fun bytesRequired :: "nat \<Rightarrow> nat" where
  "bytesRequired v = (if v = 0 then 0 else Suc (bytesRequired (v div 256)))"

declare bytesRequired.simps [simp del]

definition toCompactBigEndian :: "nat \<Rightarrow> nat \<Rightarrow> string" where
  "toCompactBigEndian val mn = toBigEndian (max mn (bytesRequired val)) val []"

lemma be_fold: "fold (\<lambda>b ret. ret * 256 + of_char b) bs (n::nat) = n * 256 ^ length bs + fromBigEndian bs"
proof (induction bs arbitrary: n)
  case (Cons b bs)
  have "fromBigEndian (b # bs) = of_char b * 256 ^ length bs + fromBigEndian bs"
    using Cons [of "of_char b"] by (simp add: fromBigEndian_def)
  then show ?case using Cons [of "n * 256 + of_char b"] by (simp add: algebra_simps)
qed (simp add: fromBigEndian_def)

lemma fromBigEndian_Cons: "fromBigEndian (b # bs) = of_char b * 256 ^ length bs + fromBigEndian bs"
  using be_fold [of bs "of_char b"] by (simp add: fromBigEndian_def)

lemma fromBigEndian_Nil: "fromBigEndian [] = 0"
  by (simp add: fromBigEndian_def)

lemma from_toBigEndian:
  "fromBigEndian (toBigEndian i val acc) = (val mod 256 ^ i) * 256 ^ length acc + fromBigEndian acc"
proof (induction i val acc rule: toBigEndian.induct)
  case (2 i val acc)
  have "val mod 256 ^ Suc i = (val div 256) mod 256 ^ i * 256 + val mod 256"
    using mod_mult2_eq [of val 256 "256 ^ i"] by simp
  then show ?case using 2 by (simp add: fromBigEndian_Cons algebra_simps)
qed simp

lemma less_bytesRequired: "val < 256 ^ bytesRequired val"
proof (induction val rule: bytesRequired.induct)
  case (1 v)
  show ?case
  proof (cases "v = 0")
    case False
    then have "v div 256 < 256 ^ bytesRequired (v div 256)" using 1 by simp
    then have "v < 256 * 256 ^ bytesRequired (v div 256)" by (simp add: div_less_iff_less_mult mult.commute)
    then show ?thesis using False by (subst bytesRequired.simps) simp
  qed (simp add: bytesRequired.simps)
qed

lemma length_toBigEndian: "length (toBigEndian i val acc) = i + length acc"
  by (induction i val acc rule: toBigEndian.induct) auto

lemma compact_value:
  "fromBigEndian (toCompactBigEndian val mn) = val
   \<and> length (toCompactBigEndian val mn) = max mn (bytesRequired val)"
proof -
  have "256 ^ bytesRequired val \<le> (256::nat) ^ max mn (bytesRequired val)" by (intro power_increasing) auto
  then have "val < 256 ^ max mn (bytesRequired val)" using less_bytesRequired [of val] by linarith
  then show ?thesis
    by (simp add: toCompactBigEndian_def from_toBigEndian length_toBigEndian fromBigEndian_Nil)
qed

text \<open>
  The big-endian form of a number reads back as the number, and it is as short as the requested
  minimum and the value allow.
\<close>

theorem fromBigEndian_toCompact:
  "fromBigEndian (toCompactBigEndian val mn) = val
   \<and> length (toCompactBigEndian val mn) = max mn (bytesRequired val)"
  by (rule compact_value)

section \<open>The data field\<close>

text \<open>
  \<open>dataToHexString\<close> writes the bytes to a string stream and reads the stream back with \<open>>>\<close>, after
  every 31st byte and at the end. \<open>>>\<close> skips white space and reads up to the next white space; what
  it does not read stays in the stream. When nothing is left it stores nothing, and the target
  string is empty at each read.
\<close>

definition stream_word :: "string \<Rightarrow> string \<times> string" where
  "stream_word buf =
     (let b = dropWhile is_space buf
      in (takeWhile (\<lambda>c. \<not> is_space c) b, dropWhile (\<lambda>c. \<not> is_space c) b))"

fun data_loop :: "string \<Rightarrow> nat \<Rightarrow> string \<Rightarrow> string \<Rightarrow> string" where
  "data_loop [] n buf res2 = res2 @ fst (stream_word buf)"
| "data_loop (ele # es) n buf res2 =
     (if n + 1 > 30
      then data_loop es 0 (snd (stream_word (buf @ [ele]))) (res2 @ fst (stream_word (buf @ [ele])))
      else data_loop es (n + 1) (buf @ [ele]) res2)"

definition dataToHexString :: "string \<Rightarrow> string" where
  "dataToHexString bs = data_loop bs 0 [] []"

lemma stream_word_solid: "\<forall>c \<in> set buf. \<not> is_space c \<Longrightarrow> stream_word buf = (buf, [])"
  by (cases buf) (auto simp: stream_word_def Let_def takeWhile_eq_all_conv dropWhile_eq_Nil_conv)

lemma data_loop_solid:
  "\<forall>c \<in> set es \<union> set buf. \<not> is_space c \<Longrightarrow> data_loop es n buf res2 = res2 @ buf @ es"
  by (induction es n buf res2 rule: data_loop.induct) (auto simp: stream_word_solid)

lemma dataToHexString_solid: "\<forall>c \<in> set bs. \<not> is_space c \<Longrightarrow> dataToHexString bs = bs"
  by (simp add: dataToHexString_def data_loop_solid)

text \<open>
  A data field without white space is read back unchanged, whatever its length.
\<close>

theorem dataToHexString_id:
  assumes "\<forall>c \<in> set bs. \<not> is_space c"
  shows "dataToHexString bs = bs"
  using assms by (rule dataToHexString_solid)

lemma dataToHexString_id_witness: "dataToHexString ''0x444555666|a_b|t1|'' = ''0x444555666|a_b|t1|''"
  by (rule dataToHexString_id) code_simp

text \<open>White space loses data: of a short field only the first word survives.\<close>

lemma dataToHexString_space: "dataToHexString ''a b c'' = ''a''"
  by code_simp

lemma dataToHexString_digits:
  "\<forall>c \<in> set bs. is_digit c \<or> separator c \<Longrightarrow> dataToHexString bs = bs"
  by (rule dataToHexString_solid) (auto simp: is_digit_def is_space_def separator_def)

text \<open>\<open>std::string::find\<close> and the type of a transaction; some branches cut the text at the label.\<close>

fun find_sub :: "string \<Rightarrow> string \<Rightarrow> nat option" where
  "find_sub [] pat = (if pat = [] then Some 0 else None)"
| "find_sub (c # cs) pat =
     (if take (length pat) (c # cs) = pat then Some 0 else map_option Suc (find_sub cs pat))"

definition label_tests :: "(string \<times> int \<times> bool) list" where
  "label_tests =
     [(''0x999000111'', 1, True), (''0x111222333'', 2, True), (''0x777888999'', 4, False),
      (''0x000111222'', 5, False), (''0x333444555'', 6, False), (''0x666777888'', 7, False),
      (''0x444555666'', 8, True), (''0x222333444'', 9, False), (''0x000000001'', 10, False),
      (''0x000000002'', 11, False)]"

fun first_label :: "(string \<times> int \<times> bool) list \<Rightarrow> string \<Rightarrow> int \<times> string" where
  "first_label [] s = (0, s)"
| "first_label ((l, ty, cut_there) # ts) s =
     (case find_sub s l of
        Some index \<Rightarrow> (ty, if cut_there then drop index s else s)
      | None \<Rightarrow> first_label ts s)"

definition checkTransactionType :: "string \<Rightarrow> int \<times> string" where
  "checkTransactionType hex_m_data_str = first_label label_tests hex_m_data_str"

lemma find_sub_prefix: "find_sub (l @ s) l = Some 0"
  by (cases "l @ s") (auto, metis append_eq_conv_conj)

lemma find_sub_None:
  "find_sub s pat = None \<longleftrightarrow> (\<nexists>xs ys. s = xs @ pat @ ys)"
proof (induction s)
  case (Cons c cs)
  have "(\<exists>xs ys. c # cs = xs @ pat @ ys) \<longleftrightarrow>
      take (length pat) (c # cs) = pat \<or> (\<exists>xs ys. cs = xs @ pat @ ys)" (is "?L = ?R")
  proof
    assume ?L
    then obtain xs ys where e: "c # cs = xs @ pat @ ys" by blast
    show ?R
    proof (cases xs)
      case Nil then show ?thesis using e by simp
    next
      case (Cons x xs') then show ?thesis using e by auto
    qed
  next
    assume ?R
    then show ?L
    proof
      assume "take (length pat) (c # cs) = pat"
      then have "c # cs = [] @ pat @ drop (length pat) (c # cs)" by (metis append_Nil append_take_drop_id)
      then show ?L by blast
    next
      assume "\<exists>xs ys. cs = xs @ pat @ ys"
      then obtain xs ys where "cs = xs @ pat @ ys" by blast
      then have "c # cs = (c # xs) @ pat @ ys" by simp
      then show ?L by blast
    qed
  qed
  then show ?case using Cons by simp
qed simp

end
