(* ===== verification/ExecuterState.thy ===== *)
theory ExecuterState
  imports ShardTree ShardHierarchy StateStats BlockingQueues HexCodec
begin

text \<open>
  The state of \<open>TransactionExecuter\<close> (\<open>libplugin/TransactionExecuter.h\<close>), its guarded accessors and
  the functions its constructor runs (\<open>libplugin/TransactionExecuter.cpp\<close>). \<open>environment\<close> holds what
  an executer reads but does not own: the tokenizer, the shard's id, the shard tree, the node's
  key, the transaction decoder, the clock and the files. Messages handed to the network and
  transactions handed to the node's own RPC are appended to \<open>outbox\<close>; the calls of \<open>executeTx\<close>,
  whose virtual-machine part is commented out, are appended to \<open>executions\<close>. An \<open>int\<close> of the source
  is an unbounded integer: its counters and ids stay far below the overflow of 32 bits.
\<close>

record environment =
  e_split :: tokenizer
  e_group :: int
  e_shard_number :: int
  e_tree :: hiera_tree
  e_hierarchy :: hierarchy
  e_nodeIdHex :: string
  e_decode :: "string \<Rightarrow> transaction result"
  e_now :: int
  e_simulateTx :: "string option"
  e_distribution_file :: "string list option"
  e_rules_file :: "string list option"

text \<open>
  The protobuf messages between shards, with the fields the code sets; \<open>OtherMsg\<close> stands for the messages
  that are queued and never read.
\<close>

datatype payload =
    RequestForMasterShardMsg int int string string
  | MasterShardPrePrepareMsg string string string string int
  | MasterShardPrepareMsg string string string string int
  | MasterShardCommitMsg string string string string int
  | CommitResponseToCoordinator int string
  | BatchDistributedTxMsg int int string string string
  | csTxRWset string string string int
  | ShuffleStateValue string string string
  | ShuffleTxRlps string
  | OtherMsg string string

datatype effect = SendTo string payload | RawTransaction int string

record executer =
  upper_groupids :: "int list"
  lower_groupids :: "int list"
  maxEpochIds :: "int \<rightharpoonup> int"
  m_subTxsContainers :: "(int, cachedSubTxsContainer) omap"
  m_precessedEpochIds :: "string \<rightharpoonup> int"
  m_cachedBatchTxs :: "string \<rightharpoonup> (int, string) omap"
  m_blockingTxQueues :: "string \<rightharpoonup> BlockingTxQueue"
  m_txQueues :: "string \<rightharpoonup> transactionWithReadWriteSet list"
  m_LRU_StatesInfo :: LRU_StatesInfo
  m_readWriteSetManager :: ReadWriteSetManager
  m_valid_state :: "string \<rightharpoonup> bool"
  m_master_state :: "string \<rightharpoonup> bool"
  m_masterChangedKey :: "string \<rightharpoonup> int"
  m_lockedStateKey :: "string set"
  states_need_shuffle :: "string \<rightharpoonup> string list"
  transfered_states :: "string \<rightharpoonup> string"
  other_blocked_states :: "string \<rightharpoonup> int"
  m_addedTransferedStates :: "string \<rightharpoonup> string"
  m_shuffleValue_destshardid :: "string \<rightharpoonup> int"
  m_shuffleTxRLP_destshardid :: "string \<rightharpoonup> int"
  m_stateTransfer_Rules :: "(string, string list) omap"
  blockedTxs :: "string list BlockingQueue"
  m_blocked_intraTxContents :: "string list"
  m_blocked_originTxRlps :: "string list"
  m_blocked_originTxRlps_Queues :: "int \<rightharpoonup> BlockingTxQueue option"
  masterwriteBlocked :: bool
  vicewriteBlocked :: bool
  stateChangeRequestId :: int
  stateChangeRequestBatchId :: int
  requestedStates :: "string set"
  m_sendedrwsetTx :: "string set"
  m_committed_intershardTxid :: "(int, string list) omap"
  m_processed_intrashardTxNum :: int
  m_processed_intershardTxNum :: int
  m_txid_to_starttime :: "(string, int) omap"
  m_txid_to_endtime :: "(string, int) omap"
  simulatedTx :: "transaction option"
  outbox :: "effect list"
  executions :: "(transaction option \<times> bool) list"

definition new_executer :: executer where
  "new_executer = \<lparr>upper_groupids = [], lower_groupids = [], maxEpochIds = Map.empty,
     m_subTxsContainers = [], m_precessedEpochIds = Map.empty, m_cachedBatchTxs = Map.empty,
     m_blockingTxQueues = Map.empty, m_txQueues = Map.empty, m_LRU_StatesInfo = new_LRU_StatesInfo,
     m_readWriteSetManager = new_ReadWriteSetManager, m_valid_state = Map.empty,
     m_master_state = Map.empty, m_masterChangedKey = Map.empty, m_lockedStateKey = {},
     states_need_shuffle = Map.empty, transfered_states = Map.empty, other_blocked_states = Map.empty,
     m_addedTransferedStates = Map.empty, m_shuffleValue_destshardid = Map.empty,
     m_shuffleTxRLP_destshardid = Map.empty, m_stateTransfer_Rules = [], blockedTxs = new_BlockingQueue,
     m_blocked_intraTxContents = [], m_blocked_originTxRlps = [],
     m_blocked_originTxRlps_Queues = Map.empty, masterwriteBlocked = False, vicewriteBlocked = False,
     stateChangeRequestId = 0, stateChangeRequestBatchId = 0, requestedStates = {}, m_sendedrwsetTx = {},
     m_committed_intershardTxid = [], m_processed_intrashardTxNum = 0, m_processed_intershardTxNum = 0,
     m_txid_to_starttime = [], m_txid_to_endtime = [], simulatedTx = None, outbox = [], executions = []\<rparr>"

section \<open>Accessors\<close>

definition emit :: "effect \<Rightarrow> executer \<Rightarrow> executer" where
  "emit e s = s\<lparr>outbox := outbox s @ [e]\<rparr>"

definition emit_all :: "string list \<Rightarrow> payload \<Rightarrow> executer \<Rightarrow> executer" where
  "emit_all nodes p s = fold (\<lambda>n. emit (SendTo n p)) nodes s"

definition forward_node :: "environment \<Rightarrow> bool result" where
  "forward_node env = is_forward_node (e_tree env) (e_group env) (e_nodeIdHex env)"

definition add_processedTxNum_by :: "int \<Rightarrow> executer \<Rightarrow> executer" where
  "add_processedTxNum_by number s =
     s\<lparr>m_processed_intrashardTxNum := m_processed_intrashardTxNum s + number\<rparr>"

definition add_processedTxNum :: "executer \<Rightarrow> executer" where
  "add_processedTxNum s = s\<lparr>m_processed_intrashardTxNum := m_processed_intrashardTxNum s + 1\<rparr>"

definition get_processedTxNum :: "executer \<Rightarrow> int" where
  "get_processedTxNum s = m_processed_intrashardTxNum s"

definition add_intershardTxid :: "int \<Rightarrow> string \<Rightarrow> executer \<Rightarrow> executer" where
  "add_intershardTxid coordinator intershardTxid s =
     s\<lparr>m_committed_intershardTxid :=
         (case map_of (m_committed_intershardTxid s) coordinator of
            Some ids \<Rightarrow> om_set coordinator (ids @ [intershardTxid]) (m_committed_intershardTxid s)
          | None \<Rightarrow> om_insert coordinator [intershardTxid] (m_committed_intershardTxid s))\<rparr>"

text \<open>\<open>get_committed_intershardTxid\<close> clears the member and leaves its argument as it is.\<close>

definition get_committed_intershardTxid :: "'m \<Rightarrow> executer \<Rightarrow> 'm \<times> executer" where
  "get_committed_intershardTxid committed s = (committed, s\<lparr>m_committed_intershardTxid := []\<rparr>)"

definition isEmpty_committed_intershardTxid :: "executer \<Rightarrow> bool" where
  "isEmpty_committed_intershardTxid s \<longleftrightarrow> length (m_committed_intershardTxid s) = 0"

definition clear_committed_intershardTxid :: "executer \<Rightarrow> executer" where
  "clear_committed_intershardTxid s = s\<lparr>m_committed_intershardTxid := []\<rparr>"

definition add_otherState :: "string \<Rightarrow> executer \<Rightarrow> executer" where
  "add_otherState rwkey s = s\<lparr>other_blocked_states := bump (other_blocked_states s) rwkey\<rparr>"

definition count_otherState :: "executer \<Rightarrow> string \<Rightarrow> int" where
  "count_otherState s rwkey = (case other_blocked_states s rwkey of None \<Rightarrow> 0 | Some n \<Rightarrow> n)"

definition delete_otherState :: "string \<Rightarrow> executer \<Rightarrow> executer result" where
  "delete_otherState rwkey s =
     rbind (map_at (other_blocked_states s) rwkey) (\<lambda>number.
       Inr (if number \<noteq> 0
            then s\<lparr>other_blocked_states := (other_blocked_states s)(rwkey \<mapsto> number - 1)\<rparr> else s))"

definition add_blocked_intraTxContent :: "string \<Rightarrow> executer \<Rightarrow> executer" where
  "add_blocked_intraTxContent c s = s\<lparr>m_blocked_intraTxContents := m_blocked_intraTxContents s @ [c]\<rparr>"

definition front_blocked_intraTxContent :: "executer \<Rightarrow> string result" where
  "front_blocked_intraTxContent s = vec_at (m_blocked_intraTxContents s) 0"

definition pop_blocked_intraTxContent :: "executer \<Rightarrow> executer" where
  "pop_blocked_intraTxContent s = s\<lparr>m_blocked_intraTxContents := tl (m_blocked_intraTxContents s)\<rparr>"

definition add_blocked_originTxRlps :: "string \<Rightarrow> executer \<Rightarrow> executer" where
  "add_blocked_originTxRlps c s = s\<lparr>m_blocked_originTxRlps := m_blocked_originTxRlps s @ [c]\<rparr>"

definition front_blocked_originTxRlps :: "executer \<Rightarrow> string result" where
  "front_blocked_originTxRlps s = vec_at (m_blocked_originTxRlps s) 0"

definition pop_blocked_originTxRlps :: "executer \<Rightarrow> executer" where
  "pop_blocked_originTxRlps s = s\<lparr>m_blocked_originTxRlps := tl (m_blocked_originTxRlps s)\<rparr>"

definition add_shuffleTxRLP_destshardid :: "string \<Rightarrow> int \<Rightarrow> executer \<Rightarrow> executer" where
  "add_shuffleTxRLP_destshardid statekey dest s =
     s\<lparr>m_shuffleTxRLP_destshardid := map_insert (m_shuffleTxRLP_destshardid s) statekey dest\<rparr>"

definition add_shuffleValue_destshardid :: "string \<Rightarrow> int \<Rightarrow> executer \<Rightarrow> executer" where
  "add_shuffleValue_destshardid statekey dest s =
     s\<lparr>m_shuffleValue_destshardid := map_insert (m_shuffleValue_destshardid s) statekey dest\<rparr>"

text \<open>
  The two getters copy a map into the empty map of the caller; \<open>getValueByStateAddress\<close> always
  answers 1 (the reading of the state is commented out).
\<close>

definition get_shuffleTxRLP_destshardid :: "executer \<Rightarrow> (string \<rightharpoonup> int)" where
  "get_shuffleTxRLP_destshardid s = m_shuffleTxRLP_destshardid s"

definition get_shuffleValue_destshardid :: "executer \<Rightarrow> (string \<rightharpoonup> int)" where
  "get_shuffleValue_destshardid s = m_shuffleValue_destshardid s"

definition getValueByStateAddress :: "string \<Rightarrow> string" where
  "getValueByStateAddress rwkey = ''1''"

definition executeTx :: "transaction option \<Rightarrow> bool \<Rightarrow> executer \<Rightarrow> executer" where
  "executeTx tx deploytx s = s\<lparr>executions := executions s @ [(tx, deploytx)]\<rparr>"

definition executeDeployContractTx :: "transaction \<Rightarrow> executer \<Rightarrow> executer" where
  "executeDeployContractTx tx s = add_processedTxNum (executeTx (Some tx) True s)"

lemma emit_all_outbox: "emit_all nodes p s = s\<lparr>outbox := outbox s @ map (\<lambda>n. SendTo n p) nodes\<rparr>"
  unfolding emit_all_def by (induction nodes arbitrary: s) (simp_all add: emit_def)

section \<open>Construction\<close>

definition init_upperlower_shardids :: "environment \<Rightarrow> string \<Rightarrow> string \<Rightarrow> executer \<Rightarrow> executer" where
  "init_upperlower_shardids env upper_shardids lower_shardids s =
     (let s1 = (if upper_shardids \<noteq> ''N/A''
                then s\<lparr>upper_groupids := upper_groupids s @ map atoi (e_split env CHR '','' upper_shardids)\<rparr>
                else s)
      in if lower_shardids \<noteq> ''N/A''
         then s1\<lparr>lower_groupids := lower_groupids s1 @ map atoi (e_split env CHR '','' lower_shardids)
                                    @ [e_group env]\<rparr>
         else s1)"

definition init_processedEpochIds :: "environment \<Rightarrow> string \<Rightarrow> executer \<Rightarrow> executer" where
  "init_processedEpochIds env upper_shardids s =
     s\<lparr>m_precessedEpochIds :=
         fold (\<lambda>shardid m. map_insert m shardid 0) (e_split env CHR '','' upper_shardids) (m_precessedEpochIds s)\<rparr>"

definition init_blockingTxQueues :: "environment \<Rightarrow> string \<Rightarrow> executer \<Rightarrow> executer" where
  "init_blockingTxQueues env upper_shardids s =
     fold (\<lambda>shardid s. s\<lparr>m_blockingTxQueues := map_insert (m_blockingTxQueues s) shardid new_BlockingTxQueue,
                         m_txQueues := map_insert (m_txQueues s) shardid []\<rparr>)
          (e_split env CHR '','' upper_shardids) s"

definition init_subTxsContainers :: "environment \<Rightarrow> executer \<Rightarrow> executer result" where
  "init_subTxsContainers env s =
     (if length (lower_groupids s) \<noteq> 0 then
        (let s1 = s\<lparr>maxEpochIds := fold (\<lambda>g m. map_insert m g 1) (lower_groupids s) (maxEpochIds s)\<rparr>
         in rfold (\<lambda>groupid s. rbind (map_at (maxEpochIds s) groupid) (\<lambda>epochId.
                Inr (s\<lparr>m_subTxsContainers := om_insert groupid
                       (new_cachedSubTxsContainer (e_group env) 0 epochId groupid '''' '''')
                       (m_subTxsContainers s)\<rparr>))) (lower_groupids s1) s1)
      else Inr s)"

definition init_simulateTx :: "environment \<Rightarrow> executer \<Rightarrow> executer result" where
  "init_simulateTx env s =
     (case e_simulateTx env of
        None \<Rightarrow> Inr s
      | Some txrlp \<Rightarrow> rbind (e_decode env txrlp) (\<lambda>tx. Inr (s\<lparr>simulatedTx := Some tx\<rparr>)))"

definition init_blocked_originTxRlps_Queues :: "environment \<Rightarrow> executer \<Rightarrow> executer" where
  "init_blocked_originTxRlps_Queues env s =
     s\<lparr>m_blocked_originTxRlps_Queues :=
         fold (\<lambda>i m. if i \<noteq> e_group env then map_insert m i None else m) [1..e_shard_number env]
              (m_blocked_originTxRlps_Queues s)\<rparr>"

definition new_TransactionExecuter :: "environment \<Rightarrow> string \<Rightarrow> string \<Rightarrow> executer result" where
  "new_TransactionExecuter env upper_shardids lower_shardids =
     (let s1 = init_upperlower_shardids env upper_shardids lower_shardids new_executer;
          s2 = init_processedEpochIds env upper_shardids s1;
          s3 = init_blockingTxQueues env upper_shardids s2
      in rbind (init_subTxsContainers env s3) (\<lambda>s4.
           init_simulateTx env (init_blocked_originTxRlps_Queues env s4)))"

text \<open>The three functions whose calls the constructor comments out.\<close>

definition load_statekeys_distribution :: "environment \<Rightarrow> executer \<Rightarrow> executer result" where
  "load_statekeys_distribution env s =
     rbind (case e_distribution_file env of None \<Rightarrow> Inr ([], [])
            | Some ls \<Rightarrow> rfold (\<lambda>buff (valid_state, invalid_state).
                let items = e_split env CHR '','' buff
                in rbind (vec_at items 0) (\<lambda>state. rbind (vec_at items 1) (\<lambda>shardid.
                     Inr (if shardid = to_string (e_group env) then (valid_state @ [state], invalid_state)
                          else (valid_state, invalid_state @ [state]))))) ls ([], []))
       (\<lambda>(valid_state, invalid_state).
          let put = (\<lambda>b st s. s\<lparr>m_valid_state := map_insert (m_valid_state s) st b,
                                 m_master_state := map_insert (m_master_state s) st b\<rparr>)
          in Inr (fold (put False) invalid_state (fold (put True) valid_state s)))"

definition load_state_transfer_rule :: "environment \<Rightarrow> executer \<Rightarrow> executer result" where
  "load_state_transfer_rule env s =
     (case e_rules_file env of None \<Rightarrow> Inr s
      | Some ls \<Rightarrow> rfold (\<lambda>buff s.
          let items = e_split env CHR '','' buff
          in rbind (vec_at items 0) (\<lambda>coordinator. rbind (vec_at items 1) (\<lambda>source.
             rbind (vec_at items 2) (\<lambda>destin. rbind (vec_at items 3) (\<lambda>statekey.
               let rule = source @ ''|'' @ destin @ ''|'' @ statekey
               in Inr (s\<lparr>m_stateTransfer_Rules :=
                      (case map_of (m_stateTransfer_Rules s) coordinator of
                         Some rules \<Rightarrow> om_set coordinator (rules @ [rule]) (m_stateTransfer_Rules s)
                       | None \<Rightarrow> om_insert coordinator [rule] (m_stateTransfer_Rules s))\<rparr>)))))) ls s)"

definition apply_transfer_rule :: "environment \<Rightarrow> string \<Rightarrow> string \<Rightarrow> executer \<Rightarrow> executer result" where
  "apply_transfer_rule env coordinator rule s =
     (let items = e_split env CHR ''_'' rule
      in rbind (vec_at items 0) (\<lambda>source. rbind (vec_at items 1) (\<lambda>destin. rbind (vec_at items 2) (\<lambda>key.
           Inr (if e_group env = atoi coordinator then
                  s\<lparr>m_masterChangedKey := map_insert (m_masterChangedKey s) key 1\<rparr>
                else if e_group env = atoi destin then
                  s\<lparr>m_valid_state := map_insert (m_valid_state s) key True,
                    m_master_state := map_insert (m_master_state s) key True,
                    m_addedTransferedStates := map_insert (m_addedTransferedStates s) key source,
                    m_shuffleValue_destshardid := map_insert (m_shuffleValue_destshardid s) key (atoi source)\<rparr>
                else if e_group env = atoi source then
                  s\<lparr>m_valid_state := map_insert (m_valid_state s) key True,
                    m_master_state := map_insert (m_master_state s) key False,
                    transfered_states := map_insert (transfered_states s) key ''1'',
                    m_shuffleTxRLP_destshardid := map_insert (m_shuffleTxRLP_destshardid s) key (atoi destin)\<rparr>
                else s)))))"

definition state_right_transfer_simulation :: "environment \<Rightarrow> executer \<Rightarrow> executer result" where
  "state_right_transfer_simulation env s =
     rfold (\<lambda>(coordinator, rules). rfold (apply_transfer_rule env coordinator) rules)
       (m_stateTransfer_Rules s) s"

text \<open>An environment: the nine-shard tree seen from one shard, with a decoder that reads the id of a transaction out of its input.\<close>

definition decode_plain :: "string \<Rightarrow> transaction result" where
  "decode_plain r = Inr \<lparr>tx_data = ''tx|'' @ r, tx_rlp = r, tx_hash = r\<rparr>"

definition env_of :: "int \<Rightarrow> hiera_tree \<Rightarrow> string \<Rightarrow> environment" where
  "env_of g t node = \<lparr>e_split = cut, e_group = g, e_shard_number = hiera_shard_number t, e_tree = t,
     e_hierarchy = Hierarchical_Structure (hiera_shard_number t), e_nodeIdHex = node,
     e_decode = decode_plain, e_now = 0, e_simulateTx = None, e_distribution_file = None, e_rules_file = None\<rparr>"

text \<open>A tree of three shards with one node each; shard 4 coordinates 1 and 2.\<close>

definition example_tree :: hiera_tree where
  "example_tree = new_HieraShardTree\<lparr>root := ShardNode 4 [''n4''] [ShardNode 1 [''n1''] [], ShardNode 2 [''n2''] []]\<rparr>"

end
