(* ===== verification/ExecuterInit.thy ===== *)
theory ExecuterInit
  imports ExecuterState
begin

text \<open>
  The construction of an executer: what the strings of the shard tree become in its state, and the
  transfer rules that \<open>load_state_transfer_rule\<close> writes and \<open>state_right_transfer_simulation\<close> reads.
\<close>

section \<open>An executer constructed from the shard tree\<close>

definition lower_ids :: "cursor \<Rightarrow> int list" where
  "lower_ids c = (if is_leaf (fst c) then [] else internal_groupId (fst c) # get_all_child (fst c))"

lemma upper_string_not_NA:
  assumes "internal_groupId (fst c) = g"
  shows "upper_string c g \<noteq> ''N/A''"
proof -
  have free: "CHR ''N'' \<notin> set (join_with '','' (map to_string is))" for "is"
    by (induction "is") (auto simp: join_with_Cons is_digit_def dest: to_string_chars)
  have "CHR ''N'' \<notin> set (upper_string c g)" by (simp only: upper_string_ids [OF assms] free not_False_eq_True)
  then show ?thesis by auto
qed

lemma get_all_child_nonempty: "\<not> is_leaf s \<Longrightarrow> get_all_child s \<noteq> []"
  by (cases s; cases "children s") (auto simp: is_leaf_def)

lemma lower_string_ids:
  assumes "internal_groupId (fst c) = g"
  shows "lower_string c g = (if is_leaf (fst c) then ''N/A'' else join_with '','' (map to_string (lower_ids c)))"
  using assms get_all_child_nonempty
  by (auto simp: lower_string_def lower_ids_def is_leaf_def join_with_Cons)

lemma lower_string_NA_iff:
  assumes "internal_groupId (fst c) = g"
  shows "lower_string c g = ''N/A'' \<longleftrightarrow> is_leaf (fst c)"
proof -
  have free: "CHR ''N'' \<notin> set (join_with '','' (map to_string is))" for "is"
    by (induction "is") (auto simp: join_with_Cons is_digit_def dest: to_string_chars)
  then have "join_with '','' (map to_string is) \<noteq> ''N/A''" for "is"
    by (metis list.set_intros(1))
  then show ?thesis using lower_string_ids [OF assms] by auto
qed

lemma fold_map_insert:
  "fold (\<lambda>k m. map_insert m k v) ks m k = (if m k = None \<and> k \<in> set ks then Some v else m k)"
  by (induction ks arbitrary: m) (auto simp: map_insert_lookup)

lemma init_blocking_fold:
  "fold (\<lambda>shardid s. s\<lparr>m_blockingTxQueues := map_insert (m_blockingTxQueues s) shardid q,
                         m_txQueues := map_insert (m_txQueues s) shardid []\<rparr>) ks s
   = s\<lparr>m_blockingTxQueues := fold (\<lambda>k m. map_insert m k q) ks (m_blockingTxQueues s),
       m_txQueues := fold (\<lambda>k m. map_insert m k []) ks (m_txQueues s)\<rparr>"
  by (induction ks arbitrary: s) simp_all

lemma containers_fold:
  assumes "\<And>g. g \<in> set gs \<Longrightarrow> maxEpochIds s g = Some 1"
  shows "rfold (\<lambda>groupid s. rbind (map_at (maxEpochIds s) groupid) (\<lambda>epochId.
                Inr (s\<lparr>m_subTxsContainers := om_insert groupid
                       (new_cachedSubTxsContainer src 0 epochId groupid '''' '''')
                       (m_subTxsContainers s)\<rparr>))) gs s
   = Inr (s\<lparr>m_subTxsContainers :=
        fold (\<lambda>g. om_insert g (new_cachedSubTxsContainer src 0 1 g '''' '''')) gs (m_subTxsContainers s)\<rparr>)"
  using assms by (induction gs arbitrary: s) simp_all

lemma containers_map:
  "om_ok m \<Longrightarrow> om_ok (fold (\<lambda>g. om_insert g (f g)) gs m)
    \<and> map_of (fold (\<lambda>g. om_insert g (f g)) gs m) l
      = (if map_of m l = None \<and> l \<in> set gs then Some (f l) else map_of m l)"
  by (induction gs arbitrary: m) (auto simp: map_insert_lookup)

lemma constructed_from_tree:
  assumes sp: "splits_ok (e_split env)"
    and c: "get_shard_by_internal_groupId (e_tree env) (e_group env) = Some c"
    and strings: "get_shard_info_by_internal_groupId (e_tree env) (e_group env) = Inr (upper, lower)"
    and sim: "e_simulateTx env = None"
  shows "\<exists>s. new_TransactionExecuter env upper lower = Inr s
    \<and> upper_groupids s = upper_ids c
    \<and> lower_groupids s = (if is_leaf (fst c) then [] else lower_ids c @ [e_group env])
    \<and> (\<forall>u \<in> set (upper_ids c). m_precessedEpochIds s (to_string u) = Some 0
          \<and> m_blockingTxQueues s (to_string u) = Some new_BlockingTxQueue
          \<and> m_txQueues s (to_string u) = Some [])
    \<and> om_ok (m_subTxsContainers s)
    \<and> (\<forall>l. map_of (m_subTxsContainers s) l =
          (if l \<in> set (lower_ids c)
           then Some (new_cachedSubTxsContainer (e_group env) 0 1 l '''' '''') else None))"
proof -
  let ?g = "e_group env"
  have id: "internal_groupId (fst c) = ?g" using get_shard_linked [of "e_tree env" ?g] c by (cases c) auto
  have upper: "upper = upper_string c ?g" and lower: "lower = lower_string c ?g"
    using strings c by (auto simp: get_shard_info_by_internal_groupId_def shard_deref_def)
  have us: "e_split env CHR '','' upper = map to_string (upper_ids c)"
    unfolding upper by (rule split_upper [OF sp id])
  have ls: "e_split env CHR '','' lower = map to_string (lower_ids c)" if "\<not> is_leaf (fst c)"
    using that splits_numbers [OF sp, of "CHR '',''" "lower_ids c"]
    by (simp add: lower lower_string_ids [OF id] lower_ids_def separator_def)
  define s3 where "s3 = init_blockingTxQueues env upper (init_processedEpochIds env upper
      (init_upperlower_shardids env upper lower new_executer))"
  have s3: "upper_groupids s3 = upper_ids c"
    "lower_groupids s3 = (if is_leaf (fst c) then [] else lower_ids c @ [?g])"
    "m_precessedEpochIds s3 = fold (\<lambda>k m. map_insert m k 0) (map to_string (upper_ids c)) Map.empty"
    "m_blockingTxQueues s3 = fold (\<lambda>k m. map_insert m k new_BlockingTxQueue) (map to_string (upper_ids c)) Map.empty"
    "m_txQueues s3 = fold (\<lambda>k m. map_insert m k []) (map to_string (upper_ids c)) Map.empty"
    "m_subTxsContainers s3 = []" "maxEpochIds s3 = Map.empty"
    using ls lower_string_NA_iff [OF id] upper_string_not_NA [OF id]
    by (simp_all add: s3_def init_blockingTxQueues_def init_blocking_fold us init_processedEpochIds_def
        init_upperlower_shardids_def Let_def new_executer_def upper [symmetric] lower [symmetric] comp_def)
  let ?s4 = "s3\<lparr>maxEpochIds := fold (\<lambda>g m. map_insert m g 1) (lower_groupids s3) (maxEpochIds s3)\<rparr>"
  let ?cs = "fold (\<lambda>g. om_insert g (new_cachedSubTxsContainer ?g 0 1 g '''' '''')) (lower_groupids s3) []"
  have sub: "\<exists>m. init_subTxsContainers env s3 = Inr (s3\<lparr>maxEpochIds := m, m_subTxsContainers := ?cs\<rparr>)"
  proof (cases "lower_groupids s3 = []")
    case True
    then show ?thesis
      by (intro exI [of _ "maxEpochIds s3"]) (simp add: init_subTxsContainers_def s3(6) [symmetric] del: s3)
  next
    case False
    have "maxEpochIds ?s4 g = Some 1" if "g \<in> set (lower_groupids s3)" for g
      using that by (simp add: fold_map_insert s3(7))
    from containers_fold [of "lower_groupids s3" ?s4, OF this] False s3(6) show ?thesis
      by (auto simp: init_subTxsContainers_def)
  qed
  then obtain m where sub: "init_subTxsContainers env s3 = Inr (s3\<lparr>maxEpochIds := m, m_subTxsContainers := ?cs\<rparr>)" ..
  have cs: "om_ok ?cs" "\<And>l. map_of ?cs l = (if l \<in> set (lower_groupids s3)
      then Some (new_cachedSubTxsContainer ?g 0 1 l '''' '''') else None)"
    using containers_map [of "[]" "\<lambda>g. new_cachedSubTxsContainer ?g 0 1 g '''' ''''" "lower_groupids s3"] by auto
  have low: "is_leaf (fst c) \<Longrightarrow> lower_ids c = []" "\<not> is_leaf (fst c) \<Longrightarrow> ?g \<in> set (lower_ids c)"
    using id by (simp_all add: lower_ids_def)
  show ?thesis
    using sub cs s3(1-5) by (simp add: new_TransactionExecuter_def Let_def s3_def [symmetric] sim
        init_simulateTx_def init_blocked_originTxRlps_Queues_def fold_map_insert low)
qed

text \<open>
  An executer constructed with the strings that the shard tree prints for its own shard knows the
  tree: its upper shards are the ids above it, its lower shards the ids below it with its own id at
  both ends, each upper shard has epoch 0 and empty queues, and exactly the lower shards have an
  empty container at epoch 1.
\<close>

theorem new_TransactionExecuter_from_tree:
  assumes sp: "splits_ok (e_split env)"
    and c: "get_shard_by_internal_groupId (e_tree env) (e_group env) = Some c"
    and strings: "get_shard_info_by_internal_groupId (e_tree env) (e_group env) = Inr (upper, lower)"
    and sim: "e_simulateTx env = None"
  shows "\<exists>s. new_TransactionExecuter env upper lower = Inr s
    \<and> upper_groupids s = upper_ids c
    \<and> lower_groupids s = (if is_leaf (fst c) then [] else lower_ids c @ [e_group env])
    \<and> (\<forall>u \<in> set (upper_ids c). m_precessedEpochIds s (to_string u) = Some 0
          \<and> m_blockingTxQueues s (to_string u) = Some new_BlockingTxQueue
          \<and> m_txQueues s (to_string u) = Some [])
    \<and> om_ok (m_subTxsContainers s)
    \<and> (\<forall>l. map_of (m_subTxsContainers s) l =
          (if l \<in> set (lower_ids c)
           then Some (new_cachedSubTxsContainer (e_group env) 0 1 l '''' '''') else None))"
  using assms by (rule constructed_from_tree)

lemma new_TransactionExecuter_from_tree_witness:
  "\<exists>s. new_TransactionExecuter (env_of 4 tree_9 ''n'') ''4,9'' ''4,1,2,3'' = Inr s
    \<and> upper_groupids s = [4, 9] \<and> lower_groupids s = [4, 1, 2, 3, 4]
    \<and> map_of (m_subTxsContainers s) 2 = Some (new_cachedSubTxsContainer 4 0 1 2 [] [])
    \<and> map_of (m_subTxsContainers s) 8 = None"
proof -
  have info: "get_shard_info_by_internal_groupId tree_9 4 = Inr (''4,9'', ''4,1,2,3'')" by code_simp
  have ids: "upper_ids (children root_9 ! 0, [root_9]) = [4, 9]"
    "lower_ids (children root_9 ! 0, [root_9]) = [4, 1, 2, 3]"
    "\<not> is_leaf (children root_9 ! 0)"
    by (simp_all add: upper_ids_def lower_ids_def is_leaf_def is_inter_def root_9_def)
  have env: "e_split (env_of 4 tree_9 ''n'') = cut" "e_tree (env_of 4 tree_9 ''n'') = tree_9"
    "e_group (env_of 4 tree_9 ''n'') = 4" "e_simulateTx (env_of 4 tree_9 ''n'') = None"
    by (simp_all add: env_of_def)
  show ?thesis
    using new_TransactionExecuter_from_tree [of "env_of 4 tree_9 ''n''", unfolded env,
        OF splits_ok_cut lookups_9(4) info refl]
    by (auto simp: ids)
qed

section \<open>Transfer rules\<close>

text \<open>
  \<open>load_state_transfer_rule\<close> joins the three parts of a rule with \<open>|\<close> and
  \<open>state_right_transfer_simulation\<close> splits it at \<open>_\<close>: a rule whose parts are free of \<open>_\<close> is one
  token and the access to its second part throws.
\<close>

lemma transfer_rule_unusable:
  assumes "splits_ok (e_split env)"
    and "CHR ''_'' \<notin> set source" and "CHR ''_'' \<notin> set destin" and "CHR ''_'' \<notin> set key"
  shows "apply_transfer_rule env coordinator (source @ ''|'' @ destin @ ''|'' @ key) s = Inl OutOfRange"
proof -
  have "e_split env CHR ''_'' (source @ ''|'' @ destin @ ''|'' @ key) = [source @ ''|'' @ destin @ ''|'' @ key]"
    using assms by (intro splits_single) auto
  then show ?thesis unfolding apply_transfer_rule_def by (simp add: vec_at_def)
qed

end
