(* ===== verification/EpochProcessing.thy ===== *)
theory EpochProcessing
  imports ExecuterState
begin

text \<open>
  How a shard processes the batches of sub-transactions its coordinators send
  (\<open>libplugin/TransactionExecuter.cpp\<close>): \<open>processOrderedBatchedSubInterShardTxs\<close> takes the
  epochs of a coordinator in order, \<open>processBatchSubInterShardTxs\<close> parses and reorders one epoch and
  \<open>processReorderedTxs\<close> cuts it into batches of equal participants and queues it.
\<close>

section \<open>Parsing an epoch\<close>

definition local_index :: "environment \<Rightarrow> string list \<Rightarrow> nat" where
  "local_index env shardIds =
     fold (\<lambda>i index. if atoi (shardIds ! i) = e_group env then i else index) [0..<length shardIds] 0"

definition minimum_shard :: "string list \<Rightarrow> int" where
  "minimum_shard shardIds =
     (case map atoi shardIds of [] \<Rightarrow> 0
      | x # xs \<Rightarrow> fold (\<lambda>shardid minimum. if minimum > shardid then shardid else minimum) xs x)"

text \<open>The id of the cross-shard transaction: the hex-encoded second item of the first sub-transaction.\<close>

definition read_txid :: "environment \<Rightarrow> transaction \<Rightarrow> string result" where
  "read_txid env subtx =
     rbind (vec_at (e_split env CHR ''|'' (dataToHexString (tx_data subtx))) 1) (\<lambda>item.
     rbind (fromHex False item) (\<lambda>testdata. Inr (dataToHexString testdata)))"

definition read_subtxs :: "environment \<Rightarrow> string list \<Rightarrow> (string \<times> transaction list) result" where
  "read_subtxs env rlps =
     rfold (\<lambda>(i, rlp) (txid, txs).
         rbind (e_decode env rlp) (\<lambda>subtx.
         rbind (if i = 0 then read_txid env subtx else Inr txid) (\<lambda>txid'.
           Inr (txid', txs @ [subtx]))))
       (enumerate 0 rlps) ('''', [])"

definition parse_subtx ::
  "environment \<Rightarrow> string \<Rightarrow> string \<Rightarrow> string \<Rightarrow> LRU_StatesInfo
     \<Rightarrow> (transactionWithReadWriteSet \<times> LRU_StatesInfo) result" where
  "parse_subtx env coordinator currentEpochId subtxContent lru =
     (let subItems = e_split env CHR ''|'' subtxContent
      in rbind (vec_at subItems 0) (\<lambda>intershardTxid.
         rbind (vec_at subItems 1) (\<lambda>participant_shardids.
         rbind (vec_at subItems 2) (\<lambda>txRlps.
         rbind (vec_at subItems 3) (\<lambda>rwKeys.
           let shardIds = e_split env CHR ''_'' participant_shardids;
               rwKeyItems = e_split env CHR ''_'' rwKeys;
               index = local_index env shardIds
           in rbind (vec_at rwKeyItems index) (\<lambda>localrwKey.
                let lru' = fold (\<lambda>i. update_lru_localkeys_interTx localrwKey (rwKeyItems ! i))
                             (filter (\<lambda>i. i \<noteq> index) [0..<length rwKeyItems]) lru;
                    tx = new_transactionWithReadWriteSet_of participant_shardids localrwKey rwKeys
                           currentEpochId intershardTxid coordinator (minimum_shard shardIds)
                in rbind (read_subtxs env (e_split env CHR ''_'' txRlps)) (\<lambda>(i, txs).
                     Inr (tx\<lparr>sub_txs := txs, txid := i, emptyTransaction := False, is_intershardTx := True\<rparr>,
                          lru'))))))))"

section \<open>Batches of equal participants\<close>

text \<open>
  The loop of \<open>processReorderedTxs\<close> works on shared objects: \<open>store\<close> holds the transactions of the
  set in its order, and \<open>cachedTransactions\<close>, \<open>reorderedTxSet\<close> and the loop variables are positions
  in it.
\<close>

record reorder_state =
  store :: "transactionWithReadWriteSet list"
  currentBatchId :: int
  processedEpochTxNum :: nat
  lastParticipantIds :: string
  rwkeyToSend :: "string list"
  cachedTransactions :: "nat list"
  reorderedTxSet :: "nat list"

definition push_key :: "'a \<Rightarrow> 'a list \<Rightarrow> 'a list" where
  "push_key key ks = (if key \<in> set ks then ks else ks @ [key])"

definition receive_keys :: "environment \<Rightarrow> transactionWithReadWriteSet \<Rightarrow> string list result" where
  "receive_keys env tx =
     (let keyItems = e_split env CHR ''_'' (rwkeys tx);
          participantItems = e_split env CHR ''_'' (participantIds tx)
      in rmap (vec_at keyItems)
           (filter (\<lambda>i. participantItems ! i \<noteq> to_string (e_group env)) [0..<length participantItems]))"

definition close_cached ::
  "environment \<Rightarrow> (nat \<Rightarrow> transactionWithReadWriteSet \<Rightarrow> transactionWithReadWriteSet)
     \<Rightarrow> reorder_state \<Rightarrow> reorder_state result" where
  "close_cached env f st =
     rfold (\<lambda>(i, p) st.
         let cachedTx = f i (store st ! p)
         in rbind (receive_keys env cachedTx) (\<lambda>ks.
              Inr (st\<lparr>store := (store st)[p := cachedTx\<lparr>rwkeyToReceive := ks\<rparr>],
                      reorderedTxSet := reorderedTxSet st @ [p]\<rparr>)))
       (enumerate 0 (cachedTransactions st)) st"

definition close_in_batch ::
  "reorder_state \<Rightarrow> nat \<Rightarrow> transactionWithReadWriteSet \<Rightarrow> transactionWithReadWriteSet" where
  "close_in_batch st i tx =
     (if i = 0 then tx\<lparr>rwkeysTosend := rwkeyToSend st\<rparr> else tx)
       \<lparr>interShardTxBatchId := to_string (currentBatchId st)\<rparr>"

definition close_in_epoch ::
  "bool \<Rightarrow> string \<Rightarrow> reorder_state \<Rightarrow> nat \<Rightarrow> transactionWithReadWriteSet \<Rightarrow> transactionWithReadWriteSet" where
  "close_in_epoch shuffle contents st i tx =
     (let tx1 = (if i = 0 then tx\<lparr>rwkeysTosend := rwkeyToSend st\<rparr> else tx)
      in if Suc i = length (cachedTransactions st)
         then tx1\<lparr>lastTxInBatch := True, lastTxInEpoch := True, shuffle_states := shuffle,
                  shuffle_states_contents := contents\<rparr>
         else tx1)"

definition reorder_body :: "environment \<Rightarrow> nat \<Rightarrow> reorder_state \<Rightarrow> reorder_state result" where
  "reorder_body env p st =
     (let currentTx = store st ! p; key = localreadwriteKey currentTx
      in if processedEpochTxNum st = 0 then
           Inr (st\<lparr>lastParticipantIds := participantIds currentTx,
                   rwkeyToSend := push_key key (rwkeyToSend st),
                   cachedTransactions := cachedTransactions st @ [p]\<rparr>)
         else if lastParticipantIds st = participantIds currentTx then
           Inr (st\<lparr>rwkeyToSend := push_key key (rwkeyToSend st),
                   store := (store st)[p := currentTx\<lparr>interShardTxBatchId := to_string (currentBatchId st)\<rparr>],
                   cachedTransactions := cachedTransactions st @ [p]\<rparr>)
         else
           (let st1 = st\<lparr>store := (store st)[p - 1 := (store st ! (p - 1))\<lparr>lastTxInBatch := True\<rparr>]\<rparr>
            in rbind (close_cached env (close_in_batch st1) st1) (\<lambda>st2.
                 let st3 = st2\<lparr>rwkeyToSend := [], cachedTransactions := [],
                               currentBatchId := currentBatchId st2 + 1,
                               lastParticipantIds := participantIds currentTx\<rparr>
                 in Inr (if \<not> emptyTransaction currentTx then
                           st3\<lparr>rwkeyToSend := [key],
                               store := (store st3)[p := (store st3 ! p)
                                          \<lparr>interShardTxBatchId := to_string (currentBatchId st3)\<rparr>],
                               cachedTransactions := [p]\<rparr>
                         else st3))))"

definition reorder_step ::
  "environment \<Rightarrow> bool \<Rightarrow> string \<Rightarrow> nat \<Rightarrow> reorder_state \<Rightarrow> reorder_state result" where
  "reorder_step env shuffle contents p st =
     rbind (reorder_body env p st) (\<lambda>st.
     rbind (if Suc (processedEpochTxNum st) = length (store st)
            then close_cached env (close_in_epoch shuffle contents st) st else Inr st) (\<lambda>st.
       Inr (st\<lparr>processedEpochTxNum := Suc (processedEpochTxNum st)\<rparr>)))"

definition reorder_start :: "transactionWithReadWriteSet list \<Rightarrow> reorder_state" where
  "reorder_start txs = \<lparr>store = txs, currentBatchId = 1, processedEpochTxNum = 0, lastParticipantIds = '''',
     rwkeyToSend = [], cachedTransactions = [], reorderedTxSet = []\<rparr>"

definition reorder_loop ::
  "environment \<Rightarrow> bool \<Rightarrow> string \<Rightarrow> transactionWithReadWriteSet list
     \<Rightarrow> transactionWithReadWriteSet list result" where
  "reorder_loop env shuffle contents txs =
     rbind (rfold (reorder_step env shuffle contents) [0..<length txs] (reorder_start txs)) (\<lambda>st.
       Inr (map (\<lambda>p. store st ! p) (reorderedTxSet st)))"

definition processReorderedTxs ::
  "environment \<Rightarrow> string \<Rightarrow> transactionWithReadWriteSet list \<Rightarrow> bool \<Rightarrow> string \<Rightarrow> executer \<Rightarrow> executer result" where
  "processReorderedTxs env coordinator reorderedTxs shuffle contents s =
     rbind (reorder_loop env shuffle contents reorderedTxs) (\<lambda>txs.
     rbind (map_at (m_blockingTxQueues s) coordinator) (\<lambda>q.
       let (q', endtimes) = insertTxs (e_split env) (e_now env) txs (q, m_txid_to_endtime s)
       in Inr (s\<lparr>m_blockingTxQueues := (m_blockingTxQueues s)(coordinator \<mapsto> q'),
                 m_txid_to_endtime := endtimes\<rparr>)))"

section \<open>One epoch and the order of epochs\<close>

definition processBatchSubInterShardTxs ::
  "environment \<Rightarrow> string \<Rightarrow> string list \<Rightarrow> executer \<Rightarrow> executer result" where
  "processBatchSubInterShardTxs env coordinator txcontents s =
     rbind (vec_at txcontents 0) (\<lambda>prefix.
     rbind (vec_at txcontents 1) (\<lambda>subtxsContents.
     rbind (vec_at txcontents 2) (\<lambda>convertedIntraTxContents.
     rbind (vec_at txcontents 3) (\<lambda>shuffleContents.
     rbind (vec_at (e_split env CHR ''|'' prefix) 1) (\<lambda>currentEpochId.
       if subtxsContents \<noteq> ''none'' then
         rbind (rfold (\<lambda>c (reorderedTxs, lru).
             rbind (parse_subtx env coordinator currentEpochId c lru) (\<lambda>(tx, lru').
               Inr (reorder_insert tx reorderedTxs, lru')))
           (e_split env CHR ''&'' subtxsContents) ([], m_LRU_StatesInfo s)) (\<lambda>(reorderedTxs, lru).
         processReorderedTxs env coordinator reorderedTxs (shuffleContents \<noteq> '''') shuffleContents
           (s\<lparr>m_LRU_StatesInfo := lru\<rparr>))
       else Inr s)))))"

text \<open>
  The \<open>while\<close> loop that processes the cached successors of an epoch. The cache is not changed by
  the body, so the loop ends when the consecutive epochs are used up.
\<close>

function drain_cached ::
  "environment \<Rightarrow> string \<Rightarrow> (int, string) omap \<Rightarrow> int \<Rightarrow> executer \<Rightarrow> executer result" where
  "drain_cached env coordinator cached attemptEpochId s =
     (case map_of cached attemptEpochId of
        None \<Rightarrow> Inr s
      | Some data_str \<Rightarrow>
          rbind (processBatchSubInterShardTxs env coordinator (e_split env CHR ''#'' data_str) s) (\<lambda>s'.
            drain_cached env coordinator cached (attemptEpochId + 1)
              (s'\<lparr>m_precessedEpochIds := (m_precessedEpochIds s')(coordinator \<mapsto> attemptEpochId)\<rparr>)))"
  by pat_completeness auto

termination
proof (relation "measure (\<lambda>(env, c, cached, attempt, s). card {k \<in> fst ` set cached. attempt \<le> k})",
    goal_cases)
  case (2 env c cached attempt s d s')
  have "attempt \<in> {k \<in> fst ` set cached. attempt \<le> k}"
    using 2 by (auto dest: map_of_SomeD simp: rev_image_eqI)
  moreover have "attempt \<notin> {k \<in> fst ` set cached. attempt + 1 \<le> k}" by simp
  ultimately have "{k \<in> fst ` set cached. attempt + 1 \<le> k} \<subset> {k \<in> fst ` set cached. attempt \<le> k}"
    by (intro psubsetI) (auto, force)
  then show ?case by (simp add: psubset_card_mono)
qed simp

definition processOrderedBatchedSubInterShardTxs ::
  "environment \<Rightarrow> string \<Rightarrow> executer \<Rightarrow> executer result" where
  "processOrderedBatchedSubInterShardTxs env data_str s =
     (let items = e_split env CHR ''|'' data_str
      in rbind (vec_at items 1) (\<lambda>coordinator.
         rbind (vec_at items 2) (\<lambda>epochItem.
         rbind (map_at (m_precessedEpochIds s) coordinator) (\<lambda>precessedEpochId.
           let epochId = atoi epochItem
           in if epochId = precessedEpochId + 1 then
                rbind (processBatchSubInterShardTxs env coordinator (e_split env CHR ''#'' data_str) s) (\<lambda>s1.
                  let s2 = s1\<lparr>m_precessedEpochIds := (m_precessedEpochIds s1)(coordinator \<mapsto> epochId)\<rparr>
                  in case m_cachedBatchTxs s2 coordinator of
                       None \<Rightarrow> Inr s2
                     | Some cached \<Rightarrow> drain_cached env coordinator cached (epochId + 1) s2)
              else
                Inr (s\<lparr>m_cachedBatchTxs := (m_cachedBatchTxs s)(coordinator \<mapsto>
                        (case m_cachedBatchTxs s coordinator of
                           Some cached \<Rightarrow> om_insert epochId data_str cached
                         | None \<Rightarrow> [(epochId, data_str)]))\<rparr>)))))"

declare drain_cached.simps [simp del]

section \<open>Epochs are processed in order\<close>

definition with_epochs ::
  "(string \<rightharpoonup> int) \<Rightarrow> (string \<rightharpoonup> (int, string) omap) \<Rightarrow> executer \<Rightarrow> executer" where
  "with_epochs processed cached s = s\<lparr>m_precessedEpochIds := processed, m_cachedBatchTxs := cached\<rparr>"

lemma with_epochs_fields [simp]:
  "m_precessedEpochIds (with_epochs x y s) = x" "m_cachedBatchTxs (with_epochs x y s) = y"
  "m_LRU_StatesInfo (with_epochs x y s) = m_LRU_StatesInfo s"
  "m_blockingTxQueues (with_epochs x y s) = m_blockingTxQueues s"
  "m_txid_to_endtime (with_epochs x y s) = m_txid_to_endtime s"
  "with_epochs x y (with_epochs x' y' s) = with_epochs x y s"
  "with_epochs (m_precessedEpochIds s) (m_cachedBatchTxs s) s = s"
  "(with_epochs x y s)\<lparr>m_precessedEpochIds := x'\<rparr> = with_epochs x' y s"
  "(with_epochs x y s)\<lparr>m_cachedBatchTxs := y'\<rparr> = with_epochs x y' s"
  by (simp_all add: with_epochs_def)

lemma reordered_with_epochs:
  "processReorderedTxs env c txs sh ct (with_epochs x y s)
   = rbind (processReorderedTxs env c txs sh ct s) (\<lambda>t. Inr (with_epochs x y t))"
  by (cases "reorder_loop env sh ct txs"; cases "map_at (m_blockingTxQueues s) c")
    (simp_all add: processReorderedTxs_def with_epochs_def split: prod.splits)

lemma batch_with_epochs:
  "processBatchSubInterShardTxs env c d (with_epochs x y s)
   = rbind (processBatchSubInterShardTxs env c d s) (\<lambda>t. Inr (with_epochs x y t))"
proof -
  have upd: "(with_epochs x y s)\<lparr>m_LRU_StatesInfo := l\<rparr> = with_epochs x y (s\<lparr>m_LRU_StatesInfo := l\<rparr>)" for l
    by (simp add: with_epochs_def)
  show ?thesis
    unfolding processBatchSubInterShardTxs_def with_epochs_fields upd
    by (auto simp: rbind_def reordered_with_epochs split: sum.splits prod.splits)
qed

text \<open>The epochs of one coordinator \<open>c\<close>, processed one after the other.\<close>

definition in_order :: "environment \<Rightarrow> string \<Rightarrow> (int \<Rightarrow> string) \<Rightarrow> int \<Rightarrow> executer \<Rightarrow> executer result" where
  "in_order env c D k s =
     rfold (\<lambda>e. processBatchSubInterShardTxs env c (e_split env CHR ''#'' (D e))) [1..k] s"

lemma in_order_0 [simp]: "in_order env c D 0 s = Inr s"
  by (simp add: in_order_def)

lemma in_order_Suc:
  "0 \<le> k \<Longrightarrow> in_order env c D (k + 1) s
     = rbind (in_order env c D k s) (processBatchSubInterShardTxs env c (e_split env CHR ''#'' (D (k + 1))))"
  using upto_rec2 [of 1 "k + 1"] by (simp add: in_order_def rfold_append rbind_def split: sum.splits)

definition epoch_header :: "environment \<Rightarrow> string \<Rightarrow> int \<Rightarrow> string \<Rightarrow> bool" where
  "epoch_header env c e data \<longleftrightarrow>
     (let items = e_split env CHR ''|'' data in 3 \<le> length items \<and> items ! 1 = c \<and> atoi (items ! 2) = e)"

definition cache_of :: "(int \<Rightarrow> string) \<Rightarrow> (int, string) omap option \<Rightarrow> int set \<Rightarrow> bool" where
  "cache_of D cached E \<longleftrightarrow>
     (case cached of None \<Rightarrow> E = {}
      | Some m \<Rightarrow> om_ok m \<and> (\<forall>e d. map_of m e = Some d \<longrightarrow> d = D e) \<and> dom (map_of m) = E)"

lemma cache_of_Some:
  "cache_of D (Some m) E \<Longrightarrow> map_of m e = (if e \<in> E then Some (D e) else None)"
  by (cases "map_of m e") (auto simp: cache_of_def)

lemma cache_of_insert:
  assumes "cache_of D cached E"
  shows "cache_of D (Some (case cached of Some m \<Rightarrow> om_insert e (D e) m | None \<Rightarrow> [(e, D e)])) (insert e E)"
  using assms by (auto simp: cache_of_def map_insert_lookup split: option.splits if_splits)

lemma drain_in_order:
  assumes "\<And>k'. k \<le> k' \<Longrightarrow> {k + 1..k'} \<subseteq> E \<Longrightarrow> \<exists>t. in_order env c D k' s0 = Inr t"
    and "cache_of D (Some m) E" and "0 \<le> k" and "in_order env c D k s0 = Inr t"
  shows "\<exists>k' t'. k \<le> k' \<and> {k + 1..k'} \<subseteq> E \<and> k' + 1 \<notin> E \<and> in_order env c D k' s0 = Inr t'
    \<and> drain_cached env c m (k + 1) (with_epochs (p(c \<mapsto> k)) y t) = Inr (with_epochs (p(c \<mapsto> k')) y t')"
  using assms
proof (induction "card {e \<in> E. k < e}" arbitrary: k t rule: less_induct)
  case less
  show ?case
  proof (cases "k + 1 \<in> E")
    case False
    then have "drain_cached env c m (k + 1) (with_epochs (p(c \<mapsto> k)) y t) = Inr (with_epochs (p(c \<mapsto> k)) y t)"
      by (subst drain_cached.simps) (simp add: cache_of_Some [OF less.prems(2)])
    then show ?thesis using False less.prems(4) by (intro exI [of _ k] exI [of _ t]) auto
  next
    case True
    have fin: "finite E" using less.prems(2) by (auto simp: cache_of_def finite_dom_map_of)
    from less.prems(1) [of "k + 1"] True obtain t1 where t1: "in_order env c D (k + 1) s0 = Inr t1" by auto
    then have b: "processBatchSubInterShardTxs env c (e_split env CHR ''#'' (D (k + 1))) t = Inr t1"
      using in_order_Suc [OF less.prems(3)] less.prems(4) by simp
    have step: "drain_cached env c m (k + 1) (with_epochs (p(c \<mapsto> k)) y t)
        = drain_cached env c m (k + 1 + 1) (with_epochs (p(c \<mapsto> k + 1)) y t1)"
      by (subst drain_cached.simps) (simp add: cache_of_Some [OF less.prems(2)] True batch_with_epochs b)
    have "{e \<in> E. k + 1 < e} \<subset> {e \<in> E. k < e}" using True by force
    then have card: "card {e \<in> E. k + 1 < e} < card {e \<in> E. k < e}" by (intro psubset_card_mono) (use fin in auto)
    have ok: "\<exists>t. in_order env c D k' s0 = Inr t" if "k + 1 \<le> k'" "{k + 1 + 1..k'} \<subseteq> E" for k'
    proof (rule less.prems(1))
      have "e \<in> E" if "k + 1 \<le> e" "e \<le> k'" for e
        using that True \<open>{k + 1 + 1..k'} \<subseteq> E\<close> by (cases "e = k + 1") auto
      then show "{k + 1..k'} \<subseteq> E" by auto
    qed (use that in simp)
    from less.hyps [OF card ok less.prems(2) _ t1] less.prems(3) obtain k' t'
      where k': "k + 1 \<le> k'" "{k + 1 + 1..k'} \<subseteq> E" "k' + 1 \<notin> E" "in_order env c D k' s0 = Inr t'"
        "drain_cached env c m (k + 1 + 1) (with_epochs (p(c \<mapsto> k + 1)) y t1) = Inr (with_epochs (p(c \<mapsto> k')) y t')"
      by auto
    have "e \<in> E" if "k + 1 \<le> e" "e \<le> k'" for e
      using that True k'(2) by (cases "e = k + 1") auto
    then show ?thesis using k' step by (intro exI [of _ k'] exI [of _ t']) auto
  qed
qed


definition epochs_inv ::
  "environment \<Rightarrow> string \<Rightarrow> (int \<Rightarrow> string) \<Rightarrow> executer \<Rightarrow> int list \<Rightarrow> int \<Rightarrow> executer \<Rightarrow> executer \<Rightarrow> bool" where
  "epochs_inv env c D s0 es k t s \<longleftrightarrow>
     0 \<le> k \<and> {1..k} \<subseteq> set es \<and> k + 1 \<notin> set es \<and> in_order env c D k s0 = Inr t
     \<and> (\<exists>y E. s = with_epochs ((m_precessedEpochIds s0)(c \<mapsto> k)) y t \<and> cache_of D (y c) E
          \<and> E \<subseteq> set es \<and> {e \<in> set es. k < e} \<subseteq> E)"

lemma deliver_later:
  assumes "epochs_inv env c D s0 es k t s" and "epoch_header env c e (D e)" and "e \<noteq> k + 1"
  shows "\<exists>s'. processOrderedBatchedSubInterShardTxs env (D e) s = Inr s' \<and> epochs_inv env c D s0 (es @ [e]) k t s'"
proof -
  from assms(1) obtain y E where y: "s = with_epochs ((m_precessedEpochIds s0)(c \<mapsto> k)) y t"
    "cache_of D (y c) E" "E \<subseteq> set es" "{e \<in> set es. k < e} \<subseteq> E"
    by (auto simp: epochs_inv_def)
  let ?y = "y(c \<mapsto> (case y c of Some m \<Rightarrow> om_insert e (D e) m | None \<Rightarrow> [(e, D e)]))"
  have "processOrderedBatchedSubInterShardTxs env (D e) s
      = Inr (with_epochs ((m_precessedEpochIds s0)(c \<mapsto> k)) ?y t)"
    using assms(2,3) y(1)
    by (simp add: processOrderedBatchedSubInterShardTxs_def epoch_header_def Let_def cong: option.case_cong)
  moreover have "epochs_inv env c D s0 (es @ [e]) k t (with_epochs ((m_precessedEpochIds s0)(c \<mapsto> k)) ?y t)"
    using assms(1,3) y cache_of_insert [OF y(2), of e] unfolding epochs_inv_def
    by (auto intro!: exI [of _ ?y] exI [of _ "insert e E"])
  ultimately show ?thesis by blast
qed

lemma deliver_next:
  assumes inv: "epochs_inv env c D s0 es k t s" and hdr: "epoch_header env c (k + 1) (D (k + 1))"
    and ok: "\<And>k'. {1..k'} \<subseteq> set (es @ [k + 1]) \<Longrightarrow> 0 \<le> k' \<Longrightarrow> \<exists>t. in_order env c D k' s0 = Inr t"
  shows "\<exists>k' t' s'. processOrderedBatchedSubInterShardTxs env (D (k + 1)) s = Inr s'
    \<and> epochs_inv env c D s0 (es @ [k + 1]) k' t' s'"
proof -
  from inv have k: "0 \<le> k" "{1..k} \<subseteq> set es" "k + 1 \<notin> set es" "in_order env c D k s0 = Inr t"
    by (auto simp: epochs_inv_def)
  from inv obtain y E where y: "s = with_epochs ((m_precessedEpochIds s0)(c \<mapsto> k)) y t"
    "cache_of D (y c) E" "E \<subseteq> set es" "{e \<in> set es. k < e} \<subseteq> E"
    by (auto simp: epochs_inv_def)
  have upto: "{1..k + 1} \<subseteq> set (es @ [k + 1])" using k(2) by force
  from ok [OF this] k(1) obtain t1 where t1: "in_order env c D (k + 1) s0 = Inr t1" by auto
  then have b: "processBatchSubInterShardTxs env c (e_split env CHR ''#'' (D (k + 1))) t = Inr t1"
    using in_order_Suc [OF k(1)] k(4) by simp
  let ?p = "m_precessedEpochIds s0"
  have step: "processOrderedBatchedSubInterShardTxs env (D (k + 1)) s
      = (case y c of None \<Rightarrow> Inr (with_epochs (?p(c \<mapsto> k + 1)) y t1)
         | Some m \<Rightarrow> drain_cached env c m (k + 1 + 1) (with_epochs (?p(c \<mapsto> k + 1)) y t1))"
    using hdr y(1) b
    by (simp add: processOrderedBatchedSubInterShardTxs_def epoch_header_def Let_def batch_with_epochs
        cong: option.case_cong)
  show ?thesis
  proof (cases "y c")
    case None
    then have "E = {}" using y(2) by (simp add: cache_of_def)
    then have "k + 1 + 1 \<notin> set es" using y(4) by force
    then have "epochs_inv env c D s0 (es @ [k + 1]) (k + 1) t1 (with_epochs (?p(c \<mapsto> k + 1)) y t1)"
      using k t1 upto y(2-4) unfolding epochs_inv_def by (intro conjI exI [of _ y] exI [of _ E]) auto
    with step None show ?thesis by auto
  next
    case (Some m)
    have ok': "\<exists>t. in_order env c D k' s0 = Inr t" if "k + 1 \<le> k'" "{k + 1 + 1..k'} \<subseteq> E" for k'
    proof (rule ok)
      show "{1..k'} \<subseteq> set (es @ [k + 1])"
      proof
        fix e assume "e \<in> {1..k'}"
        then consider "e \<in> {1..k}" | "e = k + 1" | "e \<in> {k + 1 + 1..k'}" by force
        then show "e \<in> set (es @ [k + 1])" using k(2) that(2) y(3) by cases auto
      qed
    qed (use that k(1) in simp)
    have cache: "cache_of D (Some m) E" and pos: "0 \<le> k + 1" using y(2) Some k(1) by simp_all
    from drain_in_order [OF ok' cache pos t1, where p = ?p and y = y] obtain k' t' where
      k': "k + 1 \<le> k'" "{k + 1 + 1..k'} \<subseteq> E" "k' + 1 \<notin> E" "in_order env c D k' s0 = Inr t'"
      "drain_cached env c m (k + 1 + 1) (with_epochs (?p(c \<mapsto> k + 1)) y t1) = Inr (with_epochs (?p(c \<mapsto> k')) y t')"
      by blast
    have "{1..k'} \<subseteq> set (es @ [k + 1])"
    proof
      fix e assume "e \<in> {1..k'}"
      then consider "e \<in> {1..k}" | "e = k + 1" | "e \<in> {k + 1 + 1..k'}" by force
      then show "e \<in> set (es @ [k + 1])" using k(2) k'(2) y(3) by cases auto
    qed
    moreover have "k' + 1 \<notin> set (es @ [k + 1])" using k'(1,3) y(4) by force
    ultimately have "epochs_inv env c D s0 (es @ [k + 1]) k' t' (with_epochs (?p(c \<mapsto> k')) y t')"
      using k(1) k' y(2-4) unfolding epochs_inv_def by (intro conjI exI [of _ y] exI [of _ E]) auto
    with step Some k'(5) show ?thesis by auto
  qed
qed

text \<open>
  C6: Epochs take effect in order. However the epochs of a coordinator arrive, late, early or
  repeated, the shard has then processed exactly the epochs 1 to \<open>k\<close>, one after the other, where
  \<open>k\<close> is the last epoch such that all epochs up to it have arrived; the rest waits in the cache.
\<close>

theorem epochs_in_order:
  assumes start: "m_precessedEpochIds s0 c = Some 0" "m_cachedBatchTxs s0 c = None"
    and hdr: "\<And>e. e \<in> set es \<Longrightarrow> epoch_header env c e (D e)"
    and ok: "\<And>k. {1..k} \<subseteq> set es \<Longrightarrow> 0 \<le> k \<Longrightarrow> \<exists>t. in_order env c D k s0 = Inr t"
  shows "\<exists>k s t. rfold (\<lambda>e. processOrderedBatchedSubInterShardTxs env (D e)) es s0 = Inr s
    \<and> 0 \<le> k \<and> {1..k} \<subseteq> set es \<and> k + 1 \<notin> set es \<and> m_precessedEpochIds s c = Some k
    \<and> in_order env c D k s0 = Inr t
    \<and> s = t\<lparr>m_precessedEpochIds := m_precessedEpochIds s, m_cachedBatchTxs := m_cachedBatchTxs s\<rparr>"
proof -
  have "\<exists>k s t. rfold (\<lambda>e. processOrderedBatchedSubInterShardTxs env (D e)) es s0 = Inr s
      \<and> epochs_inv env c D s0 es k t s"
    using hdr ok
  proof (induction es rule: rev_induct)
    case Nil
    have "(m_precessedEpochIds s0)(c \<mapsto> 0) = m_precessedEpochIds s0" using start(1) by auto
    then have "epochs_inv env c D s0 [] 0 s0 s0"
      using start by (auto simp: epochs_inv_def cache_of_def intro!: exI [of _ "m_cachedBatchTxs s0"])
    then show ?case by auto
  next
    case (snoc e es)
    have "\<exists>k s t. rfold (\<lambda>e. processOrderedBatchedSubInterShardTxs env (D e)) es s0 = Inr s
      \<and> epochs_inv env c D s0 es k t s"
      by (rule snoc.IH) (use snoc.prems in fastforce)+
    then obtain k s t where s: "rfold (\<lambda>e. processOrderedBatchedSubInterShardTxs env (D e)) es s0 = Inr s"
      "epochs_inv env c D s0 es k t s" by blast
    have hdr: "epoch_header env c e (D e)" using snoc.prems(1) by simp
    have "\<exists>k' t' s'. processOrderedBatchedSubInterShardTxs env (D e) s = Inr s'
        \<and> epochs_inv env c D s0 (es @ [e]) k' t' s'"
    proof (cases "e = k + 1")
      case True
      then show ?thesis using deliver_next [OF s(2)] hdr snoc.prems(2) by auto
    next
      case False
      then show ?thesis using deliver_later [OF s(2) hdr] by blast
    qed
    then obtain k' t' s' where "processOrderedBatchedSubInterShardTxs env (D e) s = Inr s'"
      "epochs_inv env c D s0 (es @ [e]) k' t' s'" by blast
    then show ?case using s(1) by (intro exI [of _ k'] exI [of _ s'] exI [of _ t']) (simp add: rfold_append)
  qed
  then show ?thesis unfolding epochs_inv_def by (auto simp: with_epochs_def)
qed

definition empty_epoch :: "int \<Rightarrow> string" where
  "empty_epoch e = ''0x999000111|4|'' @ to_string e @ ''#none#none#''"

lemma cut_empty_epoch: "cut CHR ''#'' (empty_epoch e) = [''0x999000111|4|'' @ to_string e, ''none'', ''none'', '''']"
proof -
  have "empty_epoch e = join_with ''#'' [''0x999000111|4|'' @ to_string e, ''none'', ''none'', '''']"
    by (simp add: empty_epoch_def)
  moreover have "CHR ''#'' \<notin> set (to_string e)" by (rule separator_not_in_to_string) (simp add: separator_def)
  ultimately show ?thesis by (simp only:) (rule cut_join; simp)
qed

lemma epochs_in_order_witness:
  "\<exists>s. rfold (\<lambda>e. processOrderedBatchedSubInterShardTxs (env_of 1 tree_9 ''n'') (empty_epoch e)) [2, 4, 1]
      (new_executer\<lparr>m_precessedEpochIds := [''4'' \<mapsto> 0]\<rparr>) = Inr s
    \<and> m_precessedEpochIds s ''4'' = Some 2"
proof -
  let ?env = "env_of 1 tree_9 ''n''" and ?s0 = "new_executer\<lparr>m_precessedEpochIds := [''4'' \<mapsto> 0]\<rparr>"
  have c1: "cut CHR ''|'' (empty_epoch e) = [''0x999000111'', ''4'', to_string e @ ''#none#none#'']" for e
  proof -
    have "empty_epoch e = join_with ''|'' [''0x999000111'', ''4'', to_string e @ ''#none#none#'']"
      by (simp add: empty_epoch_def)
    moreover have "CHR ''|'' \<notin> set (to_string e)" by (rule separator_not_in_to_string) (simp add: separator_def)
    ultimately show ?thesis by (simp only:) (rule cut_join; simp)
  qed
  have c3: "atoi (to_string e @ ''#none#none#'') = e" if "e \<in> {1, 2, 4}" for e
    using that by (elim insertE emptyE) (simp only:, code_simp)+
  have hdr: "epoch_header ?env ''4'' e (empty_epoch e)" if "e \<in> {1, 2, 4}" for e
    using c1 [of e] c3 [OF that] by (simp add: epoch_header_def env_of_def)
  have cut2: "cut CHR ''|'' (''0x999000111|4|'' @ to_string e) = [''0x999000111'', ''4'', to_string e]" for e
  proof -
    have "''0x999000111|4|'' @ to_string e = join_with ''|'' [''0x999000111'', ''4'', to_string e]" by simp
    moreover have "CHR ''|'' \<notin> set (to_string e)" by (rule separator_not_in_to_string) (simp add: separator_def)
    ultimately show ?thesis by (simp only:) (rule cut_join; simp)
  qed
  have "processBatchSubInterShardTxs ?env ''4'' (cut CHR ''#'' (empty_epoch e)) s = Inr s" for e s
    unfolding cut_empty_epoch processBatchSubInterShardTxs_def
    using cut2 [of e] by (simp add: env_of_def vec_at_def)
  then have batch: "processBatchSubInterShardTxs ?env ''4'' (e_split ?env CHR ''#'' (empty_epoch e)) s = Inr s"
    for e s by (simp add: env_of_def)
  have skip: "rfold (\<lambda>e s. Inr s) es s = Inr s" for es :: "int list" and s :: executer
    by (induction es) simp_all
  have ok: "in_order ?env ''4'' empty_epoch k s = Inr s" for k s
    by (simp add: in_order_def batch [abs_def] skip)
  obtain k s where "rfold (\<lambda>e. processOrderedBatchedSubInterShardTxs ?env (empty_epoch e)) [2, 4, 1] ?s0 = Inr s"
    "0 \<le> k" "{1..k} \<subseteq> set [2, 4, 1]" "k + 1 \<notin> set [2, 4, 1::int]" "m_precessedEpochIds s ''4'' = Some k"
    using epochs_in_order [of ?s0 "''4''" "[2, 4, 1]" ?env empty_epoch] hdr ok
    by (auto simp: new_executer_def)
  moreover have "k = 2"
  proof -
    have "k \<noteq> 0" "k \<noteq> 1" "k \<noteq> 3" using \<open>k + 1 \<notin> set [2, 4, 1]\<close> by auto
    moreover have "k \<le> 2"
    proof (rule ccontr)
      assume "\<not> k \<le> 2"
      then have "3 \<in> {1..k}" by simp
      with \<open>{1..k} \<subseteq> set [2, 4, 1]\<close> have "3 \<in> set [2, 4, 1::int]" by (rule subsetD)
      then show False by simp
    qed
    ultimately show ?thesis using \<open>0 \<le> k\<close> by linarith
  qed
  ultimately show ?thesis by blast
qed

end
