(* ===== verification/EpochBatches.thy ===== *)
theory EpochBatches
  imports EpochProcessing
begin

text \<open>
  What one epoch becomes: the loop of \<open>processReorderedTxs\<close> against its description as a cut into
  batches, and the effect of \<open>processBatchSubInterShardTxs\<close> on the coordinator's queue.
\<close>

section \<open>An epoch is cut into batches of equal participants\<close>

definition imap :: "(nat \<Rightarrow> 'a \<Rightarrow> 'b) \<Rightarrow> 'a list \<Rightarrow> 'b list" where
  "imap f xs = map (\<lambda>(i, x). f i x) (enumerate 0 xs)"

lemma length_imap [simp]: "length (imap f xs) = length xs"
  by (simp add: imap_def)

lemma nth_imap [simp]: "i < length xs \<Longrightarrow> imap f xs ! i = f i (xs ! i)"
  by (simp add: imap_def nth_enumerate_eq)

lemma imap_snoc: "imap f (xs @ [x]) = imap f xs @ [f (length xs) x]"
  by (simp add: imap_def enumerate_append_eq)

definition add_run ::
  "transactionWithReadWriteSet \<Rightarrow> transactionWithReadWriteSet list list \<Rightarrow> transactionWithReadWriteSet list list" where
  "add_run t bs =
     (if bs \<noteq> [] \<and> participantIds (hd (last bs)) = participantIds t
      then butlast bs @ [last bs @ [t]] else bs @ [[t]])"

definition batches :: "transactionWithReadWriteSet list \<Rightarrow> transactionWithReadWriteSet list list" where
  "batches ts = fold add_run ts []"

lemma batches_simps: "batches [] = []" "batches (ts @ [t]) = add_run t (batches ts)"
  by (simp_all add: batches_def)

lemma batches_Nil_iff: "batches ts = [] \<longleftrightarrow> ts = []"
  by (induction ts rule: rev_induct) (auto simp: batches_simps add_run_def)

lemma concat_batches: "concat (batches ts) = ts"
proof (induction ts rule: rev_induct)
  case (snoc t ts)
  have "concat (butlast bs @ [last bs @ [t]]) = concat bs @ [t]" if "bs \<noteq> []" for bs :: "transactionWithReadWriteSet list list"
    using that by (induction bs rule: rev_induct) auto
  then show ?case using snoc by (auto simp: batches_simps add_run_def)
qed (simp add: batches_simps)

lemma batch_in_batches:
  "b \<in> set (batches ts) \<Longrightarrow> b \<noteq> [] \<and> (\<forall>t \<in> set b. participantIds t = participantIds (hd b))"
proof (induction ts arbitrary: b rule: rev_induct)
  case (snoc t ts)
  show ?case
  proof (cases "batches ts \<noteq> [] \<and> participantIds (hd (last (batches ts))) = participantIds t")
    case True
    then have "batches (ts @ [t]) = butlast (batches ts) @ [last (batches ts) @ [t]]"
      unfolding batches_simps add_run_def by simp
    then consider "b \<in> set (batches ts)" | "b = last (batches ts) @ [t]"
      using snoc.prems by (auto dest: in_set_butlastD)
    then show ?thesis
    proof cases
      case 2
      from True have "last (batches ts) \<in> set (batches ts)" by simp
      from snoc.IH [OF this] True 2 show ?thesis by auto
    qed (rule snoc.IH)
  next
    case False
    then have "batches (ts @ [t]) = batches ts @ [[t]]"
      unfolding batches_simps add_run_def by (simp only: if_False)
    then consider "b \<in> set (batches ts)" | "b = [t]" using snoc.prems by auto
    then show ?thesis by cases (rule snoc.IH, simp_all)
  qed
qed (simp add: batches_simps)

text \<open>What the loop makes of the \<open>i\<close>-th transaction of a batch \<open>ts\<close> with number \<open>bid\<close>.\<close>

definition keys_to_send :: "transactionWithReadWriteSet list \<Rightarrow> string list" where
  "keys_to_send ts = fold (\<lambda>t. push_key (localreadwriteKey t)) ts []"

definition keys_to_receive :: "environment \<Rightarrow> transactionWithReadWriteSet \<Rightarrow> string list" where
  "keys_to_receive env t = (case receive_keys env t of Inr ks \<Rightarrow> ks | Inl _ \<Rightarrow> [])"

definition number_tx ::
  "int \<Rightarrow> nat \<Rightarrow> transactionWithReadWriteSet \<Rightarrow> transactionWithReadWriteSet" where
  "number_tx bid i t = (if bid = 1 \<and> i = 0 then t else t\<lparr>interShardTxBatchId := to_string bid\<rparr>)"

definition batch_tx ::
  "environment \<Rightarrow> int \<Rightarrow> transactionWithReadWriteSet list \<Rightarrow> nat \<Rightarrow> transactionWithReadWriteSet
     \<Rightarrow> transactionWithReadWriteSet" where
  "batch_tx env bid ts i t =
     (let t1 = (if i = 0 then t\<lparr>rwkeysTosend := keys_to_send ts\<rparr> else t);
          t2 = (if Suc i = length ts then t1\<lparr>lastTxInBatch := True\<rparr> else t1)
      in t2\<lparr>rwkeyToReceive := keys_to_receive env t\<rparr>)"

definition inner_batch ::
  "environment \<Rightarrow> int \<Rightarrow> transactionWithReadWriteSet list \<Rightarrow> transactionWithReadWriteSet list" where
  "inner_batch env bid ts = imap (\<lambda>i t. (batch_tx env bid ts i t)\<lparr>interShardTxBatchId := to_string bid\<rparr>) ts"

definition final_batch ::
  "environment \<Rightarrow> bool \<Rightarrow> string \<Rightarrow> int \<Rightarrow> transactionWithReadWriteSet list \<Rightarrow> transactionWithReadWriteSet list" where
  "final_batch env shuffle contents bid ts =
     imap (\<lambda>i t. let u = number_tx bid i (batch_tx env bid ts i t)
                 in if Suc i = length ts
                    then u\<lparr>lastTxInEpoch := True, shuffle_states := shuffle, shuffle_states_contents := contents\<rparr>
                    else u) ts"

fun annotate ::
  "environment \<Rightarrow> bool \<Rightarrow> string \<Rightarrow> int \<Rightarrow> transactionWithReadWriteSet list list \<Rightarrow> transactionWithReadWriteSet list" where
  "annotate env shuffle contents bid [] = []"
| "annotate env shuffle contents bid [b] = final_batch env shuffle contents bid b"
| "annotate env shuffle contents bid (b # bs) =
     inner_batch env bid b @ annotate env shuffle contents (bid + 1) bs"

definition inner_batches ::
  "environment \<Rightarrow> transactionWithReadWriteSet list list \<Rightarrow> transactionWithReadWriteSet list" where
  "inner_batches env bs = concat (imap (\<lambda>k b. inner_batch env (int k + 1) b) bs)"

lemma length_inner_batches [simp]: "length (inner_batches env bs) = length (concat bs)"
  by (induction bs rule: rev_induct) (simp_all add: inner_batches_def imap_snoc inner_batch_def, simp add: imap_def)

lemma inner_batches_snoc:
  "inner_batches env (bs @ [b]) = inner_batches env bs @ inner_batch env (int (length bs) + 1) b"
  by (simp add: inner_batches_def imap_snoc)

lemma annotate_snoc:
  "annotate env sh ct bid (bs @ [b]) = concat (imap (\<lambda>k b. inner_batch env (int k + bid) b) bs)
     @ final_batch env sh ct (bid + int (length bs)) b"
proof (induction bs arbitrary: bid)
  case (Cons c cs)
  have "imap (\<lambda>k b. inner_batch env (int k + bid) b) (c # cs)
      = inner_batch env bid c # imap (\<lambda>k b. inner_batch env (int k + (bid + 1)) b) cs"
    by (rule nth_equalityI) (auto simp: nth_Cons ac_simps split: nat.split)
  then show ?case using Cons by (cases "cs @ [b]") (auto simp: ac_simps)
qed (simp add: imap_def)

lemma annotate_batches:
  "annotate env sh ct 1 (bs @ [b]) = inner_batches env bs @ final_batch env sh ct (1 + int (length bs)) b"
  by (simp add: annotate_snoc inner_batches_def)

lemma receive_keys_upd [simp]:
  "receive_keys env (t\<lparr>interShardTxBatchId := a\<rparr>) = receive_keys env t"
  "receive_keys env (t\<lparr>rwkeysTosend := ks\<rparr>) = receive_keys env t"
  "receive_keys env (t\<lparr>lastTxInBatch := b\<rparr>) = receive_keys env t"
  "receive_keys env (t\<lparr>lastTxInEpoch := b\<rparr>) = receive_keys env t"
  "receive_keys env (t\<lparr>shuffle_states := b\<rparr>) = receive_keys env t"
  "receive_keys env (t\<lparr>shuffle_states_contents := a\<rparr>) = receive_keys env t"
  by (simp_all add: receive_keys_def)

lemma close_cached_result:
  assumes "store st = A @ C @ R" and "cachedTransactions st = [length A..<length A + length C]"
    and "\<And>i t. t \<in> set C \<Longrightarrow> receive_keys env (f i t) = Inr (r t)"
  shows "close_cached env f st = Inr (st\<lparr>store := A @ imap (\<lambda>i t. (f i t)\<lparr>rwkeyToReceive := r t\<rparr>) C @ R,
    reorderedTxSet := reorderedTxSet st @ [length A..<length A + length C]\<rparr>)"
  using assms
proof -
  let ?step = "\<lambda>(i, p) st. let cachedTx = f i (store st ! p)
         in rbind (receive_keys env cachedTx) (\<lambda>ks.
              Inr (st\<lparr>store := (store st)[p := cachedTx\<lparr>rwkeyToReceive := ks\<rparr>],
                      reorderedTxSet := reorderedTxSet st @ [p]\<rparr>))"
  have "rfold ?step (enumerate n [length A..<length A + length C]) st =
      Inr (st\<lparr>store := A @ map (\<lambda>(i, t). (f i t)\<lparr>rwkeyToReceive := r t\<rparr>) (enumerate n C) @ R,
           reorderedTxSet := reorderedTxSet st @ [length A..<length A + length C]\<rparr>)"
    if "store st = A @ C @ R" "\<And>i t. t \<in> set C \<Longrightarrow> receive_keys env (f i t) = Inr (r t)" for n st
    using that
  proof (induction C arbitrary: A n st)
    case Nil
    then show ?case by simp
  next
    case (Cons t C)
    have up: "[length A..<length A + length (t # C)] = length A # [length (A @ [x])..<length (A @ [x]) + length C]" for x
      using upt_conv_Cons [of "length A" "length A + length (t # C)"] by (simp del: upt_Suc)
    let ?t = "(f n t)\<lparr>rwkeyToReceive := r t\<rparr>"
    let ?st = "st\<lparr>store := A @ ?t # C @ R, reorderedTxSet := reorderedTxSet st @ [length A]\<rparr>"
    have "rfold ?step (enumerate (Suc n) [length (A @ [?t])..<length (A @ [?t]) + length C]) ?st =
      Inr (?st\<lparr>store := (A @ [?t]) @ map (\<lambda>(i, t). (f i t)\<lparr>rwkeyToReceive := r t\<rparr>) (enumerate (Suc n) C) @ R,
           reorderedTxSet := reorderedTxSet ?st @ [length (A @ [?t])..<length (A @ [?t]) + length C]\<rparr>)"
      by (rule Cons.IH) (use Cons.prems in auto)
    moreover have "?step (n, length A) st = Inr ?st"
      using Cons.prems by (simp add: nth_append list_update_append Let_def)
    ultimately show ?case by (simp only: up [of ?t] enumerate_simps rfold.simps rbind_simps) simp
  qed
  from this [of st 0] assms show ?thesis by (simp add: close_cached_def imap_def)
qed

text \<open>The loop invariant: the closed batches, the open one and the transactions still to come.\<close>

definition reorder_inv ::
  "environment \<Rightarrow> transactionWithReadWriteSet list \<Rightarrow> transactionWithReadWriteSet list \<Rightarrow> reorder_state \<Rightarrow> bool" where
  "reorder_inv env xs R st \<longleftrightarrow>
     (\<exists>bs b. batches xs = bs @ [b]
        \<and> store st = inner_batches env bs @ imap (number_tx (1 + int (length bs))) b @ R
        \<and> currentBatchId st = 1 + int (length bs) \<and> lastParticipantIds st = participantIds (hd b)
        \<and> rwkeyToSend st = keys_to_send b
        \<and> cachedTransactions st = [length (concat bs)..<length xs]
        \<and> reorderedTxSet st = [0..<length (concat bs)])"

lemma number_tx_fields [simp]:
  "localreadwriteKey (number_tx bid i t) = localreadwriteKey t"
  "participantIds (number_tx bid i t) = participantIds t"
  "emptyTransaction (number_tx bid i t) = emptyTransaction t"
  "receive_keys env (number_tx bid i t) = receive_keys env t"
  "rwkeysTosend (number_tx bid i t) = rwkeysTosend t"
  by (simp_all add: number_tx_def)

lemma keys_to_receive_cong: "receive_keys env t = receive_keys env u \<Longrightarrow> keys_to_receive env t = keys_to_receive env u"
  by (simp add: keys_to_receive_def)

lemma keys_to_receive_number [simp]:
  "keys_to_receive env (number_tx bid i t) = keys_to_receive env t"
  "keys_to_receive env (t\<lparr>lastTxInBatch := x\<rparr>) = keys_to_receive env t"
  by (rule keys_to_receive_cong, simp)+

lemma close_inner:
  assumes b: "b \<noteq> []" and ok: "\<And>t. t \<in> set b \<Longrightarrow> receive_keys env t = Inr (keys_to_receive env t)"
    and st: "store st = A @ (imap (number_tx bid) b)[length b - 1 := (number_tx bid (length b - 1) (last b))\<lparr>lastTxInBatch := True\<rparr>] @ R"
    "cachedTransactions st = [length A..<length A + length b]"
    "currentBatchId st = bid" "rwkeyToSend st = keys_to_send b"
  shows "close_cached env (close_in_batch st) st = Inr (st\<lparr>store := A @ inner_batch env bid b @ R,
    reorderedTxSet := reorderedTxSet st @ [length A..<length A + length b]\<rparr>)"
proof -
  let ?C = "(imap (number_tx bid) b)[length b - 1 := (number_tx bid (length b - 1) (last b))\<lparr>lastTxInBatch := True\<rparr>]"
  have nth: "?C ! i = (if Suc i = length b then (number_tx bid i (b ! i))\<lparr>lastTxInBatch := True\<rparr>
      else number_tx bid i (b ! i))" if "i < length b" for i
    using that b by (auto simp: nth_list_update last_conv_nth)
  have "receive_keys env (close_in_batch st i t) = Inr (keys_to_receive env t)" if "t \<in> set ?C" for i t
  proof -
    from that obtain j where j: "j < length ?C" "?C ! j = t" unfolding in_set_conv_nth by blast
    then have j: "j < length b" "t = ?C ! j" by simp_all
    have "receive_keys env t = receive_keys env (b ! j)" using nth [OF j(1)] j(2) by simp
    moreover from this have "keys_to_receive env t = keys_to_receive env (b ! j)" by (rule keys_to_receive_cong)
    moreover have "receive_keys env (b ! j) = Inr (keys_to_receive env (b ! j))" using ok j(1) by simp
    ultimately have "receive_keys env t = Inr (keys_to_receive env t)" by simp
    then show ?thesis by (simp add: close_in_batch_def)
  qed
  from close_cached_result [of st A ?C R env "close_in_batch st" "keys_to_receive env", OF st(1) _ this] st(2)
  have "close_cached env (close_in_batch st) st = Inr (st\<lparr>store := A @
      imap (\<lambda>i t. (close_in_batch st i t)\<lparr>rwkeyToReceive := keys_to_receive env t\<rparr>) ?C @ R,
      reorderedTxSet := reorderedTxSet st @ [length A..<length A + length b]\<rparr>)"
    by simp
  moreover have "imap (\<lambda>i t. (close_in_batch st i t)\<lparr>rwkeyToReceive := keys_to_receive env t\<rparr>) ?C = inner_batch env bid b"
  proof (rule nth_equalityI)
    fix i assume "i < length (imap (\<lambda>i t. (close_in_batch st i t)\<lparr>rwkeyToReceive := keys_to_receive env t\<rparr>) ?C)"
    then have i: "i < length b" by simp
    have rk: "keys_to_receive env (?C ! i) = keys_to_receive env (b ! i)"
      unfolding nth [OF i] by simp
    have "imap (\<lambda>i t. (close_in_batch st i t)\<lparr>rwkeyToReceive := keys_to_receive env t\<rparr>) ?C ! i
        = (close_in_batch st i (?C ! i))\<lparr>rwkeyToReceive := keys_to_receive env (b ! i)\<rparr>"
      using i rk by simp
    also have "\<dots> = (batch_tx env bid b i (b ! i))\<lparr>interShardTxBatchId := to_string bid\<rparr>"
      unfolding nth [OF i]
      by (cases "i = 0"; cases "Suc i = length b"; cases "bid = 1")
        (simp_all add: batch_tx_def close_in_batch_def st number_tx_def)
    also have "\<dots> = inner_batch env bid b ! i"
      using i by (simp add: inner_batch_def)
    finally show "imap (\<lambda>i t. (close_in_batch st i t)\<lparr>rwkeyToReceive := keys_to_receive env t\<rparr>) ?C ! i
        = inner_batch env bid b ! i" .
  qed (simp add: inner_batch_def)
  ultimately show ?thesis by simp
qed

lemma close_final:
  assumes b: "b \<noteq> []" and ok: "\<And>t. t \<in> set b \<Longrightarrow> receive_keys env t = Inr (keys_to_receive env t)"
    and st: "store st = A @ imap (number_tx bid) b" "cachedTransactions st = [length A..<length A + length b]"
    "rwkeyToSend st = keys_to_send b"
  shows "close_cached env (close_in_epoch sh ct st) st = Inr (st\<lparr>store := A @ final_batch env sh ct bid b,
    reorderedTxSet := reorderedTxSet st @ [length A..<length A + length b]\<rparr>)"
proof -
  let ?C = "imap (number_tx bid) b"
  have "receive_keys env (close_in_epoch sh ct st i t) = Inr (keys_to_receive env t)" if "t \<in> set ?C" for i t
  proof -
    from that obtain j where "j < length ?C" "?C ! j = t" unfolding in_set_conv_nth by blast
    then have j: "j < length b" "t = number_tx bid j (b ! j)" by simp_all
    have "receive_keys env t = Inr (keys_to_receive env t)"
      using ok [of "b ! j"] j by simp
    then show ?thesis by (simp add: close_in_epoch_def Let_def)
  qed
  from close_cached_result [of st A ?C "[]" env "close_in_epoch sh ct st" "keys_to_receive env", OF _ _ this] st(1,2)
  have "close_cached env (close_in_epoch sh ct st) st = Inr (st\<lparr>store := A @
      imap (\<lambda>i t. (close_in_epoch sh ct st i t)\<lparr>rwkeyToReceive := keys_to_receive env t\<rparr>) ?C,
      reorderedTxSet := reorderedTxSet st @ [length A..<length A + length b]\<rparr>)"
    by simp
  moreover have "imap (\<lambda>i t. (close_in_epoch sh ct st i t)\<lparr>rwkeyToReceive := keys_to_receive env t\<rparr>) ?C
      = final_batch env sh ct bid b"
  proof (rule nth_equalityI)
    fix i assume "i < length (imap (\<lambda>i t. (close_in_epoch sh ct st i t)\<lparr>rwkeyToReceive := keys_to_receive env t\<rparr>) ?C)"
    then have i: "i < length b" by simp
    have "(close_in_epoch sh ct st i (number_tx bid i t))\<lparr>rwkeyToReceive := keys_to_receive env t\<rparr>
        = (let u = number_tx bid i (batch_tx env bid b i t)
           in if Suc i = length b
              then u\<lparr>lastTxInEpoch := True, shuffle_states := sh, shuffle_states_contents := ct\<rparr> else u)" for t
      by (cases "i = 0"; cases "Suc i = length b"; cases "bid = 1")
        (simp_all add: batch_tx_def close_in_epoch_def st number_tx_def)
    then show "imap (\<lambda>i t. (close_in_epoch sh ct st i t)\<lparr>rwkeyToReceive := keys_to_receive env t\<rparr>) ?C ! i
        = final_batch env sh ct bid b ! i"
      using i by (simp add: final_batch_def)
  qed (simp add: final_batch_def)
  ultimately show ?thesis by simp
qed

lemma upt_join: "[0..<m] @ [m..<m + n] = [0..<m + n]"
  using upt_add_eq_append [of 0 m n] by simp

lemma keys_to_send_snoc: "keys_to_send (b @ [t]) = push_key (localreadwriteKey t) (keys_to_send b)"
  by (simp add: keys_to_send_def)

lemma body_first:
  assumes "store st = t # R" "processedEpochTxNum st = 0" "rwkeyToSend st = []" "cachedTransactions st = []"
    "reorderedTxSet st = []" "currentBatchId st = 1"
  shows "\<exists>st'. reorder_body env 0 st = Inr st' \<and> reorder_inv env [t] R st' \<and> processedEpochTxNum st' = 0
    \<and> length (store st') = length (store st)"
  using assms
  by (auto simp: reorder_body_def Let_def reorder_inv_def batches_def add_run_def inner_batches_def imap_def
      number_tx_def keys_to_send_def)

lemma body_same:
  assumes inv: "batches xs = bs @ [b]" "store st = inner_batches env bs @ imap (number_tx (1 + int (length bs))) b @ t # R"
    "currentBatchId st = 1 + int (length bs)" "lastParticipantIds st = participantIds (hd b)"
    "rwkeyToSend st = keys_to_send b" "cachedTransactions st = [length (concat bs)..<length xs]"
    "reorderedTxSet st = [0..<length (concat bs)]"
    and n: "processedEpochTxNum st \<noteq> 0" and same: "participantIds t = participantIds (hd b)"
  shows "\<exists>st'. reorder_body env (length xs) st = Inr st' \<and> reorder_inv env (xs @ [t]) R st'
    \<and> processedEpochTxNum st' = processedEpochTxNum st \<and> length (store st') = length (store st)"
proof -
  have b: "b \<noteq> []" using batch_in_batches [of b xs] inv(1) by simp
  have xs: "length xs = length (concat bs) + length b"
    using concat_batches [of xs] inv(1) by (metis concat.simps concat_append append_Nil2 length_append)
  have cur: "store st ! length xs = t" using inv(2) by (simp add: xs nth_append)
  have up: "[length (concat bs)..<length (xs @ [t])] = [length (concat bs)..<length xs] @ [length xs]"
    by (simp add: xs)
  have "(store st)[length xs := t\<lparr>interShardTxBatchId := to_string (currentBatchId st)\<rparr>]
      = inner_batches env bs @ imap (number_tx (1 + int (length bs))) (b @ [t]) @ R"
    using b by (simp add: inv(2,3) xs list_update_append imap_snoc number_tx_def)
  moreover have "batches (xs @ [t]) = bs @ [b @ [t]]"
    using inv(1) same by (simp add: batches_simps add_run_def)
  moreover have "length (store st) = Suc (length (concat bs) + (length b + length R))" using inv(2) by simp
  ultimately show ?thesis
    using inv(3-7) n same b up
    by (auto simp: reorder_body_def Let_def cur reorder_inv_def keys_to_send_snoc
        simp del: upt_Suc intro!: exI [of _ bs] exI [of _ "b @ [t]"])
qed

lemma body_new:
  assumes inv: "batches xs = bs @ [b]" "store st = inner_batches env bs @ imap (number_tx (1 + int (length bs))) b @ t # R"
    "currentBatchId st = 1 + int (length bs)" "lastParticipantIds st = participantIds (hd b)"
    "rwkeyToSend st = keys_to_send b" "cachedTransactions st = [length (concat bs)..<length xs]"
    "reorderedTxSet st = [0..<length (concat bs)]"
    and n: "processedEpochTxNum st \<noteq> 0" and diff: "participantIds t \<noteq> participantIds (hd b)"
    and ne: "\<not> emptyTransaction t"
    and ok: "\<And>t. t \<in> set b \<Longrightarrow> receive_keys env t = Inr (keys_to_receive env t)"
  shows "\<exists>st'. reorder_body env (length xs) st = Inr st' \<and> reorder_inv env (xs @ [t]) R st'
    \<and> processedEpochTxNum st' = processedEpochTxNum st \<and> length (store st') = length (store st)"
proof -
  let ?A = "inner_batches env bs" and ?bid = "1 + int (length bs)"
  have b: "b \<noteq> []" using batch_in_batches [of b xs] inv(1) by simp
  have xs: "length xs = length (concat bs) + length b"
    using concat_batches [of xs] inv(1) by (metis concat.simps concat_append append_Nil2 length_append)
  have cur: "store st ! length xs = t" using inv(2) by (simp add: xs nth_append)
  define st1 where "st1 = st\<lparr>store := (store st)[length xs - 1 := (store st ! (length xs - 1))\<lparr>lastTxInBatch := True\<rparr>]\<rparr>"
  have prev: "store st ! (length xs - 1) = number_tx ?bid (length b - 1) (last b)"
    using b by (cases b rule: rev_cases) (simp_all add: inv(2) xs nth_append)
  have "store st1 = ?A @ (imap (number_tx ?bid) b)[length b - 1 :=
      (number_tx ?bid (length b - 1) (last b))\<lparr>lastTxInBatch := True\<rparr>] @ t # R"
  proof -
    have "store st1 = (store st)[length xs - 1 := (number_tx ?bid (length b - 1) (last b))\<lparr>lastTxInBatch := True\<rparr>]"
      unfolding st1_def prev by simp
    then show ?thesis unfolding inv(2) using b by (cases b rule: rev_cases) (simp_all add: xs list_update_append)
  qed
  from close_inner [OF b ok this] inv(3,5,6) xs
  have close: "close_cached env (close_in_batch st1) st1 = Inr (st1\<lparr>store := ?A @ inner_batch env ?bid b @ t # R,
      reorderedTxSet := [0..<length (concat bs)] @ [length (concat bs)..<length (concat bs) + length b]\<rparr>)"
    by (simp add: st1_def inv(7))
  have upt: "[0..<length (concat bs)] @ [length (concat bs)..<length (concat bs) + length b] = [0..<length xs]"
    unfolding xs by (rule upt_join)
  let ?st' = "st1\<lparr>store := ?A @ inner_batch env ?bid b @ t\<lparr>interShardTxBatchId := to_string (?bid + 1)\<rparr> # R,
     reorderedTxSet := [0..<length xs], rwkeyToSend := [localreadwriteKey t], cachedTransactions := [length xs],
     currentBatchId := ?bid + 1, lastParticipantIds := participantIds t\<rparr>"
  have len: "length (inner_batch env ?bid b) = length b" by (simp add: inner_batch_def)
  have n': "lastParticipantIds st \<noteq> participantIds t" using diff inv(4) by simp
  have "reorder_body env (length xs) st = rbind (close_cached env (close_in_batch st1) st1) (\<lambda>st2.
      let st3 = st2\<lparr>rwkeyToSend := [], cachedTransactions := [], currentBatchId := currentBatchId st2 + 1,
                    lastParticipantIds := participantIds t\<rparr>
      in Inr (st3\<lparr>rwkeyToSend := [localreadwriteKey t],
               store := (store st3)[length xs := (store st3 ! length xs)
                          \<lparr>interShardTxBatchId := to_string (currentBatchId st3)\<rparr>],
               cachedTransactions := [length xs]\<rparr>))"
    unfolding reorder_body_def Let_def cur st1_def [symmetric] using n n' ne by simp
  also have "\<dots> = Inr ?st'"
  proof -
    have "currentBatchId st1 = ?bid" by (simp add: st1_def inv(3))
    then show ?thesis
      unfolding close upt by (simp add: xs len nth_append list_update_append add.commute)
  qed
  finally have "reorder_body env (length xs) st = Inr ?st'" .
  moreover have "batches (xs @ [t]) = (bs @ [b]) @ [[t]]"
    using inv(1) diff by (auto simp: batches_simps add_run_def)
  moreover have "inner_batches env (bs @ [b]) = ?A @ inner_batch env ?bid b"
    by (simp add: inner_batches_snoc add.commute)
  ultimately show ?thesis
    using xs len inv(2)
    by (auto simp: reorder_inv_def st1_def imap_def number_tx_def keys_to_send_def push_key_def
        intro!: exI [of _ "bs @ [b]"] exI [of _ "[t]"])
qed

lemma reorder_body_inv:
  assumes inv: "reorder_inv env xs (t # R) st" and n: "processedEpochTxNum st = length xs" and xs: "xs \<noteq> []"
    and ne: "\<not> emptyTransaction t"
    and ok: "\<And>t. t \<in> set xs \<Longrightarrow> receive_keys env t = Inr (keys_to_receive env t)"
  shows "\<exists>st'. reorder_body env (length xs) st = Inr st' \<and> reorder_inv env (xs @ [t]) R st'
    \<and> processedEpochTxNum st' = length xs \<and> length (store st') = length (store st)"
proof -
  from inv obtain bs b where b: "batches xs = bs @ [b]"
    "store st = inner_batches env bs @ imap (number_tx (1 + int (length bs))) b @ t # R"
    "currentBatchId st = 1 + int (length bs)" "lastParticipantIds st = participantIds (hd b)"
    "rwkeyToSend st = keys_to_send b" "cachedTransactions st = [length (concat bs)..<length xs]"
    "reorderedTxSet st = [0..<length (concat bs)]"
    unfolding reorder_inv_def by blast
  have "set b \<subseteq> set xs" using concat_batches [of xs] b(1) by auto
  then have ok_b: "\<And>t. t \<in> set b \<Longrightarrow> receive_keys env t = Inr (keys_to_receive env t)" using ok by blast
  have n0: "processedEpochTxNum st \<noteq> 0" using n xs by simp
  show ?thesis
  proof (cases "participantIds t = participantIds (hd b)")
    case True
    from body_same [OF b n0 this] n show ?thesis by simp
  next
    case False
    from body_new [OF b n0 this ne ok_b] n show ?thesis by simp
  qed
qed

lemma reorder_prefix:
  assumes "ts = xs @ R" and "xs \<noteq> []" and "R \<noteq> []"
    and ne: "\<And>t. t \<in> set ts \<Longrightarrow> \<not> emptyTransaction t"
    and ok: "\<And>t. t \<in> set ts \<Longrightarrow> receive_keys env t = Inr (keys_to_receive env t)"
  shows "\<exists>st. rfold (reorder_step env sh ct) [0..<length xs] (reorder_start ts) = Inr st
    \<and> reorder_inv env xs R st \<and> processedEpochTxNum st = length xs \<and> length (store st) = length ts"
  using assms(1-3)
proof (induction xs arbitrary: R rule: rev_induct)
  case (snoc t xs)
  show ?case
  proof (cases "xs = []")
    case True
    from body_first [of "reorder_start ts" t R env] snoc.prems True obtain st' where
      st': "reorder_body env 0 (reorder_start ts) = Inr st'" "reorder_inv env [t] R st'"
      "processedEpochTxNum st' = 0" "length (store st') = length ts"
      by (auto simp: reorder_start_def)
    then show ?thesis using True snoc.prems(1,3)
      by (auto simp: reorder_step_def reorder_inv_def)
  next
    case False
    from snoc.IH [of "t # R"] snoc.prems False obtain st where
      st: "rfold (reorder_step env sh ct) [0..<length xs] (reorder_start ts) = Inr st"
      "reorder_inv env xs (t # R) st" "processedEpochTxNum st = length xs" "length (store st) = length ts"
      by auto
    from reorder_body_inv [OF st(2,3) False] ne ok snoc.prems(1) obtain st' where
      st': "reorder_body env (length xs) st = Inr st'" "reorder_inv env (xs @ [t]) R st'"
      "processedEpochTxNum st' = length xs" "length (store st') = length (store st)"
      by auto
    then have "reorder_step env sh ct (length xs) st = Inr (st'\<lparr>processedEpochTxNum := Suc (length xs)\<rparr>)"
      using snoc.prems(1,3) st(4) by (auto simp: reorder_step_def)
    then show ?thesis using st st' by (auto simp: rfold_append reorder_inv_def)
  qed
qed simp

lemma reorder_loop_result:
  assumes ne: "\<And>t. t \<in> set ts \<Longrightarrow> \<not> emptyTransaction t"
    and ok: "\<And>t. t \<in> set ts \<Longrightarrow> receive_keys env t = Inr (keys_to_receive env t)"
  shows "reorder_loop env shuffle contents ts = Inr (annotate env shuffle contents 1 (batches ts))"
proof (cases ts rule: rev_cases)
  case Nil
  then show ?thesis by (simp add: reorder_loop_def batches_simps reorder_start_def)
next
  case (snoc xs t)
  have "\<exists>st st'. rfold (reorder_step env shuffle contents) [0..<length xs] (reorder_start ts) = Inr st
      \<and> reorder_body env (length xs) st = Inr st' \<and> reorder_inv env ts [] st'
      \<and> processedEpochTxNum st' = length xs \<and> length (store st') = length ts"
  proof (cases "xs = []")
    case True
    from body_first [of "reorder_start ts" t "[]" env] True snoc show ?thesis
      by (auto simp: reorder_start_def)
  next
    case False
    from reorder_prefix [of ts xs "[t]" env shuffle contents] snoc False ne ok obtain st where
      st: "rfold (reorder_step env shuffle contents) [0..<length xs] (reorder_start ts) = Inr st"
      "reorder_inv env xs [t] st" "processedEpochTxNum st = length xs" "length (store st) = length ts"
      by auto
    from reorder_body_inv [OF st(2,3) False] ne ok snoc st show ?thesis by auto
  qed
  then obtain st st' where st: "rfold (reorder_step env shuffle contents) [0..<length xs] (reorder_start ts) = Inr st"
    "reorder_body env (length xs) st = Inr st'" "reorder_inv env ts [] st'"
    "processedEpochTxNum st' = length xs" "length (store st') = length ts" by blast
  from st(3) obtain bs b where b: "batches ts = bs @ [b]"
    "store st' = inner_batches env bs @ imap (number_tx (1 + int (length bs))) b"
    "rwkeyToSend st' = keys_to_send b" "cachedTransactions st' = [length (concat bs)..<length ts]"
    "reorderedTxSet st' = [0..<length (concat bs)]"
    unfolding reorder_inv_def by auto
  have bne: "b \<noteq> []" using batch_in_batches [of b ts] b(1) by simp
  have len: "length ts = length (concat bs) + length b"
    using concat_batches [of ts] b(1) by (metis concat.simps concat_append append_Nil2 length_append)
  have "set b \<subseteq> set ts" using concat_batches [of ts] b(1) by auto
  then have ok_b: "\<And>t. t \<in> set b \<Longrightarrow> receive_keys env t = Inr (keys_to_receive env t)" using ok by blast
  let ?r = "annotate env shuffle contents 1 (batches ts)"
  have r: "?r = inner_batches env bs @ final_batch env shuffle contents (1 + int (length bs)) b"
    unfolding b(1) by (rule annotate_batches)
  have "close_cached env (close_in_epoch shuffle contents st') st' = Inr (st'\<lparr>store := ?r,
      reorderedTxSet := [0..<length (concat bs)] @ [length (concat bs)..<length (concat bs) + length b]\<rparr>)"
    using close_final [OF bne ok_b, of st' "inner_batches env bs" "1 + int (length bs)" shuffle contents] b len
    by (simp add: annotate_batches)
  also have "[0..<length (concat bs)] @ [length (concat bs)..<length (concat bs) + length b] = [0..<length ts]"
    unfolding len by (rule upt_join)
  finally have close: "close_cached env (close_in_epoch shuffle contents st') st'
      = Inr (st'\<lparr>store := ?r, reorderedTxSet := [0..<length ts]\<rparr>)" .
  have "length ?r = length ts" by (simp add: r len final_batch_def)
  then have "map (\<lambda>p. ?r ! p) [0..<length ts] = ?r" by (metis map_nth)
  moreover have "[0..<length ts] = [0..<length xs] @ [length xs]" using snoc by simp
  ultimately show ?thesis
    using st(1,2,4,5) snoc close by (simp add: reorder_loop_def rfold_append reorder_step_def)
qed

text \<open>
  C17: The loop over a reordered epoch cuts it into the maximal runs of transactions with equal
  participants and keeps their order: the first transaction of each run carries the distinct local
  states of the run to send, the last one is marked as the last of its batch, the last one of the epoch
  carries the shuffle request, every transaction waits for the states of the other participants, and
  the batches are numbered from 1, except that the very first transaction of a single-batch epoch
  keeps the empty number.
\<close>

theorem reorder_loop_batches:
  assumes ne: "\<And>t. t \<in> set ts \<Longrightarrow> \<not> emptyTransaction t"
    and ok: "\<And>t. t \<in> set ts \<Longrightarrow> receive_keys env t = Inr (keys_to_receive env t)"
  shows "reorder_loop env shuffle contents ts = Inr (annotate env shuffle contents 1 (batches ts))"
  by (rule reorder_loop_result [OF ne ok])

section \<open>One epoch as a whole\<close>

definition parse_epoch ::
  "environment \<Rightarrow> string \<Rightarrow> string \<Rightarrow> string list \<Rightarrow> LRU_StatesInfo
     \<Rightarrow> (transactionWithReadWriteSet list \<times> LRU_StatesInfo) result" where
  "parse_epoch env coordinator epochId contents lru =
     rfold (\<lambda>c (txs, lru). rbind (parse_subtx env coordinator epochId c lru) (\<lambda>(tx, lru').
       Inr (txs @ [tx], lru'))) contents ([], lru)"

lemma parse_then_reorder:
  "rfold (\<lambda>c (reorderedTxs, lru). rbind (parse_subtx env k e c lru) (\<lambda>(tx, lru').
       Inr (reorder_insert tx reorderedTxs, lru'))) cs (fold reorder_insert txs [], lru)
   = rbind (rfold (\<lambda>c (txs, lru). rbind (parse_subtx env k e c lru) (\<lambda>(tx, lru').
       Inr (txs @ [tx], lru'))) cs (txs, lru)) (\<lambda>(txs, lru). Inr (fold reorder_insert txs [], lru))"
proof (induction cs arbitrary: txs lru)
  case (Cons c cs)
  show ?case
  proof (cases "parse_subtx env k e c lru")
    case (Inr r)
    obtain tx l where r: "r = (tx, l)" by (cases r)
    from Cons [of "txs @ [tx]" l] show ?thesis by (simp add: Inr r)
  qed simp
qed simp

lemma parse_subtx_fields:
  "parse_subtx env k e c lru = Inr (tx, lru') \<Longrightarrow>
   \<not> emptyTransaction tx \<and> is_intershardTx tx \<and> interShardTxEpochID tx = e \<and> coordinator_shardid tx = k"
  by (auto simp: parse_subtx_def checked Let_def new_transactionWithReadWriteSet_of_def
      new_transactionWithReadWriteSet_def split: prod.splits)

lemma parse_epoch_fields:
  assumes "parse_epoch env k e cs lru = Inr (txs, lru')" and "t \<in> set txs"
  shows "\<not> emptyTransaction t \<and> is_intershardTx t \<and> interShardTxEpochID t = e \<and> coordinator_shardid t = k"
proof -
  let ?P = "\<lambda>t. \<not> emptyTransaction t \<and> is_intershardTx t \<and> interShardTxEpochID t = e \<and> coordinator_shardid t = k"
  have "case (txs, lru') of (txs, lru) \<Rightarrow> \<forall>t \<in> set txs. ?P t"
    by (rule rfold_invariant [OF assms(1) [unfolded parse_epoch_def]])
      (auto simp: checked; drule parse_subtx_fields; simp)+
  with assms(2) show ?thesis by auto
qed

lemma insertTx_content: "queued_txs (fold (insertTx sp) ts q) = queued_txs q @ ts"
  by (induction ts arbitrary: q) (simp_all add: insertTx_def)

text \<open>
  C18: An epoch with sub-transactions is queued whole and at once: sorted by participants, with equal
  participants in the reverse of the order in which the coordinator listed them, cut into batches and
  appended to the coordinator's queue, where every state it touches is then locked; the other queues
  stay as they are. The epoch id of each transaction is the second item of the header, which is
  the coordinator's id.
\<close>

theorem epoch_queued:
  assumes items: "txcontents = prefix # subtxs # converted # shuffle # rest" "subtxs \<noteq> ''none''"
    and header: "e_split env CHR ''|'' prefix = label # epochId # moreItems"
    and parse: "parse_epoch env c epochId (e_split env CHR ''&'' subtxs) (m_LRU_StatesInfo s) = Inr (txs, lru)"
    and keys: "\<And>t. t \<in> set txs \<Longrightarrow> receive_keys env t = Inr (keys_to_receive env t)"
    and queue: "m_blockingTxQueues s c = Some q" "btq.balanced (e_split env) q"
  shows "\<exists>s' q' queued. processBatchSubInterShardTxs env c txcontents s = Inr s'
    \<and> m_blockingTxQueues s' = (m_blockingTxQueues s)(c \<mapsto> q') \<and> queued_txs q' = queued_txs q @ queued
    \<and> queued = annotate env (shuffle \<noteq> '''') shuffle 1 (batches (sort_key participantIds (rev txs)))
    \<and> (\<forall>t \<in> set txs. interShardTxEpochID t = epochId)
    \<and> (\<forall>keys. isBlocked (e_split env) q' keys \<longleftrightarrow>
         (\<exists>t \<in> set (queued_txs q'). set (e_split env CHR ''_'' keys) \<inter> set (tx_keys (e_split env) t) \<noteq> {}))"
proof -
  let ?ts = "sort_key participantIds (rev txs)"
  let ?queued = "annotate env (shuffle \<noteq> '''') shuffle 1 (batches ?ts)"
  have loop: "reorder_loop env (shuffle \<noteq> '''') shuffle ?ts = Inr ?queued"
    using parse_epoch_fields [OF parse] keys by (intro reorder_loop_result) auto
  let ?q = "fold (insertTx (e_split env)) ?queued q"
  obtain e where ins: "insertTxs (e_split env) (e_now env) ?queued (q, m_txid_to_endtime s) = (?q, e)"
    using insertTxs_fold [of "e_split env" "e_now env" ?queued "(q, m_txid_to_endtime s)"]
    by (metis fst_conv prod.collapse)
  have "processBatchSubInterShardTxs env c txcontents s
      = Inr (s\<lparr>m_LRU_StatesInfo := lru, m_blockingTxQueues := (m_blockingTxQueues s)(c \<mapsto> ?q),
               m_txid_to_endtime := e\<rparr>)"
  proof -
    have re: "rfold (\<lambda>x (reorderedTxs, lru). rbind (parse_subtx env c epochId x lru) (\<lambda>(tx, lru').
         Inr (reorder_insert tx reorderedTxs, lru'))) (e_split env CHR ''&'' subtxs) ([], m_LRU_StatesInfo s)
       = Inr (?ts, lru)"
      using parse_then_reorder [of env c epochId "e_split env CHR ''&'' subtxs" "[]" "m_LRU_StatesInfo s"]
        parse [unfolded parse_epoch_def]
      by (simp only: fold_simps rbind_simps prod.case reorder_all)
    have proc: "processReorderedTxs env c ?ts (shuffle \<noteq> '''') shuffle (s\<lparr>m_LRU_StatesInfo := lru\<rparr>)
       = Inr (s\<lparr>m_LRU_StatesInfo := lru, m_blockingTxQueues := (m_blockingTxQueues s)(c \<mapsto> ?q),
                 m_txid_to_endtime := e\<rparr>)"
      unfolding processReorderedTxs_def loop rbind_simps by (simp add: queue(1) ins)
    show ?thesis
      using items(2) unfolding processBatchSubInterShardTxs_def items(1) vec_at_def
      by (simp add: header vec_at_def re proc)
  qed
  moreover have "btq.balanced (e_split env) ?q" using btq.balanced_puts [OF queue(2)] by blast
  then have "isBlocked (e_split env) ?q keys \<longleftrightarrow>
      (\<exists>t \<in> set (queued_txs ?q). set (e_split env CHR ''_'' keys) \<inter> set (tx_keys (e_split env) t) \<noteq> {})" for keys
    using btq.balanced_locked_iff by (auto simp: isBlocked_iff)
  moreover have "\<forall>t \<in> set txs. interShardTxEpochID t = epochId" using parse_epoch_fields [OF parse] by blast
  moreover have "queued_txs ?q = queued_txs q @ ?queued" by (rule insertTx_content)
  moreover have "m_blockingTxQueues (s\<lparr>m_LRU_StatesInfo := lru,
      m_blockingTxQueues := (m_blockingTxQueues s)(c \<mapsto> ?q), m_txid_to_endtime := e\<rparr>)
      = (m_blockingTxQueues s)(c \<mapsto> ?q)" by simp
  ultimately show ?thesis by blast
qed

text \<open>An epoch of three transactions for shard 1 of the nine-shard tree.\<close>

definition example_subtxs :: string where
  "example_subtxs = ''a|1_2|aa_bb|x_y&b|1_2|cc_dd|z_y&c|1_3|ee_ff|x_w''"

definition example_parsed :: "transactionWithReadWriteSet list \<times> LRU_StatesInfo" where
  "example_parsed =
     (case parse_epoch (env_of 1 tree_9 ''n'') ''4'' ''4'' (cut CHR ''&'' example_subtxs) new_LRU_StatesInfo
      of Inr r \<Rightarrow> r | Inl _ \<Rightarrow> ([], new_LRU_StatesInfo))"

definition example_queue_state :: executer where
  "example_queue_state = new_executer\<lparr>m_blockingTxQueues := [''4'' \<mapsto> new_BlockingTxQueue]\<rparr>"

lemma example_ids: "map intershardTxId (fst example_parsed) = [''a'', ''b'', ''c'']"
  by code_simp

lemma example_parse:
  "parse_epoch (env_of 1 tree_9 ''n'') ''4'' ''4'' (cut CHR ''&'' example_subtxs) new_LRU_StatesInfo = Inr example_parsed"
proof (cases "parse_epoch (env_of 1 tree_9 ''n'') ''4'' ''4'' (cut CHR ''&'' example_subtxs) new_LRU_StatesInfo")
  case (Inl e)
  then show ?thesis using example_ids by (simp add: example_parsed_def)
qed (simp add: example_parsed_def)

lemma epoch_queued_witness:
  "\<exists>s' q'. processBatchSubInterShardTxs (env_of 1 tree_9 ''n'') ''4''
       [''0x999000111|4|1'', example_subtxs, ''none'', ''''] example_queue_state = Inr s'
    \<and> m_blockingTxQueues s' ''4'' = Some q' \<and> map intershardTxId (queued_txs q') = [''b'', ''a'', ''c'']
    \<and> map interShardTxBatchId (queued_txs q') = [''1'', ''1'', ''2''] \<and> isBlocked cut q' ''x''"
proof -
  let ?env = "env_of 1 tree_9 ''n''"
  have lru: "m_LRU_StatesInfo example_queue_state = new_LRU_StatesInfo"
    by (simp add: example_queue_state_def new_executer_def)
  have p: "parse_epoch ?env ''4'' ''4'' (e_split ?env CHR ''&'' example_subtxs) (m_LRU_StatesInfo example_queue_state)
      = Inr (fst example_parsed, snd example_parsed)"
    using example_parse unfolding lru by (simp add: env_of_def)
  have head: "e_split ?env CHR ''|'' ''0x999000111|4|1'' = ''0x999000111'' # ''4'' # [''1'']"
    by (simp add: env_of_def)
  have "list_all (\<lambda>t. receive_keys ?env t = Inr (keys_to_receive ?env t)) (fst example_parsed)" by code_simp
  then have keys: "receive_keys ?env t = Inr (keys_to_receive ?env t)" if "t \<in> set (fst example_parsed)" for t
    using that by (simp add: list_all_iff)
  have q: "m_blockingTxQueues example_queue_state ''4'' = Some new_BlockingTxQueue"
    by (simp add: example_queue_state_def)
  have subs: "example_subtxs \<noteq> ''none''" by code_simp
  have ids: "map intershardTxId (annotate ?env False '''' 1 (batches (sort_key participantIds (rev (fst example_parsed)))))
      = [''b'', ''a'', ''c'']" by code_simp
  have nums: "map interShardTxBatchId (annotate ?env False '''' 1 (batches (sort_key participantIds (rev (fst example_parsed)))))
      = [''1'', ''1'', ''2'']" by code_simp
  have locks: "list_ex (\<lambda>t. ''x'' \<in> set (tx_keys cut t))
      (annotate ?env False '''' 1 (batches (sort_key participantIds (rev (fst example_parsed)))))" by code_simp
  have split: "e_split ?env = cut" by (simp add: env_of_def)
  obtain s' q' where r: "processBatchSubInterShardTxs ?env ''4''
       [''0x999000111|4|1'', example_subtxs, ''none'', ''''] example_queue_state = Inr s'"
    "m_blockingTxQueues s' ''4'' = Some q'"
    "queued_txs q' = annotate ?env False '''' 1 (batches (sort_key participantIds (rev (fst example_parsed))))"
    "\<And>keys. isBlocked cut q' keys \<longleftrightarrow>
         (\<exists>t \<in> set (queued_txs q'). set (cut CHR ''_'' keys) \<inter> set (tx_keys cut t) \<noteq> {})"
    using epoch_queued [where converted = "''none''" and shuffle = "''''" and rest = "[]",
        OF refl subs head p keys q balanced_new]
    unfolding split by (auto simp: new_BlockingTxQueue_def)
  have "isBlocked cut q' ''x''"
    using r(4) [of "''x''"] locks unfolding r(3) [symmetric] by (auto simp: list_ex_iff)
  with r ids nums show ?thesis by auto
qed

lemma reorder_loop_batches_witness:
  "\<exists>r. reorder_loop (env_of 1 tree_9 ''n'') False '''' (fst example_parsed) = Inr r
    \<and> map intershardTxId r = [''a'', ''b'', ''c''] \<and> map lastTxInBatch r = [False, True, True]"
proof -
  let ?env = "env_of 1 tree_9 ''n''"
  have "list_all (\<lambda>t. \<not> emptyTransaction t \<and> receive_keys ?env t = Inr (keys_to_receive ?env t)) (fst example_parsed)"
    by code_simp
  then have ok: "\<not> emptyTransaction t" "receive_keys ?env t = Inr (keys_to_receive ?env t)"
    if "t \<in> set (fst example_parsed)" for t
    using that by (simp_all add: list_all_iff)
  have "map intershardTxId (annotate ?env False '''' 1 (batches (fst example_parsed))) = [''a'', ''b'', ''c'']"
    "map lastTxInBatch (annotate ?env False '''' 1 (batches (fst example_parsed))) = [False, True, True]"
    by code_simp+
  moreover have "reorder_loop ?env False '''' (fst example_parsed)
      = Inr (annotate ?env False '''' 1 (batches (fst example_parsed)))"
    by (rule reorder_loop_batches) (erule ok)+
  ultimately show ?thesis by simp
qed


end
