(* ===== verification/Coordinator.thy ===== *)
theory Coordinator
  imports EpochProcessing
begin

text \<open>
  The coordinator's side (\<open>libplugin/TransactionExecuter.cpp\<close>): \<open>accumulateSubTxs\<close> adds a
  cross-shard transaction to the container of every shard that takes part in it now,
  \<open>checkSubTxsContainers\<close> sends every non-empty container as the next epoch of its shard, and
  \<open>sendBatchDistributedTxMsg\<close> hands an epoch to the shard's forward node, or, for the coordinator's
  own shard, proposes it as a transaction.
\<close>

section \<open>Accumulating a cross-shard transaction\<close>

text \<open>
  The first loop: per participant its original shard, its current one (the master of its key, when
  that has changed) and the keys that have to be written at several shards.
\<close>

record participants =
  multi_write_statekeys :: "string list"
  origional_participant_shardids :: "string list"
  current_participant_shardids :: "string list"

definition participant_step ::
  "environment \<Rightarrow> executer \<Rightarrow> string list \<Rightarrow> nat \<Rightarrow> participants \<Rightarrow> participants result" where
  "participant_step env s dataitems j p =
     rbind (vec_at dataitems (2 + 3 * j)) (\<lambda>original.
     rbind (vec_at dataitems (4 + 3 * j)) (\<lambda>rwkeys.
     rbind (vec_at (e_split env CHR ''_'' rwkeys) j) (\<lambda>rwkey.
       let current = (case m_masterChangedKey s rwkey of Some master \<Rightarrow> to_string master | None \<Rightarrow> original)
       in Inr (p\<lparr>multi_write_statekeys := (case m_masterChangedKey s rwkey of
                    Some _ \<Rightarrow> multi_write_statekeys p @ [rwkey] | None \<Rightarrow> multi_write_statekeys p),
                 origional_participant_shardids := origional_participant_shardids p @ [original],
                 current_participant_shardids := push_key current (current_participant_shardids p)\<rparr>))))"

definition read_participants :: "environment \<Rightarrow> executer \<Rightarrow> string list \<Rightarrow> participants result" where
  "read_participants env s dataitems =
     rfold (participant_step env s dataitems) [0..<(length dataitems - 1) div 3]
       \<lparr>multi_write_statekeys = [], origional_participant_shardids = [], current_participant_shardids = []\<rparr>"

text \<open>Every key to be written at several shards is noted for every original participant.\<close>

definition note_shuffle :: "participants \<Rightarrow> executer \<Rightarrow> executer" where
  "note_shuffle p s =
     fold (\<lambda>rwkey. fold (\<lambda>shardid s.
         s\<lparr>states_need_shuffle := (states_need_shuffle s)(shardid \<mapsto>
              (case states_need_shuffle s shardid of None \<Rightarrow> [rwkey] | Some states \<Rightarrow> states @ [rwkey]))\<rparr>)
       (origional_participant_shardids p)) (multi_write_statekeys p) s"

definition insert_into_container :: "string \<Rightarrow> string \<Rightarrow> executer \<Rightarrow> executer result" where
  "insert_into_container subtx shardid s =
     rbind (map_at (map_of (m_subTxsContainers s)) (atoi shardid)) (\<lambda>c.
       Inr (s\<lparr>m_subTxsContainers := om_set (atoi shardid) (insertSubTx subtx c) (m_subTxsContainers s)\<rparr>))"

definition accumulateSubTxs :: "environment \<Rightarrow> string \<Rightarrow> executer \<Rightarrow> executer result" where
  "accumulateSubTxs env data_str s =
     (let dataitems = e_split env CHR ''|'' data_str
      in rbind (vec_at dataitems 1) (\<lambda>intershardTxid.
         rbind (read_participants env s dataitems) (\<lambda>p.
           let s1 = note_shuffle p s
           in rbind (vec_at dataitems 4) (\<lambda>rwkeys.
              rbind (rmap (\<lambda>j. vec_at dataitems (3 + 3 * j)) [0..<length (current_participant_shardids p)]) (\<lambda>rlps.
                let subIntershardTxs = intershardTxid @ ''|'' @ join_with ''_'' (current_participant_shardids p)
                      @ ''|'' @ join_with ''_'' rlps @ ''|'' @ rwkeys
                in rfold (insert_into_container subIntershardTxs) (current_participant_shardids p) s1)))))"

definition processInterShardTx :: "environment \<Rightarrow> string \<Rightarrow> executer \<Rightarrow> executer result" where
  "processInterShardTx env data_str s =
     rbind (forward_node env) (\<lambda>fwd. if fwd then accumulateSubTxs env data_str s else Inr s)"

section \<open>Sending the containers\<close>

definition none_if_empty :: "string \<Rightarrow> string" where
  "none_if_empty c = (if c = '''' then ''none'' else c)"

definition batch_data :: "int \<Rightarrow> int \<Rightarrow> string \<Rightarrow> string \<Rightarrow> string \<Rightarrow> string" where
  "batch_data coordinator epochId txcontents intrashard shuffle =
     ''0x999000111'' @ ''|'' @ to_string coordinator @ ''|'' @ to_string epochId @ ''#''
       @ none_if_empty txcontents @ ''#'' @ none_if_empty intrashard @ ''#'' @ shuffle"

text \<open>The data is copied up to the first zero byte (\<open>c_str\<close>, \<open>strlen\<close>).\<close>

definition sendBatchDistributedTxMsg ::
  "environment \<Rightarrow> int \<Rightarrow> int \<Rightarrow> int \<Rightarrow> string \<Rightarrow> string \<Rightarrow> string \<Rightarrow> executer \<Rightarrow> executer result" where
  "sendBatchDistributedTxMsg env coordinator epochId destshardId subTxs intrashardTxs shuffle s =
     (if destshardId = e_group env then
        rbind (forward_node env) (\<lambda>fwd.
          Inr (if fwd then emit (RawTransaction (e_group env)
                 (takeWhile (\<lambda>c. c \<noteq> char_of (0::nat))
                    (batch_data (e_group env) epochId subTxs intrashardTxs shuffle))) s
               else s))
      else
        rbind (get_nodeIDs (e_tree env) destshardId) (\<lambda>nodes. rbind (vec_at nodes 0) (\<lambda>n.
          Inr (emit (SendTo n (BatchDistributedTxMsg coordinator epochId subTxs intrashardTxs shuffle)) s))))"

definition shuffle_contents :: "environment \<Rightarrow> executer \<Rightarrow> string" where
  "shuffle_contents env s =
     (case states_need_shuffle s (to_string (e_group env)) of
        None \<Rightarrow> '''' | Some states \<Rightarrow> join_with ''|'' states)"

definition check_container :: "environment \<Rightarrow> int \<Rightarrow> executer \<Rightarrow> executer result" where
  "check_container env groupid s =
     rbind (map_at (map_of (m_subTxsContainers s)) groupid) (\<lambda>c.
       if getTxSize c > 0 then
         (let (container, c') = getTxs c;
              s1 = s\<lparr>m_subTxsContainers := om_set groupid c' (m_subTxsContainers s)\<rparr>
          in rbind (sendBatchDistributedTxMsg env (e_group env) (m_epochId container)
                 (m_destinshardId container) (m_subtxs container) (m_intrashardtxs container)
                 (shuffle_contents env s1) s1) (\<lambda>s2.
               Inr (s2\<lparr>m_subTxsContainers :=
                      om_set groupid (c'\<lparr>m_epochId := m_epochId c' + 1\<rparr>) (m_subTxsContainers s2)\<rparr>)))
       else Inr s)"

definition checkSubTxsContainers :: "environment \<Rightarrow> executer \<Rightarrow> executer result" where
  "checkSubTxsContainers env s = rfold (check_container env) (map fst (m_subTxsContainers s)) s"

section \<open>What a cross-shard transaction adds\<close>

type_synonym part = "int \<times> string \<times> string"

abbreviation part_shard :: "part \<Rightarrow> int" where "part_shard p \<equiv> fst p"
abbreviation part_rlp :: "part \<Rightarrow> string" where "part_rlp p \<equiv> fst (snd p)"
abbreviation part_key :: "part \<Rightarrow> string" where "part_key p \<equiv> snd (snd p)"

text \<open>The data of a cross-shard transaction with the given participants.\<close>

definition intershard_data :: "string \<Rightarrow> part list \<Rightarrow> string" where
  "intershard_data i parts =
     join_with ''|'' (''0x111222333'' # i # concat (map (\<lambda>p.
        [to_string (part_shard p), part_rlp p, join_with ''_'' (map part_key parts)]) parts))"

definition plain :: "string \<Rightarrow> bool" where
  "plain t \<longleftrightarrow> t \<noteq> [] \<and> CHR ''|'' \<notin> set t \<and> CHR ''_'' \<notin> set t \<and> CHR ''&'' \<notin> set t \<and> CHR ''#'' \<notin> set t"

definition master_of :: "executer \<Rightarrow> part \<Rightarrow> int" where
  "master_of s p = (case m_masterChangedKey s (part_key p) of Some m \<Rightarrow> m | None \<Rightarrow> part_shard p)"

definition masters :: "executer \<Rightarrow> part list \<Rightarrow> int list" where
  "masters s parts = fold push_key (map (master_of s) parts) []"

lemma push_key_set [simp]: "set (push_key k ks) = insert k (set ks)"
  by (auto simp: push_key_def)

lemma push_key_distinct: "distinct ks \<Longrightarrow> distinct (push_key k ks)"
  by (auto simp: push_key_def)

lemma push_keys: "set (fold push_key xs ks) = set xs \<union> set ks \<and> (distinct ks \<longrightarrow> distinct (fold push_key xs ks))"
  by (induction xs arbitrary: ks) (auto simp: push_key_distinct)

lemma push_keys_length: "length (fold push_key xs ks) \<le> length xs + length ks"
proof (induction xs arbitrary: ks)
  case (Cons x xs)
  have "length (push_key x ks) \<le> Suc (length ks)" by (simp add: push_key_def)
  with Cons [of "push_key x ks"] show ?case by simp
qed simp

lemma push_key_map: "inj f \<Longrightarrow> map f (push_key k ks) = push_key (f k) (map f ks)"
  by (auto simp: push_key_def dest: injD)

lemma push_keys_map: "inj f \<Longrightarrow> fold push_key (map f xs) (map f ks) = map f (fold push_key xs ks)"
  by (induction xs arbitrary: ks) (auto simp flip: push_key_map)

lemma inj_to_string: "inj to_string"
  by (simp add: inj_on_def)

lemma triple_nth:
  "j < length xs \<Longrightarrow> concat (map (\<lambda>x. [f x, g x, h x]) xs) ! (3 * j) = f (xs ! j)
     \<and> concat (map (\<lambda>x. [f x, g x, h x]) xs) ! (Suc (3 * j)) = g (xs ! j)
     \<and> concat (map (\<lambda>x. [f x, g x, h x]) xs) ! (Suc (Suc (3 * j))) = h (xs ! j)"
proof (induction xs arbitrary: j)
  case (Cons x xs)
  then show ?case by (cases j) (auto simp: numeral_3_eq_3)
qed simp

lemma triple_length: "length (concat (map (\<lambda>x. [f x, g x, h x]) xs)) = 3 * length xs"
  by (induction xs) auto

lemma split_intershard:
  assumes sp: "splits_ok sp" and "plain i" and "parts \<noteq> []"
    and plain: "\<And>p. p \<in> set parts \<Longrightarrow> plain (part_rlp p) \<and> plain (part_key p)"
  shows "sp CHR ''|'' (intershard_data i parts) = ''0x111222333'' # i # concat (map (\<lambda>p.
        [to_string (part_shard p), part_rlp p, join_with ''_'' (map part_key parts)]) parts)"
    and "sp CHR ''_'' (join_with ''_'' (map part_key parts)) = map part_key parts"
proof -
  have free: "CHR ''|'' \<notin> set (join_with ''_'' ks) \<and> (ks \<noteq> [] \<longrightarrow> join_with ''_'' ks \<noteq> [])"
    if "\<forall>k \<in> set ks. plain k" for ks
    using that by (induction ks) (auto simp: join_with_Cons plain_def)
  have keys: "\<forall>k \<in> set (map part_key parts). plain k" using plain by auto
  show "sp CHR ''|'' (intershard_data i parts) = ''0x111222333'' # i # concat (map (\<lambda>p.
        [to_string (part_shard p), part_rlp p, join_with ''_'' (map part_key parts)]) parts)"
    unfolding intershard_data_def
  proof (rule splits_join [OF sp])
    fix t assume "t \<in> set (''0x111222333'' # i # concat (map (\<lambda>p.
        [to_string (part_shard p), part_rlp p, join_with ''_'' (map part_key parts)]) parts))"
    then consider "t = ''0x111222333''" | "t = i" | p where "p \<in> set parts" "t = to_string (part_shard p)"
      | p where "p \<in> set parts" "t = part_rlp p" | "t = join_with ''_'' (map part_key parts)"
      by auto
    then show "t \<noteq> [] \<and> CHR ''|'' \<notin> set t"
    proof cases
      case 3
      then show ?thesis using separator_not_in_to_string [of "CHR ''|''"] by (simp add: separator_def)
    next
      case 4
      then show ?thesis using plain [of p] by (simp add: plain_def)
    next
      case 5
      then show ?thesis using free [OF keys] assms(3) by simp
    qed (use assms(2) in \<open>auto simp: plain_def\<close>)
  qed simp
  show "sp CHR ''_'' (join_with ''_'' (map part_key parts)) = map part_key parts"
    using assms(3) plain by (intro splits_join [OF sp]) (auto simp: plain_def)
qed

lemma read_participants_result:
  assumes items: "dataitems = l # i # concat (map (\<lambda>p. [to_string (part_shard p), part_rlp p, keys]) parts)"
    and keys: "e_split env CHR ''_'' keys = map part_key parts"
  shows "read_participants env s dataitems = Inr
    \<lparr>multi_write_statekeys = map part_key (filter (\<lambda>p. m_masterChangedKey s (part_key p) \<noteq> None) parts),
     origional_participant_shardids = map (to_string \<circ> part_shard) parts,
     current_participant_shardids = map to_string (masters s parts)\<rparr>"
proof -
  let ?init = "\<lparr>multi_write_statekeys = [], origional_participant_shardids = [], current_participant_shardids = []\<rparr>"
  have acc: "dataitems ! (2 + 3 * j) = to_string (part_shard (parts ! j))"
    "dataitems ! (4 + 3 * j) = keys" "2 + 3 * j < length dataitems" "4 + 3 * j < length dataitems"
    if "j < length parts" for j
    using that triple_nth [OF that, of "to_string \<circ> part_shard" part_rlp "\<lambda>_. keys"]
    by (auto simp: items triple_length)
  have "rfold (participant_step env s dataitems) [0..<k] ?init = Inr
      \<lparr>multi_write_statekeys = map part_key (filter (\<lambda>p. m_masterChangedKey s (part_key p) \<noteq> None) (take k parts)),
       origional_participant_shardids = map (to_string \<circ> part_shard) (take k parts),
       current_participant_shardids = map to_string (masters s (take k parts))\<rparr>" if "k \<le> length parts" for k
    using that
  proof (induction k)
    case (Suc k)
    then have k: "k < length parts" by simp
    let ?p = "parts ! k"
    have take: "take (Suc k) parts = take k parts @ [?p]" using k by (rule take_Suc_conv_app_nth)
    have m: "masters s (take k parts @ [?p]) = push_key (master_of s ?p) (masters s (take k parts))"
      by (simp add: masters_def)
    have cur: "(case m_masterChangedKey s (part_key ?p) of Some master \<Rightarrow> to_string master
        | None \<Rightarrow> to_string (part_shard ?p)) = to_string (master_of s ?p)"
      by (simp add: master_of_def split: option.splits)
    show ?case
      using Suc k acc [OF k]
      by (auto simp: rfold_append participant_step_def vec_at_def keys take m cur Let_def
          push_key_map [OF inj_to_string] split: option.splits)
  qed (simp add: masters_def)
  moreover have "(length dataitems - 1) div 3 = length parts"
    unfolding items by (simp add: triple_length)
  ultimately show ?thesis by (simp add: read_participants_def)
qed

lemma note_shuffle_containers [simp]: "m_subTxsContainers (note_shuffle p s) = m_subTxsContainers s"
proof -
  have inner: "m_subTxsContainers (fold (\<lambda>shardid s.
         s\<lparr>states_need_shuffle := (states_need_shuffle s)(shardid \<mapsto> f s shardid)\<rparr>) xs s) = m_subTxsContainers s"
    for f xs s by (induction xs arbitrary: s) simp_all
  have "m_subTxsContainers (fold (\<lambda>rwkey. fold (\<lambda>shardid s.
         s\<lparr>states_need_shuffle := (states_need_shuffle s)(shardid \<mapsto> f rwkey s shardid)\<rparr>) xs) ks s)
      = m_subTxsContainers s"
    for f xs ks s by (induction ks arbitrary: s) (simp_all add: inner)
  then show ?thesis unfolding note_shuffle_def .
qed

lemma insert_into_containers:
  assumes "distinct ls" and "set ls \<subseteq> dom (map_of (m_subTxsContainers s))"
  shows "\<exists>m. rfold (insert_into_container sub) (map to_string ls) s = Inr (s\<lparr>m_subTxsContainers := m\<rparr>)
    \<and> map fst m = map fst (m_subTxsContainers s)
    \<and> (\<forall>l. map_of m l = (if l \<in> set ls then map_option (insertSubTx sub) (map_of (m_subTxsContainers s) l)
                          else map_of (m_subTxsContainers s) l))"
  using assms
proof (induction ls arbitrary: s)
  case Nil
  show ?case by (intro exI [of _ "m_subTxsContainers s"]) simp
next
  case (Cons x xs)
  from Cons.prems obtain c where c: "map_of (m_subTxsContainers s) x = Some c" by auto
  let ?s = "s\<lparr>m_subTxsContainers := om_set x (insertSubTx sub c) (m_subTxsContainers s)\<rparr>"
  have "dom (map_of (m_subTxsContainers ?s)) = dom (map_of (m_subTxsContainers s))"
    using c by (auto split: if_splits)
  then have "set xs \<subseteq> dom (map_of (m_subTxsContainers ?s))" using Cons.prems(2) by simp
  from Cons.IH [OF _ this] Cons.prems(1) obtain m where
    m: "rfold (insert_into_container sub) (map to_string xs) ?s = Inr (?s\<lparr>m_subTxsContainers := m\<rparr>)"
    "map fst m = map fst (m_subTxsContainers ?s)"
    "\<And>l. map_of m l = (if l \<in> set xs then map_option (insertSubTx sub) (map_of (m_subTxsContainers ?s) l)
                          else map_of (m_subTxsContainers ?s) l)" by auto
  have "insert_into_container sub (to_string x) s = Inr ?s" by (simp add: insert_into_container_def c)
  with m c Cons.prems(1) show ?case by (intro exI [of _ m]) auto
qed

lemma insert_into_containers_fails:
  assumes "\<not> set ls \<subseteq> dom (map_of (m_subTxsContainers s))"
  shows "rfold (insert_into_container sub) (map to_string ls) s = Inl OutOfRange"
  using assms
proof (induction ls arbitrary: s)
  case (Cons x xs)
  show ?case
  proof (cases "map_of (m_subTxsContainers s) x")
    case None
    then show ?thesis by (simp add: insert_into_container_def)
  next
    case (Some c)
    let ?s = "s\<lparr>m_subTxsContainers := om_set x (insertSubTx sub c) (m_subTxsContainers s)\<rparr>"
    have "dom (map_of (m_subTxsContainers ?s)) = dom (map_of (m_subTxsContainers s))"
      using Some by (auto split: if_splits)
    then have "\<not> set xs \<subseteq> dom (map_of (m_subTxsContainers ?s))" using Cons.prems Some by auto
    from Cons.IH [OF this] Some show ?thesis by (simp add: insert_into_container_def)
  qed
qed simp

definition entry_of :: "executer \<Rightarrow> string \<Rightarrow> part list \<Rightarrow> string" where
  "entry_of s i parts =
     i @ ''|'' @ join_with ''_'' (map to_string (masters s parts))
       @ ''|'' @ join_with ''_'' (take (length (masters s parts)) (map part_rlp parts))
       @ ''|'' @ join_with ''_'' (map part_key parts)"

lemma accumulate_result:
  assumes sp: "splits_ok (e_split env)" and i: "plain i" and parts: "parts \<noteq> []"
    and plain: "\<And>p. p \<in> set parts \<Longrightarrow> plain (part_rlp p) \<and> plain (part_key p)"
  shows "if set (masters s parts) \<subseteq> dom (map_of (m_subTxsContainers s))
    then \<exists>s'. accumulateSubTxs env (intershard_data i parts) s = Inr s'
      \<and> map fst (m_subTxsContainers s') = map fst (m_subTxsContainers s)
      \<and> (\<forall>l. map_of (m_subTxsContainers s') l =
          (if l \<in> set (masters s parts) then map_option (insertSubTx (entry_of s i parts)) (map_of (m_subTxsContainers s) l)
           else map_of (m_subTxsContainers s) l))
    else accumulateSubTxs env (intershard_data i parts) s = Inl OutOfRange"
proof -
  define current where "current = masters s parts"
  define entry where "entry = entry_of s i parts"
  let ?keys = "join_with ''_'' (map part_key parts)"
  define items where "items = ''0x111222333'' # i # concat (map (\<lambda>p. [to_string (part_shard p), part_rlp p, ?keys]) parts)"
  have split: "e_split env CHR ''|'' (intershard_data i parts) = items"
    unfolding items_def by (rule split_intershard(1) [OF sp i parts plain])
  have keys: "e_split env CHR ''_'' ?keys = map part_key parts"
    by (rule split_intershard(2) [OF sp i parts plain])
  have dist: "distinct current" unfolding current_def masters_def using push_keys by (metis distinct.simps(1))
  have len: "length current \<le> length parts"
    using push_keys_length [of "map (master_of s) parts" "[]"] by (simp add: current_def masters_def)
  obtain p where p: "read_participants env s items = Inr p" "current_participant_shardids p = map to_string current"
    using read_participants_result [OF items_def keys] by (simp add: current_def)
  have i4: "vec_at items 4 = Inr ?keys" and i1: "vec_at items 1 = Inr i"
    using parts by (cases parts; simp add: items_def vec_at_def)+
  have rlps: "rmap (\<lambda>j. vec_at items (3 + 3 * j)) [0..<length current] = Inr (take (length current) (map part_rlp parts))"
  proof -
    have "rmap (\<lambda>j. vec_at items (3 + 3 * j)) [0..<length current] = Inr (map (\<lambda>j. part_rlp (parts ! j)) [0..<length current])"
    proof (rule rmap_total)
      fix j assume "j \<in> set [0..<length current]"
      then have j: "j < length parts" using len by simp
      show "vec_at items (3 + 3 * j) = Inr (part_rlp (parts ! j))"
        using j triple_nth [OF j, of "to_string \<circ> part_shard" part_rlp "\<lambda>_. ?keys"]
        by (simp add: items_def vec_at_def triple_length)
    qed
    also have "map (\<lambda>j. part_rlp (parts ! j)) [0..<length current] = take (length current) (map part_rlp parts)"
      using len by (intro nth_equalityI) auto
    finally show ?thesis .
  qed
  have acc: "accumulateSubTxs env (intershard_data i parts) s
      = rfold (insert_into_container entry) (map to_string current) (note_shuffle p s)"
    by (simp add: accumulateSubTxs_def split i1 [unfolded One_nat_def] i4 p rlps entry_def entry_of_def current_def [symmetric] Let_def)
  show ?thesis
  proof (cases "set current \<subseteq> dom (map_of (m_subTxsContainers s))")
    case True
    then have "set current \<subseteq> dom (map_of (m_subTxsContainers (note_shuffle p s)))" by simp
    from insert_into_containers [OF dist this, of entry] True show ?thesis
      unfolding current_def [symmetric] entry_def [symmetric] by (auto simp: acc)
  next
    case False
    then have "\<not> set current \<subseteq> dom (map_of (m_subTxsContainers (note_shuffle p s)))" by simp
    from insert_into_containers_fails [OF this] False show ?thesis
      unfolding current_def [symmetric] by (simp add: acc)
  qed
qed

text \<open>
  A cross-shard transaction reaches exactly the shards that take part in it now. Its entry - the
  id, the current masters without repetition, the leading sub-transactions and the keys - is appended
  to the container of every current master, once, and to no other container; when one of them is not
  a lower shard of the coordinator, the handler throws.
\<close>

theorem accumulateSubTxs_containers:
  assumes sp: "splits_ok (e_split env)" and i: "plain i" and parts: "parts \<noteq> []"
    and plain: "\<And>p. p \<in> set parts \<Longrightarrow> plain (part_rlp p) \<and> plain (part_key p)"
  shows "if set (masters s parts) \<subseteq> dom (map_of (m_subTxsContainers s))
    then \<exists>s'. accumulateSubTxs env (intershard_data i parts) s = Inr s'
      \<and> map fst (m_subTxsContainers s') = map fst (m_subTxsContainers s)
      \<and> (\<forall>l. map_of (m_subTxsContainers s') l =
          (if l \<in> set (masters s parts) then map_option (insertSubTx (entry_of s i parts)) (map_of (m_subTxsContainers s) l)
           else map_of (m_subTxsContainers s) l))
    else accumulateSubTxs env (intershard_data i parts) s = Inl OutOfRange"
  using assms by (rule accumulate_result)

definition example_coordinator :: executer where
  "example_coordinator = new_executer\<lparr>
     m_subTxsContainers := [(1, new_cachedSubTxsContainer 4 0 1 1 [] []), (2, new_cachedSubTxsContainer 4 0 1 2 [] [])],
     m_masterChangedKey := [''y'' \<mapsto> 1]\<rparr>"

lemma accumulateSubTxs_containers_witness:
  "\<exists>s'. accumulateSubTxs (env_of 4 tree_9 ''n'') (intershard_data ''t'' [(1, ''aa'', ''x''), (2, ''bb'', ''y'')])
        example_coordinator = Inr s'
    \<and> map_of (m_subTxsContainers s') 1 = Some (insertSubTx ''t|1|aa|x_y'' (new_cachedSubTxsContainer 4 0 1 1 [] []))
    \<and> map_of (m_subTxsContainers s') 2 = Some (new_cachedSubTxsContainer 4 0 1 2 [] [])"
proof -
  let ?parts = "[(1, ''aa'', ''x''), (2, ''bb'', ''y'')]"
  have m: "masters example_coordinator ?parts = [1]"
    by (simp add: masters_def master_of_def example_coordinator_def push_key_def)
  have e: "entry_of example_coordinator ''t'' ?parts = ''t|1|aa|x_y''"
    unfolding entry_of_def m by code_simp
  have sp: "splits_ok (e_split (env_of 4 tree_9 ''n''))" by (simp add: env_of_def splits_ok_cut)
  have i: "plain ''t''" and ps: "\<And>p. p \<in> set ?parts \<Longrightarrow> plain (part_rlp p) \<and> plain (part_key p)"
    by (auto simp: plain_def)
  have c: "map_of (m_subTxsContainers example_coordinator) 1 = Some (new_cachedSubTxsContainer 4 0 1 1 [] [])"
    "map_of (m_subTxsContainers example_coordinator) 2 = Some (new_cachedSubTxsContainer 4 0 1 2 [] [])"
    by (simp_all add: example_coordinator_def)
  then have d: "set [1] \<subseteq> dom (map_of (m_subTxsContainers example_coordinator))" by auto
  from accumulateSubTxs_containers [where parts = ?parts and s = example_coordinator, OF sp i list.distinct(2) ps] d c show ?thesis
    unfolding m e by auto
qed

section \<open>Sending every non-empty container once\<close>

text \<open>What \<open>checkSubTxsContainers\<close> sends for a container and what it leaves of it.\<close>

definition epoch_message :: "environment \<Rightarrow> bool \<Rightarrow> string \<Rightarrow> string \<Rightarrow> cachedSubTxsContainer \<Rightarrow> effect list" where
  "epoch_message env fwd node shuffle c =
     (if m_txNum c \<le> 0 then []
      else if m_destinshardId c = e_group env then
        (if fwd then [RawTransaction (e_group env) (takeWhile (\<lambda>x. x \<noteq> char_of (0::nat))
           (batch_data (e_group env) (m_epochId c) (m_subtxs c) (m_intrashardtxs c) shuffle))] else [])
      else [SendTo node (BatchDistributedTxMsg (e_group env) (m_epochId c) (m_subtxs c) (m_intrashardtxs c) shuffle)])"

definition next_epoch :: "cachedSubTxsContainer \<Rightarrow> cachedSubTxsContainer" where
  "next_epoch c = (if m_txNum c \<le> 0 then c else (snd (getTxs c))\<lparr>m_epochId := m_epochId c + 1\<rparr>)"

lemma om_set_twice: "om_set k w (om_set k v m) = om_set k w m"
  by (induction m) (auto simp: om_set_def)

lemma om_set_same: "om_ok m \<Longrightarrow> map_of m k = Some v \<Longrightarrow> om_set k v m = m"
  unfolding om_set_def
proof (induction m)
  case (Cons p m)
  obtain j w where p: "p = (j, w)" by (cases p)
  show ?case
  proof (cases "j = k")
    case True
    then have "k \<notin> fst ` set m" using Cons.prems(1) p by auto
    then have "map (\<lambda>(j, w). if j = k then (j, v) else (j, w)) m = m"
      by (intro map_idI) (auto simp: rev_image_eqI split: prod.splits)
    then show ?thesis using Cons.prems(2) True p by simp
  qed (use Cons p in simp)
qed simp

lemma shuffle_contents_cong:
  "states_need_shuffle s = states_need_shuffle t \<Longrightarrow> shuffle_contents env s = shuffle_contents env t"
  by (simp add: shuffle_contents_def)

lemma check_container_result:
  assumes ok: "om_ok (m_subTxsContainers s)" and c: "map_of (m_subTxsContainers s) g = Some c"
    and dest: "m_destinshardId c = g"
    and fwd: "forward_node env = Inr fwd"
    and node: "0 < m_txNum c \<Longrightarrow> g \<noteq> e_group env \<Longrightarrow> get_forward_nodeId (e_tree env) g = Inr node"
  shows "check_container env g s = Inr (s\<lparr>
    m_subTxsContainers := om_set g (next_epoch c) (m_subTxsContainers s),
    outbox := outbox s @ epoch_message env fwd node (shuffle_contents env s) c\<rparr>)"
proof (cases "0 < m_txNum c")
  case False
  then have "om_set g (next_epoch c) (m_subTxsContainers s) = m_subTxsContainers s"
    by (simp add: next_epoch_def om_set_same [OF ok c])
  then show ?thesis using False c by (simp add: check_container_def getTxSize_def epoch_message_def)
next
  case True
  let ?s1 = "s\<lparr>m_subTxsContainers := om_set g (snd (getTxs c)) (m_subTxsContainers s)\<rparr>"
  have sh: "shuffle_contents env ?s1 = shuffle_contents env s" by (rule shuffle_contents_cong) simp
  have send: "sendBatchDistributedTxMsg env (e_group env) (m_epochId c) g (m_subtxs c) (m_intrashardtxs c)
      (shuffle_contents env s) ?s1 = Inr (?s1\<lparr>outbox := outbox s @ epoch_message env fwd node (shuffle_contents env s) c\<rparr>)"
  proof (cases "g = e_group env")
    case True
    then show ?thesis using \<open>0 < m_txNum c\<close> dest fwd
      by (simp add: sendBatchDistributedTxMsg_def epoch_message_def emit_def)
  next
    case False
    from node [OF True False] obtain k where "shard_deref (e_tree env) g = Inr k" "vec_at (nodeIDs (fst k)) 0 = Inr node"
      by (auto simp: get_forward_nodeId_def checked)
    then show ?thesis using \<open>0 < m_txNum c\<close> dest False
      by (simp add: sendBatchDistributedTxMsg_def epoch_message_def emit_def get_nodeIDs_def)
  qed
  show ?thesis
    using True c send sh
    by (simp add: check_container_def getTxSize_def next_epoch_def split_beta Let_def om_set_twice dest)
qed

lemma om_set_append: "k \<notin> fst ` set A \<Longrightarrow> k \<notin> fst ` set B \<Longrightarrow> om_set k v (A @ (k, w) # B) = A @ (k, v) # B"
  by (auto simp: om_set_def map_idI rev_image_eqI intro!: map_idI split: prod.splits)

lemma map_of_middle: "k \<notin> fst ` set A \<Longrightarrow> map_of (A @ (k, w) # B) k = Some w"
  by (induction A) auto

lemma om_ok_keys: "map fst m = map fst m' \<Longrightarrow> om_ok m = om_ok m'"
  by (simp add: om_ok_def)

lemma check_containers_suffix:
  assumes "m_subTxsContainers s = map (\<lambda>(l, c). (l, next_epoch c)) A @ B" and "om_ok (A @ B)"
    and dest: "\<And>l c. (l, c) \<in> set B \<Longrightarrow> m_destinshardId c = l"
    and fwd: "forward_node env = Inr fwd"
    and node: "\<And>l c. (l, c) \<in> set B \<Longrightarrow> 0 < m_txNum c \<Longrightarrow> l \<noteq> e_group env \<Longrightarrow>
        get_forward_nodeId (e_tree env) l = Inr (node l)"
  shows "rfold (check_container env) (map fst B) s = Inr (s\<lparr>
    m_subTxsContainers := map (\<lambda>(l, c). (l, next_epoch c)) (A @ B),
    outbox := outbox s @ concat (map (\<lambda>(l, c). epoch_message env fwd (node l) (shuffle_contents env s) c) B)\<rparr>)"
  using assms(1,2) dest node
proof (induction B arbitrary: A s)
  case Nil
  then show ?case by simp
next
  case (Cons p B)
  obtain l c where p: "p = (l, c)" by (cases p)
  let ?A = "map (\<lambda>(l, c). (l, next_epoch c)) A"
  have keys: "map fst (m_subTxsContainers s) = map fst (A @ p # B)" using Cons.prems(1) by (simp add: split_beta comp_def)
  have dist: "distinct (map fst (A @ p # B))" using om_ok_distinct [OF Cons.prems(2)] .
  then have notin: "l \<notin> fst ` set ?A" "l \<notin> fst ` set B" by (auto simp: p image_iff split_beta)
  have cs: "m_subTxsContainers s = ?A @ (l, c) # B" using Cons.prems(1) p by simp
  have step: "check_container env l s = Inr (s\<lparr>m_subTxsContainers := ?A @ (l, next_epoch c) # B,
      outbox := outbox s @ epoch_message env fwd (node l) (shuffle_contents env s) c\<rparr>)"
  proof -
    have "om_ok (m_subTxsContainers s)" using om_ok_keys [OF keys] Cons.prems(2) by simp
    moreover have "map_of (m_subTxsContainers s) l = Some c" unfolding cs by (rule map_of_middle [OF notin(1)])
    moreover have "m_destinshardId c = l" using Cons.prems(3) p by simp
    moreover have "0 < m_txNum c \<Longrightarrow> l \<noteq> e_group env \<Longrightarrow> get_forward_nodeId (e_tree env) l = Inr (node l)"
      using Cons.prems(4) [of l c] p by simp
    ultimately have "check_container env l s = Inr (s\<lparr>m_subTxsContainers := om_set l (next_epoch c) (m_subTxsContainers s),
        outbox := outbox s @ epoch_message env fwd (node l) (shuffle_contents env s) c\<rparr>)"
      by (intro check_container_result [OF _ _ _ fwd]) auto
    then show ?thesis unfolding cs om_set_append [OF notin] .
  qed
  let ?s = "s\<lparr>m_subTxsContainers := ?A @ (l, next_epoch c) # B,
      outbox := outbox s @ epoch_message env fwd (node l) (shuffle_contents env s) c\<rparr>"
  have sh: "shuffle_contents env ?s = shuffle_contents env s" by (rule shuffle_contents_cong) simp
  have "rfold (check_container env) (map fst B) ?s = Inr (?s\<lparr>
    m_subTxsContainers := map (\<lambda>(l, c). (l, next_epoch c)) ((A @ [p]) @ B),
    outbox := outbox ?s @ concat (map (\<lambda>(l, c). epoch_message env fwd (node l) (shuffle_contents env ?s) c) B)\<rparr>)"
    by (rule Cons.IH) (use Cons.prems p in auto)
  then show ?case unfolding sh by (simp add: p step)
qed

text \<open>
  Sending the epochs is complete and exact. One pass sends every container that holds something
  exactly once, with its content and its epoch number, to the forward node of its shard - the
  coordinator's own epoch is proposed by its forward node instead - in the order of the shard ids; it
  empties these containers and moves them to the next epoch, and it leaves the empty ones as they are.
\<close>

theorem checkSubTxsContainers_sends:
  assumes "om_ok (m_subTxsContainers s)"
    and "\<And>l c. (l, c) \<in> set (m_subTxsContainers s) \<Longrightarrow> m_destinshardId c = l"
    and "forward_node env = Inr fwd"
    and "\<And>l c. (l, c) \<in> set (m_subTxsContainers s) \<Longrightarrow> 0 < m_txNum c \<Longrightarrow> l \<noteq> e_group env \<Longrightarrow>
        get_forward_nodeId (e_tree env) l = Inr (node l)"
  shows "checkSubTxsContainers env s = Inr (s\<lparr>
    m_subTxsContainers := map (\<lambda>(l, c). (l, next_epoch c)) (m_subTxsContainers s),
    outbox := outbox s
      @ concat (map (\<lambda>(l, c). epoch_message env fwd (node l) (shuffle_contents env s) c) (m_subTxsContainers s))\<rparr>)"
  using check_containers_suffix [of s "[]" "m_subTxsContainers s" env fwd node] assms
  by (simp add: checkSubTxsContainers_def)

section \<open>An epoch arrives as it was sent\<close>

lemma free_join:
  "c \<notin> set sep \<Longrightarrow> \<forall>t \<in> set ts. c \<notin> set t \<Longrightarrow> c \<notin> set (join_with sep ts)"
  by (induction sep ts rule: join_with.induct) auto


lemma example_forward: "forward_node (env_of 4 example_tree ''n4'') = Inr True"
  by code_simp

lemma checkSubTxsContainers_sends_witness:
  "\<exists>s'. checkSubTxsContainers (env_of 4 example_tree ''n4'')
      (new_executer\<lparr>m_subTxsContainers := [(1, insertSubTx ''t'' (new_cachedSubTxsContainer 4 0 1 1 [] [])),
         (2, new_cachedSubTxsContainer 4 0 1 2 [] [])]\<rparr>) = Inr s'
    \<and> outbox s' = [SendTo ''n1'' (BatchDistributedTxMsg 4 1 ''t'' [] [])]
    \<and> map (m_epochId \<circ> snd) (m_subTxsContainers s') = [2, 1]"
proof -
  let ?cs = "[(1, insertSubTx ''t'' (new_cachedSubTxsContainer 4 0 1 1 [] [])), (2, new_cachedSubTxsContainer 4 0 1 2 [] [])]"
  let ?s = "new_executer\<lparr>m_subTxsContainers := ?cs\<rparr>"
  have ok: "om_ok (m_subTxsContainers ?s)" by simp
  have dest: "m_destinshardId c = l" if "(l, c) \<in> set (m_subTxsContainers ?s)" for l c
    using that by (auto simp: insertSubTx_def new_cachedSubTxsContainer_def)
  have node: "get_forward_nodeId (e_tree (env_of 4 example_tree ''n4'')) l = Inr ''n1''"
    if "(l, c) \<in> set (m_subTxsContainers ?s)" "0 < m_txNum c" for l c
  proof -
    have "l = 1" using that by (auto simp: new_cachedSubTxsContainer_def)
    moreover have "get_forward_nodeId (e_tree (env_of 4 example_tree ''n4'')) 1 = Inr ''n1''" by code_simp
    ultimately show ?thesis by simp
  qed
  show ?thesis
    using checkSubTxsContainers_sends [OF ok dest example_forward node]
    by (auto simp: epoch_message_def next_epoch_def insertSubTx_def new_cachedSubTxsContainer_def env_of_def
        getTxs_def shuffle_contents_def new_executer_def)
qed



end
