(* ===== verification/ShardExecution.thy ===== *)
theory ShardExecution
  imports EpochProcessing
begin

text \<open>
  How a shard executes its transactions (\<open>libplugin/TransactionExecuter.cpp\<close>):
  \<open>processSingleIntraShardTx\<close> executes or queues a transaction of its own,
  \<open>processBlockingTxsPlus\<close> works off the queues of the coordinators, exchanging read-write sets on the
  way (\<open>sendReadWriteSet\<close>, \<open>checkReadWriteKeyReady\<close>), and \<open>responseCommitToCoordinator\<close> and
  \<open>replyCommitToCoordinator\<close> report commits.
\<close>

section \<open>Transactions of the shard itself\<close>

definition read_end_txid :: "environment \<Rightarrow> transaction \<Rightarrow> string result" where
  "read_end_txid env tx = vec_at (e_split env CHR ''|'' (dataToHexString (tx_data tx))) 2"

definition blocking_coordinators ::
  "environment \<Rightarrow> string list \<Rightarrow> executer \<Rightarrow> int list result" where
  "blocking_coordinators env rwkeyitems s =
     rfold (\<lambda>coordinator ks.
         rbind (map_at (m_blockingTxQueues s) (to_string coordinator)) (\<lambda>q.
           Inr (if list_ex (isBlocked (e_split env) q) rwkeyitems then ks @ [coordinator] else ks)))
       (upper_groupids s) []"

definition processSingleIntraShardTx ::
  "environment \<Rightarrow> transaction \<Rightarrow> string \<Rightarrow> executer \<Rightarrow> executer result" where
  "processSingleIntraShardTx env tx data_str s =
     rbind (vec_at (e_split env CHR ''|'' data_str) 1) (\<lambda>keys.
       let rwkeyitems = e_split env CHR ''_'' keys;
           s1 = s\<lparr>m_LRU_StatesInfo := fold update_lru_localkeys_intraTx rwkeyitems (m_LRU_StatesInfo s)\<rparr>
       in if list_ex (\<lambda>rwkey. transfered_states s1 rwkey \<noteq> None \<or> count_otherState s1 rwkey \<noteq> 0) rwkeyitems then
            (let s2 = fold add_otherState rwkeyitems s1;
                 item = tx_rlp tx # concat (map (\<lambda>rwkey.
                   case transfered_states s2 rwkey of Some shardid \<Rightarrow> [shardid] | None \<Rightarrow> []) rwkeyitems)
             in case enqueue item (blockedTxs s2) of
                  Some q \<Rightarrow> Inr (s2\<lparr>blockedTxs := q\<rparr>)
                | None \<Rightarrow> Inl Waits)
          else
            rbind (blocking_coordinators env rwkeyitems s1) (\<lambda>ks.
              if ks = [] then
                (let s2 = add_processedTxNum (executeTx (Some tx) False s1)
                 in rbind (read_end_txid env tx) (\<lambda>i.
                      Inr (s2\<lparr>m_txid_to_endtime := om_insert i (e_now env) (m_txid_to_endtime s2)\<rparr>)))
              else
                rbind (read_end_txid env tx) (\<lambda>i.
                  let txwithrwset = new_transactionWithReadWriteSet\<lparr>sub_txs := [tx], txid := i, rwkeys := keys,
                        is_intershardTx := False, blockingQueue_keys := ks\<rparr>
                  in rbind (map_at (m_blockingTxQueues s1) (to_string (hd ks))) (\<lambda>q.
                       Inr (s1\<lparr>m_blockingTxQueues := (m_blockingTxQueues s1)
                              (to_string (hd ks) \<mapsto> insertTx (e_split env) txwithrwset q)\<rparr>)))))"

section \<open>Read-write sets and commits\<close>

definition sendReadWriteSet ::
  "environment \<Rightarrow> string \<Rightarrow> string \<Rightarrow> string \<Rightarrow> string \<Rightarrow> executer \<Rightarrow> executer result" where
  "sendReadWriteSet env keys values rates pids s =
     rfold (\<lambda>idItem s.
         if atoi idItem \<noteq> e_group env then
           rbind (get_nodeIDs (e_tree env) (atoi idItem)) (\<lambda>nodes.
             Inr (emit_all nodes (csTxRWset keys values rates (e_group env)) s))
         else Inr s)
       (e_split env CHR ''_'' pids) s"

definition checkReadWriteKeyReady :: "string list \<Rightarrow> bool \<Rightarrow> executer \<Rightarrow> (bool \<times> executer) result" where
  "checkReadWriteKeyReady keys lastInBatch s =
     (let m = m_readWriteSetManager s; rwkeyReady = list_all (checkReceivedRwset m) keys
      in if rwkeyReady \<and> lastInBatch then
           rbind (rfold deleteRwset keys m) (\<lambda>m'. Inr (rwkeyReady, s\<lparr>m_readWriteSetManager := m'\<rparr>))
         else Inr (rwkeyReady, s))"

definition responseCommitToCoordinator :: "environment \<Rightarrow> string \<Rightarrow> string \<Rightarrow> executer \<Rightarrow> executer result" where
  "responseCommitToCoordinator env coordinator ids s =
     rbind (get_nodeIDs (e_tree env) (atoi coordinator)) (\<lambda>nodes.
       Inr (emit_all nodes (CommitResponseToCoordinator (e_group env) ids) s))"

text \<open>
  One round of \<open>replyCommitToCoordinator\<close>. Its local map pointer is never assigned, and
  \<open>get_committed_intershardTxid\<close> does not fill it: the round dereferences null as soon as there is
  a commit to report. The assignment of an \<open>int\<close> to the string stores one character.
\<close>

definition reply_round ::
  "environment \<Rightarrow> (int, int list) omap option \<Rightarrow> executer \<Rightarrow> executer result" where
  "reply_round env committed s =
     (if isEmpty_committed_intershardTxid s then Inr s
      else
        (let (committed', s1) = get_committed_intershardTxid committed s
         in case committed' of None \<Rightarrow> Inl NullPointer
            | Some m \<Rightarrow>
                rbind (rfold (\<lambda>(coordinator, ids) s.
                    responseCommitToCoordinator env (to_string coordinator)
                      (case ids of [] \<Rightarrow> ''''
                       | i # is \<Rightarrow> char_of i # concat (map (\<lambda>j. ''|'' @ to_string j) is)) s) m s1) (\<lambda>s2.
                  Inr (clear_committed_intershardTxid s2))))"

definition replyCommitToCoordinator :: "environment \<Rightarrow> executer \<Rightarrow> executer result" where
  "replyCommitToCoordinator env s =
     rbind (forward_node env) (\<lambda>fwd. if fwd then reply_round env None s else Inr s)"

section \<open>Working off the queues\<close>

definition send_rwset :: "environment \<Rightarrow> transactionWithReadWriteSet \<Rightarrow> executer \<Rightarrow> executer result" where
  "send_rwset env tx s =
     rbind (rmap (\<lambda>content. vec_at (e_split env CHR ''_'' content) 0) (rwkeysTosend tx)) (\<lambda>keys.
     rbind (forward_node env) (\<lambda>fwd.
       if fwd then
         sendReadWriteSet env (join_with ''|'' (rwkeysTosend tx))
           (join_with ''|'' (map getValueByStateAddress keys))
           (join_with ''|'' (map (getLocalKeyIntraContention (m_LRU_StatesInfo s)) keys)) (participantIds tx) s
       else Inr s))"

text \<open>
  The commit of a cross-shard transaction is counted and reported by the forward node of the
  smallest participant; a report to the own shard is counted at once.
\<close>

definition report_commits :: "environment \<Rightarrow> executer \<Rightarrow> executer result" where
  "report_commits env s =
     rbind (rfold (\<lambda>(coordinator, ids) s.
         if e_group env = atoi (to_string coordinator) then Inr (add_processedTxNum_by (int (length ids)) s)
         else responseCommitToCoordinator env (to_string coordinator) (join_with ''|'' ids) s)
       (m_committed_intershardTxid s) s) (\<lambda>s. Inr (s\<lparr>m_committed_intershardTxid := []\<rparr>))"

definition commit_intershard ::
  "environment \<Rightarrow> transactionWithReadWriteSet \<Rightarrow> executer \<Rightarrow> executer result" where
  "commit_intershard env tx s =
     (let s1 = executeTx (tx_ptr tx) False (executeTx (tx_ptr tx) False s)
      in if e_group env = minimum_participant_shardid tx then
           rbind (forward_node env) (\<lambda>fwd.
             if fwd then
               report_commits env (add_intershardTxid (atoi (coordinator_shardid tx))
                 (txid tx @ ''_'' @ to_string (e_now env))
                 (s1\<lparr>m_processed_intershardTxNum := m_processed_intershardTxNum s1 + 1\<rparr>))
             else Inr s1)
         else Inr s1)"

definition pop_tx :: "string \<Rightarrow> executer \<Rightarrow> executer" where
  "pop_tx c s = s\<lparr>m_txQueues := (m_txQueues s)(c \<mapsto> tl (case m_txQueues s c of Some q \<Rightarrow> q | None \<Rightarrow> []))\<rparr>"

definition process_intershard ::
  "environment \<Rightarrow> string \<Rightarrow> transactionWithReadWriteSet \<Rightarrow> executer \<Rightarrow> executer result" where
  "process_intershard env c tx s =
     rbind (vec_at (sub_txs tx) 0) (\<lambda>first.
     rbind (if rwkeysTosend tx \<noteq> [] \<and> tx_hash first \<notin> m_sendedrwsetTx s
            then send_rwset env tx (s\<lparr>m_sendedrwsetTx := insert (tx_hash first) (m_sendedrwsetTx s)\<rparr>)
            else Inr s) (\<lambda>s1.
     rbind (checkReadWriteKeyReady (rwkeyToReceive tx) (lastTxInBatch tx) s1) (\<lambda>(executeSucc, s2).
       if executeSucc then rbind (commit_intershard env tx s2) (\<lambda>s3. Inr (pop_tx c s3)) else Inr s2)))"

text \<open>
  A queued transaction of the shard itself is executed when one queue blocks it; when several do,
  the branch that executed it is commented out, and it is only counted.
\<close>

definition process_intrashard ::
  "environment \<Rightarrow> string \<Rightarrow> transactionWithReadWriteSet \<Rightarrow> executer \<Rightarrow> executer" where
  "process_intrashard env c tx s =
     (let s1 = (if length (blockingQueue_keys tx) = 1
                then fold (\<lambda>t. executeTx (Some t) False) (sub_txs tx) s else s);
          s2 = add_processedTxNum s1
      in pop_tx c (s2\<lparr>m_txid_to_endtime := om_insert (txid tx) (e_now env) (m_txid_to_endtime s2)\<rparr>))"

definition process_queue :: "environment \<Rightarrow> int \<Rightarrow> executer \<Rightarrow> executer result" where
  "process_queue env coordinator s =
     (let c = to_string coordinator
      in rbind (map_at (m_txQueues s) c) (\<lambda>txQueue.
           case txQueue of
             [] \<Rightarrow> rbind (map_at (m_blockingTxQueues s) c) (\<lambda>q.
                     let (q', txQueue') = batch_pop q txQueue
                     in Inr (s\<lparr>m_blockingTxQueues := (m_blockingTxQueues s)(c \<mapsto> q'),
                               m_txQueues := (m_txQueues s)(c \<mapsto> txQueue')\<rparr>))
           | tx # _ \<Rightarrow>
               if is_intershardTx tx then process_intershard env c tx s
               else Inr (process_intrashard env c tx s)))"

text \<open>One round of the endless loop of \<open>processBlockingTxsPlus\<close>.\<close>

definition processBlockingTxsPlus :: "environment \<Rightarrow> executer \<Rightarrow> executer result" where
  "processBlockingTxsPlus env s = rfold (process_queue env) (upper_groupids s) s"

section \<open>Received read-write sets are accounted for exactly\<close>

lemma deletes_received:
  assumes "set keys \<subseteq> dom (receivedTxRWset m)"
  shows "\<exists>m'. rfold deleteRwset keys m = Inr m' \<and> (\<forall>k. received m' k = received m k - int (count_list keys k))"
  using assms
proof (induction keys arbitrary: m)
  case (Cons x xs)
  from Cons.prems obtain n where n: "receivedTxRWset m x = Some n" by auto
  let ?m = "m\<lparr>receivedTxRWset := (receivedTxRWset m)(x \<mapsto> n - 1)\<rparr>"
  have d: "deleteRwset x m = Inr ?m" by (rule deleteRwset_known [OF n])
  have "set xs \<subseteq> dom (receivedTxRWset ?m)" using Cons.prems by auto
  from Cons.IH [OF this] obtain m' where m': "rfold deleteRwset xs ?m = Inr m'"
    "\<And>k. received m' k = received ?m k - int (count_list xs k)" by blast
  show ?case
    using m' received_delete [OF d] by (intro exI [of _ m']) (auto simp: d)
qed simp

text \<open>
  A cross-shard transaction may run exactly when every state it waits for has been received and not
  been used up, and asking never throws. The last transaction of a batch uses up one copy per listed
  state; the others use up nothing.
\<close>

theorem checkReadWriteKeyReady_accounting:
  "\<exists>s'. checkReadWriteKeyReady keys lastInBatch s
      = Inr (\<forall>k \<in> set keys. received (m_readWriteSetManager s) k \<noteq> 0, s')
    \<and> (\<forall>k. received (m_readWriteSetManager s') k = received (m_readWriteSetManager s) k
          - (if lastInBatch \<and> (\<forall>k \<in> set keys. received (m_readWriteSetManager s) k \<noteq> 0)
             then int (count_list keys k) else 0))
    \<and> s' = s\<lparr>m_readWriteSetManager := m_readWriteSetManager s'\<rparr>"
proof -
  let ?m = "m_readWriteSetManager s"
  have ready: "list_all (checkReceivedRwset ?m) keys \<longleftrightarrow> (\<forall>k \<in> set keys. received ?m k \<noteq> 0)"
    by (simp add: list_all_iff checkReceivedRwset_iff)
  show ?thesis
  proof (cases "lastInBatch \<and> (\<forall>k \<in> set keys. received ?m k \<noteq> 0)")
    case True
    have "k \<in> dom (receivedTxRWset ?m)" if "k \<in> set keys" for k
    proof -
      have "received ?m k \<noteq> 0" using True that by blast
      then show ?thesis by (cases "receivedTxRWset ?m k") (auto simp: received_def count_of_def)
    qed
    then have "set keys \<subseteq> dom (receivedTxRWset ?m)" by blast
    from deletes_received [OF this] obtain m' where m': "rfold deleteRwset keys ?m = Inr m'"
      "\<And>k. received m' k = received ?m k - int (count_list keys k)" by blast
    have "checkReadWriteKeyReady keys lastInBatch s = Inr (True, s\<lparr>m_readWriteSetManager := m'\<rparr>)"
      using True by (simp add: checkReadWriteKeyReady_def Let_def ready m')
    then show ?thesis using True m'(2) by (intro exI [of _ "s\<lparr>m_readWriteSetManager := m'\<rparr>"]) auto
  next
    case False
    then have "checkReadWriteKeyReady keys lastInBatch s = Inr (\<forall>k \<in> set keys. received ?m k \<noteq> 0, s)"
      by (auto simp: checkReadWriteKeyReady_def Let_def ready)
    then show ?thesis using False by (intro exI [of _ s]) auto
  qed
qed

text \<open>
  A state listed twice is used up twice although one copy suffices to pass the test: the count drops
  below zero, and a negative count passes the next test.
\<close>

lemma duplicate_key_underflow:
  assumes "received (m_readWriteSetManager s) k = 1"
  shows "\<exists>s'. checkReadWriteKeyReady [k, k] True s = Inr (True, s')
    \<and> (\<exists>s''. checkReadWriteKeyReady [k] False s' = Inr (True, s''))"
proof -
  obtain n where n: "receivedTxRWset (m_readWriteSetManager s) k = Some n" "n = 1"
    using assms by (cases "receivedTxRWset (m_readWriteSetManager s) k") (auto simp: received_def count_of_def)
  then show ?thesis
    by (simp add: checkReadWriteKeyReady_def checkReceivedRwset_def deleteRwset_def Let_def)
qed

section \<open>Transactions of the shard itself are executed or queued\<close>

definition blockers :: "environment \<Rightarrow> string list \<Rightarrow> executer \<Rightarrow> int list" where
  "blockers env ks s =
     filter (\<lambda>c. case m_blockingTxQueues s (to_string c) of
         Some q \<Rightarrow> list_ex (isBlocked (e_split env) q) ks | None \<Rightarrow> False) (upper_groupids s)"

lemma blocking_coordinators_result:
  assumes "\<And>c. c \<in> set (upper_groupids s) \<Longrightarrow> m_blockingTxQueues s (to_string c) \<noteq> None"
  shows "blocking_coordinators env ks s = Inr (blockers env ks s)"
proof -
  have "rfold (\<lambda>coordinator acc.
         rbind (map_at (m_blockingTxQueues s) (to_string coordinator)) (\<lambda>q.
           Inr (if list_ex (isBlocked (e_split env) q) ks then acc @ [coordinator] else acc))) cs acc
      = Inr (acc @ filter (\<lambda>c. case m_blockingTxQueues s (to_string c) of
         Some q \<Rightarrow> list_ex (isBlocked (e_split env) q) ks | None \<Rightarrow> False) cs)"
    if "\<And>c. c \<in> set cs \<Longrightarrow> m_blockingTxQueues s (to_string c) \<noteq> None" for cs acc
    using that
  proof (induction cs arbitrary: acc)
    case (Cons c cs)
    from Cons.prems [of c] obtain q where "m_blockingTxQueues s (to_string c) = Some q" by auto
    then show ?case using Cons by simp
  qed simp
  from this [of "upper_groupids s" "[]"] assms show ?thesis
    by (simp add: blocking_coordinators_def blockers_def)
qed

definition queued_intra :: "transaction \<Rightarrow> string \<Rightarrow> string \<Rightarrow> int list \<Rightarrow> transactionWithReadWriteSet" where
  "queued_intra tx i keys ks = new_transactionWithReadWriteSet\<lparr>sub_txs := [tx], txid := i, rwkeys := keys,
     is_intershardTx := False, blockingQueue_keys := ks\<rparr>"

lemma blockers_queue:
  assumes "c \<in> set (blockers env ks s)"
  obtains q where "m_blockingTxQueues s (to_string c) = Some q"
  using assms by (auto simp: blockers_def split: option.splits)

text \<open>
  C22: A transaction of the shard whose states are neither moved away nor held back is executed and
  counted at once when no coordinator's queue blocks one of its states; otherwise it is not executed,
  and it is queued exactly once, at the end of the queue of the first coordinator that blocks it,
  together with the list of all coordinators that do.
\<close>

theorem processSingleIntraShardTx_result:
  assumes items: "e_split env CHR ''|'' data_str = label # keys # rest"
    and free: "\<And>k. k \<in> set (e_split env CHR ''_'' keys) \<Longrightarrow> transfered_states s k = None \<and> count_otherState s k = 0"
    and queues: "\<And>c. c \<in> set (upper_groupids s) \<Longrightarrow> m_blockingTxQueues s (to_string c) \<noteq> None"
    and txid: "read_end_txid env tx = Inr i"
  shows "\<exists>s'. processSingleIntraShardTx env tx data_str s = Inr s'
    \<and> (if blockers env (e_split env CHR ''_'' keys) s = []
       then executions s' = executions s @ [(Some tx, False)]
         \<and> m_processed_intrashardTxNum s' = m_processed_intrashardTxNum s + 1
         \<and> m_blockingTxQueues s' = m_blockingTxQueues s
       else executions s' = executions s
         \<and> m_processed_intrashardTxNum s' = m_processed_intrashardTxNum s
         \<and> (\<exists>q. m_blockingTxQueues s (to_string (hd (blockers env (e_split env CHR ''_'' keys) s))) = Some q
              \<and> m_blockingTxQueues s' = (m_blockingTxQueues s)
                  (to_string (hd (blockers env (e_split env CHR ''_'' keys) s)) \<mapsto>
                     insertTx (e_split env) (queued_intra tx i keys (blockers env (e_split env CHR ''_'' keys) s)) q)))"
proof -
  let ?ks = "e_split env CHR ''_'' keys"
  let ?s1 = "s\<lparr>m_LRU_StatesInfo := fold update_lru_localkeys_intraTx ?ks (m_LRU_StatesInfo s)\<rparr>"
  have notheld: "\<not> list_ex (\<lambda>rwkey. transfered_states ?s1 rwkey \<noteq> None \<or> count_otherState ?s1 rwkey \<noteq> 0) ?ks"
    using free by (auto simp: list_ex_iff count_otherState_def)
  have bs: "blocking_coordinators env ?ks ?s1 = Inr (blockers env ?ks s)"
    using blocking_coordinators_result [of ?s1 env ?ks] queues by (simp add: blockers_def)
  show ?thesis
  proof (cases "blockers env ?ks s = []")
    case True
    then show ?thesis
      unfolding processSingleIntraShardTx_def items
      using notheld bs by (simp add: vec_at_def Let_def txid add_processedTxNum_def executeTx_def)
  next
    case False
    then have "hd (blockers env ?ks s) \<in> set (blockers env ?ks s)" by simp
    then obtain q where q: "m_blockingTxQueues s (to_string (hd (blockers env ?ks s))) = Some q"
      by (rule blockers_queue)
    then show ?thesis
      unfolding processSingleIntraShardTx_def items
      using notheld bs False by (simp add: vec_at_def Let_def txid queued_intra_def)
  qed
qed

text \<open>
  A queued transaction of the shard protects none of its states. Its own key list is not what
  the queue locks: after it is queued, every state is exactly as blocked as before.
\<close>

theorem queued_intra_locks_nothing:
  assumes "splits_ok (e_split env)" and "k \<noteq> ''''"
  shows "lock_count (insertTx (e_split env) (queued_intra tx i keys ks) q) k = lock_count q k"
proof -
  have "e_split env CHR ''_'' '''' = ['''']" using assms(1) by (intro splits_single) auto
  then show ?thesis
    using assms(2)
    by (simp add: btq.locks_put tx_keys_def queued_intra_def new_transactionWithReadWriteSet_def)
qed

lemma add_otherStates:
  "fold add_otherState ks s = s\<lparr>other_blocked_states := fold (\<lambda>k m. bump m k) ks (other_blocked_states s)\<rparr>"
  by (induction ks arbitrary: s) (simp_all add: add_otherState_def)

lemma count_otherState_count: "count_otherState s k = count_of (other_blocked_states s) k"
  by (simp add: count_otherState_def count_of_def)

text \<open>
  Held-back states spread. A transaction with a state that has been moved away or is held back is
  neither executed nor counted; its encoding, followed by the shards that hold its moved states, is
  queued for them, and each of its states is held back once more per occurrence.
\<close>

theorem processSingleIntraShardTx_held:
  assumes items: "e_split env CHR ''|'' data_str = label # keys # rest"
    and held: "k \<in> set (e_split env CHR ''_'' keys)" "transfered_states s k \<noteq> None \<or> count_otherState s k \<noteq> 0"
    and room: "length (queue_of (blockedTxs s)) < max_size (blockedTxs s)"
  shows "\<exists>s'. processSingleIntraShardTx env tx data_str s = Inr s'
    \<and> executions s' = executions s \<and> m_processed_intrashardTxNum s' = m_processed_intrashardTxNum s
    \<and> queue_of (blockedTxs s') = queue_of (blockedTxs s)
        @ [tx_rlp tx # List.map_filter (transfered_states s) (e_split env CHR ''_'' keys)]
    \<and> (\<forall>j. count_otherState s' j = count_otherState s j + int (count_list (e_split env CHR ''_'' keys) j))"
proof -
  let ?ks = "e_split env CHR ''_'' keys"
  let ?s1 = "s\<lparr>m_LRU_StatesInfo := fold update_lru_localkeys_intraTx ?ks (m_LRU_StatesInfo s)\<rparr>"
  have h: "list_ex (\<lambda>rwkey. transfered_states ?s1 rwkey \<noteq> None \<or> count_otherState ?s1 rwkey \<noteq> 0) ?ks"
    using held by (auto simp: list_ex_iff count_otherState_def)
  have moved: "concat (map (\<lambda>rwkey. case f rwkey of Some x \<Rightarrow> [x] | None \<Rightarrow> []) xs) = List.map_filter f xs"
    for f :: "string \<Rightarrow> string option" and xs
    by (induction xs) (auto simp: List.map_filter_simps split: option.splits)
  show ?thesis
    unfolding processSingleIntraShardTx_def items
    using h room
    by (simp add: vec_at_def Let_def add_otherStates enqueue_def moved count_otherState_count counting)
qed

section \<open>The rounds of the queue processor\<close>

definition lock_tables :: "executer \<Rightarrow> string \<Rightarrow> (string \<rightharpoonup> int) option" where
  "lock_tables s c = map_option lockingkeys (m_blockingTxQueues s c)"

lemma emit_all_queues [simp]:
  "m_blockingTxQueues (emit_all nodes p s) = m_blockingTxQueues s"
  "m_txQueues (emit_all nodes p s) = m_txQueues s"
  "executions (emit_all nodes p s) = executions s"
  "m_readWriteSetManager (emit_all nodes p s) = m_readWriteSetManager s"
  "m_sendedrwsetTx (emit_all nodes p s) = m_sendedrwsetTx s"
  "m_processed_intrashardTxNum (emit_all nodes p s) = m_processed_intrashardTxNum s"
  unfolding emit_all_def by (induction nodes arbitrary: s) (simp_all add: emit_def)

text \<open>What sending, asking and committing leave as it is.\<close>

definition same_queues :: "executer \<Rightarrow> executer \<Rightarrow> bool" where
  "same_queues s t \<longleftrightarrow> m_blockingTxQueues t = m_blockingTxQueues s \<and> m_txQueues t = m_txQueues s"

lemma same_queues_trans: "same_queues s t \<Longrightarrow> same_queues t u \<Longrightarrow> same_queues s u"
  by (simp add: same_queues_def)

lemma same_queues_refl [simp]: "same_queues s s"
  by (simp add: same_queues_def)

lemma sendReadWriteSet_frame:
  assumes "sendReadWriteSet env keys vs rs ps s = Inr t"
  shows "same_queues s t \<and> executions t = executions s \<and> m_readWriteSetManager t = m_readWriteSetManager s"
  by (rule rfold_invariant [OF assms [unfolded sendReadWriteSet_def]])
    (auto simp: checked same_queues_def split: if_splits)

lemma send_rwset_frame:
  assumes "send_rwset env tx s = Inr t"
  shows "same_queues s t \<and> executions t = executions s \<and> m_readWriteSetManager t = m_readWriteSetManager s"
  using assms by (auto simp: send_rwset_def checked dest: sendReadWriteSet_frame split: if_splits)

lemma report_commits_frame:
  assumes "report_commits env s = Inr t"
  shows "same_queues s t \<and> executions t = executions s"
proof -
  obtain u where u: "rfold (\<lambda>(coordinator, ids) s.
         if e_group env = atoi (to_string coordinator) then Inr (add_processedTxNum_by (int (length ids)) s)
         else responseCommitToCoordinator env (to_string coordinator) (join_with ''|'' ids) s)
       (m_committed_intershardTxid s) s = Inr u" "t = u\<lparr>m_committed_intershardTxid := []\<rparr>"
    using assms by (auto simp: report_commits_def rbind_Inr_iff)
  have "same_queues s u \<and> executions u = executions s"
    by (rule rfold_invariant [OF u(1)])
      (auto simp: checked same_queues_def responseCommitToCoordinator_def add_processedTxNum_by_def split: if_splits)
  then show ?thesis using u(2) by (simp add: same_queues_def)
qed

lemma commit_intershard_frame:
  assumes "commit_intershard env tx s = Inr t"
  shows "same_queues s t \<and> executions t = executions s @ [(tx_ptr tx, False), (tx_ptr tx, False)]"
  using assms
  by (auto simp: commit_intershard_def checked same_queues_def executeTx_def add_intershardTxid_def Let_def
      dest!: report_commits_frame split: if_splits)

lemma check_ready_frame:
  assumes "checkReadWriteKeyReady keys b s = Inr (r, t)"
  shows "same_queues s t \<and> executions t = executions s"
  using assms by (auto simp: checkReadWriteKeyReady_def Let_def checked same_queues_def split: if_splits)

lemma process_intershard_frame:
  assumes "process_intershard env c tx s = Inr t"
  shows "m_blockingTxQueues t = m_blockingTxQueues s"
proof -
  from assms obtain s1 r s2 where 1: "(if rwkeysTosend tx \<noteq> [] \<and> tx_hash (sub_txs tx ! 0) \<notin> m_sendedrwsetTx s
      then send_rwset env tx (s\<lparr>m_sendedrwsetTx := insert (tx_hash (sub_txs tx ! 0)) (m_sendedrwsetTx s)\<rparr>)
      else Inr s) = Inr s1"
    and 2: "checkReadWriteKeyReady (rwkeyToReceive tx) (lastTxInBatch tx) s1 = Inr (r, s2)"
    and 3: "(if r then rbind (commit_intershard env tx s2) (\<lambda>s3. Inr (pop_tx c s3)) else Inr s2) = Inr t"
    by (auto simp: process_intershard_def checked)
  from 1 have "m_blockingTxQueues s1 = m_blockingTxQueues s"
    by (auto split: if_splits dest!: send_rwset_frame simp: same_queues_def)
  moreover from 2 have "m_blockingTxQueues s2 = m_blockingTxQueues s1"
    by (auto dest!: check_ready_frame simp: same_queues_def)
  moreover from 3 have "m_blockingTxQueues t = m_blockingTxQueues s2"
    by (auto split: if_splits dest!: commit_intershard_frame simp: same_queues_def checked pop_tx_def)
  ultimately show ?thesis by simp
qed

lemma execute_all:
  "fold (\<lambda>t. executeTx (Some t) False) ts s
    = s\<lparr>executions := executions s @ map (\<lambda>t. (Some t, False)) ts\<rparr>"
  by (induction ts arbitrary: s) (simp_all add: executeTx_def)

lemma process_queue_locks:
  assumes "process_queue env coordinator s = Inr t"
  shows "lock_tables t = lock_tables s"
proof -
  let ?c = "to_string coordinator"
  from assms obtain Q where Q: "m_txQueues s ?c = Some Q" by (auto simp: process_queue_def Let_def checked)
  show ?thesis
  proof (cases Q)
    case Nil
    then obtain q where q: "m_blockingTxQueues s ?c = Some q"
      using assms Q by (auto simp: process_queue_def Let_def checked)
    have "lockingkeys (fst (batch_pop q [])) = lockingkeys q" by (simp add: batch_pop_def)
    then show ?thesis
      using assms Q Nil q by (auto simp: process_queue_def Let_def lock_tables_def fun_eq_iff split_beta)
  next
    case (Cons tx rest)
    then show ?thesis
      using assms Q process_intershard_frame [of env ?c tx s t]
      by (auto simp: process_queue_def Let_def lock_tables_def fun_eq_iff process_intrashard_def pop_tx_def
          add_processedTxNum_def execute_all split: if_splits)
  qed
qed

text \<open>
  No lock is ever released. Whatever a round of the queue processor executes, the lock table of
  every coordinator's queue stays as it was, so a state that a cross-shard transaction has once locked
  blocks the shard's own transactions on it for good.
\<close>

theorem processBlockingTxsPlus_keeps_locks:
  assumes "processBlockingTxsPlus env s = Inr s'"
  shows "lock_tables s' = lock_tables s"
  by (rule rfold_invariant [OF assms [unfolded processBlockingTxsPlus_def]])
    (simp_all add: process_queue_locks)

text \<open>
  C21: A cross-shard transaction at the head of a coordinator's queue that is ready is executed and leaves
  the queue; the code calls the execution twice, so it runs twice. One that is not ready stays at the
  head and nothing runs.
\<close>

theorem process_queue_intershard:
  assumes head: "m_txQueues s (to_string coordinator) = Some (tx # rest)" "is_intershardTx tx"
    and run: "process_queue env coordinator s = Inr s'"
  shows "if \<forall>k \<in> set (rwkeyToReceive tx). received (m_readWriteSetManager s) k \<noteq> 0
    then executions s' = executions s @ [(tx_ptr tx, False), (tx_ptr tx, False)]
      \<and> m_txQueues s' = (m_txQueues s)(to_string coordinator \<mapsto> rest)
    else executions s' = executions s \<and> m_txQueues s' = m_txQueues s"
proof -
  let ?c = "to_string coordinator"
  from run have "process_intershard env ?c tx s = Inr s'"
    by (simp add: process_queue_def Let_def head)
  then obtain s1 r s2 where 1: "(if rwkeysTosend tx \<noteq> [] \<and> tx_hash (sub_txs tx ! 0) \<notin> m_sendedrwsetTx s
      then send_rwset env tx (s\<lparr>m_sendedrwsetTx := insert (tx_hash (sub_txs tx ! 0)) (m_sendedrwsetTx s)\<rparr>)
      else Inr s) = Inr s1"
    and 2: "checkReadWriteKeyReady (rwkeyToReceive tx) (lastTxInBatch tx) s1 = Inr (r, s2)"
    and 3: "(if r then rbind (commit_intershard env tx s2) (\<lambda>s3. Inr (pop_tx ?c s3)) else Inr s2) = Inr s'"
    by (auto simp: process_intershard_def checked)
  from 1 have f1: "m_txQueues s1 = m_txQueues s" "executions s1 = executions s"
    "m_readWriteSetManager s1 = m_readWriteSetManager s"
    by (auto split: if_splits dest!: send_rwset_frame simp: same_queues_def)
  from check_ready_frame [OF 2] f1 have f2: "m_txQueues s2 = m_txQueues s" "executions s2 = executions s"
    by (auto simp: same_queues_def)
  have r: "r \<longleftrightarrow> (\<forall>k \<in> set (rwkeyToReceive tx). received (m_readWriteSetManager s) k \<noteq> 0)"
    using 2 f1(3) by (auto simp: checkReadWriteKeyReady_def Let_def checked list_all_iff checkReceivedRwset_iff
        split: if_splits)
  show ?thesis
  proof (cases r)
    case True
    with 3 obtain s3 where "commit_intershard env tx s2 = Inr s3" "s' = pop_tx ?c s3" by (auto simp: checked)
    with commit_intershard_frame [of env tx s2 s3] f2 True r show ?thesis
      by (auto simp: same_queues_def pop_tx_def head)
  next
    case False
    with 3 f2 have "executions s' = executions s \<and> m_txQueues s' = m_txQueues s" by simp
    with False r show ?thesis by auto
  qed
qed

text \<open>
  A queued transaction of the shard at the head of a queue is counted as processed and leaves the
  queue in one round, but it is executed only when exactly one coordinator's queue blocked it: the
  branch for several is commented out, and such a transaction is lost.
\<close>

theorem process_queue_intrashard:
  assumes head: "m_txQueues s (to_string coordinator) = Some (tx # rest)" "\<not> is_intershardTx tx"
  shows "\<exists>s'. process_queue env coordinator s = Inr s'
    \<and> executions s' = executions s @ (if length (blockingQueue_keys tx) = 1
        then map (\<lambda>t. (Some t, False)) (sub_txs tx) else [])
    \<and> m_processed_intrashardTxNum s' = m_processed_intrashardTxNum s + 1
    \<and> m_txQueues s' = (m_txQueues s)(to_string coordinator \<mapsto> rest)"
  using head
  by (simp add: process_queue_def Let_def process_intrashard_def execute_all add_processedTxNum_def pop_tx_def)

text \<open>
  The separate commit reporter cannot report: on a forward node, as soon as one commit is waiting, a
  round dereferences a null pointer, whatever is waiting.
\<close>

theorem replyCommit_null:
  assumes "forward_node env = Inr True"
  shows "replyCommitToCoordinator env s = (if m_committed_intershardTxid s = [] then Inr s else Inl NullPointer)"
  using assms
  by (simp add: replyCommitToCoordinator_def reply_round_def isEmpty_committed_intershardTxid_def
      get_committed_intershardTxid_def Let_def split: option.splits)

section \<open>Instances\<close>

definition example_own :: transaction where
  "example_own = \<lparr>tx_data = ''0x444555666|a_b|t1|'', tx_rlp = ''r1'', tx_hash = ''h1''\<rparr>"

definition example_busy :: executer where
  "example_busy = new_executer\<lparr>upper_groupids := [4, 5],
     m_blockingTxQueues := [''4'' \<mapsto> new_BlockingTxQueue,
       ''5'' \<mapsto> new_BlockingTxQueue\<lparr>lockingkeys := [''b'' \<mapsto> 1]\<rparr>]\<rparr>"

definition example_cross :: transactionWithReadWriteSet where
  "example_cross = new_transactionWithReadWriteSet\<lparr>sub_txs := [example_own], is_intershardTx := True,
     rwkeyToReceive := [''k''], lastTxInBatch := True, tx_ptr := Some example_own, txid := ''t1'',
     minimum_participant_shardid := 2, coordinator_shardid := ''4''\<rparr>"

definition example_cross_state :: executer where
  "example_cross_state = example_busy\<lparr>m_txQueues := [''4'' \<mapsto> [example_cross], ''5'' \<mapsto> []],
     m_readWriteSetManager := new_ReadWriteSetManager\<lparr>receivedTxRWset := [''k'' \<mapsto> 1]\<rparr>\<rparr>"

lemma processSingleIntraShardTx_result_witness:
  "\<exists>s'. processSingleIntraShardTx (env_of 1 example_tree ''n1'') example_own (tx_data example_own) example_busy = Inr s'
    \<and> executions s' = []"
proof -
  let ?e = "env_of 1 example_tree ''n1''"
  have items: "e_split ?e CHR ''|'' (tx_data example_own) = ''0x444555666'' # ''a_b'' # [''t1'', []]" by code_simp
  have ks: "e_split ?e CHR ''_'' ''a_b'' = [''a'', ''b'']" by code_simp
  have free: "transfered_states example_busy k = None \<and> count_otherState example_busy k = 0" for k
    by (simp add: example_busy_def new_executer_def count_otherState_def)
  have queues: "m_blockingTxQueues example_busy (to_string c) \<noteq> None" if "c \<in> set (upper_groupids example_busy)" for c
  proof -
    have "c = 4 \<or> c = 5" using that by (simp add: example_busy_def)
    moreover have "to_string 4 = ''4''" "to_string 5 = ''5''" by code_simp+
    ultimately show ?thesis by (auto simp: example_busy_def)
  qed
  have txid: "read_end_txid ?e example_own = Inr ''t1''" by code_simp
  have "to_string 4 = ''4''" "to_string 5 = ''5''" "e_split ?e CHR ''_'' ''a'' = [''a'']"
    "e_split ?e CHR ''_'' ''b'' = [''b'']" by code_simp+
  then have "blockers ?e [''a'', ''b''] example_busy = [5]"
    by (simp add: blockers_def example_busy_def isBlocked_def key_locked_def new_BlockingTxQueue_def)
  moreover have "executions example_busy = []" by (simp add: example_busy_def new_executer_def)
  ultimately show ?thesis
    using processSingleIntraShardTx_result [OF items free queues txid]
    by (auto simp: ks)
qed

lemma queued_intra_locks_nothing_witness:
  "lock_count (insertTx cut (queued_intra example_own ''t1'' ''a_b'' [5]) new_BlockingTxQueue) ''a'' = 0"
proof -
  have "e_split (env_of 1 example_tree ''n1'') = cut" by (simp add: env_of_def)
  then show ?thesis
    using queued_intra_locks_nothing [of "env_of 1 example_tree ''n1''" "''a''" example_own "''t1''" "''a_b''" "[5]" new_BlockingTxQueue]
    by (simp add: splits_ok_cut lock_count_def new_BlockingTxQueue_def count_of_def)
qed

lemma processSingleIntraShardTx_held_witness:
  "\<exists>s'. processSingleIntraShardTx (env_of 1 example_tree ''n1'') example_own (tx_data example_own)
        (example_busy\<lparr>transfered_states := [''a'' \<mapsto> ''2'']\<rparr>) = Inr s'
    \<and> queue_of (blockedTxs s') = [[''r1'', ''2'']] \<and> count_otherState s' ''b'' = 1"
proof -
  let ?e = "env_of 1 example_tree ''n1''" and ?s = "example_busy\<lparr>transfered_states := [''a'' \<mapsto> ''2'']\<rparr>"
  have items: "e_split ?e CHR ''|'' (tx_data example_own) = ''0x444555666'' # ''a_b'' # [''t1'', []]" by code_simp
  have ks: "e_split ?e CHR ''_'' ''a_b'' = [''a'', ''b'']" by code_simp
  have held: "''a'' \<in> set (e_split ?e CHR ''_'' ''a_b'')"
    "transfered_states ?s ''a'' \<noteq> None \<or> count_otherState ?s ''a'' \<noteq> 0" by (simp_all add: ks)
  have room: "length (queue_of (blockedTxs ?s)) < max_size (blockedTxs ?s)"
    by (simp add: example_busy_def new_executer_def new_BlockingQueue_def)
  have "queue_of (blockedTxs ?s) = []" "count_otherState ?s ''b'' = 0" "tx_rlp example_own = ''r1''"
    by (simp_all add: example_busy_def new_executer_def new_BlockingQueue_def count_otherState_def example_own_def)
  then show ?thesis
    using processSingleIntraShardTx_held [OF items held room, of example_own]
    by (auto simp: ks List.map_filter_simps)
qed

lemma cross_step:
  "process_queue (env_of 1 example_tree ''n1'') 4 example_cross_state = Inr (example_cross_state\<lparr>
     m_readWriteSetManager := new_ReadWriteSetManager\<lparr>receivedTxRWset := [''k'' \<mapsto> 0]\<rparr>,
     executions := [(Some example_own, False), (Some example_own, False)],
     m_txQueues := [''4'' \<mapsto> [], ''5'' \<mapsto> []]\<rparr>)"
proof -
  have "to_string 4 = ''4''" by code_simp
  then show ?thesis
    by (simp add: process_queue_def process_intershard_def commit_intershard_def checkReadWriteKeyReady_def
        example_cross_state_def example_busy_def new_executer_def example_cross_def env_of_def executeTx_def
        new_transactionWithReadWriteSet_def vec_at_def Let_def checkReceivedRwset_def deleteRwset_def pop_tx_def
        new_ReadWriteSetManager_def fun_upd_twist)
qed

lemma cross_next:
  "\<exists>s'. process_queue (env_of 1 example_tree ''n1'') 5 (example_cross_state\<lparr>m_readWriteSetManager := m,
     executions := es, m_txQueues := [''4'' \<mapsto> [], ''5'' \<mapsto> []]\<rparr>) = Inr s'"
proof -
  have "to_string 5 = ''5''" by code_simp
  then show ?thesis
    by (simp add: process_queue_def example_cross_state_def example_busy_def Let_def split_beta)
qed

lemma processBlockingTxsPlus_keeps_locks_witness:
  "\<exists>s'. processBlockingTxsPlus (env_of 1 example_tree ''n1'') example_cross_state = Inr s'
    \<and> lock_tables s' ''5'' = Some [''b'' \<mapsto> 1]"
proof -
  let ?e = "env_of 1 example_tree ''n1''"
  have "upper_groupids example_cross_state = [4, 5]"
    by (simp add: example_cross_state_def example_busy_def)
  moreover obtain t where "process_queue ?e 5 (example_cross_state\<lparr>
     m_readWriteSetManager := new_ReadWriteSetManager\<lparr>receivedTxRWset := [''k'' \<mapsto> 0]\<rparr>,
     executions := [(Some example_own, False), (Some example_own, False)],
     m_txQueues := [''4'' \<mapsto> [], ''5'' \<mapsto> []]\<rparr>) = Inr t"
    using cross_next by blast
  ultimately have s': "processBlockingTxsPlus ?e example_cross_state = Inr t"
    by (simp add: processBlockingTxsPlus_def cross_step)
  have "lock_tables example_cross_state ''5'' = Some [''b'' \<mapsto> 1]"
    by (simp add: lock_tables_def example_cross_state_def example_busy_def)
  then show ?thesis using processBlockingTxsPlus_keeps_locks [OF s'] s' by (metis)
qed

lemma process_queue_intershard_witness:
  "\<exists>s'. process_queue (env_of 1 example_tree ''n1'') 4 example_cross_state = Inr s'
    \<and> executions s' = [(Some example_own, False), (Some example_own, False)]"
proof -
  let ?e = "env_of 1 example_tree ''n1''"
  have n: "to_string 4 = ''4''" by code_simp
  have head: "m_txQueues example_cross_state (to_string 4) = Some (example_cross # [])" "is_intershardTx example_cross"
    by (simp_all add: example_cross_state_def example_cross_def n)
  obtain s' where s': "process_queue ?e 4 example_cross_state = Inr s'" using cross_step by blast
  have "rwkeyToReceive example_cross = [''k'']" "tx_ptr example_cross = Some example_own"
    "executions example_cross_state = []" "received (m_readWriteSetManager example_cross_state) ''k'' = 1"
    by (simp_all add: example_cross_state_def example_busy_def new_executer_def example_cross_def received_def count_of_def)
  then show ?thesis
    using process_queue_intershard [OF head s'] s' by (auto split: if_splits)
qed

lemma process_queue_intrashard_witness:
  "\<exists>s'. process_queue (env_of 1 example_tree ''n1'') 4
      (new_executer\<lparr>m_txQueues := [''4'' \<mapsto> [queued_intra example_own ''t1'' ''a_b'' [4, 5]]]\<rparr>) = Inr s'
    \<and> executions s' = [] \<and> m_processed_intrashardTxNum s' = 1"
proof -
  let ?s = "new_executer\<lparr>m_txQueues := [''4'' \<mapsto> [queued_intra example_own ''t1'' ''a_b'' [4, 5]]]\<rparr>"
  have n: "to_string 4 = ''4''" by code_simp
  have head: "m_txQueues ?s (to_string 4) = Some (queued_intra example_own ''t1'' ''a_b'' [4, 5] # [])"
    "\<not> is_intershardTx (queued_intra example_own ''t1'' ''a_b'' [4, 5])"
    by (simp_all add: n queued_intra_def)
  have "length (blockingQueue_keys (queued_intra example_own ''t1'' ''a_b'' [4, 5])) \<noteq> 1"
    "executions ?s = []" "m_processed_intrashardTxNum ?s = 0"
    by (simp_all add: queued_intra_def new_executer_def)
  then show ?thesis
    using process_queue_intrashard [OF head, of "env_of 1 example_tree ''n1''"] by auto
qed

lemma replyCommit_null_witness:
  "replyCommitToCoordinator (env_of 1 example_tree ''n1'') (new_executer\<lparr>m_committed_intershardTxid := [(4, [''t1''])]\<rparr>)
    = Inl NullPointer"
proof -
  have "forward_node (env_of 1 example_tree ''n1'') = Inr True" by code_simp
  from replyCommit_null [OF this, of "new_executer\<lparr>m_committed_intershardTxid := [(4, [''t1''])]\<rparr>"] show ?thesis by simp
qed


lemma checkReadWriteKeyReady_accounting_witness:
  "\<exists>s'. checkReadWriteKeyReady [''k''] True example_cross_state = Inr (True, s')
    \<and> received (m_readWriteSetManager s') ''k'' = 0"
proof -
  have "received (m_readWriteSetManager example_cross_state) ''k'' = 1"
    by (simp add: example_cross_state_def received_def count_of_def)
  then show ?thesis using checkReadWriteKeyReady_accounting [of "[''k'']" True example_cross_state] by auto
qed

end
