(* ===== verification/MasterChange.thy ===== *)
theory MasterChange
  imports EpochProcessing ShardHierarchy ExecuterInit
begin

text \<open>
  Moving the write right of a state between shards (\<open>libplugin/TransactionExecuter.cpp\<close>): a shard
  that uses a remote state more than its owner requests it (\<open>analyseWorkload\<close>,
  \<open>batchRequestForMasterChange\<close>), the common ancestor runs two rounds with the two shards
  (PrePrepare, Prepare, Commit), and afterwards the shards share the state's value and the
  transactions they held back (\<open>shuffleStateValue\<close>, \<open>shuffleBlockedTxs\<close> and their handlers).
\<close>

section \<open>Requests\<close>

definition request_fields :: "environment \<Rightarrow> string \<Rightarrow> (string \<times> string \<times> string \<times> string) result" where
  "request_fields env requestcontent =
     (let contentitems = e_split env CHR ''|'' requestcontent
      in rbind (vec_at contentitems 0) (\<lambda>ancestor.
         rbind (vec_at contentitems 1) (\<lambda>local.
         rbind (vec_at contentitems 2) (\<lambda>destin.
         rbind (vec_at contentitems 3) (\<lambda>key. Inr (ancestor, local, destin, key))))))"

definition batchRequestForMasterChange :: "environment \<Rightarrow> string list \<Rightarrow> executer \<Rightarrow> executer result" where
  "batchRequestForMasterChange env requests s =
     rbind (rmap (request_fields env) requests) (\<lambda>cs.
       let requestkeys = join_with ''_'' (map (\<lambda>(ancestor, local, destin, key). key) cs);
           (ancestor, local, destin, _) = (if cs = [] then ('''', '''', '''', '''') else last cs);
           msg = RequestForMasterShardMsg (atoi local) (atoi destin) requestkeys
                   (to_string (e_group env) @ to_string (stateChangeRequestBatchId s));
           s1 = s\<lparr>stateChangeRequestBatchId := stateChangeRequestBatchId s + 1\<rparr>
       in rbind (get_forward_nodeId (e_tree env) (atoi ancestor - 1)) (\<lambda>node.
            Inr (emit (SendTo node msg) s1)))"

text \<open>
  The thresholds of \<open>analyseWorkload\<close>: more than 200 local accesses, more than 100 cross-shard
  accesses with the remote state, fewer than 100 accesses at its owner, not requested before.
\<close>

definition analyse_pair ::
  "environment \<Rightarrow> string \<Rightarrow> string \<times> int \<Rightarrow> (string, string) omap \<times> executer
     \<Rightarrow> (string, string) omap \<times> executer" where
  "analyse_pair env localKey item acc =
     (let (remoteKey, accessednumber) = item;
          (requestState, s) = acc;
          localKeyContention = getLocalKeyIntraContention (m_LRU_StatesInfo s) localKey;
          (shardid, remoteKeyContention) = getRemoteKeyIntraContention (m_LRU_StatesInfo s) '''' remoteKey
      in if remoteKeyContention = ''none'' then acc
         else if atoi localKeyContention > 200 \<and> accessednumber > 100
               \<and> atoi remoteKeyContention < 100 \<and> remoteKey \<notin> requestedStates s
         then (om_insert remoteKey shardid requestState,
               s\<lparr>requestedStates := insert remoteKey (requestedStates s)\<rparr>)
         else acc)"

definition collect_requests :: "environment \<Rightarrow> executer \<Rightarrow> (string, string) omap \<times> executer" where
  "collect_requests env s =
     fold (\<lambda>(localKey, item) acc. fold (analyse_pair env localKey) item acc)
       (localkeys_interTx_summarized (m_LRU_StatesInfo s)) ([], s)"

definition shard_index :: "environment \<Rightarrow> string \<Rightarrow> nat result" where
  "shard_index env shardid =
     (if 1 \<le> atoi shardid \<and> atoi shardid \<le> int (length (e_hierarchy env))
      then Inr (nat (atoi shardid - 1)) else Inl OutOfRange)"

definition ancestor_id :: "environment \<Rightarrow> string \<Rightarrow> string \<Rightarrow> int result" where
  "ancestor_id env localshardid destinshardid =
     rbind (shard_index env localshardid) (\<lambda>l.
     rbind (shard_index env destinshardid) (\<lambda>d.
       case hs_getLCA (e_hierarchy env) (Some l) (Some d) of
         None \<Rightarrow> Inl Diverges
       | Some None \<Rightarrow> Inl NullPointer
       | Some (Some p) \<Rightarrow> Inr (fst (e_hierarchy env ! p))))"

definition om_push :: "'k::linorder \<Rightarrow> 'v \<Rightarrow> ('k, 'v list) omap \<Rightarrow> ('k, 'v list) omap" where
  "om_push k v m = (case map_of m k of Some vs \<Rightarrow> om_set k (vs @ [v]) m | None \<Rightarrow> om_insert k [v] m)"

definition cache_request ::
  "environment \<Rightarrow> int \<Rightarrow> string \<times> string \<Rightarrow> (string, string list) omap \<Rightarrow> (string, string list) omap result" where
  "cache_request env requestId request cached =
     (let (key, destinshardid) = request; localshardid = to_string (e_group env)
      in rbind (ancestor_id env localshardid destinshardid) (\<lambda>ancestor.
           Inr (om_push destinshardid
             (join_with ''|'' [to_string ancestor, localshardid, destinshardid, key, to_string requestId]) cached)))"

definition send_request :: "environment \<Rightarrow> string \<times> string list \<Rightarrow> executer \<Rightarrow> executer result" where
  "send_request env request s =
     rbind (batchRequestForMasterChange env (snd request) s) (\<lambda>s.
       Inr (s\<lparr>stateChangeRequestId := stateChangeRequestId s + 1\<rparr>))"

definition analyseWorkload :: "environment \<Rightarrow> executer \<Rightarrow> executer result" where
  "analyseWorkload env s =
     (let (requestState, s1) = collect_requests env s
      in if requestState = [] then Inr s1
         else rbind (rfold (cache_request env (stateChangeRequestId s1)) requestState []) (\<lambda>cachedRequest.
           rfold (send_request env) cachedRequest s1))"

section \<open>The rounds of the common ancestor\<close>

record StateMasterChangePrePrepareMsgs =
  pp_sourceshardid :: string
  pp_destinshardid :: string
  pp_requestkeys :: string
  pp_messageid :: string

record StateMasterChangeCommitMsgs =
  cm_sourceshardid :: string
  cm_destinshardid :: string
  cm_requestkeys :: string
  cm_messageid :: string

text \<open>The maps of messages are iterated backwards, from the greatest shard id (a string) to the least.\<close>

definition sendMasterChangePrePrepareMsg ::
  "environment \<Rightarrow> (string, StateMasterChangePrePrepareMsgs) omap \<Rightarrow> executer \<Rightarrow> executer result" where
  "sendMasterChangePrePrepareMsg env msgs s =
     rfold (\<lambda>(shardid, m) s.
         rbind (get_forward_nodeId (e_tree env) (atoi shardid - 1)) (\<lambda>node.
           Inr (emit (SendTo node (MasterShardPrePrepareMsg (pp_sourceshardid m) (pp_destinshardid m)
                  (pp_requestkeys m) (pp_messageid m) (e_group env))) s)))
       (rev msgs) s"

definition processStateMasterRequestTx :: "environment \<Rightarrow> transaction \<Rightarrow> executer \<Rightarrow> executer result" where
  "processStateMasterRequestTx env tx s =
     (let dataitems = e_split env CHR ''|'' (dataToHexString (tx_data tx))
      in rbind (vec_at dataitems 1) (\<lambda>sourceshardid.
         rbind (vec_at dataitems 2) (\<lambda>destinshardid.
         rbind (vec_at dataitems 3) (\<lambda>requestkeys.
         rbind (vec_at dataitems 4) (\<lambda>messageid.
           let m = \<lparr>pp_sourceshardid = sourceshardid, pp_destinshardid = destinshardid,
                    pp_requestkeys = requestkeys, pp_messageid = messageid\<rparr>;
               PrePareMsgs = om_insert destinshardid m (om_insert sourceshardid m [])
           in rbind (forward_node env) (\<lambda>fwd.
                if fwd then sendMasterChangePrePrepareMsg env PrePareMsgs s else Inr s))))))"

definition sendMasterChangePrepareMsg ::
  "environment \<Rightarrow> string \<Rightarrow> string \<Rightarrow> string \<Rightarrow> string \<Rightarrow> string \<Rightarrow> executer \<Rightarrow> executer result" where
  "sendMasterChangePrepareMsg env sourceshardids destinshardids requestkeys messageids coordinator s =
     rbind (get_nodeIDs (e_tree env) (atoi coordinator)) (\<lambda>nodes.
       Inr (emit_all nodes (MasterShardPrepareMsg sourceshardids destinshardids requestkeys messageids
              (atoi coordinator)) s))"

definition processMasterChangePrePrepareTx :: "environment \<Rightarrow> transaction \<Rightarrow> executer \<Rightarrow> executer result" where
  "processMasterChangePrePrepareTx env tx s =
     (let dataItems = e_split env CHR ''|'' (dataToHexString (tx_data tx))
      in rbind (vec_at dataItems 1) (\<lambda>sourceshardids.
         rbind (vec_at dataItems 2) (\<lambda>destinshardids.
         rbind (vec_at dataItems 3) (\<lambda>requestkeys.
         rbind (vec_at dataItems 4) (\<lambda>messageids.
         rbind (vec_at dataItems 5) (\<lambda>coordinator.
           let s1 = s\<lparr>m_lockedStateKey := m_lockedStateKey s \<union> set (e_split env CHR ''_'' requestkeys)\<rparr>
           in rbind (forward_node env) (\<lambda>fwd.
                if fwd then
                  sendMasterChangePrepareMsg env sourceshardids destinshardids requestkeys messageids coordinator s1
                else Inr s1)))))))"

text \<open>The last lines of \<open>sendMasterChangeCommitMsg\<close> record the new owner of every state.\<close>

definition record_masters :: "string list \<Rightarrow> int \<Rightarrow> executer \<Rightarrow> executer" where
  "record_masters keyitems master s =
     s\<lparr>m_masterChangedKey := fold (\<lambda>rwkey m. m(rwkey \<mapsto> master)) keyitems (m_masterChangedKey s)\<rparr>"

definition sendMasterChangeCommitMsg ::
  "environment \<Rightarrow> (string, StateMasterChangeCommitMsgs) omap \<Rightarrow> executer \<Rightarrow> executer result" where
  "sendMasterChangeCommitMsg env msgs s =
     rbind (rfold (\<lambda>(shardid, m) s.
         rbind (get_nodeIDs (e_tree env) (atoi shardid)) (\<lambda>nodes.
           Inr (emit_all nodes (MasterShardCommitMsg (cm_sourceshardid m) (cm_destinshardid m)
                  (cm_requestkeys m) (cm_messageid m) (e_group env)) s)))
       (rev msgs) s) (\<lambda>s1.
     let (sourceshardid, requestkeys) =
           (case msgs of [] \<Rightarrow> ('''', '''') | (_, m) # _ \<Rightarrow> (cm_sourceshardid m, cm_requestkeys m))
     in Inr (record_masters (e_split env CHR ''_'' requestkeys) (atoi sourceshardid) s1))"

definition processMasterChangePrepareTx :: "environment \<Rightarrow> transaction \<Rightarrow> executer \<Rightarrow> executer result" where
  "processMasterChangePrepareTx env tx s =
     (let dataItems = e_split env CHR ''|'' (dataToHexString (tx_data tx))
      in rbind (vec_at dataItems 1) (\<lambda>sourceshardids.
         rbind (vec_at dataItems 2) (\<lambda>destinshardids.
         rbind (vec_at dataItems 3) (\<lambda>readwritekeys.
         rbind (vec_at dataItems 4) (\<lambda>requestmessageids.
         rbind (vec_at dataItems 5) (\<lambda>coordinator.
           let m = \<lparr>cm_sourceshardid = sourceshardids, cm_destinshardid = destinshardids,
                    cm_requestkeys = readwritekeys, cm_messageid = requestmessageids\<rparr>;
               CommitMsgs = om_insert destinshardids m (om_insert sourceshardids m [])
           in rbind (forward_node env) (\<lambda>fwd.
                if fwd then sendMasterChangeCommitMsg env CommitMsgs s else Inr s)))))))"

section \<open>The two shards\<close>

definition commit_key :: "environment \<Rightarrow> string \<Rightarrow> string \<Rightarrow> string \<Rightarrow> executer \<Rightarrow> executer result" where
  "commit_key env sourceshardids destinshardids rwkey s =
     (if atoi sourceshardids = e_group env then
        rbind (map_at (m_valid_state s) rwkey) (\<lambda>_.
        rbind (map_at (m_master_state s) rwkey) (\<lambda>_.
          Inr (add_shuffleValue_destshardid rwkey (atoi destinshardids)
            (s\<lparr>m_valid_state := (m_valid_state s)(rwkey \<mapsto> True),
               m_master_state := (m_master_state s)(rwkey \<mapsto> True),
               m_addedTransferedStates := (m_addedTransferedStates s)(rwkey \<mapsto> destinshardids)\<rparr>))))
      else if atoi destinshardids = e_group env then
        rbind (map_at (m_master_state s) rwkey) (\<lambda>_.
          Inr (add_shuffleTxRLP_destshardid rwkey (atoi sourceshardids)
            (s\<lparr>m_master_state := (m_master_state s)(rwkey \<mapsto> False),
               transfered_states := (transfered_states s)(rwkey \<mapsto> sourceshardids)\<rparr>)))
      else Inr s)"

definition processMasterChangeCommitTx :: "environment \<Rightarrow> transaction \<Rightarrow> executer \<Rightarrow> executer result" where
  "processMasterChangeCommitTx env tx s =
     (let dataItems = e_split env CHR ''|'' (dataToHexString (tx_data tx))
      in rbind (vec_at dataItems 1) (\<lambda>sourceshardids.
         rbind (vec_at dataItems 2) (\<lambda>destinshardids.
         rbind (vec_at dataItems 3) (\<lambda>requestkeys.
           rfold (commit_key env sourceshardids destinshardids) (e_split env CHR ''_'' requestkeys) s))))"

section \<open>Sharing values and transactions\<close>

definition group_states ::
  "(string \<rightharpoonup> int) \<Rightarrow> string list \<Rightarrow> (int, string list) omap result" where
  "group_states destinshardids states =
     rfold (\<lambda>s groups. rbind (map_at destinshardids s) (\<lambda>shardid. Inr (om_push shardid s groups))) states []"

definition send_values :: "environment \<Rightarrow> int \<times> string list \<Rightarrow> executer \<Rightarrow> executer result" where
  "send_values env entry s =
     (let (shardid, shuffle_states) = entry
      in rbind (forward_node env) (\<lambda>fwd.
           if fwd then
             rbind (get_nodeIDs (e_tree env) (atoi (to_string shardid))) (\<lambda>nodes.
               Inr (emit_all nodes (ShuffleStateValue (join_with ''|'' shuffle_states)
                      (join_with ''|'' (map (\<lambda>_. ''0'') shuffle_states)) (to_string shardid)) s))
           else Inr s))"

definition shuffleStateValue :: "environment \<Rightarrow> string \<Rightarrow> executer \<Rightarrow> executer result" where
  "shuffleStateValue env contents s =
     (let s1 = s\<lparr>masterwriteBlocked := True\<rparr>
      in rbind (group_states (get_shuffleValue_destshardid s1)
                 (e_split env CHR ''|'' contents)) (\<lambda>groups.
           rfold (send_values env) groups s1))"

text \<open>The transactions that are shared are an empty string: collecting them is commented out.\<close>

definition shuffleBlockedTxs :: "environment \<Rightarrow> string \<Rightarrow> executer \<Rightarrow> executer result" where
  "shuffleBlockedTxs env contents s =
     (let s1 = s\<lparr>vicewriteBlocked := True\<rparr>
      in rbind (rmap (map_at (get_shuffleTxRLP_destshardid s1))
                 (e_split env CHR ''|'' contents)) (\<lambda>shardids.
           rfold (\<lambda>shardid s.
               rbind (forward_node env) (\<lambda>fwd.
                 if fwd then rbind (get_nodeIDs (e_tree env) shardid) (\<lambda>nodes.
                   Inr (emit_all nodes (ShuffleTxRlps '''') s))
                 else Inr s)) shardids s1))"

definition processShuffleValueTx :: "environment \<Rightarrow> transaction \<Rightarrow> executer \<Rightarrow> executer result" where
  "processShuffleValueTx env tx s =
     (let dataItems = e_split env CHR ''|'' (dataToHexString (tx_data tx))
      in rbind (vec_at dataItems 1) (\<lambda>stateKeys.
         rbind (vec_at dataItems 2) (\<lambda>stateValues.
         rbind (vec_at dataItems 3) (\<lambda>sourceItem.
         rbind (if length (m_blocked_originTxRlps s) > 0 then
                  rbind (front_blocked_originTxRlps s) (\<lambda>blockedTxRlps.
                    let txrlps = e_split env CHR ''_'' blockedTxRlps
                    in rbind (if length txrlps > 1 then
                                rfold (\<lambda>txrlp s. rbind (e_decode env txrlp) (\<lambda>t.
                                  Inr (executeTx (Some t) False s))) txrlps s
                              else Inr s) (\<lambda>s. Inr (pop_blocked_originTxRlps s)))
                else Inr s) (\<lambda>s.
           Inr (s\<lparr>vicewriteBlocked := False\<rparr>))))))"

definition run_converted :: "environment \<Rightarrow> string \<Rightarrow> executer \<Rightarrow> executer result" where
  "run_converted env intraTxContent s =
     (let contentItems = e_split env CHR ''|'' intraTxContent
      in rbind (vec_at contentItems 0) (\<lambda>txrlps.
         rbind (vec_at contentItems 1) (\<lambda>rwkeys.
           let s1 = s\<lparr>m_LRU_StatesInfo := fold update_lru_localkeys_intraTx (e_split env CHR ''_'' rwkeys)
                        (m_LRU_StatesInfo s)\<rparr>
           in rbind (rmap (e_decode env) (e_split env CHR ''_'' txrlps)) (\<lambda>subtxs.
                Inr (add_processedTxNum (fold (\<lambda>t. executeTx (Some t) False) subtxs s1))))))"

definition processShuffleTx :: "environment \<Rightarrow> transaction \<Rightarrow> executer \<Rightarrow> executer result" where
  "processShuffleTx env tx s =
     (let dataitems = e_split env CHR ''|'' (dataToHexString (tx_data tx))
      in rbind (vec_at dataitems 1) (\<lambda>blocked_txRLPs.
           let txRLPs = e_split env CHR ''_'' blocked_txRLPs
           in rbind (if length txRLPs > 1 then
                       rfold (\<lambda>txrlp s. rbind (e_decode env txrlp) (\<lambda>t.
                         Inr (add_processedTxNum (executeTx (Some t) False s)))) txRLPs s
                     else Inr s) (\<lambda>s1.
              let s2 = s1\<lparr>masterwriteBlocked := False\<rparr>
              in if length (m_blocked_intraTxContents s2) > 0 then
                   rbind (front_blocked_intraTxContent s2) (\<lambda>contents.
                     let convertedIntraTxs = e_split env CHR ''&'' contents
                     in rbind (if length convertedIntraTxs > 1
                               then rfold (run_converted env) convertedIntraTxs s2 else Inr s2) (\<lambda>s3.
                          Inr (pop_blocked_intraTxContent s3)))
                 else Inr s2)))"

text \<open>
  \<open>average_latency\<close> prints the quotient of two sums over the transactions whose start and end were
  recorded; the model returns the sums.
\<close>

definition average_latency :: "executer \<Rightarrow> int \<times> int" where
  "average_latency s =
     fold (\<lambda>(txid, endtime) (totalTime, totalTxNum).
         case map_of (m_txid_to_starttime s) txid of
           Some starttime \<Rightarrow> (totalTime + (endtime - starttime), totalTxNum + 1)
         | None \<Rightarrow> (totalTime, totalTxNum))
       (m_txid_to_endtime s) (0, 0)"

section \<open>What is requested\<close>

definition due :: "LRU_StatesInfo \<Rightarrow> string \<Rightarrow> string \<times> int \<Rightarrow> bool" where
  "due l localKey item \<longleftrightarrow>
     (let c = snd (getRemoteKeyIntraContention l '''' (fst item))
      in c \<noteq> ''none'' \<and> 200 < atoi (getLocalKeyIntraContention l localKey) \<and> 100 < snd item \<and> atoi c < 100)"

definition access_pairs :: "LRU_StatesInfo \<Rightarrow> (string \<times> string \<times> int) list" where
  "access_pairs l = concat (map (\<lambda>(k, item). map (Pair k) item) (localkeys_interTx_summarized l))"

definition due_states :: "LRU_StatesInfo \<Rightarrow> string set" where
  "due_states l = {r. \<exists>k n. (k, r, n) \<in> set (access_pairs l) \<and> due l k (r, n)}"

lemma analyse_pair_simp:
  "analyse_pair env k item (rs, s) =
    (if due (m_LRU_StatesInfo s) k item \<and> fst item \<notin> requestedStates s
     then (om_insert (fst item) (fst (getRemoteKeyIntraContention (m_LRU_StatesInfo s) '''' (fst item))) rs,
           s\<lparr>requestedStates := insert (fst item) (requestedStates s)\<rparr>)
     else (rs, s))"
  by (simp add: analyse_pair_def due_def Let_def split_beta)

lemma collect_requests_flat:
  "collect_requests env s
    = fold (\<lambda>(k, item). analyse_pair env k item) (access_pairs (m_LRU_StatesInfo s)) ([], s)"
proof -
  have "fold (\<lambda>(k, item) acc. fold (analyse_pair env k) item acc) xs acc
      = fold (\<lambda>(k, item). analyse_pair env k item) (concat (map (\<lambda>(k, item). map (Pair k) item) xs)) acc" for xs acc
    by (induction xs arbitrary: acc) (auto simp: fold_map o_def)
  then show ?thesis by (simp add: collect_requests_def access_pairs_def)
qed

lemma collect_frame:
  "fold (\<lambda>(k, item). analyse_pair env k item) ps (rs, s) = (rs', s') \<Longrightarrow>
     s' = s\<lparr>requestedStates := requestedStates s
        \<union> {r. \<exists>k n. (k, r, n) \<in> set ps \<and> due (m_LRU_StatesInfo s) k (r, n)}\<rparr>"
proof (induction ps arbitrary: rs s)
  case (Cons p ps)
  obtain k r n where p: "p = (k, r, n)" by (cases p) auto
  let ?new = "\<lambda>qs. {r. \<exists>k n. (k, r, n) \<in> set qs \<and> due (m_LRU_StatesInfo s) k (r, n)}"
  show ?case
  proof (cases "due (m_LRU_StatesInfo s) k (r, n) \<and> r \<notin> requestedStates s")
    case True
    let ?s2 = "s\<lparr>requestedStates := insert r (requestedStates s)\<rparr>"
    from True Cons.prems obtain rs2 where "fold (\<lambda>(k, item). analyse_pair env k item) ps (rs2, ?s2) = (rs', s')"
      by (auto simp: p analyse_pair_simp)
    from Cons.IH [OF this] have "s' = s\<lparr>requestedStates := insert r (requestedStates s) \<union> ?new ps\<rparr>" by simp
    moreover have "insert r (requestedStates s) \<union> ?new ps = requestedStates s \<union> ?new (p # ps)"
      using True p by auto
    ultimately show ?thesis by simp
  next
    case False
    then have "s' = s\<lparr>requestedStates := requestedStates s \<union> ?new ps\<rparr>"
      using Cons.IH Cons.prems by (auto simp: p analyse_pair_simp)
    moreover have "requestedStates s \<union> ?new (p # ps) = requestedStates s \<union> ?new ps"
      using False p by auto
    ultimately show ?thesis by simp
  qed
qed simp

lemma collect_none:
  assumes "due_states (m_LRU_StatesInfo s) \<subseteq> requestedStates s"
  shows "collect_requests env s = ([], s)"
proof -
  have "fold (\<lambda>(k, item). analyse_pair env k item) ps (rs, s) = (rs, s)"
    if "\<And>k r n. (k, r, n) \<in> set ps \<Longrightarrow> due (m_LRU_StatesInfo s) k (r, n) \<Longrightarrow> r \<in> requestedStates s" for ps rs
    using that
  proof (induction ps)
    case (Cons p ps)
    obtain k r n where p: "p = (k, r, n)" by (cases p) auto
    have "analyse_pair env k (r, n) (rs, s) = (rs, s)"
      using Cons.prems [of k r n] by (auto simp: p analyse_pair_simp)
    moreover have "fold (\<lambda>(k, item). analyse_pair env k item) ps (rs, s) = (rs, s)"
      by (rule Cons.IH) (use Cons.prems in auto)
    ultimately show ?case by (simp add: p)
  qed simp
  note this [of "access_pairs (m_LRU_StatesInfo s)"]
  moreover have "r \<in> requestedStates s" if "(k, r, n) \<in> set (access_pairs (m_LRU_StatesInfo s))"
    "due (m_LRU_StatesInfo s) k (r, n)" for k r n
    using assms that by (auto simp: due_states_def)
  ultimately show ?thesis by (simp add: collect_requests_flat)
qed

definition same_requests :: "executer \<Rightarrow> executer \<Rightarrow> bool" where
  "same_requests s t \<longleftrightarrow> m_LRU_StatesInfo t = m_LRU_StatesInfo s \<and> requestedStates t = requestedStates s"

lemma batchRequest_frame:
  "batchRequestForMasterChange env rs s = Inr t \<Longrightarrow> same_requests s t"
  by (auto simp: batchRequestForMasterChange_def same_requests_def checked Let_def emit_def split_beta)

lemma send_request_frame:
  assumes "send_request env r s = Inr t"
  shows "same_requests s t"
proof -
  from assms obtain u where "batchRequestForMasterChange env (snd r) s = Inr u"
    "t = u\<lparr>stateChangeRequestId := stateChangeRequestId u + 1\<rparr>" by (auto simp: send_request_def checked)
  with batchRequest_frame [of env "snd r" s u] show ?thesis by (simp add: same_requests_def)
qed

lemma same_requests_trans: "same_requests s t \<Longrightarrow> same_requests t u \<Longrightarrow> same_requests s u"
  by (simp add: same_requests_def)

lemma analyseWorkload_requested:
  assumes "analyseWorkload env s = Inr s'"
  shows "m_LRU_StatesInfo s' = m_LRU_StatesInfo s
    \<and> requestedStates s' = requestedStates s \<union> due_states (m_LRU_StatesInfo s)"
proof -
  obtain rs s1 where c: "collect_requests env s = (rs, s1)" by fastforce
  have s1: "s1 = s\<lparr>requestedStates := requestedStates s \<union> due_states (m_LRU_StatesInfo s)\<rparr>"
    using collect_frame [OF c [unfolded collect_requests_flat]] by (simp add: due_states_def)
  have "same_requests s1 s'"
  proof (cases "rs = []")
    case True
    then show ?thesis using assms c by (simp add: analyseWorkload_def same_requests_def)
  next
    case False
    then obtain cached where "rfold (send_request env) cached s1 = Inr s'"
      using assms c by (auto simp: analyseWorkload_def checked)
    then show ?thesis
      by (rule rfold_invariant [where P = "same_requests s1"])
        (simp add: same_requests_def, blast intro: same_requests_trans send_request_frame)
  qed
  then show ?thesis using s1 by (simp add: same_requests_def)
qed

text \<open>
  The write right of a state is requested at most once. An analysis marks exactly the remote states
  that meet the thresholds as requested, and a second analysis of the same statistics requests and
  changes nothing.
\<close>

theorem analyseWorkload_once:
  assumes "analyseWorkload env s = Inr s'"
  shows "requestedStates s' = requestedStates s \<union> due_states (m_LRU_StatesInfo s)
    \<and> analyseWorkload env s' = Inr s'"
proof -
  have r: "m_LRU_StatesInfo s' = m_LRU_StatesInfo s"
    "requestedStates s' = requestedStates s \<union> due_states (m_LRU_StatesInfo s)"
    using analyseWorkload_requested [OF assms] by auto
  have "collect_requests env s' = ([], s')" by (rule collect_none) (simp add: r)
  then show ?thesis using r by (simp add: analyseWorkload_def)
qed

section \<open>The commit at the two shards\<close>

definition change_fields :: "environment \<Rightarrow> transaction \<Rightarrow> string \<Rightarrow> string \<Rightarrow> string \<Rightarrow> bool" where
  "change_fields env tx source destin keys \<longleftrightarrow>
     (\<exists>label rest. e_split env CHR ''|'' (dataToHexString (tx_data tx)) = label # source # destin # keys # rest)"

lemma commit_unfold:
  assumes "change_fields env tx source destin keys"
  shows "processMasterChangeCommitTx env tx s = rfold (commit_key env source destin) (e_split env CHR ''_'' keys) s"
  using assms by (auto simp: change_fields_def processMasterChangeCommitTx_def vec_at_Cons)

lemma commit_source:
  assumes "atoi source = e_group env"
    and "set ks \<subseteq> dom (m_valid_state s)" "set ks \<subseteq> dom (m_master_state s)"
  shows "\<exists>s'. rfold (commit_key env source destin) ks s = Inr s'
    \<and> (\<forall>k. m_master_state s' k = (if k \<in> set ks then Some True else m_master_state s k))
    \<and> (\<forall>k. m_addedTransferedStates s' k = (if k \<in> set ks then Some destin else m_addedTransferedStates s k))
    \<and> transfered_states s' = transfered_states s"
  using assms(2,3)
proof (induction ks arbitrary: s)
  case (Cons k ks)
  obtain a b where ab: "m_valid_state s k = Some a" "m_master_state s k = Some b" using Cons.prems by auto
  let ?t = "add_shuffleValue_destshardid k (atoi destin)
            (s\<lparr>m_valid_state := (m_valid_state s)(k \<mapsto> True), m_master_state := (m_master_state s)(k \<mapsto> True),
               m_addedTransferedStates := (m_addedTransferedStates s)(k \<mapsto> destin)\<rparr>)"
  have t: "commit_key env source destin k s = Inr ?t" using assms(1) ab by (simp add: commit_key_def)
  have "set ks \<subseteq> dom (m_valid_state ?t)" "set ks \<subseteq> dom (m_master_state ?t)"
    using Cons.prems by (auto simp: add_shuffleValue_destshardid_def)
  from Cons.IH [OF this] show ?case by (auto simp: t add_shuffleValue_destshardid_def)
qed simp

lemma commit_destin:
  assumes "atoi source \<noteq> e_group env" "atoi destin = e_group env"
    and "set ks \<subseteq> dom (m_master_state s)"
  shows "\<exists>s'. rfold (commit_key env source destin) ks s = Inr s'
    \<and> (\<forall>k. m_master_state s' k = (if k \<in> set ks then Some False else m_master_state s k))
    \<and> (\<forall>k. transfered_states s' k = (if k \<in> set ks then Some source else transfered_states s k))
    \<and> m_addedTransferedStates s' = m_addedTransferedStates s"
  using assms(3)
proof (induction ks arbitrary: s)
  case (Cons k ks)
  obtain b where b: "m_master_state s k = Some b" using Cons.prems by auto
  let ?t = "add_shuffleTxRLP_destshardid k (atoi source)
            (s\<lparr>m_master_state := (m_master_state s)(k \<mapsto> False), transfered_states := (transfered_states s)(k \<mapsto> source)\<rparr>)"
  have t: "commit_key env source destin k s = Inr ?t" using assms(1,2) b by (simp add: commit_key_def)
  have "set ks \<subseteq> dom (m_master_state ?t)"
    using Cons.prems by (auto simp: add_shuffleTxRLP_destshardid_def)
  from Cons.IH [OF this] show ?case by (auto simp: t add_shuffleTxRLP_destshardid_def)
qed simp


lemma init_subTxsContainers_states:
  assumes "init_subTxsContainers env s = Inr t"
  shows "m_valid_state t = m_valid_state s \<and> m_master_state t = m_master_state s"
proof (cases "lower_groupids s = []")
  case False
  then have "rfold (\<lambda>groupid s. rbind (map_at (maxEpochIds s) groupid) (\<lambda>epochId.
                Inr (s\<lparr>m_subTxsContainers := om_insert groupid
                       (new_cachedSubTxsContainer (e_group env) 0 epochId groupid '''' '''')
                       (m_subTxsContainers s)\<rparr>))) (lower_groupids s)
      (s\<lparr>maxEpochIds := fold (\<lambda>g m. map_insert m g 1) (lower_groupids s) (maxEpochIds s)\<rparr>) = Inr t"
    using assms by (simp add: init_subTxsContainers_def Let_def)
  then show ?thesis by (rule rfold_invariant) (auto simp: checked)
qed (use assms in \<open>simp add: init_subTxsContainers_def\<close>)

lemma new_TransactionExecuter_states:
  assumes "new_TransactionExecuter env up low = Inr s"
  shows "m_valid_state s = Map.empty \<and> m_master_state s = Map.empty"
proof -
  obtain s4 where "init_subTxsContainers env (init_blockingTxQueues env up (init_processedEpochIds env up
      (init_upperlower_shardids env up low new_executer))) = Inr s4"
    "init_simulateTx env (init_blocked_originTxRlps_Queues env s4) = Inr s"
    using assms by (auto simp: new_TransactionExecuter_def Let_def checked)
  then show ?thesis
    by (auto dest!: init_subTxsContainers_states simp: init_simulateTx_def init_blockingTxQueues_def
        init_blocking_fold init_processedEpochIds_def init_upperlower_shardids_def
        init_blocked_originTxRlps_Queues_def new_executer_def checked Let_def split: option.splits)
qed

text \<open>
  On a freshly constructed executer no master change can commit: the tables of valid and of mastered
  states are filled only by a function whose call is commented out, so the checked access to the first
  state throws at both shards.
\<close>

theorem processMasterChangeCommitTx_throws:
  assumes fields: "change_fields env tx source destin keys"
    and new: "new_TransactionExecuter env up low = Inr s"
    and keys: "e_split env CHR ''_'' keys \<noteq> []"
    and party: "atoi source = e_group env \<or> atoi destin = e_group env"
  shows "processMasterChangeCommitTx env tx s = Inl OutOfRange"
proof -
  obtain k ks where k: "e_split env CHR ''_'' keys = k # ks" using keys by (cases "e_split env CHR ''_'' keys") auto
  have "commit_key env source destin k s = Inl OutOfRange"
    using party new_TransactionExecuter_states [OF new] by (auto simp: commit_key_def)
  then show ?thesis by (simp add: commit_unfold [OF fields] k)
qed

section \<open>The rounds of the ancestor\<close>

text \<open>
  A request for a master change kills the ancestor's handler when a party has no shard with the id
  just below it, in particular for the shard with the least id: the first round is sent to the
  forward node of the shard with the party's id minus one.
\<close>

theorem processStateMasterRequestTx_fails:
  assumes fields: "e_split env CHR ''|'' (dataToHexString (tx_data tx)) = label # source # destin # keys # messageid # rest"
    and fwd: "forward_node env = Inr True"
    and none: "get_shard_by_internal_groupId (e_tree env) (atoi source - 1) = None
             \<or> get_shard_by_internal_groupId (e_tree env) (atoi destin - 1) = None"
  shows "\<exists>e. processStateMasterRequestTx env tx s = Inl e"
proof (rule ccontr)
  let ?m = "\<lparr>pp_sourceshardid = source, pp_destinshardid = destin, pp_requestkeys = keys, pp_messageid = messageid\<rparr>"
  let ?msgs = "om_insert destin ?m (om_insert source ?m [])"
  assume "\<not> ?thesis"
  then obtain s' where "processStateMasterRequestTx env tx s = Inr s'"
    by (cases "processStateMasterRequestTx env tx s") auto
  then have r: "sendMasterChangePrePrepareMsg env ?msgs s = Inr s'"
    by (simp add: processStateMasterRequestTx_def fields vec_at_Cons fwd Let_def del: om_insert.simps)
  have "source \<in> fst ` set ?msgs" "destin \<in> fst ` set ?msgs" by (simp_all only: keys_om_insert) auto
  with none obtain d where d: "d \<in> fst ` set ?msgs" "get_shard_by_internal_groupId (e_tree env) (atoi d - 1) = None"
    by auto
  from d(1) obtain m where m: "(d, m) \<in> set ?msgs" by force
  from d(2) have "get_forward_nodeId (e_tree env) (atoi d - 1) = Inl NullPointer"
    by (simp add: get_forward_nodeId_def shard_deref_def)
  with rfold_elem [OF r [unfolded sendMasterChangePrePrepareMsg_def], of "(d, m)"] m show False
    by (simp del: om_insert.simps)
qed

section \<open>The new master\<close>

lemma record_masters_lookup:
  "m_masterChangedKey (record_masters ks g s) k = (if k \<in> set ks then Some g else m_masterChangedKey s k)"
proof -
  have "fold (\<lambda>rwkey m. m(rwkey \<mapsto> g)) ks m k = (if k \<in> set ks then Some g else m k)" for m
    by (induction ks arbitrary: m) auto
  then show ?thesis by (simp add: record_masters_def)
qed

definition commit_messages :: "environment \<Rightarrow> StateMasterChangeCommitMsgs \<Rightarrow> string list \<Rightarrow> effect list" where
  "commit_messages env m nodes = map (\<lambda>n. SendTo n (MasterShardCommitMsg (cm_sourceshardid m) (cm_destinshardid m)
     (cm_requestkeys m) (cm_messageid m) (e_group env))) nodes"

lemma prepare_result:
  assumes fields: "e_split env CHR ''|'' (dataToHexString (tx_data tx))
      = label # source # destin # keys # messageid # coordinator # rest"
    and fwd: "forward_node env = Inr True"
    and nodes: "get_nodeIDs (e_tree env) (atoi source) = Inr ns" "get_nodeIDs (e_tree env) (atoi destin) = Inr nd"
    and parties: "source \<noteq> destin"
  shows "\<exists>s'. processMasterChangePrepareTx env tx s = Inr s'
    \<and> (\<forall>k. m_masterChangedKey s' k = (if k \<in> set (e_split env CHR ''_'' keys) then Some (atoi source)
          else m_masterChangedKey s k))
    \<and> outbox s' = outbox s @ map (\<lambda>n. SendTo n (MasterShardCommitMsg source destin keys messageid (e_group env)))
        (if source < destin then nd @ ns else ns @ nd)"
proof -
  let ?m = "\<lparr>cm_sourceshardid = source, cm_destinshardid = destin, cm_requestkeys = keys, cm_messageid = messageid\<rparr>"
  let ?msgs = "om_insert destin ?m (om_insert source ?m [])"
  have msgs: "?msgs = (if source < destin then [(source, ?m), (destin, ?m)] else [(destin, ?m), (source, ?m)])"
    using parties by auto
  have "processMasterChangePrepareTx env tx s = sendMasterChangeCommitMsg env ?msgs s"
    by (simp add: processMasterChangePrepareTx_def fields vec_at_Cons fwd Let_def)
  also have "\<dots> = Inr (record_masters (e_split env CHR ''_'' keys) (atoi source) (s\<lparr>outbox := outbox s
      @ map (\<lambda>n. SendTo n (MasterShardCommitMsg source destin keys messageid (e_group env)))
        (if source < destin then nd @ ns else ns @ nd)\<rparr>))"
    unfolding msgs by (simp add: sendMasterChangeCommitMsg_def nodes emit_all_outbox)
  finally show ?thesis by (simp add: record_masters_lookup) (simp add: record_masters_def)
qed

text \<open>
  C35: The Prepare message makes the requesting shard the master at the ancestor: from then on
  exactly the listed states are routed to it, and all nodes of both shards are told to commit, the
  shard with the greater id string first.
\<close>

theorem processMasterChangePrepareTx_routes:
  assumes fields: "e_split env CHR ''|'' (dataToHexString (tx_data tx))
      = label # source # destin # keys # messageid # coordinator # rest"
    and fwd: "forward_node env = Inr True"
    and nodes: "get_nodeIDs (e_tree env) (atoi source) = Inr ns" "get_nodeIDs (e_tree env) (atoi destin) = Inr nd"
    and parties: "source \<noteq> destin"
  shows "\<exists>s'. processMasterChangePrepareTx env tx s = Inr s'
    \<and> (\<forall>k. m_masterChangedKey s' k = (if k \<in> set (e_split env CHR ''_'' keys) then Some (atoi source)
          else m_masterChangedKey s k))
    \<and> outbox s' = outbox s @ map (\<lambda>n. SendTo n (MasterShardCommitMsg source destin keys messageid (e_group env)))
        (if source < destin then nd @ ns else ns @ nd)"
  using assms by (rule prepare_result)

section \<open>Shared transactions\<close>

text \<open>
  What the second shard shares is executed and counted only when it is more than one transaction: a
  message with a single held-back transaction is accepted and the transaction is lost. In both cases
  the shard may write again.
\<close>

theorem processShuffleTx_executes:
  assumes fields: "e_split env CHR ''|'' (dataToHexString (tx_data tx)) = label # rlps # rest"
    and idle: "m_blocked_intraTxContents s = []"
    and decodes: "\<And>r. r \<in> set (e_split env CHR ''_'' rlps) \<Longrightarrow> e_decode env r = Inr (dec r)"
  shows "\<exists>s'. processShuffleTx env tx s = Inr s' \<and> \<not> masterwriteBlocked s'
    \<and> executions s' = executions s @ (if length (e_split env CHR ''_'' rlps) > 1
        then map (\<lambda>r. (Some (dec r), False)) (e_split env CHR ''_'' rlps) else [])
    \<and> m_processed_intrashardTxNum s' = m_processed_intrashardTxNum s
        + (if length (e_split env CHR ''_'' rlps) > 1 then int (length (e_split env CHR ''_'' rlps)) else 0)"
proof -
  let ?rs = "e_split env CHR ''_'' rlps"
  let ?f = "\<lambda>txrlp s. rbind (e_decode env txrlp) (\<lambda>t. Inr (add_processedTxNum (executeTx (Some t) False s)))"
  have "rfold ?f rs s = Inr (s\<lparr>executions := executions s @ map (\<lambda>r. (Some (dec r), False)) rs,
      m_processed_intrashardTxNum := m_processed_intrashardTxNum s + int (length rs)\<rparr>)"
    if "set rs \<subseteq> set ?rs" for rs
    using that decodes by (induction rs arbitrary: s) (auto simp: executeTx_def add_processedTxNum_def)
  then have "rfold ?f ?rs s = Inr (s\<lparr>executions := executions s @ map (\<lambda>r. (Some (dec r), False)) ?rs,
      m_processed_intrashardTxNum := m_processed_intrashardTxNum s + int (length ?rs)\<rparr>)" by simp
  then show ?thesis
    using idle by (simp add: processShuffleTx_def fields vec_at_def Let_def)
qed

section \<open>Instances\<close>

definition change_tx :: transaction where
  "change_tx = \<lparr>tx_data = ''0x777888999|2|1|k|m1|4'', tx_rlp = ''r1'', tx_hash = ''h1''\<rparr>"

lemma change_tx_fields:
  "e_split (env_of g t n) CHR ''|'' (dataToHexString (tx_data change_tx))
    = [''0x777888999'', ''2'', ''1'', ''k'', ''m1'', ''4'']"
  "e_split (env_of g t n) CHR ''_'' ''k'' = [''k'']"
  by code_simp+

lemma change_tx_commit: "change_fields (env_of g t n) change_tx ''2'' ''1'' ''k''"
  by (simp add: change_fields_def change_tx_fields)

lemma atoi_ids: "atoi ''1'' = 1" "atoi ''2'' = 2" "atoi ''4'' = 4"
  by code_simp+

definition busy_stats :: LRU_StatesInfo where
  "busy_stats = new_LRU_StatesInfo\<lparr>localkeys_intraTx_summarized := [''a'' \<mapsto> 300],
     localkeys_interTx_summarized := [(''a'', [(''b'', 101)])],
     remotekeys_intraTx := [''b'' \<mapsto> \<lparr>rk_shardid = ''2'', rk_contention = ''7'', rk_stateAddress = ''b''\<rparr>]\<rparr>"

lemma analyseWorkload_once_witness:
  "\<exists>s'. analyseWorkload (env_of 1 (example_tree\<lparr>hiera_shard_number := 3\<rparr>) ''n1'')
        (new_executer\<lparr>m_LRU_StatesInfo := busy_stats\<rparr>) = Inr s'
    \<and> requestedStates s' = {''b''}"
proof -
  let ?e = "env_of 1 (example_tree\<lparr>hiera_shard_number := 3\<rparr>) ''n1''" and ?s = "new_executer\<lparr>m_LRU_StatesInfo := busy_stats\<rparr>"
  have due: "due busy_stats ''a'' (''b'', 101)" by code_simp
  have "due_states busy_stats = {''b''}"
    using due by (auto simp: due_states_def access_pairs_def busy_stats_def)
  moreover obtain s' where s': "analyseWorkload ?e ?s = Inr s'"
  proof -
    have "collect_requests ?e ?s = ([(''b'', ''2'')], ?s\<lparr>requestedStates := {''b''}\<rparr>)"
      using due by (simp add: collect_requests_flat access_pairs_def analyse_pair_simp)
        (simp add: busy_stats_def analyse_pair_simp getRemoteKeyIntraContention_def new_executer_def)
    moreover have "\<exists>t. send_request ?e r u = Inr t"
      if "r = (''2'', [''3|1|2|b|0''])" for r u
    proof -
      have "get_forward_nodeId (e_tree ?e) 2 = Inr ''n2''" by code_simp
      moreover have "rmap (request_fields ?e) [''3|1|2|b|0''] = Inr [(''3'', ''1'', ''2'', ''b'')]" "atoi ''3'' = 3"
        by code_simp+
      ultimately show ?thesis
        using that by (simp add: send_request_def batchRequestForMasterChange_def)
    qed
    moreover have "cache_request ?e 0 (''b'', ''2'') [] = Inr [(''2'', [''3|1|2|b|0''])]"
    proof -
      have h: "e_hierarchy ?e = [(1, Some 2), (2, Some 2), (3, None)]" by code_simp
      have "hs_getLCA (e_hierarchy ?e) (Some 0) (Some 1) = Some (Some 2)"
        by (simp add: h hs_getLCA_def collect_ancestors.simps first_in.simps preshard_def)
      moreover have "shard_index ?e ''1'' = Inr 0" "shard_index ?e ''2'' = Inr 1" "to_string 1 = ''1''" "to_string 3 = ''3''"
        "to_string 0 = ''0''" by code_simp+
      moreover have "e_group ?e = 1" by (simp add: env_of_def)
      ultimately show ?thesis by (simp add: cache_request_def ancestor_id_def om_push_def h)
    qed
    moreover have "stateChangeRequestId (?s\<lparr>requestedStates := {''b''}\<rparr>) = 0" by (simp add: new_executer_def)
    moreover obtain t where "send_request ?e (''2'', [''3|1|2|b|0'']) (?s\<lparr>requestedStates := {''b''}\<rparr>) = Inr t"
      using calculation(2) by blast
    ultimately have "analyseWorkload ?e ?s = Inr t" by (simp add: analyseWorkload_def)
    then show ?thesis by (rule that)
  qed
  ultimately show ?thesis
    using analyseWorkload_once [OF s'] s' by (auto simp: new_executer_def)
qed


lemma processMasterChangeCommitTx_throws_witness:
  "\<exists>s. new_TransactionExecuter (env_of 1 example_tree ''n1'') ''4'' ''N/A'' = Inr s
    \<and> processMasterChangeCommitTx (env_of 1 example_tree ''n1'') change_tx s = Inl OutOfRange"
proof -
  let ?e = "env_of 1 example_tree ''n1''"
  obtain s where s: "new_TransactionExecuter ?e ''4'' ''N/A'' = Inr s"
    by (simp add: new_TransactionExecuter_def init_subTxsContainers_def init_blockingTxQueues_def init_blocking_fold
        init_processedEpochIds_def init_upperlower_shardids_def new_executer_def init_simulateTx_def env_of_def Let_def)
  have "e_group ?e = 1" by (simp add: env_of_def)
  then show ?thesis
    using processMasterChangeCommitTx_throws [OF change_tx_commit s] s by (auto simp: atoi_ids change_tx_fields)
qed

lemma processStateMasterRequestTx_fails_witness:
  "\<exists>e. processStateMasterRequestTx (env_of 4 example_tree ''n4'') change_tx new_executer = Inl e"
proof -
  let ?e = "env_of 4 example_tree ''n4''"
  have fwd: "forward_node ?e = Inr True" by code_simp
  have "get_shard_by_internal_groupId (e_tree ?e) (atoi ''1'' - 1) = None" by code_simp
  then show ?thesis using processStateMasterRequestTx_fails [OF change_tx_fields(1) fwd] by blast
qed

lemma processMasterChangePrepareTx_routes_witness:
  "\<exists>s'. processMasterChangePrepareTx (env_of 4 example_tree ''n4'') change_tx new_executer = Inr s'
    \<and> m_masterChangedKey s' ''k'' = Some 2
    \<and> outbox s' = [SendTo ''n2'' (MasterShardCommitMsg ''2'' ''1'' ''k'' ''m1'' 4), SendTo ''n1'' (MasterShardCommitMsg ''2'' ''1'' ''k'' ''m1'' 4)]"
proof -
  let ?e = "env_of 4 example_tree ''n4''"
  have fwd: "forward_node ?e = Inr True" by code_simp
  have nodes: "get_nodeIDs (e_tree ?e) (atoi ''2'') = Inr [''n2'']" "get_nodeIDs (e_tree ?e) (atoi ''1'') = Inr [''n1'']"
    by code_simp+
  have "\<not> ''2'' < ''1''" "e_group ?e = 4" "outbox new_executer = []"
    by (simp_all add: env_of_def new_executer_def less_char_def)
  then show ?thesis
    using processMasterChangePrepareTx_routes [OF change_tx_fields(1) fwd nodes, of new_executer]
    by (auto simp: atoi_ids(2) change_tx_fields)
qed

lemma processShuffleTx_executes_witness:
  "\<exists>s'. processShuffleTx (env_of 1 example_tree ''n1'') \<lparr>tx_data = ''0x000000002|r1'', tx_rlp = ''r'', tx_hash = ''h''\<rparr>
      (new_executer\<lparr>masterwriteBlocked := True\<rparr>) = Inr s' \<and> executions s' = []"
proof -
  let ?e = "env_of 1 example_tree ''n1''" and ?tx = "\<lparr>tx_data = ''0x000000002|r1'', tx_rlp = ''r'', tx_hash = ''h''\<rparr>"
  let ?s = "new_executer\<lparr>masterwriteBlocked := True\<rparr>"
  have fields: "e_split ?e CHR ''|'' (dataToHexString (tx_data ?tx)) = ''0x000000002'' # ''r1'' # []" by code_simp
  have one: "e_split ?e CHR ''_'' ''r1'' = [''r1'']" by code_simp
  have idle: "m_blocked_intraTxContents ?s = []" "executions ?s = []" by (simp_all add: new_executer_def)
  have "e_decode ?e r = Inr \<lparr>tx_data = ''tx|'' @ r, tx_rlp = r, tx_hash = r\<rparr>" for r
    by (simp add: env_of_def decode_plain_def)
  then show ?thesis
    using processShuffleTx_executes [OF fields idle(1), where dec = "\<lambda>r. \<lparr>tx_data = ''tx|'' @ r, tx_rlp = r, tx_hash = r\<rparr>"]
    by (auto simp: one idle)
qed

end
