(* ===== verification/Executer.thy ===== *)
theory Executer
  imports ShardExecution Coordinator MasterChange HexCodec
begin

text \<open>
  The thread that executes agreed blocks (\<open>processConsensusBlock\<close> of
  \<open>libplugin/TransactionExecuter.cpp\<close>): every transaction is dispatched on the label found in its data,
  and the containers are flushed after a block. The second half shows what no step of the executer ever
  undoes.
\<close>

section \<open>Dispatch\<close>

definition process_tx :: "environment \<Rightarrow> transaction \<Rightarrow> executer \<Rightarrow> executer result" where
  "process_tx env tx s =
     (let (ty, data_str) = checkTransactionType (dataToHexString (tx_data tx))
      in if ty = 2 then processInterShardTx env data_str s
         else if ty = 1 then processOrderedBatchedSubInterShardTxs env data_str s
         else if ty = 8 then processSingleIntraShardTx env tx data_str s
         else if ty = 0 then Inr (executeDeployContractTx tx s)
         else if ty = 4 then processStateMasterRequestTx env tx s
         else if ty = 5 then processMasterChangePrePrepareTx env tx s
         else if ty = 6 then processMasterChangePrepareTx env tx s
         else if ty = 7 then processMasterChangeCommitTx env tx s
         else if ty = 10 then processShuffleValueTx env tx s
         else if ty = 11 then processShuffleTx env tx s
         else Inr s)"

text \<open>With a cross-shard rate of 20 percent the containers are flushed at every tenth block only.\<close>

definition process_block :: "environment \<Rightarrow> int \<Rightarrow> nat \<Rightarrow> transaction list \<Rightarrow> executer \<Rightarrow> executer result" where
  "process_block env cross_rate blockid transactions s =
     rbind (rfold (process_tx env) transactions s) (\<lambda>s1.
       if cross_rate = 20 then
         if blockid mod 10 = 0 then checkSubTxsContainers env s1 else Inr s1
       else checkSubTxsContainers env s1)"

text \<open>
  One iteration of the endless loop. The chain is the list of blocks above the genesis block, and the
  loop's local variable is the number of the last block it processed.
\<close>

definition processConsensusBlock ::
  "environment \<Rightarrow> int \<Rightarrow> transaction list list \<Rightarrow> nat \<times> executer \<Rightarrow> (nat \<times> executer) result" where
  "processConsensusBlock env cross_rate chain st =
     (let (blockid, s) = st
      in if length chain > blockid then
           rbind (process_block env cross_rate (blockid + 1) (chain ! blockid) s) (\<lambda>s'. Inr (blockid + 1, s'))
         else Inr st)"

fun run_blocks :: "environment \<Rightarrow> int \<Rightarrow> transaction list list \<Rightarrow> nat \<Rightarrow> nat \<times> executer \<Rightarrow> (nat \<times> executer) result" where
  "run_blocks env cross_rate chain 0 st = Inr st"
| "run_blocks env cross_rate chain (Suc n) st =
     rbind (processConsensusBlock env cross_rate chain st) (run_blocks env cross_rate chain n)"

text \<open>What it means: all blocks above the last processed one, in order, each exactly once.\<close>

definition execute_chain :: "environment \<Rightarrow> int \<Rightarrow> transaction list list \<Rightarrow> nat \<Rightarrow> executer \<Rightarrow> executer result" where
  "execute_chain env cross_rate chain blockid s =
     rfold (\<lambda>i. process_block env cross_rate (Suc i) (chain ! i)) [blockid..<length chain] s"

text \<open>
  C31: The block thread processes every block of the chain above the last one it processed exactly once
  and in the order of the chain; once it has reached the end, further rounds change nothing.
\<close>

theorem processConsensusBlock_in_order:
  assumes "length chain \<le> blockid + n" and "blockid \<le> length chain"
  shows "run_blocks env cross_rate chain n (blockid, s)
    = rbind (execute_chain env cross_rate chain blockid s) (\<lambda>s'. Inr (length chain, s'))"
  using assms
proof (induction n arbitrary: blockid s)
  case 0
  then show ?case by (simp add: execute_chain_def)
next
  case (Suc n)
  show ?case
  proof (cases "blockid < length chain")
    case True
    then have "[blockid..<length chain] = blockid # [Suc blockid..<length chain]" by (simp add: upt_conv_Cons)
    then have e: "execute_chain env cross_rate chain blockid s
        = rbind (process_block env cross_rate (Suc blockid) (chain ! blockid) s)
            (execute_chain env cross_rate chain (Suc blockid))"
      by (simp add: execute_chain_def fun_eq_iff [symmetric]) (simp add: execute_chain_def [abs_def])
    show ?thesis
    proof (cases "process_block env cross_rate (Suc blockid) (chain ! blockid) s")
      case (Inr s1)
      then show ?thesis using True Suc.IH [of "Suc blockid" s1] Suc.prems
        by (simp add: processConsensusBlock_def e)
    qed (use True e in \<open>simp add: processConsensusBlock_def\<close>)
  next
    case False
    then have "blockid = length chain" using Suc.prems by simp
    then show ?thesis using Suc.IH [of blockid s] by (simp add: processConsensusBlock_def execute_chain_def)
  qed
qed

section \<open>What is never undone\<close>

definition lock_level :: "executer \<Rightarrow> string \<Rightarrow> string \<Rightarrow> int" where
  "lock_level s c k = (case m_blockingTxQueues s c of None \<Rightarrow> 0 | Some q \<Rightarrow> lock_count q k)"

definition queues_exist :: "executer \<Rightarrow> bool" where
  "queues_exist s \<longleftrightarrow> (\<forall>c \<in> set (upper_groupids s).
     m_blockingTxQueues s (to_string c) \<noteq> None \<and> m_txQueues s (to_string c) \<noteq> None)"

definition grows :: "executer \<Rightarrow> executer \<Rightarrow> bool" where
  "grows s t \<longleftrightarrow> upper_groupids t = upper_groupids s
     \<and> (\<forall>c. m_blockingTxQueues s c \<noteq> None \<longrightarrow> m_blockingTxQueues t c \<noteq> None)
     \<and> (\<forall>c. m_txQueues s c \<noteq> None \<longrightarrow> m_txQueues t c \<noteq> None)
     \<and> (\<forall>c k. lock_level s c k \<le> lock_level t c k)
     \<and> m_lockedStateKey s \<subseteq> m_lockedStateKey t
     \<and> (\<exists>es. executions t = executions s @ es) \<and> (\<exists>os. outbox t = outbox s @ os)"

lemma grows_refl [simp]: "grows s s"
  by (simp add: grows_def)

lemma grows_trans: "grows s t \<Longrightarrow> grows t u \<Longrightarrow> grows s u"
  unfolding grows_def by (fastforce intro: order_trans)

lemma grows_rfold:
  assumes "rfold f xs s = Inr t" and "\<And>x s t. x \<in> set xs \<Longrightarrow> f x s = Inr t \<Longrightarrow> grows s t"
  shows "grows s t"
  by (rule rfold_invariant [where P = "grows s", OF assms(1)]) (auto intro: grows_trans assms(2))

lemma grows_queues_exist: "grows s t \<Longrightarrow> queues_exist s \<Longrightarrow> queues_exist t"
  unfolding grows_def queues_exist_def by fastforce

text \<open>A step that touches none of the watched fields, or only appends to the two logs.\<close>

definition quiet :: "executer \<Rightarrow> executer \<Rightarrow> bool" where
  "quiet s t \<longleftrightarrow> upper_groupids t = upper_groupids s \<and> m_blockingTxQueues t = m_blockingTxQueues s
     \<and> m_txQueues t = m_txQueues s \<and> m_lockedStateKey t = m_lockedStateKey s
     \<and> (\<exists>es. executions t = executions s @ es) \<and> (\<exists>os. outbox t = outbox s @ os)"

lemma quiet_refl [simp]: "quiet s s"
  by (simp add: quiet_def)

lemma quiet_trans: "quiet s t \<Longrightarrow> quiet t u \<Longrightarrow> quiet s u"
  unfolding quiet_def by (metis append_assoc)

lemma quiet_grows: "quiet s t \<Longrightarrow> grows s t"
  by (auto simp: quiet_def grows_def lock_level_def)

lemma quiet_rfold:
  assumes "rfold f xs s = Inr t" and "\<And>x s t. x \<in> set xs \<Longrightarrow> f x s = Inr t \<Longrightarrow> quiet s t"
  shows "quiet s t"
  by (rule rfold_invariant [where P = "quiet s", OF assms(1)]) (auto intro: quiet_trans assms(2))

lemma quiet_emit_all [simp]: "quiet s (emit_all nodes p s)"
  by (simp add: quiet_def emit_all_outbox)

lemma quiet_emit [simp]: "quiet s (emit e s)"
  by (simp add: quiet_def emit_def)

lemma quiet_execute [simp]: "quiet s (executeTx tx d s)" "quiet s (add_processedTxNum s)"
  "quiet s (add_processedTxNum_by n s)"
  by (simp_all add: quiet_def executeTx_def add_processedTxNum_def add_processedTxNum_by_def)

lemma quiet_executes: "quiet s (fold (\<lambda>t. executeTx (Some t) False) ts s)"
  by (simp add: execute_all quiet_def)

lemma quiet_deploy: "quiet s (executeDeployContractTx tx s)"
  unfolding executeDeployContractTx_def by (rule quiet_trans [of _ "executeTx (Some tx) True s"]) simp_all

lemma quiet_fold: "(\<And>x s. quiet s (f x s)) \<Longrightarrow> quiet s (fold f xs s)"
  by (induction xs arbitrary: s) (auto intro: quiet_trans)

lemma quiet_note_shuffle: "quiet s (note_shuffle p s)"
  unfolding note_shuffle_def by (intro quiet_fold) (simp add: quiet_def)

lemma quiet_accumulate:
  assumes "accumulateSubTxs env data_str s = Inr t"
  shows "quiet s t"
proof -
  from assms obtain p subtx where "rfold (insert_into_container subtx) (current_participant_shardids p) (note_shuffle p s) = Inr t"
    by (auto simp: accumulateSubTxs_def checked Let_def)
  then have "quiet (note_shuffle p s) t"
    by (rule quiet_rfold) (auto simp: insert_into_container_def checked quiet_def)
  then show ?thesis by (rule quiet_trans [OF quiet_note_shuffle])
qed

lemma quiet_interShardTx: "processInterShardTx env d s = Inr t \<Longrightarrow> quiet s t"
  by (auto simp: processInterShardTx_def checked quiet_accumulate split: if_splits)

lemma quiet_send_batch:
  "sendBatchDistributedTxMsg env c e d sub i sh s = Inr t \<Longrightarrow> quiet s t"
  by (auto simp: sendBatchDistributedTxMsg_def checked split: if_splits)

lemma quiet_containers [simp]: "quiet s (s\<lparr>m_subTxsContainers := m\<rparr>)"
  by (simp add: quiet_def)

lemma quiet_check_container:
  assumes "check_container env g s = Inr t"
  shows "quiet s t"
proof -
  from assms obtain c where c: "map_of (m_subTxsContainers s) g = Some c"
    and r: "(if getTxSize c > 0 then
         (let (container, c') = getTxs c; s1 = s\<lparr>m_subTxsContainers := om_set g c' (m_subTxsContainers s)\<rparr>
          in rbind (sendBatchDistributedTxMsg env (e_group env) (m_epochId container)
                 (m_destinshardId container) (m_subtxs container) (m_intrashardtxs container)
                 (shuffle_contents env s1) s1) (\<lambda>s2.
               Inr (s2\<lparr>m_subTxsContainers :=
                      om_set g (c'\<lparr>m_epochId := m_epochId c' + 1\<rparr>) (m_subTxsContainers s2)\<rparr>)))
       else Inr s) = Inr t"
    by (auto simp: check_container_def checked)
  show ?thesis
  proof (cases "getTxSize c > 0")
    case True
    obtain a b where ab: "getTxs c = (a, b)" by fastforce
    let ?s1 = "s\<lparr>m_subTxsContainers := om_set g b (m_subTxsContainers s)\<rparr>"
    from r True ab obtain s2 m where "sendBatchDistributedTxMsg env (e_group env) (m_epochId a)
        (m_destinshardId a) (m_subtxs a) (m_intrashardtxs a) (shuffle_contents env ?s1) ?s1 = Inr s2"
      "t = s2\<lparr>m_subTxsContainers := m\<rparr>" by (auto simp: checked Let_def)
    then show ?thesis
      using quiet_trans [OF quiet_containers quiet_trans [OF quiet_send_batch quiet_containers]] by blast
  qed (use r in simp)
qed

lemma quiet_checkSubTxsContainers: "checkSubTxsContainers env s = Inr t \<Longrightarrow> quiet s t"
  unfolding checkSubTxsContainers_def by (erule quiet_rfold) (rule quiet_check_container)

lemma grows_insertTx:
  assumes "m_blockingTxQueues s c = Some q"
  shows "grows s (s\<lparr>m_blockingTxQueues := (m_blockingTxQueues s)(c \<mapsto> fold (insertTx sp) ts q), m_LRU_StatesInfo := l,
     m_txid_to_endtime := e\<rparr>)"
proof -
  have "lock_count q k \<le> lock_count (fold (insertTx sp) ts q) k" for k
  proof (induction ts arbitrary: q)
    case (Cons t ts)
    have "lock_count q k \<le> lock_count (insertTx sp t q) k" by (simp add: btq.locks_put)
    also have "\<dots> \<le> lock_count (fold (insertTx sp) ts (insertTx sp t q)) k" by (rule Cons)
    finally show ?case by simp
  qed simp
  then show ?thesis using assms by (auto simp: grows_def lock_level_def)
qed

lemma grows_processReorderedTxs:
  assumes "processReorderedTxs env c ts sh con s = Inr t"
  shows "grows s t"
proof -
  from assms obtain txs q where q: "m_blockingTxQueues s c = Some q" and t: "t = (let (q', endtimes) =
       insertTxs (e_split env) (e_now env) txs (q, m_txid_to_endtime s) in
       s\<lparr>m_blockingTxQueues := (m_blockingTxQueues s)(c \<mapsto> q'), m_txid_to_endtime := endtimes\<rparr>)"
    by (auto simp: processReorderedTxs_def checked Let_def split_beta)
  obtain e where e: "insertTxs (e_split env) (e_now env) txs (q, m_txid_to_endtime s) = (fold (insertTx (e_split env)) txs q, e)"
    using insertTxs_fold [of "e_split env" "e_now env" txs "(q, m_txid_to_endtime s)"] by (metis eq_fst_iff fst_conv)
  show ?thesis
    using grows_insertTx [OF q, where sp = "e_split env" and ts = txs and l = "m_LRU_StatesInfo s" and e = e]
    by (simp add: t e)
qed

lemma quiet_lru [simp]: "quiet s (s\<lparr>m_LRU_StatesInfo := l\<rparr>)"
  by (simp add: quiet_def)

lemma grows_batch:
  assumes "processBatchSubInterShardTxs env c con s = Inr t"
  shows "grows s t"
proof -
  from assms obtain a b ts l where "t = s \<or> processReorderedTxs env c ts a b (s\<lparr>m_LRU_StatesInfo := l\<rparr>) = Inr t"
    by (auto simp: processBatchSubInterShardTxs_def checked split: if_splits prod.splits)
  then show ?thesis
  proof
    assume "processReorderedTxs env c ts a b (s\<lparr>m_LRU_StatesInfo := l\<rparr>) = Inr t"
    from grows_trans [OF quiet_grows [OF quiet_lru] grows_processReorderedTxs [OF this]] show ?thesis .
  qed simp
qed

lemma quiet_epochs [simp]: "quiet s (s\<lparr>m_precessedEpochIds := m\<rparr>)" "quiet s (s\<lparr>m_cachedBatchTxs := cs\<rparr>)"
  by (simp_all add: quiet_def)

lemma grows_drain:
  "drain_cached env c cached i s = Inr t \<Longrightarrow> grows s t"
proof (induction env c cached i s rule: drain_cached.induct)
  case (1 env c cached i s)
  show ?case
  proof (cases "map_of cached i")
    case None
    then show ?thesis using 1(2) by (simp add: drain_cached.simps)
  next
    case (Some d)
    then obtain s1 where s1: "processBatchSubInterShardTxs env c (e_split env CHR ''#'' d) s = Inr s1"
      and r: "drain_cached env c cached (i + 1) (s1\<lparr>m_precessedEpochIds := (m_precessedEpochIds s1)(c \<mapsto> i)\<rparr>) = Inr t"
      using 1(2) by (subst (asm) drain_cached.simps) (auto simp: checked)
    show ?thesis
      by (rule grows_trans [OF grows_batch [OF s1] grows_trans [OF quiet_grows [OF quiet_epochs(1)] 1(1) [OF Some r]]])
  qed
qed

lemma grows_epochs:
  assumes "processOrderedBatchedSubInterShardTxs env d s = Inr t"
  shows "grows s t"
proof -
  from assms obtain c e p where r: "(if e = p + 1 then
                rbind (processBatchSubInterShardTxs env c (e_split env CHR ''#'' d) s) (\<lambda>s1.
                  let s2 = s1\<lparr>m_precessedEpochIds := (m_precessedEpochIds s1)(c \<mapsto> e)\<rparr>
                  in case m_cachedBatchTxs s2 c of None \<Rightarrow> Inr s2
                     | Some cached \<Rightarrow> drain_cached env c cached (e + 1) s2)
              else Inr (s\<lparr>m_cachedBatchTxs := (m_cachedBatchTxs s)(c \<mapsto>
                        (case m_cachedBatchTxs s c of
                           Some cached \<Rightarrow> om_insert e d cached | None \<Rightarrow> [(e, d)]))\<rparr>)) = Inr t"
    by (auto simp: processOrderedBatchedSubInterShardTxs_def checked Let_def)
  show ?thesis
  proof (cases "e = p + 1")
    case True
    then obtain s1 where s1: "processBatchSubInterShardTxs env c (e_split env CHR ''#'' d) s = Inr s1"
      and r2: "(case m_cachedBatchTxs s1 c of None \<Rightarrow> Inr (s1\<lparr>m_precessedEpochIds := (m_precessedEpochIds s1)(c \<mapsto> e)\<rparr>)
         | Some cached \<Rightarrow> drain_cached env c cached (e + 1) (s1\<lparr>m_precessedEpochIds := (m_precessedEpochIds s1)(c \<mapsto> e)\<rparr>)) = Inr t"
      using r by (auto simp: checked Let_def)
    from r2 have "grows (s1\<lparr>m_precessedEpochIds := (m_precessedEpochIds s1)(c \<mapsto> e)\<rparr>) t"
      by (auto split: option.splits dest: grows_drain)
    then show ?thesis
      by (rule grows_trans [OF grows_batch [OF s1] grows_trans [OF quiet_grows [OF quiet_epochs(1)]]])
  next
    case False
    then show ?thesis using r quiet_grows [OF quiet_epochs(2)] by auto
  qed
qed

lemma quiet_held [simp]: "quiet s (s\<lparr>blockedTxs := b\<rparr>)" "quiet s (s\<lparr>m_txid_to_endtime := e\<rparr>)"
  "quiet s (s\<lparr>other_blocked_states := o1\<rparr>)"
  by (simp_all add: quiet_def)

lemma grows_intra:
  assumes "processSingleIntraShardTx env tx d s = Inr t"
  shows "grows s t"
proof -
  from assms obtain keys where keys: "vec_at (e_split env CHR ''|'' d) 1 = Inr keys"
    by (auto simp: processSingleIntraShardTx_def rbind_Inr_iff)
  define l where "l = fold update_lru_localkeys_intraTx (e_split env CHR ''_'' keys) (m_LRU_StatesInfo s)"
  let ?s1 = "s\<lparr>m_LRU_StatesInfo := l\<rparr>"
  note run = assms [unfolded processSingleIntraShardTx_def keys rbind_simps Let_def, folded l_def]
  show ?thesis
  proof (cases "list_ex (\<lambda>rwkey. transfered_states ?s1 rwkey \<noteq> None \<or> count_otherState ?s1 rwkey \<noteq> 0) (e_split env CHR ''_'' keys)")
    case True
    then obtain q where "t = (fold add_otherState (e_split env CHR ''_'' keys) ?s1)\<lparr>blockedTxs := q\<rparr>"
      using run by (auto split: option.splits)
    then have "quiet s t" by (simp add: add_otherStates quiet_def)
    then show ?thesis by (rule quiet_grows)
  next
    case False
    with run obtain ks where ks: "blocking_coordinators env (e_split env CHR ''_'' keys) ?s1 = Inr ks"
      and r: "(if ks = [] then
                (let s2 = add_processedTxNum (executeTx (Some tx) False ?s1)
                 in rbind (read_end_txid env tx) (\<lambda>i.
                      Inr (s2\<lparr>m_txid_to_endtime := om_insert i (e_now env) (m_txid_to_endtime s2)\<rparr>)))
              else
                rbind (read_end_txid env tx) (\<lambda>i.
                  let txwithrwset = new_transactionWithReadWriteSet\<lparr>sub_txs := [tx], txid := i, rwkeys := keys,
                        is_intershardTx := False, blockingQueue_keys := ks\<rparr>
                  in rbind (map_at (m_blockingTxQueues ?s1) (to_string (hd ks))) (\<lambda>q.
                       Inr (?s1\<lparr>m_blockingTxQueues := (m_blockingTxQueues ?s1)
                              (to_string (hd ks) \<mapsto> insertTx (e_split env) txwithrwset q)\<rparr>)))) = Inr t"
      unfolding if_not_P [OF False] rbind_Inr_iff [of "blocking_coordinators env (e_split env CHR ''_'' keys) ?s1"] Let_def by blast
    show ?thesis
    proof (cases "ks = []")
      case True
      then have "quiet s t" using r
        by (auto simp: checked Let_def quiet_def executeTx_def add_processedTxNum_def)
      then show ?thesis by (rule quiet_grows)
    next
      case F: False
      then obtain w q where q: "m_blockingTxQueues s (to_string (hd ks)) = Some q"
        "t = ?s1\<lparr>m_blockingTxQueues := (m_blockingTxQueues s)(to_string (hd ks) \<mapsto> insertTx (e_split env) w q)\<rparr>"
        using r by (auto simp: checked Let_def)
      show ?thesis
        using grows_insertTx [OF q(1), where sp = "e_split env" and ts = "[w]" and l = l and e = "m_txid_to_endtime s"]
        by (simp add: q(2) grows_def lock_level_def)
    qed
  qed
qed

lemma quiet_sendReadWriteSet: "sendReadWriteSet env k v r p s = Inr t \<Longrightarrow> quiet s t"
  unfolding sendReadWriteSet_def
  by (erule quiet_rfold) (auto simp: checked split: if_splits)

lemma quiet_response: "responseCommitToCoordinator env c ids s = Inr t \<Longrightarrow> quiet s t"
  by (auto simp: responseCommitToCoordinator_def checked)

lemma quiet_send_rwset: "send_rwset env tx s = Inr t \<Longrightarrow> quiet s t"
  by (auto simp: send_rwset_def checked quiet_sendReadWriteSet split: if_splits)

lemma quiet_committed [simp]: "quiet s (s\<lparr>m_committed_intershardTxid := m\<rparr>)"
  "quiet s (s\<lparr>m_processed_intershardTxNum := n\<rparr>)" "quiet s (s\<lparr>m_sendedrwsetTx := r\<rparr>)"
  "quiet s (s\<lparr>m_readWriteSetManager := w\<rparr>)"
  by (simp_all add: quiet_def)

lemma quiet_report:
  assumes "report_commits env s = Inr t"
  shows "quiet s t"
proof -
  obtain u where u: "rfold (\<lambda>(coordinator, ids) s.
         if e_group env = atoi (to_string coordinator) then Inr (add_processedTxNum_by (int (length ids)) s)
         else responseCommitToCoordinator env (to_string coordinator) (join_with ''|'' ids) s)
       (m_committed_intershardTxid s) s = Inr u" "t = u\<lparr>m_committed_intershardTxid := []\<rparr>"
    using assms by (auto simp: report_commits_def rbind_Inr_iff)
  have "quiet s u" by (rule quiet_rfold [OF u(1)]) (auto simp: quiet_response split: if_splits)
  then show ?thesis unfolding u(2) by (rule quiet_trans) simp
qed

lemma quiet_commit:
  assumes "commit_intershard env tx s = Inr t"
  shows "quiet s t"
proof -
  let ?s1 = "executeTx (tx_ptr tx) False (executeTx (tx_ptr tx) False s)"
  have 1: "quiet s ?s1" by (rule quiet_trans [of _ "executeTx (tx_ptr tx) False s"]) simp_all
  have 2: "quiet u (add_intershardTxid c i (u\<lparr>m_processed_intershardTxNum := n\<rparr>))" for u c i n
    by (simp add: add_intershardTxid_def quiet_def)
  from assms have "t = ?s1 \<or> report_commits env (add_intershardTxid (atoi (coordinator_shardid tx))
      (txid tx @ ''_'' @ to_string (e_now env))
      (?s1\<lparr>m_processed_intershardTxNum := m_processed_intershardTxNum ?s1 + 1\<rparr>)) = Inr t"
    by (auto simp: commit_intershard_def rbind_Inr_iff Let_def split: if_splits)
  then show ?thesis
  proof
    assume "t = ?s1" with 1 show ?thesis by simp
  next
    assume "report_commits env (add_intershardTxid (atoi (coordinator_shardid tx))
      (txid tx @ ''_'' @ to_string (e_now env))
      (?s1\<lparr>m_processed_intershardTxNum := m_processed_intershardTxNum ?s1 + 1\<rparr>)) = Inr t"
    from quiet_trans [OF 1 quiet_trans [OF 2 quiet_report [OF this]]] show ?thesis .
  qed
qed

lemma quiet_ready: "checkReadWriteKeyReady ks b s = Inr (r, t) \<Longrightarrow> quiet s t"
  by (auto simp: checkReadWriteKeyReady_def Let_def checked split: if_splits)

lemma grows_pop: "m_txQueues s c \<noteq> None \<Longrightarrow> grows s (pop_tx c s)"
  by (auto simp: grows_def pop_tx_def lock_level_def)

lemma grows_process_intershard:
  assumes "process_intershard env c tx s = Inr t" and q: "m_txQueues s c \<noteq> None"
  shows "grows s t"
proof -
  from assms obtain s1 r s2 where 1: "(if rwkeysTosend tx \<noteq> [] \<and> tx_hash (sub_txs tx ! 0) \<notin> m_sendedrwsetTx s
      then send_rwset env tx (s\<lparr>m_sendedrwsetTx := insert (tx_hash (sub_txs tx ! 0)) (m_sendedrwsetTx s)\<rparr>)
      else Inr s) = Inr s1"
    and 2: "checkReadWriteKeyReady (rwkeyToReceive tx) (lastTxInBatch tx) s1 = Inr (r, s2)"
    and 3: "(if r then rbind (commit_intershard env tx s2) (\<lambda>s3. Inr (pop_tx c s3)) else Inr s2) = Inr t"
    by (auto simp: process_intershard_def checked)
  from 1 have "quiet s s1" using quiet_trans [OF quiet_committed(3) quiet_send_rwset] by (auto split: if_splits)
  then have s2: "quiet s s2" by (rule quiet_trans [OF _ quiet_ready [OF 2]])
  show ?thesis
  proof (cases r)
    case True
    with 3 obtain s3 where s3: "commit_intershard env tx s2 = Inr s3" "t = pop_tx c s3" by (auto simp: checked)
    have "quiet s s3" by (rule quiet_trans [OF s2 quiet_commit [OF s3(1)]])
    moreover from this q have "m_txQueues s3 c \<noteq> None" by (simp add: quiet_def)
    ultimately show ?thesis unfolding s3(2) by (blast intro: grows_trans quiet_grows grows_pop)
  qed (use 3 s2 quiet_grows in auto)
qed

lemma grows_process_queue:
  assumes "process_queue env coordinator s = Inr t"
  shows "grows s t"
proof -
  let ?c = "to_string coordinator"
  from assms obtain Q where Q: "m_txQueues s ?c = Some Q" by (auto simp: process_queue_def Let_def checked)
  show ?thesis
  proof (cases Q)
    case Nil
    then obtain q where q: "m_blockingTxQueues s ?c = Some q"
      using assms Q by (auto simp: process_queue_def Let_def checked)
    have "lock_count (fst (batch_pop q [])) k = lock_count q k" for k by (simp add: batch_pop_def lock_count_def)
    then show ?thesis
      using assms Q Nil q by (auto simp: process_queue_def Let_def grows_def lock_level_def split_beta)
  next
    case (Cons tx rest)
    show ?thesis
    proof (cases "is_intershardTx tx")
      case True
      then show ?thesis using assms Q Cons grows_process_intershard [of env ?c tx s t]
        by (simp add: process_queue_def Let_def)
    next
      case False
      let ?s1 = "if length (blockingQueue_keys tx) = 1 then fold (\<lambda>t. executeTx (Some t) False) (sub_txs tx) s else s"
      have "quiet s ?s1" by (simp add: quiet_executes)
      then have 1: "quiet s (add_processedTxNum ?s1)" by (rule quiet_trans) simp
      let ?s2 = "(add_processedTxNum ?s1)\<lparr>m_txid_to_endtime := om_insert (txid tx) (e_now env) (m_txid_to_endtime (add_processedTxNum ?s1))\<rparr>"
      have 2: "quiet s ?s2" by (rule quiet_trans [OF 1]) simp
      then have "m_txQueues ?s2 ?c \<noteq> None" using Q by (simp add: quiet_def)
      moreover have "t = pop_tx ?c ?s2"
        using assms Q Cons False by (simp add: process_queue_def process_intrashard_def Let_def)
      ultimately show ?thesis using grows_trans [OF quiet_grows [OF 2] grows_pop] by blast
    qed
  qed
qed

lemma grows_rounds: "processBlockingTxsPlus env s = Inr t \<Longrightarrow> grows s t"
  unfolding processBlockingTxsPlus_def by (erule grows_rfold) (rule grows_process_queue)

lemma quiet_prePrepares: "sendMasterChangePrePrepareMsg env ms s = Inr t \<Longrightarrow> quiet s t"
  unfolding sendMasterChangePrePrepareMsg_def by (erule quiet_rfold) (auto simp: rbind_Inr_iff)

lemma quiet_request: "processStateMasterRequestTx env tx s = Inr t \<Longrightarrow> quiet s t"
  by (auto simp: processStateMasterRequestTx_def rbind_Inr_iff Let_def quiet_prePrepares
      simp del: om_insert.simps split: if_splits)

lemma grows_locked [simp]: "grows s (s\<lparr>m_lockedStateKey := m_lockedStateKey s \<union> K\<rparr>)"
  by (auto simp: grows_def lock_level_def)

lemma grows_prePrepare:
  assumes "processMasterChangePrePrepareTx env tx s = Inr t"
  shows "grows s t"
proof -
  have "grows s t" if "sendMasterChangePrepareMsg env a b c d e (s\<lparr>m_lockedStateKey := m_lockedStateKey s \<union> K\<rparr>) = Inr t"
    for a b c d e K
  proof -
    from that have "quiet (s\<lparr>m_lockedStateKey := m_lockedStateKey s \<union> K\<rparr>) t"
      by (auto simp: sendMasterChangePrepareMsg_def rbind_Inr_iff)
    then show ?thesis by (rule grows_trans [OF grows_locked quiet_grows])
  qed
  with assms show ?thesis
    by (auto simp: processMasterChangePrePrepareTx_def rbind_Inr_iff Let_def split: if_splits)
qed

lemma quiet_commits: "sendMasterChangeCommitMsg env ms s = Inr t \<Longrightarrow> quiet s t"
proof -
  assume "sendMasterChangeCommitMsg env ms s = Inr t"
  then obtain u where u: "rfold (\<lambda>(shardid, m) s.
         rbind (get_nodeIDs (e_tree env) (atoi shardid)) (\<lambda>nodes.
           Inr (emit_all nodes (MasterShardCommitMsg (cm_sourceshardid m) (cm_destinshardid m)
                  (cm_requestkeys m) (cm_messageid m) (e_group env)) s)))
       (rev ms) s = Inr u" and t: "\<exists>ks g. t = record_masters ks g u"
    by (auto simp: sendMasterChangeCommitMsg_def rbind_Inr_iff Let_def split: list.splits)
  have 1: "quiet s u" by (rule quiet_rfold [OF u]) (auto simp: rbind_Inr_iff)
  have 2: "quiet u (record_masters ks g u)" for ks g by (simp add: quiet_def record_masters_def)
  from t quiet_trans [OF 1 2] show "quiet s t" by blast
qed

lemma quiet_prepare: "processMasterChangePrepareTx env tx s = Inr t \<Longrightarrow> quiet s t"
  by (auto simp: processMasterChangePrepareTx_def rbind_Inr_iff Let_def quiet_commits
      simp del: om_insert.simps split: if_splits)

lemma quiet_commit_key: "commit_key env a b k s = Inr t \<Longrightarrow> quiet s t"
  by (auto simp: commit_key_def checked quiet_def add_shuffleValue_destshardid_def add_shuffleTxRLP_destshardid_def
      split: if_splits)

lemma quiet_masterCommit: "processMasterChangeCommitTx env tx s = Inr t \<Longrightarrow> quiet s t"
  unfolding processMasterChangeCommitTx_def Let_def rbind_Inr_iff
  by (auto intro: quiet_rfold quiet_commit_key)

lemma quiet_flags [simp]: "quiet s (s\<lparr>vicewriteBlocked := b\<rparr>)" "quiet s (s\<lparr>masterwriteBlocked := b\<rparr>)"
  "quiet s (pop_blocked_originTxRlps s)" "quiet s (pop_blocked_intraTxContent s)"
  by (simp_all add: quiet_def pop_blocked_originTxRlps_def pop_blocked_intraTxContent_def)

lemma quiet_decoded: "rbind (e_decode env r) (\<lambda>x. Inr (executeTx (Some x) False s)) = Inr t \<Longrightarrow> quiet s t"
  by (auto simp: rbind_Inr_iff)

lemma quiet_counted: "rbind (e_decode env r) (\<lambda>x. Inr (add_processedTxNum (executeTx (Some x) False s))) = Inr t \<Longrightarrow> quiet s t"
  by (auto simp: rbind_Inr_iff intro: quiet_trans [OF quiet_execute(1) quiet_execute(2)])

lemma quiet_shuffleValue:
  assumes "processShuffleValueTx env tx s = Inr t"
  shows "quiet s t"
proof -
  from assms obtain u where u: "(if length (m_blocked_originTxRlps s) > 0 then
                  rbind (front_blocked_originTxRlps s) (\<lambda>blockedTxRlps.
                    let txrlps = e_split env CHR ''_'' blockedTxRlps
                    in rbind (if length txrlps > 1 then
                                rfold (\<lambda>txrlp s. rbind (e_decode env txrlp) (\<lambda>t.
                                  Inr (executeTx (Some t) False s))) txrlps s
                              else Inr s) (\<lambda>s. Inr (pop_blocked_originTxRlps s)))
                else Inr s) = Inr u" and t: "t = u\<lparr>vicewriteBlocked := False\<rparr>"
    unfolding processShuffleValueTx_def Let_def rbind_Inr_iff by auto
  have "quiet s u"
  proof (cases "length (m_blocked_originTxRlps s) > 0")
    case True
    with u obtain rs v where "(if length rs > 1 then rfold (\<lambda>txrlp s. rbind (e_decode env txrlp) (\<lambda>t.
        Inr (executeTx (Some t) False s))) rs s else Inr s) = Inr v" "u = pop_blocked_originTxRlps v"
      unfolding Let_def by (auto simp: rbind_Inr_iff)
    then show ?thesis
      using quiet_trans [OF quiet_rfold [OF _ quiet_decoded] quiet_flags(3)] by (auto split: if_splits)
  qed (use u in simp)
  then show ?thesis unfolding t by (rule quiet_trans) simp
qed

lemma quiet_run_converted: "run_converted env c s = Inr t \<Longrightarrow> quiet s t"
proof -
  assume "run_converted env c s = Inr t"
  then obtain l ts where t: "t = add_processedTxNum (fold (\<lambda>t. executeTx (Some t) False) ts (s\<lparr>m_LRU_StatesInfo := l\<rparr>))"
    unfolding run_converted_def Let_def rbind_Inr_iff by auto
  show "quiet s t"
    unfolding t by (rule quiet_trans [OF quiet_trans [OF quiet_lru quiet_executes] quiet_execute(2)])
qed

lemma quiet_shuffleTx:
  assumes "processShuffleTx env tx s = Inr t"
  shows "quiet s t"
proof -
  from assms obtain rs s1 where 1: "(if length rs > 1 then
                       rfold (\<lambda>txrlp s. rbind (e_decode env txrlp) (\<lambda>t.
                         Inr (add_processedTxNum (executeTx (Some t) False s)))) rs s
                     else Inr s) = Inr s1"
    and 2: "(if length (m_blocked_intraTxContents (s1\<lparr>masterwriteBlocked := False\<rparr>)) > 0 then
                   rbind (front_blocked_intraTxContent (s1\<lparr>masterwriteBlocked := False\<rparr>)) (\<lambda>contents.
                     rbind (if length (e_split env CHR ''&'' contents) > 1
                               then rfold (run_converted env) (e_split env CHR ''&'' contents) (s1\<lparr>masterwriteBlocked := False\<rparr>)
                               else Inr (s1\<lparr>masterwriteBlocked := False\<rparr>)) (\<lambda>s3.
                          Inr (pop_blocked_intraTxContent s3)))
                 else Inr (s1\<lparr>masterwriteBlocked := False\<rparr>)) = Inr t"
    unfolding processShuffleTx_def Let_def rbind_Inr_iff by blast
  let ?s2 = "s1\<lparr>masterwriteBlocked := False\<rparr>"
  have "quiet s s1" using 1 quiet_rfold [OF _ quiet_counted] by (auto split: if_splits)
  then have s2: "quiet s ?s2" by (rule quiet_trans) simp
  have "quiet ?s2 t"
  proof (cases "length (m_blocked_intraTxContents ?s2) > 0")
    case True
    with 2 obtain c v where "(if length (e_split env CHR ''&'' c) > 1 then rfold (run_converted env) (e_split env CHR ''&'' c) ?s2
        else Inr ?s2) = Inr v" "t = pop_blocked_intraTxContent v"
      by (auto simp: rbind_Inr_iff)
    then show ?thesis
      using quiet_trans [OF quiet_rfold [OF _ quiet_run_converted] quiet_flags(4)] by (auto split: if_splits)
  qed (use 2 in simp)
  with s2 show ?thesis by (rule quiet_trans)
qed

lemma process_tx_grows:
  assumes "process_tx env tx s = Inr t"
  shows "grows s t"
proof -
  obtain ty d where "checkTransactionType (dataToHexString (tx_data tx)) = (ty, d)" by fastforce
  with assms show ?thesis
    by (auto simp: process_tx_def split: if_splits
        intro: grows_epochs grows_intra grows_prePrepare quiet_grows quiet_interShardTx quiet_deploy quiet_request
          quiet_prepare quiet_masterCommit quiet_shuffleValue quiet_shuffleTx)
qed

lemma process_block_grows:
  assumes "process_block env r i txs s = Inr t"
  shows "grows s t"
proof -
  from assms obtain u where u: "rfold (process_tx env) txs s = Inr u"
    and t: "t = u \<or> checkSubTxsContainers env u = Inr t"
    by (auto simp: process_block_def rbind_Inr_iff split: if_splits)
  have "grows u t" using t by (auto intro: quiet_grows quiet_checkSubTxsContainers)
  moreover have "grows s u" using u by (rule grows_rfold) (rule process_tx_grows)
  ultimately show ?thesis by (blast intro: grows_trans)
qed

lemma processConsensusBlock_grows:
  "processConsensusBlock env r chain (i, s) = Inr (j, t) \<Longrightarrow> grows s t"
  by (auto simp: processConsensusBlock_def rbind_Inr_iff split: if_splits dest: process_block_grows)

lemma quiet_analyse:
  assumes "analyseWorkload env s = Inr t"
  shows "quiet s t"
proof -
  obtain rs s1 where c: "collect_requests env s = (rs, s1)" by fastforce
  have 1: "quiet s s1"
    using collect_frame [OF c [unfolded collect_requests_flat]] by (simp add: quiet_def)
  have step: "quiet s t" if "send_request env r s = Inr t" for r s t
    using that by (auto simp: send_request_def batchRequestForMasterChange_def rbind_Inr_iff Let_def emit_def
        quiet_def split_beta)
  show ?thesis
  proof (cases "rs = []")
    case False
    then obtain cached where "rfold (send_request env) cached s1 = Inr t"
      using assms c by (auto simp: analyseWorkload_def checked)
    from quiet_trans [OF 1 quiet_rfold [OF this step]] show ?thesis .
  qed (use assms c 1 in \<open>simp add: analyseWorkload_def\<close>)
qed

lemma processConsensusBlock_in_order_witness:
  "run_blocks (env_of 1 example_tree ''n1'') 80 [[], []] 5 (0, new_executer) = Inr (2, new_executer)"
proof -
  have "execute_chain (env_of 1 example_tree ''n1'') 80 [[], []] 0 new_executer = Inr new_executer"
    by (simp add: execute_chain_def process_block_def checkSubTxsContainers_def new_executer_def upt_conv_Cons)
  then show ?thesis
    using processConsensusBlock_in_order [of "[[], []]" 0 5 "env_of 1 example_tree ''n1''" 80 new_executer] by simp
qed

end
