(* ===== verification/Rlp.thy ===== *)
theory Rlp
  imports HexCodec
begin

text \<open>
  RLP, the encoding of every message and transaction (\<open>libdevcore/RLP.h\<close>, \<open>libdevcore/RLP.cpp\<close>,
  \<open>libdevcore/vector_ref.h\<close>): the reader \<open>RLP\<close> with its checks, its iterator and its cached
  subscript operator, and the writer \<open>RLPStream\<close> with its stack of open lists. Bytes are characters;
  the reader's views of the data are strings.
\<close>

section \<open>The reader\<close>

definition c_rlpMaxLengthBytes :: nat where "c_rlpMaxLengthBytes = 8"
definition c_rlpDataImmLenStart :: nat where "c_rlpDataImmLenStart = 128"
definition c_rlpListStart :: nat where "c_rlpListStart = 192"
definition c_rlpDataImmLenCount :: nat where
  "c_rlpDataImmLenCount = c_rlpListStart - c_rlpDataImmLenStart - c_rlpMaxLengthBytes"
definition c_rlpDataIndLenZero :: nat where
  "c_rlpDataIndLenZero = c_rlpDataImmLenStart + c_rlpDataImmLenCount - 1"
definition c_rlpListImmLenCount :: nat where
  "c_rlpListImmLenCount = 256 - c_rlpListStart - c_rlpMaxLengthBytes"
definition c_rlpListIndLenZero :: nat where
  "c_rlpListIndLenZero = c_rlpListStart + c_rlpListImmLenCount - 1"

lemmas rlp_constants = c_rlpMaxLengthBytes_def c_rlpDataImmLenStart_def c_rlpListStart_def
  c_rlpDataImmLenCount_def c_rlpDataIndLenZero_def c_rlpListImmLenCount_def c_rlpListIndLenZero_def

text \<open>The flags of a conversion are the bits of a number.\<close>

definition AllowNonCanon :: nat where "AllowNonCanon = 1"
definition ThrowOnFail :: nat where "ThrowOnFail = 4"
definition FailIfTooBig :: nat where "FailIfTooBig = 8"
definition FailIfTooSmall :: nat where "FailIfTooSmall = 16"
definition Strict :: nat where "Strict = ThrowOnFail + FailIfTooBig"
definition VeryStrict :: nat where "VeryStrict = ThrowOnFail + FailIfTooBig + FailIfTooSmall"
definition LaissezFaire :: nat where "LaissezFaire = AllowNonCanon"

lemmas rlp_flags = AllowNonCanon_def ThrowOnFail_def FailIfTooBig_def FailIfTooSmall_def
  Strict_def VeryStrict_def LaissezFaire_def

definition flag :: "nat \<Rightarrow> nat \<Rightarrow> bool" where
  "flag flags b = (flags div b mod 2 = 1)"

definition cropped :: "string \<Rightarrow> nat \<Rightarrow> nat \<Rightarrow> string" where
  "cropped d start n =
     (if start \<le> length d \<and> n \<le> length d \<and> start + n \<le> length d then take n (drop start d) else [])"

definition cropped_from :: "string \<Rightarrow> nat \<Rightarrow> string" where
  "cropped_from d start = (if start \<le> length d then drop start d else [])"

definition byte_at :: "string \<Rightarrow> nat \<Rightarrow> nat" where
  "byte_at d i = of_char (d ! i)"

definition isNull :: "string \<Rightarrow> bool" where "isNull d = (length d = 0)"

definition isEmpty :: "string \<Rightarrow> bool" where
  "isEmpty d = (\<not> isNull d \<and> (byte_at d 0 = c_rlpDataImmLenStart \<or> byte_at d 0 = c_rlpListStart))"

definition isData :: "string \<Rightarrow> bool" where "isData d = (\<not> isNull d \<and> byte_at d 0 < c_rlpListStart)"

definition isList :: "string \<Rightarrow> bool" where "isList d = (\<not> isNull d \<and> byte_at d 0 \<ge> c_rlpListStart)"

definition isSingleByte :: "string \<Rightarrow> bool" where
  "isSingleByte d = (\<not> isNull d \<and> byte_at d 0 < c_rlpDataImmLenStart)"

definition lengthSize :: "string \<Rightarrow> nat" where
  "lengthSize d =
     (if isData d \<and> byte_at d 0 > c_rlpDataIndLenZero then byte_at d 0 - c_rlpDataIndLenZero
      else if isList d \<and> byte_at d 0 > c_rlpListIndLenZero then byte_at d 0 - c_rlpListIndLenZero
      else 0)"

definition payloadOffset :: "string \<Rightarrow> nat" where
  "payloadOffset d = (if isSingleByte d then 0 else 1 + lengthSize d)"

definition requireGood :: "string \<Rightarrow> unit result" where
  "requireGood d =
     (if isNull d then Inl BadRLP
      else if byte_at d 0 \<noteq> c_rlpDataImmLenStart + 1 then Inr ()
      else if length d < 2 then Inl BadRLP
      else if byte_at d 1 < c_rlpDataImmLenStart then Inl BadRLP
      else Inr ())"

text \<open>
  The length of a long item, shared by data and lists: \<open>size_t\<close> has eight bytes, so the accumulated
  value does not wrap, and it must leave room for adding the offset.
\<close>

definition long_length :: "string \<Rightarrow> nat \<Rightarrow> nat \<Rightarrow> nat result" where
  "long_length d lsize least =
     (if length d \<le> lsize then Inl BadRLP
      else if length d > 1 \<and> byte_at d 1 = 0 then Inl BadRLP
      else if lsize > 8 then Inl UndersizeRLP
      else if byte_at d 1 = 0 then Inl BadRLP
      else let ret = fold (\<lambda>b ret. (ret * 256 + of_char b) mod 2 ^ 64) (take lsize (drop 1 d)) 0
           in if ret < least then Inl BadRLP
              else if ret \<ge> (2 ^ 64 - 1) - 256 then Inl UndersizeRLP
              else Inr ret)"

definition rlp_length :: "string \<Rightarrow> nat result" where
  "rlp_length d =
     (if isNull d then Inr 0
      else rbind (requireGood d) (\<lambda>_.
        let n = byte_at d 0
        in if n < c_rlpDataImmLenStart then Inr 1
           else if n \<le> c_rlpDataIndLenZero then Inr (n - c_rlpDataImmLenStart)
           else if n < c_rlpListStart then
             long_length d (n - c_rlpDataIndLenZero) (c_rlpListStart - c_rlpDataImmLenStart - c_rlpMaxLengthBytes)
           else if n \<le> c_rlpListIndLenZero then Inr (n - c_rlpListStart)
           else long_length d (n - c_rlpListIndLenZero) (256 - c_rlpListStart - c_rlpMaxLengthBytes)))"

definition payload :: "string \<Rightarrow> string result" where
  "payload d = rbind (rlp_length d) (\<lambda>l. if l > length d then Inl BadRLP else Inr (cropped d (payloadOffset d) l))"

definition actualSize :: "string \<Rightarrow> nat result" where
  "actualSize d =
     (if isNull d then Inr 0
      else if isSingleByte d then Inr 1
      else if isData d \<or> isList d then rbind (rlp_length d) (\<lambda>l. Inr (payloadOffset d + l))
      else Inr 0)"

text \<open>The constructor: the view it keeps, or its exception.\<close>

definition new_RLP :: "string \<Rightarrow> nat \<Rightarrow> string result" where
  "new_RLP d s =
     rbind (if flag s FailIfTooBig then rbind (actualSize d) (\<lambda>n.
              if n < length d then if flag s ThrowOnFail then Inl OversizeRLP else Inr [] else Inr d)
            else Inr d) (\<lambda>m.
     if flag s FailIfTooSmall then rbind (actualSize m) (\<lambda>n.
       if n > length d then if flag s ThrowOnFail then Inl UndersizeRLP else Inr [] else Inr m)
     else Inr m)"

definition sizeAsEncoded :: "string \<Rightarrow> nat result" where
  "sizeAsEncoded d = rbind (new_RLP d (ThrowOnFail + FailIfTooSmall)) actualSize"

definition isInt :: "string \<Rightarrow> bool result" where
  "isInt d =
     (if isNull d then Inr False
      else rbind (requireGood d) (\<lambda>_.
        let n = byte_at d 0
        in if n < c_rlpDataImmLenStart then Inr (n \<noteq> 0)
           else if n = c_rlpDataImmLenStart then Inr True
           else if n \<le> c_rlpDataIndLenZero then
             if length d \<le> 1 then Inl BadRLP else Inr (byte_at d 1 \<noteq> 0)
           else if n < c_rlpListStart then
             if length d \<le> 1 + n - c_rlpDataIndLenZero then Inl BadRLP
             else Inr (byte_at d (1 + n - c_rlpDataIndLenZero) \<noteq> 0)
           else Inr False))"

text \<open>The target type of \<open>toInt\<close> is given by its size in bytes; the bytes are accumulated in that type.\<close>

definition toInt :: "nat \<Rightarrow> nat \<Rightarrow> string \<Rightarrow> nat result" where
  "toInt maxSize flags d =
     rbind (requireGood d) (\<lambda>_.
     rbind (isInt d) (\<lambda>int.
       if \<not> int \<and> \<not> flag flags AllowNonCanon \<or> isList d \<or> isNull d then
         if flag flags ThrowOnFail then Inl BadCast else Inr 0
       else rbind (payload d) (\<lambda>p.
         if length p > maxSize \<and> flag flags FailIfTooBig then
           if flag flags ThrowOnFail then Inl BadCast else Inr 0
         else Inr (fold (\<lambda>b ret. (ret * 256 + of_char b) mod 256 ^ maxSize) p 0))))"

definition toHash :: "nat \<Rightarrow> nat \<Rightarrow> string \<Rightarrow> string result" where
  "toHash N flags d =
     rbind (requireGood d) (\<lambda>_.
     rbind (payload d) (\<lambda>p.
       let l = length p
       in if \<not> isData d \<or> l > N \<and> flag flags FailIfTooBig \<or> l < N \<and> flag flags FailIfTooSmall then
            if flag flags ThrowOnFail then Inl BadCast else Inr (replicate N (CHR 0x00))
          else let s = min N l in Inr (replicate (N - s) (CHR 0x00) @ take s p)))"

text \<open>\<open>toString\<close>, \<open>toBytes\<close> and \<open>toBytesConstRef\<close> return the same bytes.\<close>

definition toString :: "nat \<Rightarrow> string \<Rightarrow> string result" where
  "toString flags d =
     (if \<not> isData d then if flag flags ThrowOnFail then Inl BadCast else Inr []
      else rbind (payload d) (\<lambda>p. rbind (rlp_length d) (\<lambda>l. Inr (cropped p 0 l))))"

section \<open>Lists\<close>

declare rbind_cong [fundef_cong]

lemma actualSize_pos: "actualSize d = Inr n \<Longrightarrow> d \<noteq> [] \<Longrightarrow> 0 < n"
  by (auto simp: actualSize_def isNull_def isData_def isList_def payloadOffset_def checked not_less split: if_splits)

lemma new_RLP_too_small:
  "new_RLP d (ThrowOnFail + FailIfTooSmall) = rbind (actualSize d) (\<lambda>n. if n > length d then Inl UndersizeRLP else Inr d)"
  by (cases "actualSize d") (auto simp: new_RLP_def flag_def rlp_flags)

lemma sizeAsEncoded_iff: "sizeAsEncoded d = Inr n \<longleftrightarrow> actualSize d = Inr n \<and> n \<le> length d"
  by (cases "actualSize d") (auto simp: sizeAsEncoded_def new_RLP_too_small)

lemma sizeAsEncoded_pos: "sizeAsEncoded d = Inr n \<Longrightarrow> d \<noteq> [] \<Longrightarrow> 0 < n"
  by (auto simp: sizeAsEncoded_iff actualSize_pos)

function count_items :: "string \<Rightarrow> nat \<Rightarrow> nat result" where
  "count_items d i =
     (if length d = 0 then Inr i
      else rbind (sizeAsEncoded d) (\<lambda>n. count_items (cropped_from d n) (i + 1)))"
  by auto
termination
  by (relation "measure (\<lambda>(d, i). length d)")
    (auto simp: cropped_from_def dest: sizeAsEncoded_pos)

declare count_items.simps [simp del]

definition items :: "string \<Rightarrow> nat result" where
  "items d = (if isList d then rbind (payload d) (\<lambda>p. count_items p 0) else Inr 0)"

definition itemCount :: "string \<Rightarrow> nat result" where
  "itemCount d = (if isList d then items d else Inr 0)"

definition itemCountStrict :: "string \<Rightarrow> nat result" where
  "itemCountStrict d = (if \<not> isList d then Inl BadCast else items d)"

text \<open>The subscript operator with its cache, which starts at the greatest index there is.\<close>

record RLP =
  m_data :: string
  m_lastIndex :: nat
  m_lastEnd :: nat
  m_lastItem :: string

definition node :: "string \<Rightarrow> RLP" where
  "node d = \<lparr>m_data = d, m_lastIndex = 2 ^ 64 - 1, m_lastEnd = 0, m_lastItem = []\<rparr>"

function advance :: "nat \<Rightarrow> RLP \<Rightarrow> RLP result" where
  "advance i r =
     (if m_lastIndex r < i \<and> length (m_lastItem r) > 0 then
        rbind (payload (m_data r)) (\<lambda>p.
          let rest = cropped_from p (m_lastEnd r)
          in rbind (sizeAsEncoded rest) (\<lambda>n.
               let item = cropped rest 0 n
               in advance i (r\<lparr>m_lastItem := item, m_lastEnd := m_lastEnd r + length item,
                               m_lastIndex := m_lastIndex r + 1\<rparr>)))
      else Inr r)"
  by auto
termination by (relation "measure (\<lambda>(i, r). i - m_lastIndex r)") auto

declare advance.simps [simp del]

definition subscript :: "nat \<Rightarrow> RLP \<Rightarrow> (string \<times> RLP) result" where
  "subscript i r =
     rbind (if i < m_lastIndex r then
              rbind (payload (m_data r)) (\<lambda>p.
              rbind (sizeAsEncoded p) (\<lambda>n.
                Inr (r\<lparr>m_lastEnd := n, m_lastItem := cropped p 0 n, m_lastIndex := 0\<rparr>)))
            else Inr r) (\<lambda>r1.
     rbind (advance i r1) (\<lambda>r2.
     rbind (new_RLP (m_lastItem r2) (ThrowOnFail + FailIfTooSmall)) (\<lambda>d. Inr (d, r2))))"

text \<open>
  The iterator holds a view: the bytes of the parent from the view's address on (\<open>None\<close> for the null
  view) and the length of the view. Two views are equal when address and length are.
\<close>

record rlp_iterator =
  it_from :: "string option"
  it_size :: nat
  it_remaining :: nat

definition view :: "string option \<Rightarrow> nat \<Rightarrow> string" where
  "view from n = (case from of None \<Rightarrow> [] | Some bs \<Rightarrow> take n bs)"

definition begin_it :: "string \<Rightarrow> rlp_iterator result" where
  "begin_it d =
     (if isList d then
        rbind (payload d) (\<lambda>p.
        rbind (rlp_length d) (\<lambda>l.
        rbind (sizeAsEncoded p) (\<lambda>n.
          Inr \<lparr>it_from = (if payloadOffset d + l \<le> length d then Some (drop (payloadOffset d) d) else None),
               it_size = n, it_remaining = length p - n\<rparr>)))
      else Inr \<lparr>it_from = Some [], it_size = 0, it_remaining = 0\<rparr>)"

definition at_end :: "rlp_iterator \<Rightarrow> bool" where
  "at_end it = (it_from it = Some [] \<and> it_size it = 0)"

definition next_it :: "rlp_iterator \<Rightarrow> rlp_iterator result" where
  "next_it it =
     (let from = map_option (drop (it_size it)) (it_from it)
      in if it_remaining it \<noteq> 0 then
           rbind (sizeAsEncoded (view from (it_remaining it))) (\<lambda>n.
             Inr \<lparr>it_from = from, it_size = n,
                  it_remaining = it_remaining it - min (it_remaining it) n\<rparr>)
         else Inr \<lparr>it_from = from, it_size = 0, it_remaining = 0\<rparr>)"

text \<open>
  The loop of \<open>toList\<close>: an iterator that ran out of items without reaching the end of the data stays
  where it is for ever. Each step consumes an item or ends the view, which bounds the recursion.
\<close>

fun list_loop :: "nat \<Rightarrow> rlp_iterator \<Rightarrow> string list \<Rightarrow> string list result" where
  "list_loop fuel it ret =
     (if at_end it then Inr ret
      else case fuel of 0 \<Rightarrow> Inl Diverges
        | Suc n \<Rightarrow>
            rbind (new_RLP (view (it_from it) (it_size it)) VeryStrict) (\<lambda>d.
            rbind (next_it it) (\<lambda>it'. list_loop n it' (ret @ [d]))))"

declare list_loop.simps [simp del]

definition toList :: "nat \<Rightarrow> string \<Rightarrow> string list result" where
  "toList flags d =
     (if \<not> isList d then if flag flags ThrowOnFail then Inl BadCast else Inr []
      else rbind (begin_it d) (\<lambda>it. list_loop (length d + 2) it []))"

section \<open>The writer\<close>

text \<open>The stack of open lists holds the number of missing items and the start of the list; its top comes first.\<close>

record RLPStream =
  m_out :: string
  m_listStack :: "(nat \<times> nat) list"

definition new_stream :: RLPStream where "new_stream = \<lparr>m_out = [], m_listStack = []\<rparr>"

text \<open>
  Closing a list moves its content up to make room for the header. The byte \<open>b\<close> of the header is
  filled from the end, as in \<open>pushInt\<close>.
\<close>

definition pushInt :: "nat \<Rightarrow> nat \<Rightarrow> string \<Rightarrow> string" where
  "pushInt i br out = out @ toBigEndian br i []"

definition pushCount :: "nat \<Rightarrow> nat \<Rightarrow> string \<Rightarrow> string result" where
  "pushCount n base out =
     (let br = bytesRequired n
      in if br + base > 255 then Inl RLPException else Inr (pushInt n br (out @ [char_of (br + base)])))"

definition close_list :: "nat \<Rightarrow> string \<Rightarrow> string result" where
  "close_list p out =
     (let s = length out - p; brs = bytesRequired s
      in if s < c_rlpListImmLenCount then Inr (take p out @ [char_of (c_rlpListStart + s)] @ drop p out)
         else if c_rlpListIndLenZero + brs \<le> 255 then
           Inr (take p out @ [char_of (c_rlpListIndLenZero + brs)] @ toBigEndian brs s [] @ drop p out)
         else Inl RLPException)"

fun note_loop :: "(nat \<times> nat) list \<Rightarrow> nat \<Rightarrow> string \<Rightarrow> RLPStream result" where
  "note_loop [] added out = Inr \<lparr>m_out = out, m_listStack = []\<rparr>"
| "note_loop ((n, p) # st) added out =
     (if n < added then Inl RLPException
      else if n - added \<noteq> 0 then Inr \<lparr>m_out = out, m_listStack = (n - added, p) # st\<rparr>
      else rbind (close_list p out) (note_loop st 1))"

definition noteAppended :: "nat \<Rightarrow> RLPStream \<Rightarrow> RLPStream result" where
  "noteAppended added s = (if added = 0 then Inr s else note_loop (m_listStack s) added (m_out s))"

definition appendRaw :: "string \<Rightarrow> nat \<Rightarrow> RLPStream \<Rightarrow> RLPStream result" where
  "appendRaw bs added s = noteAppended added (s\<lparr>m_out := m_out s @ bs\<rparr>)"

definition appendListBytes :: "string \<Rightarrow> RLPStream \<Rightarrow> RLPStream result" where
  "appendListBytes bs s =
     rbind (if length bs < c_rlpListImmLenCount then Inr (m_out s @ [char_of (length bs + c_rlpListStart)])
            else pushCount (length bs) c_rlpListIndLenZero (m_out s)) (\<lambda>out.
     appendRaw bs 1 (s\<lparr>m_out := out\<rparr>))"

definition appendList :: "nat \<Rightarrow> RLPStream \<Rightarrow> RLPStream result" where
  "appendList n s =
     (if n \<noteq> 0 then Inr (s\<lparr>m_listStack := (n, length (m_out s)) # m_listStack s\<rparr>)
      else appendListBytes [] s)"

definition append_bytes :: "string \<Rightarrow> bool \<Rightarrow> RLPStream \<Rightarrow> RLPStream result" where
  "append_bytes bs compact s =
     (let d = (if compact then dropWhile (\<lambda>b. b = CHR 0x00) bs else bs); n = length d
      in rbind (if n = 1 \<and> byte_at d 0 < c_rlpDataImmLenStart then Inr (s\<lparr>m_out := m_out s @ [d ! 0]\<rparr>)
                else rbind (if n < c_rlpDataImmLenCount then Inr (m_out s @ [char_of (n + c_rlpDataImmLenStart)])
                            else pushCount n c_rlpDataIndLenZero (m_out s)) (\<lambda>out.
                     appendRaw d 0 (s\<lparr>m_out := out\<rparr>)))
           (noteAppended 1))"

definition appendInt :: "nat \<Rightarrow> RLPStream \<Rightarrow> RLPStream result" where
  "appendInt i s =
     rbind (if i = 0 then Inr (m_out s @ [char_of c_rlpDataImmLenStart])
            else if i < c_rlpDataImmLenStart then Inr (m_out s @ [char_of i])
            else let br = bytesRequired i
                 in if br < c_rlpDataImmLenCount then
                      Inr (pushInt i br (m_out s @ [char_of (br + c_rlpDataImmLenStart)]))
                    else let brbr = bytesRequired br
                         in if c_rlpDataIndLenZero + brbr > 255 then Inl RLPException
                            else Inr (pushInt i br (pushInt br brbr (m_out s @ [char_of (c_rlpDataIndLenZero + brbr)]))))
       (\<lambda>out. noteAppended 1 (s\<lparr>m_out := out\<rparr>))"

definition out :: "RLPStream \<Rightarrow> string result" where
  "out s = (if m_listStack s \<noteq> [] then Inl RLPException else Inr (m_out s))"

definition rlp :: "string \<Rightarrow> string result" where
  "rlp bs = rbind (append_bytes bs False new_stream) out"

section \<open>What the bytes mean\<close>

text \<open>The abstract format: data or a list of items, behind a header that says how long it is.\<close>

datatype item = Data string | Items "item list"

definition item_header :: "nat \<Rightarrow> nat \<Rightarrow> string" where
  "item_header base n =
     (if n < 56 then [char_of (base + n)]
      else char_of (base + 55 + bytesRequired n) # toCompactBigEndian n 0)"

fun encoding :: "item \<Rightarrow> string" where
  "encoding (Data b) = (if length b = 1 \<and> byte_at b 0 < 128 then b else item_header 128 (length b) @ b)"
| "encoding (Items xs) = (let body = concat (map encoding xs) in item_header 192 (length body) @ body)"

abbreviation encodings :: "item list \<Rightarrow> string" where "encodings xs \<equiv> concat (map encoding xs)"

text \<open>The reader's bound: an item whose length can be held with room for its header.\<close>

definition fits :: "nat \<Rightarrow> bool" where "fits n = (n < 2 ^ 64 - 257)"

text \<open>How the code writes such a value: the calls in the order of the items.\<close>

lemma rfold_cong [fundef_cong]:
  "xs = ys \<Longrightarrow> s = t \<Longrightarrow> (\<And>x s. x \<in> set ys \<Longrightarrow> f x s = g x s) \<Longrightarrow> rfold f xs s = rfold g ys t"
proof (induction ys arbitrary: xs s t)
  case (Cons y ys)
  then show ?case by (auto intro!: rbind_cong)
qed simp

fun write_item :: "item \<Rightarrow> RLPStream \<Rightarrow> RLPStream result" where
  "write_item (Data b) s = append_bytes b False s"
| "write_item (Items xs) s = rbind (appendList (length xs) s) (\<lambda>s. rfold write_item xs s)"

lemma bytesRequired_le: "n < 256 ^ k \<Longrightarrow> bytesRequired n \<le> k"
proof (induction k arbitrary: n)
  case 0 then show ?case by (simp add: bytesRequired.simps)
next
  case (Suc k)
  then have "n div 256 < 256 ^ k" by (simp add: div_less_iff_less_mult mult.commute)
  from Suc.IH [OF this] show ?case by (subst bytesRequired.simps) simp
qed

lemma bytesRequired_fits: "fits n \<Longrightarrow> bytesRequired n \<le> 8"
  by (rule bytesRequired_le) (simp add: fits_def)

lemma compact_0: "toCompactBigEndian n 0 = toBigEndian (bytesRequired n) n []"
  by (simp add: toCompactBigEndian_def)

lemma length_item_header: "length (item_header base n) = (if n < 56 then 1 else 1 + bytesRequired n)"
  by (simp add: item_header_def compact_0 length_toBigEndian)

lemma close_list_header:
  assumes "fits (length body)"
  shows "close_list (length pre) (pre @ body) = Inr (pre @ item_header 192 (length body) @ body)"
  using bytesRequired_fits [OF assms]
  by (simp add: close_list_def Let_def rlp_constants item_header_def compact_0)

lemma push_header:
  assumes "fits n"
  shows "(if n < c_rlpDataImmLenCount then Inr (buf @ [char_of (n + c_rlpDataImmLenStart)])
          else pushCount n c_rlpDataIndLenZero buf) = Inr (buf @ item_header 128 n)"
  using bytesRequired_fits [OF assms]
  by (simp add: pushCount_def pushInt_def rlp_constants item_header_def compact_0 add.commute Let_def)

lemma append_data:
  assumes "fits (length b)"
  shows "append_bytes b False s = appendRaw (encoding (Data b)) 1 s"
proof (cases "length b = 1 \<and> byte_at b 0 < 128")
  case True
  then have "[b ! 0] = b" by (cases b) auto
  with True show ?thesis
    by (simp add: append_bytes_def appendRaw_def rlp_constants)
next
  case False
  then show ?thesis
    by (auto simp add: append_bytes_def Let_def push_header [OF assms] appendRaw_def noteAppended_def rlp_constants(2))
qed

lemma appendRaw_item:
  "appendRaw bs 1 \<lparr>m_out = buf, m_listStack = (Suc (Suc n), p) # st\<rparr>
     = Inr \<lparr>m_out = buf @ bs, m_listStack = (Suc n, p) # st\<rparr>"
  by (simp add: appendRaw_def noteAppended_def)

lemma appendRaw_last:
  "fits (length (body @ bs)) \<Longrightarrow> appendRaw bs 1 \<lparr>m_out = pre @ body, m_listStack = (Suc 0, length pre) # st\<rparr>
     = appendRaw (item_header 192 (length (body @ bs)) @ body @ bs) 1 \<lparr>m_out = pre, m_listStack = st\<rparr>"
  using close_list_header [of "body @ bs" pre] by (simp add: appendRaw_def noteAppended_def)

lemma fits_less: "fits n \<Longrightarrow> m \<le> n \<Longrightarrow> fits m"
  by (simp add: fits_def)

lemma length_body: "length (encodings xs) \<le> length (encoding (Items xs))"
  by (simp add: Let_def)

lemma length_data: "length b \<le> length (encoding (Data b))"
  by simp

lemma length_elem: "x \<in> set xs \<Longrightarrow> length (encoding x) \<le> length (encodings xs)"
  by (induction xs) auto

lemma write_items:
  assumes IH: "\<And>x s. x \<in> set xs \<Longrightarrow> write_item x s = appendRaw (encoding x) 1 s"
    and "xs \<noteq> []" and "fits (length (body @ encodings xs))"
  shows "rfold write_item xs \<lparr>m_out = pre @ body, m_listStack = (length xs, length pre) # st\<rparr>
    = appendRaw (item_header 192 (length (body @ encodings xs)) @ body @ encodings xs) 1 \<lparr>m_out = pre, m_listStack = st\<rparr>"
  using assms
proof (induction xs arbitrary: body)
  case (Cons x xs)
  show ?case
  proof (cases xs)
    case Nil
    then show ?thesis using Cons.prems appendRaw_last [of body "encoding x" pre st]
      by (simp add: rbind_def split: sum.splits)
  next
    case (Cons y ys)
    have "rfold write_item xs \<lparr>m_out = pre @ (body @ encoding x), m_listStack = (length xs, length pre) # st\<rparr>
      = appendRaw (item_header 192 (length ((body @ encoding x) @ encodings xs)) @ (body @ encoding x) @ encodings xs) 1
          \<lparr>m_out = pre, m_listStack = st\<rparr>"
      using Cons.prems Cons by (intro Cons.IH) auto
    then show ?thesis using Cons.prems(1) [of x] Cons
        appendRaw_item [of "encoding x" "pre @ body" "length ys" "length pre" st] by simp
  qed
qed simp

lemma write_item_raw: "fits (length (encoding x)) \<Longrightarrow> write_item x s = appendRaw (encoding x) 1 s"
proof (induction x arbitrary: s)
  case (Data b)
  then show ?case using append_data fits_less length_data by (metis write_item.simps(1))
next
  case (Items xs)
  have body: "fits (length (encodings xs))" using Items.prems fits_less length_body by blast
  have elems: "write_item x s = appendRaw (encoding x) 1 s" if "x \<in> set xs" for x s
    using Items.IH [OF that] fits_less [OF body length_elem [OF that]] by blast
  show ?case
  proof (cases "xs = []")
    case True
    then show ?thesis
      by (cases "noteAppended 1 (s\<lparr>m_out := m_out s @ [char_of (192::nat)]\<rparr>)")
        (simp_all add: appendList_def appendListBytes_def rlp_constants item_header_def appendRaw_def)
  next
    case False
    then show ?thesis
      using write_items [OF elems False, of "[]" "m_out s" "m_listStack s"] body
      by (cases s) (simp add: appendList_def Let_def)
  qed
qed

text \<open>
  C20: The stream writer implements the format: writing a value of any shape, list by list and item by
  item, appends exactly its encoding and counts as one item of the enclosing list; on a fresh stream the
  output is the encoding.
\<close>

theorem write_encoding:
  assumes "fits (length (encoding x))"
  shows "write_item x s = appendRaw (encoding x) 1 s \<and> rbind (write_item x new_stream) out = Inr (encoding x)"
  using write_item_raw [OF assms] by (simp add: appendRaw_def noteAppended_def new_stream_def out_def)

lemma write_encoding_witness:
  "write_item (Items [Data ''dog'', Items [], Data (replicate 60 (CHR ''a''))]) new_stream
     = appendRaw (encoding (Items [Data ''dog'', Items [], Data (replicate 60 (CHR ''a''))])) 1 new_stream"
proof -
  have "fits (length (encoding (Items [Data ''dog'', Items [], Data (replicate 60 (CHR ''a''))])))"
    by (simp add: Let_def length_item_header fits_def bytesRequired.simps)
  from write_encoding [OF this] show ?thesis by blast
qed

section \<open>Reading what was written\<close>

lemma fold_wraps:
  "fold (\<lambda>b ret. (ret * 256 + of_char b) mod m) bs (r mod m) = fold (\<lambda>b ret. ret * 256 + of_char b) bs (r::nat) mod m"
proof (induction bs arbitrary: r)
  case (Cons b bs)
  have "((r mod m) * 256 + of_char b) mod m = (r * 256 + of_char b) mod m" by (metis mod_add_left_eq mod_mult_left_eq)
  then show ?case using Cons.IH [of "r * 256 + of_char b"] by simp
qed simp

lemma fold_fromBigEndian:
  "fromBigEndian bs < m \<Longrightarrow> fold (\<lambda>b ret. (ret * 256 + of_char b) mod m) bs 0 = fromBigEndian bs"
  using fold_wraps [of m bs 0] by (simp add: fromBigEndian_def)

lemma fromBigEndian_less: "fromBigEndian bs < 256 ^ length bs"
proof (induction bs)
  case (Cons b bs)
  have "of_char b * 256 ^ length bs + fromBigEndian bs < (of_char b + 1) * 256 ^ length bs"
    using Cons by (simp add: algebra_simps)
  also have "\<dots> \<le> 256 * 256 ^ length bs" 
  proof (rule mult_right_mono)
    show "of_char b + 1 \<le> (256::nat)" using nat_of_char_less_256 [of b] by linarith
  qed simp
  finally show ?case by (simp add: fromBigEndian_Cons)
qed (simp add: fromBigEndian_Nil)

lemma compact_parts:
  assumes "n \<noteq> 0"
  obtains c cs where "toBigEndian (bytesRequired n) n [] = c # cs" "of_char c \<noteq> (0::nat)"
    "length cs + 1 = bytesRequired n"
proof -
  let ?bs = "toBigEndian (bytesRequired n) n []"
  have val: "fromBigEndian ?bs = n" using compact_value [of n 0] by (simp add: compact_0)
  have len: "length ?bs = bytesRequired n" by (simp add: length_toBigEndian)
  obtain c cs where bs: "?bs = c # cs" using val assms by (cases ?bs) (auto simp: fromBigEndian_Nil)
  have "of_char c \<noteq> (0::nat)"
  proof
    assume "of_char c = (0::nat)"
    then have "n < 256 ^ length cs"
      using val bs fromBigEndian_less [of cs] by (simp add: fromBigEndian_Cons)
    then have "bytesRequired n \<le> length cs" by (rule bytesRequired_le)
    then show False using len bs by simp
  qed
  then show thesis using that bs len by simp
qed

lemma compact_lead: "toCompactBigEndian n 0 = [] \<or> byte_at (toCompactBigEndian n 0) 0 \<noteq> 0"
proof (cases "n = 0")
  case True
  then show ?thesis by (simp add: compact_0 bytesRequired.simps)
next
  case False
  then obtain c cs where "toBigEndian (bytesRequired n) n [] = c # cs" "of_char c \<noteq> (0::nat)"
    by (rule compact_parts)
  then show ?thesis by (simp add: compact_0 byte_at_def)
qed

lemma value_compact: "fromBigEndian (toBigEndian (bytesRequired n) n []) = n"
  using compact_value [of n 0] by (simp add: compact_0)

lemma bytesRequired_pos: "n \<noteq> 0 \<Longrightarrow> 0 < bytesRequired n"
  by (subst bytesRequired.simps) simp

lemma read_header:
  assumes d: "d = item_header base (length b) @ b @ rest" and base: "base = 128 \<or> base = 192"
    and n: "fits (length b)" and canon: "base = 128 \<Longrightarrow> length b = 1 \<Longrightarrow> 128 \<le> byte_at b 0"
  shows "rlp_length d = Inr (length b) \<and> payloadOffset d = length (item_header base (length b))
    \<and> \<not> isSingleByte d \<and> (isData d \<longleftrightarrow> base = 128) \<and> (isList d \<longleftrightarrow> base = 192) \<and> requireGood d = Inr ()"
proof (cases "length b < 56")
  case True
  have first: "byte_at d 0 = base + length b" using d True base by (auto simp: item_header_def byte_at_def)
  moreover have second: "length d \<ge> 2 \<and> byte_at d 1 \<ge> 128" if "base = 128" "length b = 1"
    using that d canon by (cases b) (auto simp: item_header_def byte_at_def)
  ultimately have good: "requireGood d = Inr ()"
    using d True base by (auto simp: requireGood_def rlp_constants isNull_def item_header_def)
  show ?thesis
    using first good True base d
    by (auto simp: rlp_length_def isSingleByte_def isData_def isList_def isNull_def payloadOffset_def
        lengthSize_def rlp_constants length_item_header item_header_def)
next
  case False
  let ?n = "length b" and ?br = "bytesRequired (length b)"
  have br: "0 < ?br" "?br \<le> 8" using False n bytesRequired_fits [of ?n] by (auto intro: bytesRequired_pos)
  obtain c cs where bs: "toBigEndian ?br ?n [] = c # cs" "of_char c \<noteq> (0::nat)" "length cs + 1 = ?br"
    using compact_parts [of ?n] False by (metis le0 not_less_zero linorder_not_le zero_less_numeral)
  have d': "d = char_of (base + 55 + ?br) # (c # cs) @ b @ rest"
    using d False bs(1) by (simp add: item_header_def compact_0)
  have first: "byte_at d 0 = base + 55 + ?br" using d' base br by (auto simp: byte_at_def)
  have second: "byte_at d 1 \<noteq> 0" using d' bs(2) by (simp add: byte_at_def)
  have len: "length d > ?br" using d' bs(3) by simp
  have tk: "take ?br (drop 1 d) = c # cs" using d' by (simp add: bs(3) [symmetric])
  have val: "fold (\<lambda>b ret. (ret * 256 + of_char b) mod 2 ^ 64) (take ?br (drop 1 d)) 0 = ?n"
    using fold_fromBigEndian [of "c # cs" "2 ^ 64"] value_compact [of ?n] bs(1) n unfolding tk by (simp add: fits_def)
  have long: "long_length d ?br 56 = Inr ?n"
    using len br second False n unfolding long_length_def val Let_def by (simp add: fits_def)
  have good: "requireGood d = Inr ()"
    using first base br d' by (auto simp: requireGood_def rlp_constants isNull_def)
  show ?thesis
    using first good long base br d' False
    by (auto simp: rlp_length_def isSingleByte_def isData_def isList_def isNull_def payloadOffset_def
        lengthSize_def rlp_constants length_item_header)
qed

text \<open>The facts about an encoded item that the operations rest on, with anything behind it.\<close>

lemma encoding_nonempty: "encoding x \<noteq> []"
  by (cases x) (auto simp: item_header_def Let_def)

lemma read_single:
  assumes "byte_at b 0 < 128" and "length b = 1"
  shows "rlp_length (b @ rest) = Inr 1" "payloadOffset (b @ rest) = 0" "isSingleByte (b @ rest)"
    "isData (b @ rest)" "\<not> isList (b @ rest)" "requireGood (b @ rest) = Inr ()"
  using assms by (cases b; auto simp: rlp_length_def requireGood_def payloadOffset_def isSingleByte_def
      isData_def isList_def isNull_def rlp_constants byte_at_def)+

lemma actualSize_encoding:
  assumes "fits (length (encoding x))"
  shows "actualSize (encoding x @ rest) = Inr (length (encoding x))"
proof (cases x)
  case (Data b)
  show ?thesis
  proof (cases "length b = 1 \<and> byte_at b 0 < 128")
    case True
    then show ?thesis using Data read_single [of b rest] by (auto simp: actualSize_def isSingleByte_def)
  next
    case False
    have "fits (length b)" using assms fits_less length_data Data by metis
    then show ?thesis
      using False Data read_header [of _ 128 b rest] by (auto simp: actualSize_def isData_def)
  qed
next
  case (Items xs)
  have "fits (length (encodings xs))" using assms fits_less length_body Items by metis
  then show ?thesis
    using Items read_header [of _ 192 "encodings xs" rest] by (auto simp: actualSize_def isList_def Let_def)
qed

lemma sizeAsEncoded_encoding:
  "fits (length (encoding x)) \<Longrightarrow> sizeAsEncoded (encoding x @ rest) = Inr (length (encoding x))"
  by (simp add: sizeAsEncoded_iff actualSize_encoding)

lemma new_RLP_encoding: "fits (length (encoding x)) \<Longrightarrow> new_RLP (encoding x) f = Inr (encoding x)"
  using actualSize_encoding [of x "[]"] by (simp add: new_RLP_def)

lemma sizeAsEncoded_Nil: "sizeAsEncoded [] = Inr 0"
  by (simp add: sizeAsEncoded_iff actualSize_def isNull_def)

lemma new_RLP_Nil: "new_RLP [] f = Inr []"
  by (simp add: new_RLP_def actualSize_def isNull_def)

lemma list_facts:
  assumes "fits (length (encodings xs))"
  shows "isList (encoding (Items xs))" "\<not> isData (encoding (Items xs))"
    "payload (encoding (Items xs)) = Inr (encodings xs)"
    "rlp_length (encoding (Items xs)) = Inr (length (encodings xs))"
    "encoding (Items xs) = item_header 192 (length (encodings xs)) @ encodings xs"
    "payloadOffset (encoding (Items xs)) = length (item_header 192 (length (encodings xs)))"
  using assms read_header [of "encoding (Items xs)" 192 "encodings xs" "[]"]
  by (auto simp: payload_def cropped_def Let_def)

lemma data_facts:
  assumes "fits (length b)"
  shows "isData (encoding (Data b))" "\<not> isList (encoding (Data b))" "payload (encoding (Data b)) = Inr b"
    "rlp_length (encoding (Data b)) = Inr (length b)" "requireGood (encoding (Data b)) = Inr ()"
proof -
  have "isData (encoding (Data b)) \<and> \<not> isList (encoding (Data b)) \<and> payload (encoding (Data b)) = Inr b
    \<and> rlp_length (encoding (Data b)) = Inr (length b) \<and> requireGood (encoding (Data b)) = Inr ()"
  proof (cases "length b = 1 \<and> byte_at b 0 < 128")
    case True
    then show ?thesis using read_single [of b "[]"] by (auto simp: payload_def cropped_def)
  next
    case False
    then show ?thesis using assms read_header [of "encoding (Data b)" 128 b "[]"]
      by (auto simp: payload_def cropped_def)
  qed
  then show "isData (encoding (Data b))" "\<not> isList (encoding (Data b))" "payload (encoding (Data b)) = Inr b"
    "rlp_length (encoding (Data b)) = Inr (length b)" "requireGood (encoding (Data b)) = Inr ()" by auto
qed

section \<open>Lists and their items\<close>

lemma fits_elem: "fits (length (encodings xs)) \<Longrightarrow> x \<in> set xs \<Longrightarrow> fits (length (encoding x))"
  using fits_less length_elem by blast

lemma count_items_encodings:
  "fits (length (encodings xs)) \<Longrightarrow> count_items (encodings xs) i = Inr (i + length xs)"
proof (induction xs arbitrary: i)
  case Nil
  then show ?case by (simp add: count_items.simps)
next
  case (Cons x xs)
  have "sizeAsEncoded (encodings (x # xs)) = Inr (length (encoding x))"
    using sizeAsEncoded_encoding [of x "encodings xs"] fits_elem [OF Cons.prems, of x] by simp
  moreover have "fits (length (encodings xs))" using Cons.prems by (rule fits_less) simp
  ultimately show ?case
    using Cons.IH [of "i + 1"] encoding_nonempty [of x]
    by (subst count_items.simps) (simp add: cropped_from_def)
qed

lemma view_take: "view (Some bs) n = take n bs"
  by (simp add: view_def)

lemma list_loop_encodings:
  assumes "fits (length (encodings (x # xs)))" and "fuel > length xs + 1"
  shows "list_loop fuel \<lparr>it_from = Some (encodings (x # xs)), it_size = length (encoding x),
      it_remaining = length (encodings xs)\<rparr> ret = Inr (ret @ map encoding (x # xs))"
  using assms
proof (induction xs arbitrary: x fuel ret)
  case Nil
  then obtain n where n: "fuel = Suc (Suc n)" by (cases fuel; cases "fuel - 1") auto
  then show ?case
    using Nil.prems encoding_nonempty [of x] new_RLP_encoding [of x VeryStrict]
    by (simp add: list_loop.simps [of "Suc (Suc n)"] list_loop.simps [of "Suc n"] at_end_def next_it_def view_take)
next
  case (Cons y ys)
  obtain n where n: "fuel = Suc n" using Cons.prems by (cases fuel) auto
  have fit: "fits (length (encodings (y # ys)))" using Cons.prems(1) by (rule fits_less) simp
  have next_size: "sizeAsEncoded (encodings (y # ys)) = Inr (length (encoding y))"
    using sizeAsEncoded_encoding [of y "encodings ys"] fits_elem [OF fit, of y] by simp
  have ne: "length (encodings (y # ys)) \<noteq> 0" "encoding x \<noteq> []" using encoding_nonempty by auto
  have dr: "drop (length (encoding x)) (encodings (x # y # ys)) = encodings (y # ys)" by simp
  have len: "length (encodings (y # ys)) = length (encoding y) + length (encodings ys)" by simp
  have "next_it \<lparr>it_from = Some (encodings (x # y # ys)), it_size = length (encoding x),
      it_remaining = length (encodings (y # ys))\<rparr>
    = Inr \<lparr>it_from = Some (encodings (y # ys)), it_size = length (encoding y), it_remaining = length (encodings ys)\<rparr>"
    using next_size ne(1) unfolding next_it_def by (simp add: view_take dr len Let_def del: list.map concat.simps length_concat)
  then show ?case
    using Cons.IH [OF fit, of n "ret @ [encoding x]"] Cons.prems n ne
      new_RLP_encoding [of x VeryStrict] fits_elem [OF Cons.prems(1), of x]
    by (simp add: list_loop.simps [of "Suc n"] at_end_def view_take)
qed

lemma length_encodings: "length xs \<le> length (encodings xs)"
proof (induction xs)
  case (Cons x xs)
  then show ?case using encoding_nonempty [of x] by (cases "encoding x") auto
qed simp

text \<open>
  C38: Lists read back: \<open>toList\<close> returns exactly the encodings of the items that were written, in
  order, and reaches the end of the data; \<open>itemCount\<close> counts them; data items give their bytes back.
\<close>

theorem toList_encoding:
  assumes "fits (length (encodings xs))" and "fits (length b)"
  shows "toList flags (encoding (Items xs)) = Inr (map encoding xs)
    \<and> itemCount (encoding (Items xs)) = Inr (length xs)
    \<and> toString flags (encoding (Data b)) = Inr b"
proof -
  note facts = list_facts [OF assms(1)]
  have start: "drop (payloadOffset (encoding (Items xs))) (encoding (Items xs)) = encodings xs"
    using facts(5, 6) by (simp del: encoding.simps)
  have bound: "payloadOffset (encoding (Items xs)) + length (encodings xs) \<le> length (encoding (Items xs))"
    using facts(5, 6) by (simp del: encoding.simps)
  have list: "toList flags (encoding (Items xs)) = Inr (map encoding xs)"
  proof (cases xs)
    case Nil
    have "begin_it (encoding (Items xs)) = Inr \<lparr>it_from = Some [], it_size = 0, it_remaining = 0\<rparr>"
      using facts(1, 3, 4) start bound Nil by (simp add: begin_it_def sizeAsEncoded_Nil del: encoding.simps)
    then show ?thesis
      using facts(1) Nil by (simp add: toList_def list_loop.simps at_end_def del: encoding.simps)
  next
    case (Cons y ys)
    have first: "sizeAsEncoded (encodings xs) = Inr (length (encoding y))"
      using sizeAsEncoded_encoding [of y "encodings ys"] fits_elem [OF assms(1), of y] Cons by simp
    have "begin_it (encoding (Items xs)) = Inr \<lparr>it_from = Some (encodings (y # ys)), it_size = length (encoding y),
        it_remaining = length (encodings ys)\<rparr>"
      using facts(1, 3, 4) start bound first Cons by (simp add: begin_it_def del: encoding.simps)
    moreover have "length ys + 1 < length (encoding (Items xs)) + 2"
      using length_encodings [of xs] length_body [of xs] Cons by (simp del: encoding.simps)
    ultimately show ?thesis
      using list_loop_encodings [of y ys _ "[]"] assms(1) facts(1) Cons
      by (simp add: toList_def del: encoding.simps list.map)
  qed
  have count: "itemCount (encoding (Items xs)) = Inr (length xs)"
    using facts(1, 3) count_items_encodings [OF assms(1), of 0]
    by (simp add: itemCount_def items_def del: encoding.simps)
  have "toString flags (encoding (Data b)) = Inr b"
    using data_facts [OF assms(2)] by (simp add: toString_def cropped_def del: encoding.simps)
  with list count show ?thesis by blast
qed

lemma toList_encoding_witness:
  "toList 12 (encoding (Items [Data ''cat'', Items [Data []]])) = Inr [encoding (Data ''cat''), encoding (Items [Data []])]"
  using toList_encoding [of "[Data ''cat'', Items [Data []]]" "[]" 12]
  by (simp add: fits_def item_header_def del: encoding.simps(2)) (simp add: fits_def item_header_def Let_def)

section \<open>The cache of the subscript operator\<close>

definition cache_ok :: "item list \<Rightarrow> RLP \<Rightarrow> bool" where
  "cache_ok xs r =
     (payload (m_data r) = Inr (encodings xs)
      \<and> (m_lastIndex r = 2 ^ 64 - 1
         \<or> m_lastIndex r \<le> length xs
           \<and> m_lastEnd r = length (encodings (take (m_lastIndex r + 1) xs))
           \<and> m_lastItem r = (if m_lastIndex r < length xs then encoding (xs ! m_lastIndex r) else [])))"

lemma cache_ok_node: "payload d = Inr (encodings xs) \<Longrightarrow> cache_ok xs (node d)"
  by (simp add: cache_ok_def node_def del: encoding.simps)

definition item_at :: "item list \<Rightarrow> nat \<Rightarrow> string" where
  "item_at xs i = (if i < length xs then encoding (xs ! i) else [])"

lemma size_at:
  assumes "fits (length (encodings xs))" and "i \<le> length xs"
  shows "sizeAsEncoded (drop (length (encodings (take i xs))) (encodings xs)) = Inr (length (item_at xs i))
    \<and> take (length (item_at xs i)) (drop (length (encodings (take i xs))) (encodings xs)) = item_at xs i
    \<and> length (encodings (take i xs)) + length (item_at xs i) = length (encodings (take (i + 1) xs))
    \<and> length (encodings (take i xs)) \<le> length (encodings xs)"
proof -
  have split: "encodings xs = encodings (take i xs) @ encodings (drop i xs)"
    by (metis append_take_drop_id concat_append map_append)
  show ?thesis
  proof (cases "i < length xs")
    case True
    then have "encodings (drop i xs) = encoding (xs ! i) @ encodings (drop (Suc i) xs)"
      by (simp add: Cons_nth_drop_Suc [symmetric])
    then have tail: "drop (length (encodings (take i xs))) (encodings xs)
        = encoding (xs ! i) @ encodings (drop (Suc i) xs)"
      using split by (metis append_eq_conv_conj)
    have "length (encodings (take i xs)) + length (encoding (xs ! i)) = length (encodings (take (i + 1) xs))"
      using True by (simp add: take_Suc_conv_app_nth)
    moreover have "length (encodings (take i xs)) \<le> length (encodings xs)"
      using split by (metis length_append le_add1)
    moreover have "item_at xs i = encoding (xs ! i)" using True by (simp add: item_at_def)
    moreover have "take (length (encoding (xs ! i))) (encoding (xs ! i) @ encodings (drop (Suc i) xs)) = encoding (xs ! i)"
      by simp
    ultimately show ?thesis
      using sizeAsEncoded_encoding [OF fits_elem [OF assms(1) nth_mem [OF True]], of "encodings (drop (Suc i) xs)"]
      unfolding tail by metis
  next
    case False
    then show ?thesis using assms by (simp add: item_at_def sizeAsEncoded_Nil)
  qed
qed

lemma advance_cached:
  assumes "fits (length (encodings xs))" and "cache_ok xs r" and "m_lastIndex r \<noteq> 2 ^ 64 - 1" and "m_lastIndex r \<le> i"
  shows "\<exists>r'. advance i r = Inr r' \<and> cache_ok xs r' \<and> m_lastItem r' = item_at xs i"
  using assms
proof (induction i r rule: advance.induct)
  case (1 i r)
  let ?k = "m_lastIndex r"
  have k: "?k \<le> length xs" "m_lastEnd r = length (encodings (take (?k + 1) xs))"
      "m_lastItem r = item_at xs ?k"
    using "1.prems" by (auto simp: cache_ok_def item_at_def)
  have pl: "payload (m_data r) = Inr (encodings xs)" using "1.prems"(2) by (simp add: cache_ok_def)
  show ?case
  proof (cases "?k < i \<and> length (m_lastItem r) > 0")
    case True
    then have small: "?k < length xs" using k(3) by (auto simp: item_at_def split: if_splits)
    let ?rest = "cropped_from (encodings xs) (m_lastEnd r)"
    have at: "sizeAsEncoded ?rest = Inr (length (item_at xs (?k + 1)))"
        "cropped ?rest 0 (length (item_at xs (?k + 1))) = item_at xs (?k + 1)"
      using size_at [OF "1.prems"(1), of "?k + 1"] small k(2)
      by (auto simp: cropped_from_def cropped_def sizeAsEncoded_iff)
    let ?r = "r\<lparr>m_lastItem := item_at xs (?k + 1), m_lastEnd := m_lastEnd r + length (item_at xs (?k + 1)),
        m_lastIndex := ?k + 1\<rparr>"
    have ok: "cache_ok xs ?r"
      using size_at [OF "1.prems"(1), of "?k + 1"] small k pl by (auto simp: cache_ok_def item_at_def)
    have "?k + 1 \<noteq> 2 ^ 64 - 1" using small length_encodings [of xs] "1.prems"(1) by (simp add: fits_def)
    then have "\<exists>r'. advance i ?r = Inr r' \<and> cache_ok xs r' \<and> m_lastItem r' = item_at xs i"
      using "1.IH" [OF True pl refl at(1) refl] at(2) ok "1.prems" True by simp
    then show ?thesis using True pl at by (subst advance.simps) (simp add: Let_def)
  next
    case False
    then have "m_lastItem r = item_at xs i"
      using k "1.prems"(4) encoding_nonempty by (auto simp: item_at_def split: if_splits simp del: encoding.simps)
    then show ?thesis using False "1.prems"(2) by (subst advance.simps) auto
  qed
qed

fun subscripts :: "nat list \<Rightarrow> RLP \<Rightarrow> string list result" where
  "subscripts [] r = Inr []"
| "subscripts (i # is) r = rbind (subscript i r) (\<lambda>(d, r). rbind (subscripts is r) (\<lambda>ds. Inr (d # ds)))"

lemma subscript_cached:
  assumes "fits (length (encodings xs))" and "cache_ok xs r" and "i < 2 ^ 64 - 1"
  shows "\<exists>r'. subscript i r = Inr (item_at xs i, r') \<and> cache_ok xs r'"
proof -
  let ?n = "length (item_at xs 0)"
  let ?r0 = "r\<lparr>m_lastEnd := ?n, m_lastItem := item_at xs 0, m_lastIndex := 0\<rparr>"
  have pl: "payload (m_data r) = Inr (encodings xs)" using assms(2) by (simp add: cache_ok_def)
  have zero: "sizeAsEncoded (encodings xs) = Inr ?n" "cropped (encodings xs) 0 ?n = item_at xs 0"
    using size_at [OF assms(1), of 0] by (auto simp: cropped_def sizeAsEncoded_iff)
  have ok0: "cache_ok xs ?r0"
    using assms(2) size_at [OF assms(1), of 0] by (auto simp: cache_ok_def item_at_def)
  have last: "new_RLP (item_at xs i) f = Inr (item_at xs i)" for f
    using new_RLP_encoding [OF fits_elem [OF assms(1) nth_mem]] by (simp add: item_at_def new_RLP_Nil)
  show ?thesis
  proof (cases "i < m_lastIndex r")
    case True
    obtain r' where r': "advance i ?r0 = Inr r'" "cache_ok xs r'" "m_lastItem r' = item_at xs i"
      using advance_cached [OF assms(1) ok0, of i] by auto
    then show ?thesis using True pl zero last by (auto simp: subscript_def)
  next
    case False
    then obtain r' where r': "advance i r = Inr r'" "cache_ok xs r'" "m_lastItem r' = item_at xs i"
      using advance_cached [OF assms(1, 2), of i] assms(3) by auto
    then show ?thesis using False last by (auto simp: subscript_def)
  qed
qed

text \<open>
  The cached subscript operator returns the same node whatever was asked before: from a fresh node,
  any sequence of subscripts gives for each index the encoding of the item there, and the null node
  behind the last item.
\<close>

theorem subscript_any_order:
  assumes "fits (length (encodings xs))" and "list_all (\<lambda>i. i < 2 ^ 64 - 1) is"
  shows "subscripts is (node (encoding (Items xs))) = Inr (map (item_at xs) is)"
proof -
  have "subscripts is r = Inr (map (item_at xs) is)" if "cache_ok xs r" for r
    using assms(2) that
  proof (induction "is" arbitrary: r)
    case (Cons i js)
    then obtain r' where "subscript i r = Inr (item_at xs i, r')" "cache_ok xs r'"
      using subscript_cached [OF assms(1), of r i] by auto
    then show ?case using Cons by simp
  qed simp
  then show ?thesis using cache_ok_node [OF list_facts(3)] assms(1) by blast
qed

lemma subscript_any_order_witness:
  "subscripts [1, 0, 5, 1] (node (encoding (Items [Data ''cat'', Data ''dog''])))
     = Inr [encoding (Data ''dog''), encoding (Data ''cat''), [], encoding (Data ''dog'')]"
  using subscript_any_order [of "[Data ''cat'', Data ''dog'']" "[1, 0, 5, 1]"]
  by (simp add: fits_def item_header_def item_at_def)

section \<open>Integers\<close>

lemma data_toInt:
  assumes "fits (length b)" and "b = [] \<or> byte_at b 0 \<noteq> 0"
  shows "isInt (encoding (Data b)) = Inr True"
proof (cases "length b = 1 \<and> byte_at b 0 < 128")
  case True
  then show ?thesis using read_single(6) [of b "[]"] assms
    by (auto simp: isInt_def isNull_def rlp_constants)
next
  case False
  show ?thesis
  proof (cases "length b < 56")
    case True
    then show ?thesis
      using data_facts(5) [OF assms(1)] False assms(2)
      by (cases b) (auto simp: isInt_def isNull_def rlp_constants item_header_def byte_at_def)
  next
    case long: False
    have br: "0 < bytesRequired (length b)" "bytesRequired (length b) \<le> 8"
      using long bytesRequired_fits [OF assms(1)] by (auto intro: bytesRequired_pos)
    let ?d = "encoding (Data b)"
    have d: "?d = char_of (183 + bytesRequired (length b)) # toBigEndian (bytesRequired (length b)) (length b) [] @ b"
      using long False by (auto simp: item_header_def compact_0)
    have at: "?d ! Suc (bytesRequired (length b)) = b ! 0"
      unfolding d by (simp add: nth_append length_toBigEndian)
    have len: "length ?d = 1 + bytesRequired (length b) + length b"
      unfolding d by (simp add: length_toBigEndian)
    have first: "byte_at ?d 0 = 183 + bytesRequired (length b)" unfolding d using br by (simp add: byte_at_def)
    show ?thesis
      using data_facts(5) [OF assms(1)] first at len br long assms(2)
      by (auto simp: isInt_def isNull_def rlp_constants byte_at_def simp del: encoding.simps)
  qed
qed

lemma appendInt_raw:
  assumes "bytesRequired i < 56"
  shows "appendInt i s = appendRaw (encoding (Data (toCompactBigEndian i 0))) 1 s"
proof -
  consider "i = 0" | "0 < i" "i < 128" | "128 \<le> i" "i < 256" | "256 \<le> i" by linarith
  then show ?thesis
  proof cases
    case 1
    then show ?thesis
      by (simp add: appendInt_def appendRaw_def rlp_constants compact_0 bytesRequired.simps item_header_def)
  next
    case 2
    then have "bytesRequired i = 1" by (simp add: bytesRequired.simps)
    then show ?thesis using 2
      by (simp add: appendInt_def appendRaw_def rlp_constants compact_0 byte_at_def)
  next
    case 3
    then have "bytesRequired i = 1" by (simp add: bytesRequired.simps)
    then show ?thesis using 3
      by (simp add: appendInt_def appendRaw_def rlp_constants compact_0 byte_at_def pushInt_def item_header_def)
  next
    case 4
    then have "bytesRequired i \<noteq> 1" using less_bytesRequired [of i] by auto
    then show ?thesis using 4 assms
      by (simp add: appendInt_def appendRaw_def rlp_constants compact_0 pushInt_def item_header_def
          length_toBigEndian add.commute Let_def)
  qed
qed

lemma toInt_data:
  assumes "fits (length b)" and "b = [] \<or> byte_at b 0 \<noteq> 0"
  shows "toInt maxSize Strict (encoding (Data b)) = (if length b \<le> maxSize then Inr (fromBigEndian b) else Inl BadCast)"
proof -
  have small: "fromBigEndian b < 256 ^ maxSize" if "length b \<le> maxSize"
    using fromBigEndian_less [of b] power_increasing [OF that, of "256 :: nat"] by linarith
  show ?thesis
    using data_facts [OF assms(1)] data_toInt [OF assms] small fold_fromBigEndian [of b "256 ^ maxSize"]
      encoding_nonempty [of "Data b"]
    by (auto simp: toInt_def flag_def rlp_flags isList_def isNull_def simp del: encoding.simps)
qed

text \<open>
  Integers keep their value and never wrap: what \<open>append\<close> writes for a number, \<open>toInt\<close> with the
  strict flags reads back when the number fits the target type, and refuses with \<open>BadCast\<close> when it
  does not.
\<close>

theorem toInt_encoding:
  assumes "bytesRequired i < 56"
  shows "rbind (appendInt i new_stream) out = Inr (encoding (Data (toCompactBigEndian i 0)))
    \<and> toInt maxSize Strict (encoding (Data (toCompactBigEndian i 0)))
        = (if bytesRequired i \<le> maxSize then Inr i else Inl BadCast)"
proof -
  let ?b = "toCompactBigEndian i 0"
  have len: "length ?b = bytesRequired i" by (simp add: compact_0 length_toBigEndian)
  then have fit: "fits (length ?b)" using assms by (simp add: fits_def)
  note lead = compact_lead [of i]
  have int: "toInt maxSize Strict (encoding (Data ?b)) = (if bytesRequired i \<le> maxSize then Inr i else Inl BadCast)"
    using toInt_data [OF fit lead] len value_compact [of i] by (simp add: compact_0 del: encoding.simps)
  have written: "rbind (appendInt i new_stream) out = Inr (encoding (Data ?b))"
    by (simp add: appendInt_raw [OF assms] appendRaw_def noteAppended_def new_stream_def out_def del: encoding.simps)
  with int show ?thesis by blast
qed

lemma toInt_encoding_witness:
  "toInt 4 Strict (encoding (Data (toCompactBigEndian 4294967295 0))) = Inr 4294967295
   \<and> toInt 4 Strict (encoding (Data (toCompactBigEndian 4294967296 0))) = Inl BadCast"
  using toInt_encoding [of 4294967295 4] toInt_encoding [of 4294967296 4] by (simp add: bytesRequired.simps)

end
