(* ===== verification/Packets.thy ===== *)
theory Packets
  imports Rlp ExecuterState
begin

text \<open>
  The packets between nodes (\<open>libsync/SyncMsgPacket.cpp\<close>, \<open>libsync/Common.h\<close>) and the handler that
  sorts them into the queues of the plugin (\<open>libplugin/PluginMsgBase.cpp\<close>,
  \<open>libplugin/PluginMsgManager.cpp\<close>). Reading a protobuf message from its bytes is generated code and a
  parameter of the handler.
\<close>

section \<open>Packets\<close>

definition c_syncPacketIDBase :: nat where "c_syncPacketIDBase = 1"

text \<open>The suffix keeps five packet types apart from the messages of the same name.\<close>

datatype SyncPacketType =
    StatusPacket | TransactionsPacket | BlocksPacket | ReqBlocskPacket | TxsStatusPacket | TxsRequestPacekt
  | ParamRequestPacket | ParamResponsePacket | CheckpointPacket | ReadSetPacket | BlockForExecutePacket
  | BlockForStoragePacket | CommitStatePacket | DistributedTxPacket | PreCommittedTxPacket | CommittedTxPacket
  | ReadWriteSetMsg | ResponseToForwardMsg | CommitResponseToCoordinatorMsg | RequestForMasterShardMsg_pt
  | MasterShardPrePrepareMsg_pt | MasterShardPrepareMsg_pt | MasterShardCommitMsg_pt | IntraShardTxMsg
  | BatchDistributedTxMsg_pt | ShuffleStateValueMsg | ShuffleTxRlpsMsg

fun packet_code :: "SyncPacketType \<Rightarrow> nat" where
  "packet_code StatusPacket = 0"
| "packet_code TransactionsPacket = 1"
| "packet_code BlocksPacket = 2"
| "packet_code ReqBlocskPacket = 3"
| "packet_code TxsStatusPacket = 4"
| "packet_code TxsRequestPacekt = 5"
| "packet_code ParamRequestPacket = 6"
| "packet_code ParamResponsePacket = 7"
| "packet_code CheckpointPacket = 8"
| "packet_code ReadSetPacket = 9"
| "packet_code BlockForExecutePacket = 16"
| "packet_code BlockForStoragePacket = 17"
| "packet_code CommitStatePacket = 18"
| "packet_code DistributedTxPacket = 19"
| "packet_code PreCommittedTxPacket = 20"
| "packet_code CommittedTxPacket = 21"
| "packet_code ReadWriteSetMsg = 22"
| "packet_code ResponseToForwardMsg = 23"
| "packet_code CommitResponseToCoordinatorMsg = 24"
| "packet_code RequestForMasterShardMsg_pt = 25"
| "packet_code MasterShardPrePrepareMsg_pt = 26"
| "packet_code MasterShardPrepareMsg_pt = 27"
| "packet_code MasterShardCommitMsg_pt = 28"
| "packet_code IntraShardTxMsg = 29"
| "packet_code BatchDistributedTxMsg_pt = 30"
| "packet_code ShuffleStateValueMsg = 31"
| "packet_code ShuffleTxRlpsMsg = 32"

definition prep :: "nat \<Rightarrow> nat \<Rightarrow> RLPStream \<Rightarrow> RLPStream result" where
  "prep ident args s = rbind (appendRaw [char_of (ident + c_syncPacketIDBase)] 1 s) (appendList args)"

text \<open>The \<open>encode\<close> of every packet that carries one message of the shards.\<close>

definition encode_message :: "SyncPacketType \<Rightarrow> string \<Rightarrow> RLPStream result" where
  "encode_message ty blockRLP = rbind (prep (packet_code ty) 1 new_stream) (append_bytes blockRLP False)"

text \<open>\<open>toMessage\<close>: the buffer of the message.\<close>

definition toMessage :: "RLPStream \<Rightarrow> string result" where
  "toMessage s = out s"

definition checkPacket :: "string \<Rightarrow> bool result" where
  "checkPacket msg =
     (if length msg < 2 \<or> byte_at msg 0 > 127 then Inr False
      else rbind (new_RLP (cropped_from msg 1) VeryStrict) (\<lambda>d.
           rbind (actualSize d) (\<lambda>n. Inr (n + 1 = length msg))))"

text \<open>
  The packet type is the first byte less the base, in unsigned arithmetic and then cut to a byte; any
  byte is a value of the enumeration. \<open>None\<close> is the answer \<open>false\<close>.
\<close>

definition decode_packet :: "string \<Rightarrow> (nat \<times> string) option result" where
  "decode_packet frame =
     rbind (checkPacket frame) (\<lambda>ok.
       if \<not> ok then Inr None
       else rbind (new_RLP (cropped frame 0 1) VeryStrict) (\<lambda>h.
            rbind (toInt 4 Strict h) (\<lambda>i.
            rbind (new_RLP (cropped_from frame 1) VeryStrict) (\<lambda>d.
              Inr (Some (nat ((int i - int c_syncPacketIDBase) mod 2 ^ 32) mod 256, d))))))"

section \<open>Status and block requests\<close>

record SyncStatusPacket =
  st_number :: int
  st_genesisHash :: string
  st_latestHash :: string
  st_alignedTime :: "int option"

text \<open>Packets with an aligned time have four fields. The numbers are written as unbounded integers.\<close>

definition encode_status :: "SyncStatusPacket \<Rightarrow> RLPStream result" where
  "encode_status p =
     rbind (prep (packet_code StatusPacket) (if st_alignedTime p = None then 3 else 4) new_stream) (\<lambda>s.
     rbind (appendInt (nat (st_number p)) s) (\<lambda>s.
     rbind (append_bytes (st_genesisHash p) False s) (\<lambda>s.
     rbind (append_bytes (st_latestHash p) False s) (\<lambda>s.
       case st_alignedTime p of None \<Rightarrow> Inr s | Some t \<Rightarrow> appendInt (nat t) s))))"

definition to_int64 :: "nat \<Rightarrow> int" where
  "to_int64 n = (if n \<ge> 2 ^ 63 then int n - 2 ^ 64 else int n)"

definition field :: "nat \<Rightarrow> string \<Rightarrow> string result" where
  "field i d = rbind (subscript i (node d)) (\<lambda>(e, _). Inr e)"

definition decode_status :: "bool \<Rightarrow> string \<Rightarrow> SyncStatusPacket result" where
  "decode_status aligned d =
     rbind (itemCount d) (\<lambda>n.
       if n \<noteq> (if aligned then 4 else 3) then Inl InValidSyncPacket
       else rbind (rbind (field 0 d) (toInt 8 Strict)) (\<lambda>number.
            rbind (rbind (field 1 d) (toHash 32 Strict)) (\<lambda>genesis.
            rbind (rbind (field 2 d) (toHash 32 Strict)) (\<lambda>latest.
            rbind (if aligned then rbind (rbind (field 3 d) (toInt 8 Strict)) (\<lambda>t. Inr (Some (to_int64 t)))
                   else Inr None) (\<lambda>t.
              Inr \<lparr>st_number = to_int64 number, st_genesisHash = genesis, st_latestHash = latest,
                   st_alignedTime = t\<rparr>)))))"

text \<open>
  The block number of a request is streamed with \<open><<\<close>: of the overloads of \<open>append\<close> the one for
  \<open>unsigned\<close> takes an \<open>int64_t\<close>, which keeps the low 32 bits.
\<close>

definition encode_reqBlock :: "int \<Rightarrow> nat \<Rightarrow> RLPStream result" where
  "encode_reqBlock from n =
     rbind (prep (packet_code ReqBlocskPacket) 2 new_stream) (\<lambda>s.
     rbind (appendInt (nat (from mod 2 ^ 32)) s) (appendInt n))"

definition encode_blocks :: "string list \<Rightarrow> RLPStream result" where
  "encode_blocks blockRLPs =
     rbind (prep (packet_code BlocksPacket) (length blockRLPs) new_stream)
       (rfold (\<lambda>b. append_bytes b False) blockRLPs)"

definition encode_txsStatus :: "int \<Rightarrow> string list \<Rightarrow> RLPStream result" where
  "encode_txsStatus number txsHash =
     rbind (prep (packet_code TxsStatusPacket) 2 new_stream) (\<lambda>s.
     rbind (appendInt (nat (number mod 2 ^ 32)) s) (\<lambda>s.
     rbind (appendList (length txsHash) s) (rfold (\<lambda>h. append_bytes h False) txsHash)))"

definition encode_txsReq :: "string list \<Rightarrow> RLPStream result" where
  "encode_txsReq requestedTxs =
     rbind (prep (packet_code TxsRequestPacekt) 1 new_stream) (\<lambda>s.
     rbind (appendList (length requestedTxs) s) (rfold (\<lambda>h. append_bytes h False) requestedTxs))"

section \<open>The queues of the plugin\<close>

record PluginMsgManager =
  readSetQueue :: "payload list"
  txs :: "payload list"
  distxs :: "payload list"
  precommit_txs :: "payload list"
  commit_txs :: "payload list"
  RWSetMsg :: "payload list"
  responseToForwardMsg :: "payload list"
  commitResponseToCoordinatorMsg :: "payload list"
  requestForMasterShardMsg :: "payload list"
  masterShardPrePrepareMsg :: "payload list"
  masterShardPrepareMsg :: "payload list"
  masterShardCommitMsg :: "payload list"
  intraShardTxMsg :: "payload list"
  shuffleStateValueMsg :: "payload list"
  shuffleTxMsg :: "payload list"
  batchdistxs :: "payload list"

definition new_PluginMsgManager :: PluginMsgManager where
  "new_PluginMsgManager = \<lparr>readSetQueue = [], txs = [], distxs = [], precommit_txs = [], commit_txs = [],
     RWSetMsg = [], responseToForwardMsg = [], commitResponseToCoordinatorMsg = [],
     requestForMasterShardMsg = [], masterShardPrePrepareMsg = [], masterShardPrepareMsg = [],
     masterShardCommitMsg = [], intraShardTxMsg = [], shuffleStateValueMsg = [], shuffleTxMsg = [],
     batchdistxs = []\<rparr>"

definition processReceivedTx :: "payload \<Rightarrow> PluginMsgManager \<Rightarrow> PluginMsgManager" where
  "processReceivedTx m p = p\<lparr>txs := txs p @ [m]\<rparr>"

definition processReceivedDisTx :: "payload \<Rightarrow> PluginMsgManager \<Rightarrow> PluginMsgManager" where
  "processReceivedDisTx m p = p\<lparr>distxs := distxs p @ [m]\<rparr>"

definition processRWSetMsg :: "payload \<Rightarrow> PluginMsgManager \<Rightarrow> PluginMsgManager" where
  "processRWSetMsg m p = p\<lparr>RWSetMsg := RWSetMsg p @ [m]\<rparr>"

definition processResponseToForwardMsg :: "payload \<Rightarrow> PluginMsgManager \<Rightarrow> PluginMsgManager" where
  "processResponseToForwardMsg m p = p\<lparr>responseToForwardMsg := responseToForwardMsg p @ [m]\<rparr>"

definition processCommitResponseTxCoordinatorMsg :: "payload \<Rightarrow> PluginMsgManager \<Rightarrow> PluginMsgManager" where
  "processCommitResponseTxCoordinatorMsg m p =
     p\<lparr>commitResponseToCoordinatorMsg := commitResponseToCoordinatorMsg p @ [m]\<rparr>"

definition processRequestForMasterShardMsg :: "payload \<Rightarrow> PluginMsgManager \<Rightarrow> PluginMsgManager" where
  "processRequestForMasterShardMsg m p = p\<lparr>requestForMasterShardMsg := requestForMasterShardMsg p @ [m]\<rparr>"

definition processMasterShardPrePrepareMsg :: "payload \<Rightarrow> PluginMsgManager \<Rightarrow> PluginMsgManager" where
  "processMasterShardPrePrepareMsg m p = p\<lparr>masterShardPrePrepareMsg := masterShardPrePrepareMsg p @ [m]\<rparr>"

definition processMasterShardPrepareMsg :: "payload \<Rightarrow> PluginMsgManager \<Rightarrow> PluginMsgManager" where
  "processMasterShardPrepareMsg m p = p\<lparr>masterShardPrepareMsg := masterShardPrepareMsg p @ [m]\<rparr>"

definition processMasterShardCommitMsg :: "payload \<Rightarrow> PluginMsgManager \<Rightarrow> PluginMsgManager" where
  "processMasterShardCommitMsg m p = p\<lparr>masterShardCommitMsg := masterShardCommitMsg p @ [m]\<rparr>"

definition processReceivedPreCommitedTx :: "payload \<Rightarrow> PluginMsgManager \<Rightarrow> PluginMsgManager" where
  "processReceivedPreCommitedTx m p = p\<lparr>precommit_txs := precommit_txs p @ [m]\<rparr>"

definition processReceivedCommitedTx :: "payload \<Rightarrow> PluginMsgManager \<Rightarrow> PluginMsgManager" where
  "processReceivedCommitedTx m p = p\<lparr>commit_txs := commit_txs p @ [m]\<rparr>"

definition processReceivedWriteSet :: "payload \<Rightarrow> PluginMsgManager \<Rightarrow> PluginMsgManager" where
  "processReceivedWriteSet m p = p\<lparr>readSetQueue := readSetQueue p @ [m]\<rparr>"

definition processBatchDistributedTxMsg :: "payload \<Rightarrow> PluginMsgManager \<Rightarrow> PluginMsgManager" where
  "processBatchDistributedTxMsg m p = p\<lparr>batchdistxs := batchdistxs p @ [m]\<rparr>"

definition processshuffleStateValueMsg :: "payload \<Rightarrow> PluginMsgManager \<Rightarrow> PluginMsgManager" where
  "processshuffleStateValueMsg m p = p\<lparr>shuffleStateValueMsg := shuffleStateValueMsg p @ [m]\<rparr>"

definition processShuffleTxRlpsMsg :: "payload \<Rightarrow> PluginMsgManager \<Rightarrow> PluginMsgManager" where
  "processShuffleTxRlpsMsg m p = p\<lparr>shuffleTxMsg := shuffleTxMsg p @ [m]\<rparr>"

lemmas manager_ops = processReceivedTx_def processReceivedDisTx_def processRWSetMsg_def
  processResponseToForwardMsg_def processCommitResponseTxCoordinatorMsg_def processRequestForMasterShardMsg_def
  processMasterShardPrePrepareMsg_def processMasterShardPrepareMsg_def processMasterShardCommitMsg_def
  processReceivedPreCommitedTx_def processReceivedCommitedTx_def processReceivedWriteSet_def
  processBatchDistributedTxMsg_def processshuffleStateValueMsg_def processShuffleTxRlpsMsg_def

section \<open>The handler\<close>

text \<open>
  Every branch that queues a message has the same body: a null node is only logged, the first item of
  the list is read as a string, and an exception is caught.
\<close>

definition queue_message ::
  "(SyncPacketType \<Rightarrow> string \<Rightarrow> payload) \<Rightarrow> SyncPacketType \<Rightarrow> (payload \<Rightarrow> PluginMsgManager \<Rightarrow> PluginMsgManager)
     \<Rightarrow> string \<Rightarrow> PluginMsgManager \<Rightarrow> PluginMsgManager" where
  "queue_message parse ty push rlps p =
     (if isNull rlps then p
      else case rbind (field 0 rlps) (toString LaissezFaire) of Inl _ \<Rightarrow> p | Inr str \<Rightarrow> push (parse ty str) p)"

definition branches :: "(SyncPacketType \<times> (payload \<Rightarrow> PluginMsgManager \<Rightarrow> PluginMsgManager)) list" where
  "branches =
     [(BlockForStoragePacket, processReceivedTx),
      (DistributedTxPacket, processReceivedDisTx),
      (PreCommittedTxPacket, processReceivedPreCommitedTx),
      (CommittedTxPacket, processReceivedCommitedTx),
      (ReadWriteSetMsg, processRWSetMsg),
      (ResponseToForwardMsg, processResponseToForwardMsg),
      (CommitResponseToCoordinatorMsg, processCommitResponseTxCoordinatorMsg),
      (RequestForMasterShardMsg_pt, processRequestForMasterShardMsg),
      (MasterShardPrePrepareMsg_pt, processMasterShardPrePrepareMsg),
      (MasterShardPrepareMsg_pt, processMasterShardPrepareMsg),
      (MasterShardCommitMsg_pt, processMasterShardCommitMsg),
      (BatchDistributedTxMsg_pt, processBatchDistributedTxMsg),
      (ShuffleStateValueMsg, processshuffleStateValueMsg),
      (ShuffleTxRlpsMsg, processShuffleTxRlpsMsg)]"

text \<open>
  The five packet types whose branch only logs, and all others, leave the queues as they are; an
  exception of \<open>decode\<close> is caught by the handler.
\<close>

fun handle ::
  "(SyncPacketType \<Rightarrow> string \<Rightarrow> payload) \<Rightarrow> (SyncPacketType \<times> (payload \<Rightarrow> PluginMsgManager \<Rightarrow> PluginMsgManager)) list
     \<Rightarrow> nat \<Rightarrow> string \<Rightarrow> PluginMsgManager \<Rightarrow> PluginMsgManager" where
  "handle parse [] ty rlps p = p"
| "handle parse ((t, push) # bs) ty rlps p =
     (if ty = packet_code t then queue_message parse t push rlps p else handle parse bs ty rlps p)"

definition messageHandler ::
  "(SyncPacketType \<Rightarrow> string \<Rightarrow> payload) \<Rightarrow> string \<Rightarrow> PluginMsgManager \<Rightarrow> PluginMsgManager" where
  "messageHandler parse msg p =
     (case decode_packet msg of
        Inl _ \<Rightarrow> p
      | Inr None \<Rightarrow> p
      | Inr (Some (ty, rlps)) \<Rightarrow> handle parse branches ty rlps p)"

section \<open>From the sender's message to the receiver's queue\<close>

lemma prep_items:
  assumes "fits (length (encoding (Items xs)))"
  shows "rbind (prep ident (length xs) new_stream) (rfold write_item xs)
    = Inr \<lparr>m_out = char_of (ident + 1) # encoding (Items xs), m_listStack = []\<rparr>"
  using write_item_raw [OF assms, of "\<lparr>m_out = [char_of (ident + 1)], m_listStack = []\<rparr>"]
  by (simp add: prep_def appendRaw_def noteAppended_def new_stream_def c_syncPacketIDBase_def del: encoding.simps)

lemma first_byte: "n < (128::nat) \<Longrightarrow> encoding (Data [char_of n]) = [char_of n] \<and> fits (length [char_of n :: char])"
  by (simp add: byte_at_def fits_def)

lemma decode_items:
  assumes "fits (length (encoding x))" and "ident < 127"
  shows "decode_packet (char_of (ident + 1) # encoding x) = Inr (Some (ident, encoding x))"
proof -
  let ?c = "char_of (ident + 1) :: char"
  have c: "encoding (Data [?c]) = [?c]" "fits (length [?c])" using first_byte [of "ident + 1"] assms(2) by auto
  have ty: "toInt 4 Strict [?c] = Inr (ident + 1)"
    using toInt_data [OF c(2), of 4] c(1) assms(2)
    by (simp add: byte_at_def fromBigEndian_def del: encoding.simps)
  have check: "checkPacket (?c # encoding x) = Inr True"
    using encoding_nonempty [of x] new_RLP_encoding [OF assms(1)] actualSize_encoding [OF assms(1), of "[]"] assms(2)
    by (cases "encoding x") (auto simp: checkPacket_def cropped_from_def byte_at_def)
  have "new_RLP (cropped (?c # encoding x) 0 1) VeryStrict = Inr [?c]"
    using new_RLP_encoding [of "Data [?c]" VeryStrict] c by (simp add: cropped_def del: encoding.simps)
  then show ?thesis
    using check ty new_RLP_encoding [OF assms(1)] assms(2)
    by (simp add: decode_packet_def cropped_from_def c_syncPacketIDBase_def nat_mod_as_int)
qed

lemma packet_code_small: "packet_code ty < 127"
  by (cases ty) auto

lemma packet_code_inj: "packet_code s = packet_code t \<longleftrightarrow> s = t"
  by (cases s; cases t) auto

lemma header_bound: "fits n \<Longrightarrow> length (item_header base n) \<le> 9"
  using bytesRequired_fits [of n] by (simp add: length_item_header)

lemma data_bound: "fits (length b) \<Longrightarrow> length (encoding (Data b)) \<le> length b + 9"
  using header_bound [of "length b" 128] by auto

lemma fits_message:
  assumes "fits (length b + 18)"
  shows "fits (length (encoding (Items [Data b])))" "fits (length (encodings [Data b]))"
proof -
  have "length (encoding (Data b)) \<le> length b + 9" using assms by (intro data_bound) (simp add: fits_def)
  moreover from this have "fits (length (encoding (Data b)))" using assms by (simp add: fits_def del: encoding.simps)
  ultimately have "length (encoding (Items [Data b])) \<le> length b + 18"
    using header_bound [of "length (encoding (Data b))" 192] by (simp add: Let_def del: encoding.simps(1))
  then show "fits (length (encoding (Items [Data b])))" using assms fits_less by blast
  then show "fits (length (encodings [Data b]))" using fits_less length_body by blast
qed

lemma field_payload:
  assumes "fits (length (encodings xs))" and "payload d = Inr (encodings xs)" and "i < 2 ^ 64 - 1"
  shows "field i d = Inr (item_at xs i)"
  using subscript_cached [OF assms(1) cache_ok_node [OF assms(2)] assms(3)] by (auto simp: field_def)

lemma field_items:
  assumes "fits (length (encodings xs))" and "i < 2 ^ 64 - 1"
  shows "field i (encoding (Items xs)) = Inr (item_at xs i)"
  using field_payload [OF assms(1) list_facts(3) [OF assms(1)] assms(2)] by simp

text \<open>The queues in the order of the record, and the one a packet type goes to.\<close>

definition queues :: "PluginMsgManager \<Rightarrow> payload list list" where
  "queues p = [readSetQueue p, txs p, distxs p, precommit_txs p, commit_txs p, RWSetMsg p,
     responseToForwardMsg p, commitResponseToCoordinatorMsg p, requestForMasterShardMsg p,
     masterShardPrePrepareMsg p, masterShardPrepareMsg p, masterShardCommitMsg p, intraShardTxMsg p,
     shuffleStateValueMsg p, shuffleTxMsg p, batchdistxs p]"

fun queue_of :: "SyncPacketType \<Rightarrow> nat option" where
  "queue_of BlockForStoragePacket = Some 1"
| "queue_of DistributedTxPacket = Some 2"
| "queue_of PreCommittedTxPacket = Some 3"
| "queue_of CommittedTxPacket = Some 4"
| "queue_of ReadWriteSetMsg = Some 5"
| "queue_of ResponseToForwardMsg = Some 6"
| "queue_of CommitResponseToCoordinatorMsg = Some 7"
| "queue_of RequestForMasterShardMsg_pt = Some 8"
| "queue_of MasterShardPrePrepareMsg_pt = Some 9"
| "queue_of MasterShardPrepareMsg_pt = Some 10"
| "queue_of MasterShardCommitMsg_pt = Some 11"
| "queue_of ShuffleStateValueMsg = Some 13"
| "queue_of ShuffleTxRlpsMsg = Some 14"
| "queue_of BatchDistributedTxMsg_pt = Some 15"
| "queue_of _ = None"

lemma handle_queues:
  assumes "rbind (field 0 rlps) (toString LaissezFaire) = Inr str" and "rlps \<noteq> []"
  shows "queues (handle parse branches (packet_code ty) rlps p)
    = (case queue_of ty of None \<Rightarrow> queues p | Some i \<Rightarrow> (queues p)[i := queues p ! i @ [parse ty str]])"
  using assms
  by (cases ty) (simp_all add: branches_def queue_message_def isNull_def queues_def manager_ops)

text \<open>
  C19: A message sent in a packet reaches the queue of its type, behind the messages already there, and
  no other queue changes; packets without a branch that queues them change nothing.
\<close>

theorem messageHandler_delivers:
  assumes "fits (length b + 18)"
  shows "\<exists>frame. rbind (encode_message ty b) toMessage = Inr frame
    \<and> queues (messageHandler parse frame p)
      = (case queue_of ty of None \<Rightarrow> queues p | Some i \<Rightarrow> (queues p)[i := queues p ! i @ [parse ty b]])"
proof -
  let ?x = "Items [Data b]"
  let ?frame = "char_of (packet_code ty + 1) # encoding ?x"
  note fit = fits_message [OF assms]
  have sent: "rbind (encode_message ty b) toMessage = Inr ?frame"
    using prep_items [OF fit(1), of "packet_code ty"]
    by (cases "prep (packet_code ty) 1 new_stream") (auto simp: encode_message_def toMessage_def out_def checked
        rbind_def split: sum.splits)
  have str: "rbind (field 0 (encoding ?x)) (toString LaissezFaire) = Inr b"
  proof -
    have "fits (length b)" using assms by (simp add: fits_def)
    from data_facts [OF this] have "toString LaissezFaire (encoding (Data b)) = Inr b"
      by (simp add: toString_def cropped_def del: encoding.simps)
    then show ?thesis using field_items [OF fit(2), of 0] by (simp add: item_at_def del: encoding.simps)
  qed
  have "messageHandler parse ?frame p = handle parse branches (packet_code ty) (encoding ?x) p"
    using decode_items [OF fit(1) packet_code_small] by (simp add: messageHandler_def del: encoding.simps)
  then show ?thesis using sent handle_queues [OF str encoding_nonempty] by metis
qed

lemma messageHandler_delivers_witness:
  "\<exists>frame. rbind (encode_message ReadWriteSetMsg ''abc'') toMessage = Inr frame
    \<and> queues (messageHandler (\<lambda>ty. OtherMsg ''rwset'') frame new_PluginMsgManager)
      = (queues new_PluginMsgManager)[5 := [OtherMsg ''rwset'' ''abc'']]"
  using messageHandler_delivers [of "''abc''" ReadWriteSetMsg "\<lambda>ty. OtherMsg ''rwset''" new_PluginMsgManager]
  by (simp add: fits_def queues_def new_PluginMsgManager_def)

lemma handle_safe:
  "handle parse bs ty rlps p = p
   \<or> (\<exists>t push str. (t, push) \<in> set bs \<and> handle parse bs ty rlps p = push (parse t str) p)"
proof (induction bs)
  case (Cons b bs)
  obtain t push where b: "b = (t, push)" by fastforce
  have "queue_message parse t push rlps p = p \<or> (\<exists>str. queue_message parse t push rlps p = push (parse t str) p)"
    by (auto simp: queue_message_def split: sum.splits)
  then show ?case using Cons b by auto
qed simp

lemma branch_push:
  "(t, push) \<in> set branches
    \<Longrightarrow> \<exists>i. queue_of t = Some i \<and> i < 16 \<and> queues (push m p) = (queues p)[i := queues p ! i @ [m]]"
  by (auto simp: branches_def queues_def manager_ops)

text \<open>
  Whatever bytes arrive, the handler changes at most one queue, by one message at its end: a frame
  that is cut, over-long or not RLP, or of a type that is not queued, is dropped.
\<close>

theorem messageHandler_any_frame:
  "messageHandler parse frame p = p
   \<or> (\<exists>i m. i < 16 \<and> queues (messageHandler parse frame p) = (queues p)[i := queues p ! i @ [m]])"
proof (cases "messageHandler parse frame p = p")
  case False
  then obtain ty rlps where h: "messageHandler parse frame p = handle parse branches ty rlps p"
    by (auto simp: messageHandler_def split: sum.splits option.splits)
  with False handle_safe [of parse branches ty rlps p] obtain t push str
    where "(t, push) \<in> set branches" "messageHandler parse frame p = push (parse t str) p" by metis
  then show ?thesis using branch_push [of t push "parse t str" p] by metis
qed simp

section \<open>Status packets and block requests\<close>

lemma appendInt_item:
  "bytesRequired i < 56 \<Longrightarrow> appendInt i s = write_item (Data (toCompactBigEndian i 0)) s"
  using append_data [of "toCompactBigEndian i 0" s]
  by (simp add: appendInt_raw compact_0 length_toBigEndian fits_def del: encoding.simps)

lemma length_compact: "length (toCompactBigEndian n 0) = bytesRequired n"
  by (simp add: compact_0 length_toBigEndian)

lemma toInt_compact:
  "bytesRequired n \<le> maxSize \<Longrightarrow> maxSize < 56
    \<Longrightarrow> toInt maxSize Strict (encoding (Data (toCompactBigEndian n 0))) = Inr n"
  using toInt_data [of "toCompactBigEndian n 0" maxSize] compact_lead [of n] value_compact [of n]
  by (simp add: length_compact fits_def del: encoding.simps) (simp add: compact_0)

lemma toHash_data:
  "length h = N \<Longrightarrow> N < 56 \<Longrightarrow> toHash N Strict (encoding (Data h)) = Inr h"
  using data_facts [of h] by (simp add: toHash_def fits_def flag_def rlp_flags Let_def del: encoding.simps)

lemma short_items:
  assumes "list_all (\<lambda>x. \<exists>b. x = Data b \<and> length b < 56) xs" and "length xs < 56"
  shows "fits (length (encodings xs))" "fits (length (encoding (Items xs)))"
proof -
  have "length (encodings xs) \<le> 65 * length xs" using assms(1)
  proof (induction xs)
    case (Cons x xs)
    then obtain b where b: "x = Data b" "length b < 56" by auto
    then have "length (encoding x) \<le> 65" using data_bound [of b] by (simp add: fits_def del: encoding.simps)
    then show ?case using Cons by (simp del: encoding.simps)
  qed simp
  moreover from this have "fits (length (encodings xs))" using assms(2) by (simp add: fits_def)
  ultimately show "fits (length (encodings xs))" "fits (length (encoding (Items xs)))"
    using header_bound [of "length (encodings xs)" 192] assms(2) by (auto simp: fits_def Let_def)
qed

lemma sent_items:
  assumes "list_all (\<lambda>x. \<exists>b. x = Data b \<and> length b < 56) xs" and "length xs < 56" and "ident < 127"
    and "e = rbind (prep ident (length xs) new_stream) (rfold write_item xs)"
  shows "rbind e toMessage = Inr (char_of (ident + 1) # encoding (Items xs))
    \<and> decode_packet (char_of (ident + 1) # encoding (Items xs)) = Inr (Some (ident, encoding (Items xs)))
    \<and> itemCount (encoding (Items xs)) = Inr (length xs)"
proof -
  note fit = short_items [OF assms(1, 2)]
  have "itemCount (encoding (Items xs)) = Inr (length xs)"
    using list_facts(1, 3) [OF fit(1)] count_items_encodings [OF fit(1), of 0]
    by (simp add: itemCount_def items_def del: encoding.simps)
  then show ?thesis
    using prep_items [OF fit(2), of ident] decode_items [OF fit(2) assms(3)] assms(4)
    by (simp add: toMessage_def out_def del: encoding.simps)
qed

lemma bytes_8: "n < 2 ^ 64 \<Longrightarrow> bytesRequired n \<le> 8"
  by (rule bytesRequired_le) simp

lemma rbind_assoc: "rbind (rbind r f) g = rbind r (\<lambda>x. rbind (f x) g)"
  by (cases r) auto

lemma rfold_Nil_fun: "rfold f [] = Inr"
  by (rule ext) simp

lemma rbind_unit: "rbind r Inr = r"
  by (cases r) auto

lemmas counts = numeral_2_eq_2 [symmetric] numeral_3_eq_3 [symmetric] rfold_Nil_fun rbind_unit

lemma count_4: "Suc 3 = 4"
  by simp

text \<open>
  Status packets round-trip, with and without the aligned time: the receiver reads the block number,
  both hashes and the time of the sender. 
\<close>

theorem status_roundtrip:
  assumes "0 \<le> st_number p" "st_number p < 2 ^ 63"
    and "length (st_genesisHash p) = 32" "length (st_latestHash p) = 32"
    and "case st_alignedTime p of None \<Rightarrow> True | Some t \<Rightarrow> 0 \<le> t \<and> t < 2 ^ 63"
  shows "\<exists>d. rbind (encode_status p) toMessage = Inr (char_of (1::nat) # d)
    \<and> decode_packet (char_of (1::nat) # d) = Inr (Some (packet_code StatusPacket, d))
    \<and> decode_status (st_alignedTime p \<noteq> None) d = Inr p"
proof -
  let ?n = "nat (st_number p)"
  let ?base = "[Data (toCompactBigEndian ?n 0), Data (st_genesisHash p), Data (st_latestHash p)]"
  define xs where "xs = (case st_alignedTime p of None \<Rightarrow> ?base
      | Some t \<Rightarrow> ?base @ [Data (toCompactBigEndian (nat t) 0)])"
  have n: "bytesRequired ?n \<le> 8" using assms(1, 2) by (intro bytes_8) simp
  have t: "bytesRequired (nat t) \<le> 8" if "st_alignedTime p = Some t" for t
    using assms(5) that by (intro bytes_8) (simp add: nat_less_iff)
  have short: "list_all (\<lambda>x. \<exists>b. x = Data b \<and> length b < 56) xs" "length xs < 56"
    using n t assms(3, 4) by (auto simp: xs_def length_compact split: option.splits)
  have enc: "encode_status p = rbind (prep 0 (length xs) new_stream) (rfold write_item xs)"
    using n t by (auto simp: encode_status_def xs_def appendInt_item counts count_4 split: option.splits intro!: rbind_cong)
  note sent = sent_items [OF short _ enc]
  have fields: "field i (encoding (Items xs)) = Inr (item_at xs i)" if "i < 4" for i
    using field_items [OF short_items(1) [OF short], of i] that by simp
  have "decode_status (st_alignedTime p \<noteq> None) (encoding (Items xs)) = Inr p"
    using sent fields n t assms
    by (auto simp: decode_status_def xs_def item_at_def toInt_compact toHash_data to_int64_def numeral_3_eq_3
        simp del: encoding.simps split: option.splits)
  then show ?thesis using sent by (auto simp del: encoding.simps)
qed

lemma status_roundtrip_witness:
  "\<exists>d. rbind (encode_status \<lparr>st_number = 5000000000, st_genesisHash = replicate 32 (CHR ''g''),
       st_latestHash = replicate 32 (CHR ''h''), st_alignedTime = Some 12\<rparr>) toMessage = Inr (char_of (1::nat) # d)
    \<and> decode_status True d = Inr \<lparr>st_number = 5000000000, st_genesisHash = replicate 32 (CHR ''g''),
       st_latestHash = replicate 32 (CHR ''h''), st_alignedTime = Some 12\<rparr>"
  using status_roundtrip [of "\<lparr>st_number = 5000000000, st_genesisHash = replicate 32 (CHR ''g''),
       st_latestHash = replicate 32 (CHR ''h''), st_alignedTime = Some 12\<rparr>"] by auto

text \<open>
  A block request carries only the low 32 bits of the first block's number: the receiver, which reads
  a 64-bit number, asks its chain for another block when the number has more. The size arrives as sent.
\<close>

theorem reqBlock_truncates:
  assumes "n < 2 ^ 32"
  shows "\<exists>d. rbind (encode_reqBlock from n) toMessage = Inr (char_of (4::nat) # d)
    \<and> decode_packet (char_of (4::nat) # d) = Inr (Some (packet_code ReqBlocskPacket, d))
    \<and> rbind (field 0 d) (toInt 8 Strict) = Inr (nat (from mod 2 ^ 32))
    \<and> rbind (field 1 d) (toInt 4 Strict) = Inr n"
proof -
  let ?m = "nat (from mod 2 ^ 32)"
  let ?xs = "[Data (toCompactBigEndian ?m 0), Data (toCompactBigEndian n 0)]"
  have "bytesRequired ?m \<le> 4" by (rule bytesRequired_le) (simp add: nat_less_iff)
  moreover have "bytesRequired n \<le> 4" using assms by (intro bytesRequired_le) simp
  ultimately have small: "bytesRequired ?m \<le> 4" "bytesRequired n \<le> 4" by auto
  have short: "list_all (\<lambda>x. \<exists>b. x = Data b \<and> length b < 56) ?xs" "length ?xs < 56"
    using small by (auto simp: length_compact)
  have enc: "encode_reqBlock from n = rbind (prep 3 (length ?xs) new_stream) (rfold write_item ?xs)"
    using small by (auto simp: encode_reqBlock_def appendInt_item counts intro!: rbind_cong)
  note sent = sent_items [OF short _ enc]
  have fields: "field i (encoding (Items ?xs)) = Inr (item_at ?xs i)" if "i < 2" for i
    using field_items [OF short_items(1) [OF short], of i] that by simp
  show ?thesis
    using sent fields [of 0] fields [of 1] small
    by (auto simp: item_at_def toInt_compact simp del: encoding.simps)
qed

lemma reqBlock_truncates_witness:
  "\<exists>d. rbind (encode_reqBlock 4294967301 8) toMessage = Inr (char_of (4::nat) # d)
    \<and> rbind (field 0 d) (toInt 8 Strict) = Inr 5"
  using reqBlock_truncates [of 8 4294967301] by auto

end
