(* ===== verification/ThreadMaster.thy ===== *)
theory ThreadMaster
  imports Executer Packets
begin

text \<open>
  The threads that receive the messages of other shards (\<open>libplugin/SyncThreadMaster.cpp\<close>): one takes
  the commit reports, the other goes round over the remaining queues, takes at most one message of each,
  counts what it has to count and lets the forward node propose a transaction of its own shard. The
  executer's handlers run when the proposal has been agreed on.
\<close>

section \<open>State\<close>

text \<open>
  \<open>m_masterRequestVotes\<close> is a global of the plugin. A queue holds messages of its own type, so the last
  branch of the handlers below is never taken; \<open>queues_typed\<close> states it.
\<close>

record SyncThreadMaster =
  m_pluginManager :: PluginMsgManager
  m_transactionExecuter :: executer
  m_masterRequestVotes :: "string \<rightharpoonup> int"
  m_sendedStateChangeCommit :: "string set"

definition new_SyncThreadMaster :: "executer \<Rightarrow> SyncThreadMaster" where
  "new_SyncThreadMaster s = \<lparr>m_pluginManager = new_PluginMsgManager, m_transactionExecuter = s,
     m_masterRequestVotes = Map.empty, m_sendedStateChangeCommit = {}\<rparr>"

definition on_executer :: "(executer \<Rightarrow> executer result) \<Rightarrow> SyncThreadMaster \<Rightarrow> SyncThreadMaster result" where
  "on_executer f t = rbind (f (m_transactionExecuter t)) (\<lambda>s. Inr (t\<lparr>m_transactionExecuter := s\<rparr>))"

text \<open>
  The transaction the forward node proposes to its shard carries the text up to its first zero byte;
  nonce, key and signature are fresh.
\<close>

definition c_str :: "string \<Rightarrow> string" where "c_str s = takeWhile (\<lambda>c. c \<noteq> CHR 0x00) s"

definition propose :: "environment \<Rightarrow> string \<Rightarrow> executer \<Rightarrow> executer result" where
  "propose env data s =
     rbind (forward_node env) (\<lambda>fwd.
       Inr (if fwd then emit (RawTransaction (e_group env) (c_str data)) s else s))"

definition uint64 :: "int \<Rightarrow> int" where "uint64 i = i mod 2 ^ 64"

section \<open>One message of each kind\<close>

definition receive_batch :: "environment \<Rightarrow> payload \<Rightarrow> executer \<Rightarrow> executer result" where
  "receive_batch env m s =
     (case m of BatchDistributedTxMsg coordinator epochId txcontents intrashard shuffle \<Rightarrow>
        propose env (''0x999000111'' @ ''|'' @ to_string (uint64 coordinator) @ ''|'' @ to_string (uint64 epochId)
          @ ''#'' @ none_if_empty txcontents @ ''#'' @ none_if_empty intrashard @ ''#'' @ shuffle) s
      | _ \<Rightarrow> Inr s)"

definition receive_key ::
  "environment \<Rightarrow> string list \<Rightarrow> string list \<Rightarrow> string list \<Rightarrow> string \<Rightarrow> nat \<Rightarrow> executer \<Rightarrow> executer result" where
  "receive_key env keyItems valueItems contentionItems sourceshardid i s =
     rbind (vec_at keyItems i) (\<lambda>receivedKey.
     rbind (vec_at valueItems i) (\<lambda>receivedValue.
     rbind (vec_at contentionItems i) (\<lambda>contentionRate.
     rbind (vec_at (e_split env CHR ''_'' receivedKey) 0) (\<lambda>originalKey.
       Inr (s\<lparr>m_LRU_StatesInfo := updateRemoteKeyContention originalKey contentionRate sourceshardid (m_LRU_StatesInfo s),
              m_readWriteSetManager := insertReceivedRwset originalKey (m_readWriteSetManager s)\<rparr>)))))"

definition receive_rwset :: "environment \<Rightarrow> payload \<Rightarrow> executer \<Rightarrow> executer result" where
  "receive_rwset env m s =
     (case m of csTxRWset rwKeys rwValues rwContentionRates sourceshardid \<Rightarrow>
        let keyItems = e_split env CHR ''|'' rwKeys;
            valueItems = e_split env CHR ''|'' rwValues;
            contentionItems = e_split env CHR ''|'' rwContentionRates
        in rfold (receive_key env keyItems valueItems contentionItems (to_string sourceshardid))
             [0..<length keyItems] s
      | _ \<Rightarrow> Inr s)"

definition receive_shuffleValue :: "environment \<Rightarrow> payload \<Rightarrow> executer \<Rightarrow> executer result" where
  "receive_shuffleValue env m s =
     (case m of ShuffleStateValue stateKey stateValue sourceshardid \<Rightarrow>
        propose env (''0x000000001'' @ ''|'' @ stateKey @ ''|'' @ stateValue @ ''|'' @ sourceshardid) s
      | _ \<Rightarrow> Inr s)"

definition receive_shuffleTx :: "environment \<Rightarrow> payload \<Rightarrow> executer \<Rightarrow> executer result" where
  "receive_shuffleTx env m s =
     (case m of ShuffleTxRlps blocked_txRLPs \<Rightarrow> propose env (''0x000000002'' @ ''|'' @ blocked_txRLPs) s
      | _ \<Rightarrow> Inr s)"

definition receive_request :: "environment \<Rightarrow> payload \<Rightarrow> executer \<Rightarrow> executer result" where
  "receive_request env m s =
     (case m of RequestForMasterShardMsg sourceshardid destinshardid readwritekeys requestmessageid \<Rightarrow>
        propose env (''0x777888999'' @ ''|'' @ to_string sourceshardid @ ''|'' @ to_string destinshardid
          @ ''|'' @ readwritekeys @ ''|'' @ requestmessageid) s
      | _ \<Rightarrow> Inr s)"

definition change_data :: "string \<Rightarrow> string \<Rightarrow> string \<Rightarrow> string \<Rightarrow> string \<Rightarrow> int \<Rightarrow> string" where
  "change_data requestLabel sourceshardid destinshardid readwritekeys requestmessageid coordinatorshardid =
     requestLabel @ ''|'' @ sourceshardid @ ''|'' @ destinshardid @ ''|'' @ readwritekeys @ ''|''
       @ requestmessageid @ ''|'' @ to_string coordinatorshardid"

definition receive_prePrepare :: "environment \<Rightarrow> payload \<Rightarrow> executer \<Rightarrow> executer result" where
  "receive_prePrepare env m s =
     (case m of MasterShardPrePrepareMsg sourceshardid destinshardid readwritekeys requestmessageid coordinator \<Rightarrow>
        propose env (change_data ''0x000111222'' sourceshardid destinshardid readwritekeys requestmessageid coordinator) s
      | _ \<Rightarrow> Inr s)"

text \<open>The second vote on a request lets the forward node propose it, and only once.\<close>

definition receive_prepare :: "environment \<Rightarrow> payload \<Rightarrow> SyncThreadMaster \<Rightarrow> SyncThreadMaster result" where
  "receive_prepare env m t =
     (case m of MasterShardPrepareMsg sourceshardid destinshardid readwritekey requestmessageid coordinator \<Rightarrow>
        let votes = bump (m_masterRequestVotes t) requestmessageid;
            t1 = t\<lparr>m_masterRequestVotes := votes\<rparr>
        in rbind (map_at votes requestmessageid) (\<lambda>voteNum.
             if voteNum = 2 \<and> requestmessageid \<notin> m_sendedStateChangeCommit t1 then
               on_executer (propose env (change_data ''0x333444555'' sourceshardid destinshardid readwritekey
                   requestmessageid coordinator))
                 (t1\<lparr>m_sendedStateChangeCommit := insert requestmessageid (m_sendedStateChangeCommit t1)\<rparr>)
             else Inr t1)
      | _ \<Rightarrow> Inr t)"

definition receive_commit :: "environment \<Rightarrow> payload \<Rightarrow> executer \<Rightarrow> executer result" where
  "receive_commit env m s =
     (case m of MasterShardCommitMsg sourceshardid destinshardid readwritekey requestmessageid coordinator \<Rightarrow>
        propose env (change_data ''0x666777888'' sourceshardid destinshardid readwritekey requestmessageid coordinator) s
      | _ \<Rightarrow> Inr s)"

text \<open>A commit report: the end of every listed transaction is recorded, the first report counts.\<close>

definition receive_commitResponse :: "environment \<Rightarrow> payload \<Rightarrow> executer \<Rightarrow> executer result" where
  "receive_commitResponse env m s =
     (case m of CommitResponseToCoordinator participantshardid intershardTxids \<Rightarrow>
        let items = e_split env CHR ''|'' intershardTxids
        in rbind (rfold (\<lambda>item s.
               rbind (vec_at (e_split env CHR ''_'' (c_str item)) 0) (\<lambda>txid.
                 let txid = c_str txid
                 in Inr (s\<lparr>m_txid_to_endtime :=
                        (if map_of (m_txid_to_endtime s) txid = None then om_insert txid (e_now env) (m_txid_to_endtime s)
                         else m_txid_to_endtime s)\<rparr>))) items s) (\<lambda>s.
             Inr (add_processedTxNum_by (int (length items)) s))
      | _ \<Rightarrow> Inr s)"

section \<open>The loops of the threads\<close>

text \<open>\<open>try_pop\<close> takes the head of a queue, if there is one.\<close>

definition with_popped ::
  "(PluginMsgManager \<Rightarrow> payload list) \<Rightarrow> (payload list \<Rightarrow> PluginMsgManager \<Rightarrow> PluginMsgManager)
     \<Rightarrow> (payload \<Rightarrow> SyncThreadMaster \<Rightarrow> SyncThreadMaster result) \<Rightarrow> SyncThreadMaster \<Rightarrow> SyncThreadMaster result" where
  "with_popped get put handler t =
     (case get (m_pluginManager t) of
        [] \<Rightarrow> Inr t
      | m # ms \<Rightarrow> handler m (t\<lparr>m_pluginManager := put ms (m_pluginManager t)\<rparr>))"

definition receiveRemoteMsgWorker :: "environment \<Rightarrow> SyncThreadMaster \<Rightarrow> SyncThreadMaster result" where
  "receiveRemoteMsgWorker env t =
     rbind (with_popped batchdistxs (\<lambda>q p. p\<lparr>batchdistxs := q\<rparr>) (\<lambda>m. on_executer (receive_batch env m)) t) (\<lambda>t.
     rbind (with_popped RWSetMsg (\<lambda>q p. p\<lparr>RWSetMsg := q\<rparr>) (\<lambda>m. on_executer (receive_rwset env m)) t) (\<lambda>t.
     rbind (with_popped shuffleStateValueMsg (\<lambda>q p. p\<lparr>shuffleStateValueMsg := q\<rparr>)
              (\<lambda>m. on_executer (receive_shuffleValue env m)) t) (\<lambda>t.
     rbind (with_popped shuffleTxMsg (\<lambda>q p. p\<lparr>shuffleTxMsg := q\<rparr>) (\<lambda>m. on_executer (receive_shuffleTx env m)) t) (\<lambda>t.
     rbind (with_popped requestForMasterShardMsg (\<lambda>q p. p\<lparr>requestForMasterShardMsg := q\<rparr>)
              (\<lambda>m. on_executer (receive_request env m)) t) (\<lambda>t.
     rbind (with_popped masterShardPrePrepareMsg (\<lambda>q p. p\<lparr>masterShardPrePrepareMsg := q\<rparr>)
              (\<lambda>m. on_executer (receive_prePrepare env m)) t) (\<lambda>t.
     rbind (with_popped masterShardPrepareMsg (\<lambda>q p. p\<lparr>masterShardPrepareMsg := q\<rparr>) (receive_prepare env) t) (\<lambda>t.
     with_popped masterShardCommitMsg (\<lambda>q p. p\<lparr>masterShardCommitMsg := q\<rparr>)
              (\<lambda>m. on_executer (receive_commit env m)) t)))))))"

definition receiveRemoteCommitMsgWorker :: "environment \<Rightarrow> SyncThreadMaster \<Rightarrow> SyncThreadMaster result" where
  "receiveRemoteCommitMsgWorker env =
     with_popped commitResponseToCoordinatorMsg (\<lambda>q p. p\<lparr>commitResponseToCoordinatorMsg := q\<rparr>)
       (\<lambda>m. on_executer (receive_commitResponse env m))"

section \<open>Read-write sets of other shards\<close>

definition take_key :: "string \<Rightarrow> string \<Rightarrow> string \<Rightarrow> executer \<Rightarrow> executer" where
  "take_key src k r s =
     s\<lparr>m_LRU_StatesInfo := updateRemoteKeyContention k r src (m_LRU_StatesInfo s),
       m_readWriteSetManager := insertReceivedRwset k (m_readWriteSetManager s)\<rparr>"

lemma take_key_fields [simp]:
  "m_LRU_StatesInfo (take_key src k r s) = updateRemoteKeyContention k r src (m_LRU_StatesInfo s)"
  "m_readWriteSetManager (take_key src k r s) = insertReceivedRwset k (m_readWriteSetManager s)"
  "(take_key src k r s)\<lparr>m_LRU_StatesInfo := l, m_readWriteSetManager := m\<rparr>
     = s\<lparr>m_LRU_StatesInfo := l, m_readWriteSetManager := m\<rparr>"
  by (simp_all add: take_key_def)

lemma receive_keys_fold:
  assumes sp: "splits_ok (e_split env)" and "length vals = length keys" "length rates = length keys"
    and free: "\<And>k. k \<in> set keys \<Longrightarrow> CHR ''_'' \<notin> set k"
  shows "n \<le> length keys \<Longrightarrow> rfold (receive_key env keys vals rates src) [0..<n] s
    = Inr (fold (\<lambda>(k, r). take_key src k r) (zip (take n keys) (take n rates)) s)"
proof (induction n)
  case (Suc n)
  then have "e_split env CHR ''_'' (keys ! n) = [keys ! n]"
    using splits_single [OF sp, of "CHR ''_''" "keys ! n"] free [of "keys ! n"] by simp
  then show ?case
    using Suc assms(2, 3)
    by (simp add: rfold_append receive_key_def vec_at_def take_key_def take_Suc_conv_app_nth)
qed simp

lemma received_fold:
  "received (m_readWriteSetManager (fold (\<lambda>(k, r). take_key src k r) ps s)) j
    = received (m_readWriteSetManager s) j + int (count_list (map fst ps) j)"
  by (induction ps arbitrary: s) (auto simp: received_insert)

lemma remote_update:
  "getRemoteKeyIntraContention (updateRemoteKeyContention k r src l) e j
    = (if j = k then (src, r) else getRemoteKeyIntraContention l e j)"
  by (auto simp: getRemoteKeyIntraContention_def updateRemoteKeyContention_def split: option.splits)

lemma remote_fold_other:
  "j \<notin> set (map fst ps) \<Longrightarrow>
    getRemoteKeyIntraContention (m_LRU_StatesInfo (fold (\<lambda>(k, r). take_key src k r) ps s)) e j
      = getRemoteKeyIntraContention (m_LRU_StatesInfo s) e j"
  by (induction ps arbitrary: s) (auto simp: remote_update)

lemma remote_fold:
  "distinct (map fst ps) \<Longrightarrow> (k, r) \<in> set ps \<Longrightarrow>
    getRemoteKeyIntraContention (m_LRU_StatesInfo (fold (\<lambda>(k, r). take_key src k r) ps s)) e k = (src, r)"
proof (induction ps arbitrary: s)
  case (Cons p ps)
  then show ?case
    using remote_fold_other [of k ps src "take_key src k r s" e]
    by (auto simp: remote_update image_iff)
qed simp

lemma fold_take_key_frame:
  "fold (\<lambda>(k, r). take_key src k r) ps s
    = s\<lparr>m_LRU_StatesInfo := m_LRU_StatesInfo (fold (\<lambda>(k, r). take_key src k r) ps s),
        m_readWriteSetManager := m_readWriteSetManager (fold (\<lambda>(k, r). take_key src k r) ps s)\<rparr>"
proof (induction ps arbitrary: s)
  case (Cons p ps)
  obtain k r where p: "p = (k, r)" by fastforce
  show ?case
    unfolding fold.simps o_def p prod.case
    by (rule trans [OF Cons.IH [of "take_key src k r s"]]) (simp only: take_key_fields(3))
qed simp

text \<open>
  A message with read-write sets raises the count of received copies of every listed state by as
  often as the state is listed and of no other state, records the rate of contention of a state at its
  owner, and changes nothing else of the executer.
\<close>

theorem receive_rwset_counts:
  assumes sp: "splits_ok (e_split env)" and ne: "keys \<noteq> []"
    and len: "length vals = length keys" "length rates = length keys"
    and free: "\<And>k. k \<in> set keys \<Longrightarrow> k \<noteq> [] \<and> CHR ''|'' \<notin> set k \<and> CHR ''_'' \<notin> set k"
    and free': "\<And>v. v \<in> set vals \<union> set rates \<Longrightarrow> v \<noteq> [] \<and> CHR ''|'' \<notin> set v"
    and msg: "m = csTxRWset (join_with ''|'' keys) (join_with ''|'' vals) (join_with ''|'' rates) source"
  shows "\<exists>t. receive_rwset env m s = Inr t
    \<and> (\<forall>k. received (m_readWriteSetManager t) k = received (m_readWriteSetManager s) k + int (count_list keys k))
    \<and> (distinct keys \<longrightarrow> (\<forall>i < length keys.
          getRemoteKeyIntraContention (m_LRU_StatesInfo t) '''' (keys ! i) = (to_string source, rates ! i)))
    \<and> t = s\<lparr>m_LRU_StatesInfo := m_LRU_StatesInfo t, m_readWriteSetManager := m_readWriteSetManager t\<rparr>"
proof -
  let ?t = "fold (\<lambda>(k, r). take_key (to_string source) k r) (zip keys rates) s"
  have ne': "vals \<noteq> []" "rates \<noteq> []" using ne len by auto
  have "e_split env CHR ''|'' (join_with ''|'' keys) = keys"
       "e_split env CHR ''|'' (join_with ''|'' vals) = vals"
       "e_split env CHR ''|'' (join_with ''|'' rates) = rates"
    using splits_join [OF sp ne, of "CHR ''|''"] splits_join [OF sp ne'(1), of "CHR ''|''"]
      splits_join [OF sp ne'(2), of "CHR ''|''"] free free' by auto
  then have run: "receive_rwset env m s = Inr ?t"
    using receive_keys_fold [OF sp len, of "length keys" "to_string source" s] free len msg
    by (simp add: receive_rwset_def)
  have pairs: "(keys ! i, rates ! i) \<in> set (zip keys rates)" if "i < length keys" for i
    using that len by (auto simp: set_zip)
  have "getRemoteKeyIntraContention (m_LRU_StatesInfo ?t) '''' (keys ! i) = (to_string source, rates ! i)"
    if "distinct keys" "i < length keys" for i
    using remote_fold [OF _ pairs [OF that(2)]] that len by simp
  then show ?thesis
    using run received_fold [of "to_string source" "zip keys rates" s] fold_take_key_frame len
    by (intro exI [of _ ?t]) auto
qed

section \<open>Proposals\<close>

text \<open>What the forward node proposes for a message, and the handler its label stands for.\<close>

fun proposal :: "payload \<Rightarrow> string" where
  "proposal (BatchDistributedTxMsg c e tx intra sh) = batch_data (uint64 c) (uint64 e) tx intra sh"
| "proposal (ShuffleStateValue k v src) = ''0x000000001'' @ ''|'' @ k @ ''|'' @ v @ ''|'' @ src"
| "proposal (ShuffleTxRlps rlps) = ''0x000000002'' @ ''|'' @ rlps"
| "proposal (RequestForMasterShardMsg a b k i) =
     ''0x777888999'' @ ''|'' @ to_string a @ ''|'' @ to_string b @ ''|'' @ k @ ''|'' @ i"
| "proposal (MasterShardPrePrepareMsg a b k i c) = change_data ''0x000111222'' a b k i c"
| "proposal (MasterShardPrepareMsg a b k i c) = change_data ''0x333444555'' a b k i c"
| "proposal (MasterShardCommitMsg a b k i c) = change_data ''0x666777888'' a b k i c"
| "proposal _ = []"

fun handler_of :: "payload \<Rightarrow> environment \<Rightarrow> transaction \<Rightarrow> executer \<Rightarrow> executer result" where
  "handler_of (BatchDistributedTxMsg c e tx intra sh) env t s =
     processOrderedBatchedSubInterShardTxs env (tx_data t) s"
| "handler_of (ShuffleStateValue k v src) env t s = processShuffleValueTx env t s"
| "handler_of (ShuffleTxRlps rlps) env t s = processShuffleTx env t s"
| "handler_of (RequestForMasterShardMsg a b k i) env t s = processStateMasterRequestTx env t s"
| "handler_of (MasterShardPrePrepareMsg a b k i c) env t s = processMasterChangePrePrepareTx env t s"
| "handler_of (MasterShardPrepareMsg a b k i c) env t s = processMasterChangePrepareTx env t s"
| "handler_of (MasterShardCommitMsg a b k i c) env t s = processMasterChangeCommitTx env t s"
| "handler_of _ env t s = Inr s"

lemma find_label:
  "take (length m) body = m \<Longrightarrow> find_sub (CHR ''0'' # CHR ''x'' # body) (CHR ''0'' # CHR ''x'' # m) = Some 0"
  "CHR ''x'' \<notin> set body \<Longrightarrow> take (length m) body \<noteq> m
    \<Longrightarrow> find_sub (CHR ''0'' # CHR ''x'' # body) (CHR ''0'' # CHR ''x'' # m) = None"
proof -
  show "find_sub (CHR ''0'' # CHR ''x'' # body) (CHR ''0'' # CHR ''x'' # m) = Some 0"
    if "take (length m) body = m" using that by simp
  assume x: "CHR ''x'' \<notin> set body" and other: "take (length m) body \<noteq> m"
  have "False" if "CHR ''0'' # CHR ''x'' # body = xs @ (CHR ''0'' # CHR ''x'' # m) @ ys" for xs ys
  proof (cases xs)
    case Nil
    then show False using that other by simp
  next
    case (Cons c cs)
    then show False using that x by (cases cs) auto
  qed
  then show "find_sub (CHR ''0'' # CHR ''x'' # body) (CHR ''0'' # CHR ''x'' # m) = None"
    using find_sub_None by blast
qed

lemma label_type:
  assumes "CHR ''x'' \<notin> set rest"
  shows "checkTransactionType (''0x777888999'' @ rest) = (4, ''0x777888999'' @ rest)"
    and "checkTransactionType (''0x000111222'' @ rest) = (5, ''0x000111222'' @ rest)"
    and "checkTransactionType (''0x333444555'' @ rest) = (6, ''0x333444555'' @ rest)"
    and "checkTransactionType (''0x666777888'' @ rest) = (7, ''0x666777888'' @ rest)"
    and "checkTransactionType (''0x000000001'' @ rest) = (10, ''0x000000001'' @ rest)"
    and "checkTransactionType (''0x000000002'' @ rest) = (11, ''0x000000002'' @ rest)"
  using assms by (simp_all add: checkTransactionType_def label_tests_def find_label del: find_sub.simps)

lemma batch_type: "checkTransactionType (''0x999000111'' @ rest) = (1, ''0x999000111'' @ rest)"
  by (simp add: checkTransactionType_def label_tests_def find_label(1) del: find_sub.simps)

lemma receive_proposes:
  "receive_batch env (BatchDistributedTxMsg c e tx intra sh) s = propose env (proposal (BatchDistributedTxMsg c e tx intra sh)) s"
  "receive_shuffleValue env (ShuffleStateValue k v src) s = propose env (proposal (ShuffleStateValue k v src)) s"
  "receive_shuffleTx env (ShuffleTxRlps r) s = propose env (proposal (ShuffleTxRlps r)) s"
  "receive_request env (RequestForMasterShardMsg a b k i) s = propose env (proposal (RequestForMasterShardMsg a b k i)) s"
  "receive_prePrepare env (MasterShardPrePrepareMsg a' b' k i c) s
     = propose env (proposal (MasterShardPrePrepareMsg a' b' k i c)) s"
  "receive_commit env (MasterShardCommitMsg a' b' k i c) s = propose env (proposal (MasterShardCommitMsg a' b' k i c)) s"
  by (simp_all add: receive_batch_def batch_data_def receive_shuffleValue_def receive_shuffleTx_def
      receive_request_def receive_prePrepare_def receive_commit_def)

text \<open>The texts of a message's fields, which must not hold what the readers of the proposal stumble over.\<close>

fun texts :: "payload \<Rightarrow> string list" where
  "texts (BatchDistributedTxMsg c e tx intra sh) = [tx, intra, sh]"
| "texts (ShuffleStateValue k v src) = [k, v, src]"
| "texts (ShuffleTxRlps rlps) = [rlps]"
| "texts (RequestForMasterShardMsg a b k i) = [k, i]"
| "texts (MasterShardPrePrepareMsg a b k i c) = [a, b, k, i]"
| "texts (MasterShardPrepareMsg a b k i c) = [a, b, k, i]"
| "texts (MasterShardCommitMsg a b k i c) = [a, b, k, i]"
| "texts _ = []"

definition plain_char :: "char \<Rightarrow> bool" where
  "plain_char c = (\<not> is_space c \<and> c \<noteq> CHR 0x00)"

definition plain_message :: "payload \<Rightarrow> bool" where
  "plain_message m = (list_all (list_all plain_char) (texts m)
     \<and> (case m of BatchDistributedTxMsg c e tx intra sh \<Rightarrow> True
         | _ \<Rightarrow> list_all (list_all (\<lambda>c. c \<noteq> CHR ''x'')) (texts m)))"

lemma plain_number: "list_all plain_char (to_string i)" "CHR ''x'' \<notin> set (to_string i)"
  using to_string_chars [of _ i]
  by (auto simp: list_all_iff plain_char_def is_digit_def is_space_def dest!: to_string_chars)

lemma c_str_plain: "list_all plain_char s \<Longrightarrow> c_str s = s"
  by (auto simp: c_str_def list_all_iff plain_char_def takeWhile_eq_all_conv)

lemma proposal_plain: "plain_message m \<Longrightarrow> list_all plain_char (proposal m)"
  by (cases m) (simp_all add: plain_message_def batch_data_def change_data_def none_if_empty_def plain_number,
      simp_all add: plain_char_def is_space_def)

lemma proposal_read: "plain_message m \<Longrightarrow> dataToHexString (c_str (proposal m)) = proposal m"
  using proposal_plain [of m] dataToHexString_solid [of "proposal m"]
  by (simp add: c_str_plain) (simp add: list_all_iff plain_char_def)

fun type_of :: "payload \<Rightarrow> int" where
  "type_of (BatchDistributedTxMsg c e tx intra sh) = 1"
| "type_of (ShuffleStateValue k v src) = 10"
| "type_of (ShuffleTxRlps rlps) = 11"
| "type_of (RequestForMasterShardMsg a b k i) = 4"
| "type_of (MasterShardPrePrepareMsg a b k i c) = 5"
| "type_of (MasterShardPrepareMsg a b k i c) = 6"
| "type_of (MasterShardCommitMsg a b k i c) = 7"
| "type_of _ = 0"

lemma proposal_type:
  assumes "plain_message m" and "proposal m \<noteq> []"
  shows "checkTransactionType (proposal m) = (type_of m, proposal m)"
proof (cases m)
  case BatchDistributedTxMsg
  then show ?thesis by (simp only: proposal.simps type_of.simps batch_data_def batch_type)
next
  case (ShuffleStateValue k v src)
  have "CHR ''x'' \<notin> set (''|'' @ k @ ''|'' @ v @ ''|'' @ src)"
    using assms(1) ShuffleStateValue by (auto simp: plain_message_def list_all_iff)
  from label_type [OF this] show ?thesis by (simp only: ShuffleStateValue proposal.simps type_of.simps)
next
  case (ShuffleTxRlps r)
  have "CHR ''x'' \<notin> set (''|'' @ r)" using assms(1) ShuffleTxRlps by (auto simp: plain_message_def list_all_iff)
  from label_type [OF this] show ?thesis by (simp only: ShuffleTxRlps proposal.simps type_of.simps)
next
  case (RequestForMasterShardMsg a b k i)
  have "CHR ''x'' \<notin> set (''|'' @ to_string a @ ''|'' @ to_string b @ ''|'' @ k @ ''|'' @ i)"
    using assms(1) RequestForMasterShardMsg by (auto simp: plain_message_def list_all_iff plain_number(2))
  from label_type [OF this] show ?thesis by (simp only: RequestForMasterShardMsg proposal.simps type_of.simps)
next
  case (MasterShardPrePrepareMsg a b k i c)
  have "CHR ''x'' \<notin> set (''|'' @ a @ ''|'' @ b @ ''|'' @ k @ ''|'' @ i @ ''|'' @ to_string c)"
    using assms(1) MasterShardPrePrepareMsg by (auto simp: plain_message_def list_all_iff plain_number(2))
  from label_type [OF this] show ?thesis by (simp only: MasterShardPrePrepareMsg proposal.simps type_of.simps change_data_def)
next
  case (MasterShardPrepareMsg a b k i c)
  have "CHR ''x'' \<notin> set (''|'' @ a @ ''|'' @ b @ ''|'' @ k @ ''|'' @ i @ ''|'' @ to_string c)"
    using assms(1) MasterShardPrepareMsg by (auto simp: plain_message_def list_all_iff plain_number(2))
  from label_type [OF this] show ?thesis by (simp only: MasterShardPrepareMsg proposal.simps type_of.simps change_data_def)
next
  case (MasterShardCommitMsg a b k i c)
  have "CHR ''x'' \<notin> set (''|'' @ a @ ''|'' @ b @ ''|'' @ k @ ''|'' @ i @ ''|'' @ to_string c)"
    using assms(1) MasterShardCommitMsg by (auto simp: plain_message_def list_all_iff plain_number(2))
  from label_type [OF this] show ?thesis by (simp only: MasterShardCommitMsg proposal.simps type_of.simps change_data_def)
qed (use assms(2) in auto)

text \<open>
  What the forward node proposes for a message is, once agreed on, executed by the handler for
  that message: its label is recognised and its data arrives unchanged, for every kind of message whose
  texts have no white space and no zero byte, and no \<open>x\<close> (which could begin another label) except in a
  batch, whose label is looked for first.
\<close>

theorem proposal_dispatch:
  assumes "plain_message m" and "tx_data tx = c_str (proposal m)" and "proposal m \<noteq> []"
  shows "process_tx env tx s = handler_of m env tx s"
proof -
  have data: "dataToHexString (tx_data tx) = proposal m" "tx_data tx = proposal m"
    using assms(2) proposal_read [OF assms(1)] c_str_plain [OF proposal_plain [OF assms(1)]] by auto
  show ?thesis
    using assms(3) unfolding process_tx_def data(1) proposal_type [OF assms(1, 3)]
    by (cases m) (simp_all add: data(2))
qed

lemma proposal_dispatch_witness:
  "process_tx (env_of 1 example_tree ''n1'') \<lparr>tx_data = ''0x000000002|ab_cd'', tx_rlp = ''00'', tx_hash = ''h''\<rparr> new_executer
    = processShuffleTx (env_of 1 example_tree ''n1'') \<lparr>tx_data = ''0x000000002|ab_cd'', tx_rlp = ''00'', tx_hash = ''h''\<rparr> new_executer"
  using proposal_dispatch [of "ShuffleTxRlps ''ab_cd''"
      "\<lparr>tx_data = ''0x000000002|ab_cd'', tx_rlp = ''00'', tx_hash = ''h''\<rparr>" "env_of 1 example_tree ''n1''" new_executer]
  by (simp add: plain_message_def plain_char_def is_space_def c_str_def)

section \<open>Batches for the own shard and for another\<close>

text \<open>
  The coordinator's own shard and a shard that receives the batch as a message get the same
  proposal: what \<open>sendBatchDistributedTxMsg\<close> does for its own shard is what the receiving thread does
  with the message.
\<close>

theorem batch_same_proposal:
  assumes "0 \<le> e_group env" "e_group env < 2 ^ 64" "0 \<le> epochId" "epochId < 2 ^ 64"
  shows "sendBatchDistributedTxMsg env (e_group env) epochId (e_group env) tx intra sh s
    = receive_batch env (BatchDistributedTxMsg (e_group env) epochId tx intra sh) s"
proof -
  have u: "uint64 (e_group env) = e_group env" "uint64 epochId = epochId" using assms by (simp_all add: uint64_def)
  have c_text: "takeWhile (\<lambda>x. x \<noteq> char_of (0::nat)) d = c_str d" for d
  proof -
    have zero: "char_of (0::nat) = CHR 0x00" by code_simp
    show ?thesis by (simp only: c_str_def zero)
  qed
  show ?thesis
    by (simp only: receive_proposes proposal.simps u sendBatchDistributedTxMsg_def propose_def c_text simp_thms if_True)
qed

section \<open>Votes\<close>

fun vote_id :: "payload \<Rightarrow> string" where
  "vote_id (MasterShardPrepareMsg a b k i c) = i"
| "vote_id _ = []"

definition is_prepare :: "payload \<Rightarrow> bool" where
  "is_prepare m = (case m of MasterShardPrepareMsg a b k i c \<Rightarrow> True | _ \<Rightarrow> False)"

text \<open>The messages that are the second vote on their request, in order of arrival.\<close>

fun second_votes :: "string list \<Rightarrow> payload list \<Rightarrow> payload list" where
  "second_votes seen [] = []"
| "second_votes seen (m # ms) =
     (if count_list seen (vote_id m) = 1 then [m] else []) @ second_votes (vote_id m # seen) ms"

definition votes_match :: "string list \<Rightarrow> SyncThreadMaster \<Rightarrow> bool" where
  "votes_match seen t =
     ((\<forall>r. count_of (m_masterRequestVotes t) r = int (count_list seen r))
      \<and> (\<forall>r. r \<in> m_sendedStateChangeCommit t \<longleftrightarrow> count_list seen r \<ge> 2))"

definition proposals :: "environment \<Rightarrow> payload list \<Rightarrow> effect list" where
  "proposals env ms = map (\<lambda>m. RawTransaction (e_group env) (c_str (proposal m))) ms"

lemma receive_prepare_step:
  assumes "forward_node env = Inr True" and "is_prepare m" and "votes_match seen t"
  shows "\<exists>t'. receive_prepare env m t = Inr t' \<and> votes_match (vote_id m # seen) t'
    \<and> outbox (m_transactionExecuter t') = outbox (m_transactionExecuter t)
        @ proposals env (if count_list seen (vote_id m) = 1 then [m] else [])"
proof -
  obtain a b k i c where m: "m = MasterShardPrepareMsg a b k i c"
    using assms(2) by (auto simp: is_prepare_def split: payload.splits)
  have cnt: "count_of (m_masterRequestVotes t) r = int (count_list seen r)" for r
    using assms(3) by (simp add: votes_match_def)
  have at: "map_at (bump (m_masterRequestVotes t) i) i = Inr (int (count_list seen i) + 1)"
    using cnt [of i] by (auto simp: map_at_def bump_def count_of_def split: option.splits)
  have sent: "i \<in> m_sendedStateChangeCommit t \<longleftrightarrow> count_list seen i \<ge> 2"
    using assms(3) by (simp add: votes_match_def)
  show ?thesis
  proof (cases "count_list seen i = 1")
    case True
    then show ?thesis
      using assms(1, 3) at sent
      by (auto simp: receive_prepare_def m on_executer_def propose_def emit_def proposals_def votes_match_def
          count_of_bump)
  next
    case False
    then show ?thesis
      using assms(3) at sent
      by (auto simp: receive_prepare_def m proposals_def votes_match_def count_of_bump)
  qed
qed

text \<open>
  C39: A change of the write right is proposed to the shard exactly once: of the votes that arrive on
  any number of requests, in any order, the second one on each request makes the forward node propose
  the change, and no other does.
\<close>

theorem prepare_votes:
  assumes "forward_node env = Inr True" and "list_all is_prepare ms"
  shows "\<exists>t. rfold (receive_prepare env) ms (new_SyncThreadMaster s) = Inr t
    \<and> outbox (m_transactionExecuter t) = outbox s @ proposals env (second_votes [] ms)
    \<and> (\<forall>r. r \<in> m_sendedStateChangeCommit t \<longleftrightarrow> count_list (map vote_id ms) r \<ge> 2)"
proof -
  have "\<exists>t'. rfold (receive_prepare env) ms t = Inr t' \<and> votes_match (rev (map vote_id ms) @ seen) t'
    \<and> outbox (m_transactionExecuter t') = outbox (m_transactionExecuter t) @ proposals env (second_votes seen ms)"
    if "votes_match seen t" for seen t
    using assms(2) that
  proof (induction ms arbitrary: seen t)
    case (Cons m ms)
    then obtain t1 where t1: "receive_prepare env m t = Inr t1" "votes_match (vote_id m # seen) t1"
      "outbox (m_transactionExecuter t1) = outbox (m_transactionExecuter t)
        @ proposals env (if count_list seen (vote_id m) = 1 then [m] else [])"
      using receive_prepare_step [OF assms(1), of m seen t] by auto
    obtain t2 where t2: "rfold (receive_prepare env) ms t1 = Inr t2"
      "votes_match (rev (map vote_id ms) @ vote_id m # seen) t2"
      "outbox (m_transactionExecuter t2) = outbox (m_transactionExecuter t1) @ proposals env (second_votes (vote_id m # seen) ms)"
      using Cons.IH [of "vote_id m # seen" t1] Cons.prems(1) t1(2) by auto
    show ?case using t1 t2 by (simp add: proposals_def)
  qed (simp add: proposals_def)
  from this [of "[]" "new_SyncThreadMaster s"] show ?thesis
    by (auto simp: votes_match_def new_SyncThreadMaster_def count_of_empty)
qed

lemma batch_same_proposal_witness:
  "sendBatchDistributedTxMsg (env_of 4 example_tree ''n4'') 4 7 4 ''t'' ''i'' ''s'' new_executer
    = receive_batch (env_of 4 example_tree ''n4'') (BatchDistributedTxMsg 4 7 ''t'' ''i'' ''s'') new_executer"
  using batch_same_proposal [of "env_of 4 example_tree ''n4''" 7] by (simp add: env_of_def)

lemma prepare_votes_witness:
  "\<exists>t. rfold (receive_prepare (env_of 4 example_tree ''n4''))
        [MasterShardPrepareMsg ''1'' ''2'' ''k'' ''r'' 4, MasterShardPrepareMsg ''1'' ''2'' ''k'' ''q'' 4,
         MasterShardPrepareMsg ''2'' ''1'' ''k'' ''r'' 4] (new_SyncThreadMaster new_executer) = Inr t
    \<and> outbox (m_transactionExecuter t)
      = [RawTransaction 4 (c_str (change_data ''0x333444555'' ''2'' ''1'' ''k'' ''r'' 4))]"
  using prepare_votes [of "env_of 4 example_tree ''n4''" "[MasterShardPrepareMsg ''1'' ''2'' ''k'' ''r'' 4,
      MasterShardPrepareMsg ''1'' ''2'' ''k'' ''q'' 4, MasterShardPrepareMsg ''2'' ''1'' ''k'' ''r'' 4]" new_executer]
    example_forward
  by (auto simp: is_prepare_def proposals_def new_executer_def env_of_def)

lemma receive_rwset_counts_witness:
  "\<exists>t. receive_rwset (env_of 4 example_tree ''n4'') (csTxRWset ''ka|kb|ka'' ''1|2|1'' ''7|8|7'' 2) new_executer = Inr t
    \<and> received (m_readWriteSetManager t) ''ka'' = 2"
proof -
  have start: "received (m_readWriteSetManager new_executer) ''ka'' = 0"
    by (simp add: new_executer_def new_ReadWriteSetManager_def received_def count_of_empty)
  have "splits_ok (e_split (env_of 4 example_tree ''n4''))" by (simp add: env_of_def splits_ok_cut)
  then have "\<exists>t. receive_rwset (env_of 4 example_tree ''n4'') (csTxRWset ''ka|kb|ka'' ''1|2|1'' ''7|8|7'' 2) new_executer = Inr t
      \<and> (\<forall>k. received (m_readWriteSetManager t) k
          = received (m_readWriteSetManager new_executer) k + int (count_list [''ka'', ''kb'', ''ka''] k))"
    by (rule exE [OF receive_rwset_counts [where keys = "[''ka'', ''kb'', ''ka'']"
          and vals = "[''1'', ''2'', ''1'']" and rates = "[''7'', ''8'', ''7'']" and source = 2]]) auto
  then show ?thesis using start by auto
qed

end
