(* ===== verification/Node.thy ===== *)
theory Node
  imports ThreadMaster
begin

text \<open>
  A node of a shard: the threads that \<open>startExecuteThreads\<close> starts
  (\<open>libplugin/SyncThreadMaster.cpp\<close>), interleaved. Each round of a loop is one step; messages arrive
  and the shard agrees on blocks at any time.
\<close>

record node =
  n_threads :: SyncThreadMaster
  n_chain :: "transaction list list"
  n_blockid :: nat

abbreviation executer_of :: "node \<Rightarrow> executer" where
  "executer_of n \<equiv> m_transactionExecuter (n_threads n)"

definition with_executer :: "executer \<Rightarrow> node \<Rightarrow> node" where
  "with_executer s n = n\<lparr>n_threads := (n_threads n)\<lparr>m_transactionExecuter := s\<rparr>\<rparr>"

definition boot :: "executer \<Rightarrow> node" where
  "boot s = \<lparr>n_threads = new_SyncThreadMaster s, n_chain = [], n_blockid = 0\<rparr>"

inductive node_step ::
  "environment \<Rightarrow> int \<Rightarrow> (SyncPacketType \<Rightarrow> string \<Rightarrow> payload) \<Rightarrow> node \<Rightarrow> node \<Rightarrow> bool"
  for env cross_rate parse where
  packet: "node_step env cross_rate parse n
     (n\<lparr>n_threads := (n_threads n)\<lparr>m_pluginManager := messageHandler parse frame (m_pluginManager (n_threads n))\<rparr>\<rparr>)"
| agree: "node_step env cross_rate parse n (n\<lparr>n_chain := n_chain n @ [transactions]\<rparr>)"
| execute_block: "processConsensusBlock env cross_rate (n_chain n) (n_blockid n, executer_of n) = Inr (blockid, s)
     \<Longrightarrow> node_step env cross_rate parse n (with_executer s n\<lparr>n_blockid := blockid\<rparr>)"
| blocking: "processBlockingTxsPlus env (executer_of n) = Inr s
     \<Longrightarrow> node_step env cross_rate parse n (with_executer s n)"
| remote: "receiveRemoteMsgWorker env (n_threads n) = Inr t
     \<Longrightarrow> node_step env cross_rate parse n (n\<lparr>n_threads := t\<rparr>)"
| reports: "receiveRemoteCommitMsgWorker env (n_threads n) = Inr t
     \<Longrightarrow> node_step env cross_rate parse n (n\<lparr>n_threads := t\<rparr>)"

inductive_cases node_stepE: "node_step env cross_rate parse n n'"

inductive reachable ::
  "environment \<Rightarrow> int \<Rightarrow> (SyncPacketType \<Rightarrow> string \<Rightarrow> payload) \<Rightarrow> executer \<Rightarrow> node \<Rightarrow> bool"
  for env cross_rate parse s0 where
  start: "reachable env cross_rate parse s0 (boot s0)"
| step: "reachable env cross_rate parse s0 n \<Longrightarrow> node_step env cross_rate parse n n' \<Longrightarrow> reachable env cross_rate parse s0 n'"

section \<open>The executer is never set back\<close>

lemma quiet_propose: "propose env d s = Inr t \<Longrightarrow> quiet s t"
  by (auto simp: propose_def rbind_Inr_iff split: if_splits)

lemma quiet_receive:
  "receive_batch env m s = Inr t \<Longrightarrow> quiet s t"
  "receive_shuffleValue env m s = Inr t \<Longrightarrow> quiet s t"
  "receive_shuffleTx env m s = Inr t \<Longrightarrow> quiet s t"
  "receive_request env m s = Inr t \<Longrightarrow> quiet s t"
  "receive_prePrepare env m s = Inr t \<Longrightarrow> quiet s t"
  "receive_commit env m s = Inr t \<Longrightarrow> quiet s t"
  by (auto simp: receive_batch_def receive_shuffleValue_def receive_shuffleTx_def receive_request_def
      receive_prePrepare_def receive_commit_def split: payload.splits dest: quiet_propose)

lemma quiet_stats [simp]: "quiet s (s\<lparr>m_LRU_StatesInfo := l, m_readWriteSetManager := m\<rparr>)"
  by (simp add: quiet_def)

lemma quiet_receive_key: "receive_key env ks vs cs src i s = Inr t \<Longrightarrow> quiet s t"
  by (auto simp: receive_key_def rbind_Inr_iff)

lemma quiet_receive_rwset: "receive_rwset env m s = Inr t \<Longrightarrow> quiet s t"
  by (auto simp: receive_rwset_def Let_def split: payload.splits
      elim: quiet_rfold quiet_receive_key)

lemma quiet_receive_response: "receive_commitResponse env m s = Inr t \<Longrightarrow> quiet s t"
  unfolding receive_commitResponse_def
  by (auto simp: Let_def rbind_Inr_iff split: payload.splits
      intro!: quiet_trans [OF _ quiet_execute(3)] elim!: quiet_rfold)

text \<open>The steps of the threads on the executer: \<open>follows\<close> relates the states before and after.\<close>

definition follows :: "SyncThreadMaster \<Rightarrow> SyncThreadMaster \<Rightarrow> bool" where
  "follows t u = quiet (m_transactionExecuter t) (m_transactionExecuter u)"

lemma follows_refl [simp]: "follows t t"
  by (simp add: follows_def)

lemma follows_trans: "follows t u \<Longrightarrow> follows u v \<Longrightarrow> follows t v"
  unfolding follows_def by (rule quiet_trans)

lemma follows_on_executer:
  assumes "on_executer f t = Inr u" and "\<And>s s'. f s = Inr s' \<Longrightarrow> quiet s s'"
  shows "follows t u"
  using assms by (auto simp: on_executer_def follows_def rbind_Inr_iff)

lemma follows_popped:
  assumes "with_popped get put h t = Inr u" and "\<And>m t u. h m t = Inr u \<Longrightarrow> follows t u"
  shows "follows t u"
proof (cases "get (m_pluginManager t)")
  case (Cons m ms)
  then have "follows (t\<lparr>m_pluginManager := put ms (m_pluginManager t)\<rparr>) u"
    using assms by (auto simp: with_popped_def)
  then show ?thesis by (simp add: follows_def)
qed (use assms in \<open>auto simp: with_popped_def\<close>)

lemma follows_prepare: "receive_prepare env m t = Inr u \<Longrightarrow> follows t u"
  by (auto simp: receive_prepare_def Let_def rbind_Inr_iff follows_def on_executer_def
      split: payload.splits if_splits dest: quiet_propose)

lemma follows_worker:
  assumes "with_popped get put (\<lambda>m. on_executer (f m)) t = Inr u" and "\<And>m s s'. f m s = Inr s' \<Longrightarrow> quiet s s'"
  shows "follows t u"
  by (rule follows_popped [OF assms(1)]) (erule follows_on_executer, erule assms(2))

lemma follows_bind:
  assumes "rbind (f t) g = Inr u" and "\<And>v. f t = Inr v \<Longrightarrow> follows t v" and "\<And>v. g v = Inr u \<Longrightarrow> follows v u"
  shows "follows t u"
  using assms by (auto simp: rbind_Inr_iff intro: follows_trans)

lemma follows_remote: "receiveRemoteMsgWorker env t = Inr u \<Longrightarrow> follows t u"
  unfolding receiveRemoteMsgWorker_def
  apply (erule follows_bind, erule follows_worker, erule quiet_receive)
  apply (erule follows_bind, erule follows_worker, erule quiet_receive_rwset)
  apply (erule follows_bind, erule follows_worker, erule quiet_receive)
  apply (erule follows_bind, erule follows_worker, erule quiet_receive)
  apply (erule follows_bind, erule follows_worker, erule quiet_receive)
  apply (erule follows_bind, erule follows_worker, erule quiet_receive)
  apply (erule follows_bind, erule follows_popped, erule follows_prepare)
  apply (erule follows_worker, erule quiet_receive)
  done

lemma step_grows: "node_step env cross_rate parse n n' \<Longrightarrow> grows (executer_of n) (executer_of n')"
proof (induction rule: node_step.induct)
  case (execute_block n i s)
  then show ?case using processConsensusBlock_grows [of env cross_rate "n_chain n" "n_blockid n" "executer_of n" i s]
    by (simp add: with_executer_def)
next
  case (blocking n s)
  then show ?case using grows_rounds by (simp add: with_executer_def)
next
  case (remote n t)
  then show ?case using follows_remote quiet_grows by (auto simp: follows_def)
next
  case (reports n t)
  then show ?case
    unfolding receiveRemoteCommitMsgWorker_def
    by (auto simp: follows_def dest!: follows_worker [OF _ quiet_receive_response] intro: quiet_grows)
qed auto

text \<open>
  However the threads of a node interleave, no step sets the executer back: a queue that exists
  stays, no state is ever unlocked (neither in the queues of blocked transactions nor in the set locked
  by a change of the write right), and executions and sent messages are only added.
\<close>

theorem node_never_set_back:
  assumes "(node_step env cross_rate parse)\<^sup>*\<^sup>* n n'"
  shows "grows (executer_of n) (executer_of n')"
  using assms by (induction rule: rtranclp_induct) (auto intro: grows_trans step_grows)

section \<open>What every reachable state satisfies\<close>

fun message_type :: "payload \<Rightarrow> SyncPacketType option" where
  "message_type (csTxRWset a b c d) = Some ReadWriteSetMsg"
| "message_type (CommitResponseToCoordinator a b) = Some CommitResponseToCoordinatorMsg"
| "message_type (RequestForMasterShardMsg a b c d) = Some RequestForMasterShardMsg_pt"
| "message_type (MasterShardPrePrepareMsg a b c d e) = Some MasterShardPrePrepareMsg_pt"
| "message_type (MasterShardPrepareMsg a b c d e) = Some MasterShardPrepareMsg_pt"
| "message_type (MasterShardCommitMsg a b c d e) = Some MasterShardCommitMsg_pt"
| "message_type (BatchDistributedTxMsg a b c d e) = Some BatchDistributedTxMsg_pt"
| "message_type (ShuffleStateValue a b c) = Some ShuffleStateValueMsg"
| "message_type (ShuffleTxRlps a) = Some ShuffleTxRlpsMsg"
| "message_type (OtherMsg a b) = None"

definition has_type :: "SyncPacketType \<Rightarrow> payload \<Rightarrow> bool" where
  "has_type ty m = (message_type m = Some ty)"

definition queues_typed :: "PluginMsgManager \<Rightarrow> bool" where
  "queues_typed p =
     (list_all (has_type ReadWriteSetMsg) (RWSetMsg p)
      \<and> list_all (has_type CommitResponseToCoordinatorMsg) (commitResponseToCoordinatorMsg p)
      \<and> list_all (has_type RequestForMasterShardMsg_pt) (requestForMasterShardMsg p)
      \<and> list_all (has_type MasterShardPrePrepareMsg_pt) (masterShardPrePrepareMsg p)
      \<and> list_all (has_type MasterShardPrepareMsg_pt) (masterShardPrepareMsg p)
      \<and> list_all (has_type MasterShardCommitMsg_pt) (masterShardCommitMsg p)
      \<and> list_all (has_type BatchDistributedTxMsg_pt) (batchdistxs p)
      \<and> list_all (has_type ShuffleStateValueMsg) (shuffleStateValueMsg p)
      \<and> list_all (has_type ShuffleTxRlpsMsg) (shuffleTxMsg p))"

text \<open>A parser fills an object of the type of the packet.\<close>

definition parser_typed :: "(SyncPacketType \<Rightarrow> string \<Rightarrow> payload) \<Rightarrow> bool" where
  "parser_typed parse =
     (\<forall>ty b. ty \<in> {ReadWriteSetMsg, CommitResponseToCoordinatorMsg, RequestForMasterShardMsg_pt,
         MasterShardPrePrepareMsg_pt, MasterShardPrepareMsg_pt, MasterShardCommitMsg_pt,
         BatchDistributedTxMsg_pt, ShuffleStateValueMsg, ShuffleTxRlpsMsg} \<longrightarrow> has_type ty (parse ty b))"

lemma typed_handler:
  assumes "parser_typed parse" and "queues_typed p"
  shows "queues_typed (messageHandler parse frame p)"
proof (cases "messageHandler parse frame p = p")
  case False
  then obtain ty rlps where "messageHandler parse frame p = handle parse branches ty rlps p"
    by (auto simp: messageHandler_def split: sum.splits option.splits)
  with False handle_safe [of parse branches ty rlps p] obtain t push str
    where "(t, push) \<in> set branches" "messageHandler parse frame p = push (parse t str) p" by metis
  then show ?thesis
    using assms unfolding branches_def list.set insert_iff prod.inject empty_iff
    by (elim disjE conjE) (simp_all add: manager_ops queues_typed_def parser_typed_def)
qed (use assms in simp)

definition typed :: "SyncThreadMaster \<Rightarrow> bool" where
  "typed t = queues_typed (m_pluginManager t)"

lemma typed_popped:
  assumes "with_popped get put h t = Inr u" and "typed t"
    and "\<And>m t u. h m t = Inr u \<Longrightarrow> m_pluginManager u = m_pluginManager t"
    and "\<And>m ms p. get p = m # ms \<Longrightarrow> queues_typed p \<Longrightarrow> queues_typed (put ms p)"
  shows "typed u"
  using assms by (auto simp: with_popped_def typed_def split: list.splits)

lemma manager_on_executer: "on_executer f t = Inr u \<Longrightarrow> m_pluginManager u = m_pluginManager t"
  by (auto simp: on_executer_def rbind_Inr_iff)

lemma manager_prepare: "receive_prepare env m t = Inr u \<Longrightarrow> m_pluginManager u = m_pluginManager t"
  by (auto simp: receive_prepare_def Let_def rbind_Inr_iff split: payload.splits if_splits dest: manager_on_executer)

lemma typed_bind:
  assumes "rbind (f t) g = Inr u" and "typed t" and "\<And>v. f t = Inr v \<Longrightarrow> typed t \<Longrightarrow> typed v"
    and "\<And>v. g v = Inr u \<Longrightarrow> typed v \<Longrightarrow> typed u"
  shows "typed u"
  using assms by (auto simp: rbind_Inr_iff)

lemma typed_worker:
  assumes "with_popped get put (\<lambda>m. on_executer (f m)) t = Inr u" and "typed t"
    and "\<And>m ms p. get p = m # ms \<Longrightarrow> queues_typed p \<Longrightarrow> queues_typed (put ms p)"
  shows "typed u"
  by (rule typed_popped [OF assms(1, 2)]) (erule manager_on_executer, erule assms(3))

lemma typed_remote:
  assumes "receiveRemoteMsgWorker env t = Inr u" and "typed t"
  shows "typed u"
  using assms unfolding receiveRemoteMsgWorker_def
  apply -
  apply (erule (1) typed_bind, erule (1) typed_worker, simp add: queues_typed_def)+
  apply (erule (1) typed_bind, erule (1) typed_popped, erule manager_prepare, simp add: queues_typed_def)
  apply (erule (1) typed_worker, simp add: queues_typed_def)
  done

lemma typed_commits:
  assumes "receiveRemoteCommitMsgWorker env t = Inr u" and "typed t"
  shows "typed u"
  using assms unfolding receiveRemoteCommitMsgWorker_def
  by (rule typed_worker) (simp add: queues_typed_def)

lemma step_typed:
  assumes "parser_typed parse" and "node_step env cross_rate parse n n'" and "typed (n_threads n)"
  shows "typed (n_threads n')"
  using assms(2, 3)
proof (induction rule: node_step.induct)
  case (packet n frame)
  then show ?case using typed_handler [OF assms(1)] by (simp add: typed_def)
next
  case (remote n t)
  then show ?case using typed_remote by simp
next
  case (reports n t)
  then show ?case using typed_commits by simp
qed (simp_all add: typed_def with_executer_def)

lemma step_blockid:
  "node_step env cross_rate parse n n' \<Longrightarrow> n_blockid n \<le> length (n_chain n) \<Longrightarrow> n_blockid n' \<le> length (n_chain n')"
  by (induction rule: node_step.induct)
    (auto simp: with_executer_def processConsensusBlock_def rbind_Inr_iff split: if_splits)

lemma step_upper: "node_step env cross_rate parse n n' \<Longrightarrow> upper_groupids (executer_of n') = upper_groupids (executer_of n)"
  using step_grows by (auto simp: grows_def)

text \<open>
  C32: In every state a node can reach from its constructor, whatever arrives and however its threads
  interleave, each queue holds messages of its own type only, every shard above the node's has its queue
  of blocked transactions and its queue of transactions, and no block is executed that the chain does
  not have.
\<close>

theorem reachable_typed:
  assumes sp: "splits_ok (e_split env)"
    and c: "get_shard_by_internal_groupId (e_tree env) (e_group env) = Some c"
    and strings: "get_shard_info_by_internal_groupId (e_tree env) (e_group env) = Inr (upper, lower)"
    and sim: "e_simulateTx env = None"
    and made: "new_TransactionExecuter env upper lower = Inr s0"
    and parser: "parser_typed parse" and run: "reachable env cross_rate parse s0 n"
  shows "queues_typed (m_pluginManager (n_threads n))
    \<and> upper_groupids (executer_of n) = upper_ids c \<and> queues_exist (executer_of n)
    \<and> n_blockid n \<le> length (n_chain n)"
  using run
proof (induction rule: reachable.induct)
  case start
  have "upper_groupids s0 = upper_ids c" "queues_exist s0"
    using constructed_from_tree [OF sp c strings sim] made by (auto simp: queues_exist_def)
  then show ?case
    by (simp add: boot_def new_SyncThreadMaster_def queues_typed_def new_PluginMsgManager_def)
next
  case (step n n')
  then show ?case
    using step_typed [OF parser step.hyps(2)] step_upper [OF step.hyps(2)] step_blockid [OF step.hyps(2)]
      grows_queues_exist [OF step_grows [OF step.hyps(2)]]
    by (simp add: typed_def)
qed

section \<open>Messages are taken\<close>

fun worker_rounds :: "environment \<Rightarrow> nat \<Rightarrow> SyncThreadMaster \<Rightarrow> SyncThreadMaster result" where
  "worker_rounds env 0 t = Inr t"
| "worker_rounds env (Suc k) t = rbind (receiveRemoteMsgWorker env t) (worker_rounds env k)"

definition drained :: "nat \<Rightarrow> PluginMsgManager \<Rightarrow> PluginMsgManager" where
  "drained k p = p\<lparr>batchdistxs := drop k (batchdistxs p), RWSetMsg := drop k (RWSetMsg p),
     shuffleStateValueMsg := drop k (shuffleStateValueMsg p), shuffleTxMsg := drop k (shuffleTxMsg p),
     requestForMasterShardMsg := drop k (requestForMasterShardMsg p),
     masterShardPrePrepareMsg := drop k (masterShardPrePrepareMsg p),
     masterShardPrepareMsg := drop k (masterShardPrepareMsg p),
     masterShardCommitMsg := drop k (masterShardCommitMsg p)\<rparr>"

text \<open>A read-write set message the thread can read: as many values and rates as keys.\<close>

definition readable :: "environment \<Rightarrow> payload \<Rightarrow> bool" where
  "readable env m =
     (case m of csTxRWset keys vals rates src \<Rightarrow>
        length (e_split env CHR ''|'' keys) \<le> length (e_split env CHR ''|'' vals)
        \<and> length (e_split env CHR ''|'' keys) \<le> length (e_split env CHR ''|'' rates)
        \<and> list_all (\<lambda>k. e_split env CHR ''_'' k \<noteq> []) (e_split env CHR ''|'' keys)
      | _ \<Rightarrow> True)"

lemma popped_ok:
  assumes "put (get (m_pluginManager t)) (m_pluginManager t) = m_pluginManager t"
    and "set (get (m_pluginManager t)) \<subseteq> S"
    and "\<And>m t. m \<in> S \<Longrightarrow> \<exists>u. h m t = Inr u \<and> m_pluginManager u = m_pluginManager t"
  shows "\<exists>u. with_popped get put h t = Inr u
    \<and> m_pluginManager u = put (drop 1 (get (m_pluginManager t))) (m_pluginManager t)"
proof (cases "get (m_pluginManager t)")
  case Nil
  then show ?thesis using assms(1) by (simp add: with_popped_def)
next
  case (Cons m ms)
  then obtain u where "h m (t\<lparr>m_pluginManager := put ms (m_pluginManager t)\<rparr>) = Inr u"
    "m_pluginManager u = put ms (m_pluginManager t)"
    using assms(2) assms(3) [of m "t\<lparr>m_pluginManager := put ms (m_pluginManager t)\<rparr>"] by auto
  then show ?thesis using Cons by (simp add: with_popped_def)
qed

lemma propose_ok: "forward_node env = Inr f \<Longrightarrow> \<exists>s'. propose env d s = Inr s'"
  by (simp add: propose_def)

lemma on_executer_ok:
  assumes "\<And>s. \<exists>s'. f s = Inr s'"
  shows "\<exists>u. on_executer f t = Inr u \<and> m_pluginManager u = m_pluginManager t"
proof -
  obtain s' where "f (m_transactionExecuter t) = Inr s'" using assms by blast
  then show ?thesis by (simp add: on_executer_def)
qed

lemma worker_ok:
  assumes "put (get (m_pluginManager t)) (m_pluginManager t) = m_pluginManager t"
    and "set (get (m_pluginManager t)) \<subseteq> S" and "\<And>m s. m \<in> S \<Longrightarrow> \<exists>s'. f m s = Inr s'"
  shows "\<exists>u. with_popped get put (\<lambda>m. on_executer (f m)) t = Inr u
    \<and> m_pluginManager u = put (drop 1 (get (m_pluginManager t))) (m_pluginManager t)"
  by (rule popped_ok [where S = S and get = get and put = put and t = t, OF assms(1, 2)]) (intro on_executer_ok assms(3))

lemma receive_ok:
  assumes "forward_node env = Inr f"
  shows "\<exists>s'. receive_batch env m s = Inr s'" "\<exists>s'. receive_shuffleValue env m s = Inr s'"
    "\<exists>s'. receive_shuffleTx env m s = Inr s'" "\<exists>s'. receive_request env m s = Inr s'"
    "\<exists>s'. receive_prePrepare env m s = Inr s'" "\<exists>s'. receive_commit env m s = Inr s'"
  using propose_ok [OF assms]
  by (simp_all add: receive_batch_def receive_shuffleValue_def receive_shuffleTx_def receive_request_def
      receive_prePrepare_def receive_commit_def split: payload.splits)

lemma receive_key_ok:
  assumes "i < length ks" "length ks \<le> length vs" "length ks \<le> length cs"
    and "list_all (\<lambda>k. e_split env CHR ''_'' k \<noteq> []) ks"
  shows "\<exists>s'. receive_key env ks vs cs src i s = Inr s'"
proof -
  have "e_split env CHR ''_'' (ks ! i) \<noteq> []" using assms by (simp add: list_all_length)
  then show ?thesis using assms by (cases "e_split env CHR ''_'' (ks ! i)") (auto simp: receive_key_def vec_at_def)
qed

lemma rfold_ok: "(\<And>x s. x \<in> set xs \<Longrightarrow> \<exists>s'. f x s = Inr s') \<Longrightarrow> \<exists>s'. rfold f xs s = Inr s'"
proof (induction xs arbitrary: s)
  case (Cons x xs)
  obtain s1 where "f x s = Inr s1" using Cons.prems [of x s] by auto
  then show ?case using Cons by simp
qed simp

lemma receive_rwset_ok: "readable env m \<Longrightarrow> \<exists>s'. receive_rwset env m s = Inr s'"
  unfolding receive_rwset_def readable_def Let_def
  by (cases m) (auto intro!: rfold_ok receive_key_ok)

lemma map_at_bump: "map_at (bump m k) k = Inr (count_of m k + 1)"
  by (auto simp: map_at_def bump_def count_of_def split: option.splits)

lemma receive_prepare_ok:
  assumes "forward_node env = Inr f"
  shows "\<exists>u. receive_prepare env m t = Inr u \<and> m_pluginManager u = m_pluginManager t"
proof (cases m)
  case (MasterShardPrepareMsg a b k i c)
  obtain u where "on_executer (propose env (change_data ''0x333444555'' a b k i c))
      (t\<lparr>m_masterRequestVotes := bump (m_masterRequestVotes t) i,
         m_sendedStateChangeCommit := insert i (m_sendedStateChangeCommit t)\<rparr>) = Inr u"
    "m_pluginManager u = m_pluginManager t"
    using on_executer_ok [of "propose env (change_data ''0x333444555'' a b k i c)"] propose_ok [OF assms] by fastforce
  then show ?thesis by (simp add: receive_prepare_def MasterShardPrepareMsg map_at_bump Let_def)
qed (simp_all add: receive_prepare_def)

lemma round_drains:
  assumes fwd: "forward_node env = Inr f" and rw: "list_all (readable env) (RWSetMsg (m_pluginManager t))"
  shows "\<exists>u. receiveRemoteMsgWorker env t = Inr u \<and> m_pluginManager u = drained 1 (m_pluginManager t)"
proof -
  note ok = receive_ok [OF fwd]
  obtain t1 where t1: "with_popped batchdistxs (\<lambda>q p. p\<lparr>batchdistxs := q\<rparr>) (\<lambda>m. on_executer (receive_batch env m)) t = Inr t1"
    "m_pluginManager t1 = (m_pluginManager t)\<lparr>batchdistxs := drop 1 (batchdistxs (m_pluginManager t))\<rparr>"
    using worker_ok [of "\<lambda>q p. p\<lparr>batchdistxs := q\<rparr>" batchdistxs t UNIV "receive_batch env"] ok(1) by auto
  obtain t2 where t2: "with_popped RWSetMsg (\<lambda>q p. p\<lparr>RWSetMsg := q\<rparr>) (\<lambda>m. on_executer (receive_rwset env m)) t1 = Inr t2"
    "m_pluginManager t2 = (m_pluginManager t1)\<lparr>RWSetMsg := drop 1 (RWSetMsg (m_pluginManager t1))\<rparr>"
    using worker_ok [of "\<lambda>q p. p\<lparr>RWSetMsg := q\<rparr>" RWSetMsg t1 "{m. readable env m}" "receive_rwset env"]
      receive_rwset_ok rw t1(2) by (auto simp: list_all_iff subset_eq)
  obtain t3 where t3: "with_popped shuffleStateValueMsg (\<lambda>q p. p\<lparr>shuffleStateValueMsg := q\<rparr>)
      (\<lambda>m. on_executer (receive_shuffleValue env m)) t2 = Inr t3"
    "m_pluginManager t3 = (m_pluginManager t2)\<lparr>shuffleStateValueMsg := drop 1 (shuffleStateValueMsg (m_pluginManager t2))\<rparr>"
    using worker_ok [of "\<lambda>q p. p\<lparr>shuffleStateValueMsg := q\<rparr>" shuffleStateValueMsg t2 UNIV "receive_shuffleValue env"]
      ok(2) by auto
  obtain t4 where t4: "with_popped shuffleTxMsg (\<lambda>q p. p\<lparr>shuffleTxMsg := q\<rparr>)
      (\<lambda>m. on_executer (receive_shuffleTx env m)) t3 = Inr t4"
    "m_pluginManager t4 = (m_pluginManager t3)\<lparr>shuffleTxMsg := drop 1 (shuffleTxMsg (m_pluginManager t3))\<rparr>"
    using worker_ok [of "\<lambda>q p. p\<lparr>shuffleTxMsg := q\<rparr>" shuffleTxMsg t3 UNIV "receive_shuffleTx env"] ok(3) by auto
  obtain t5 where t5: "with_popped requestForMasterShardMsg (\<lambda>q p. p\<lparr>requestForMasterShardMsg := q\<rparr>)
      (\<lambda>m. on_executer (receive_request env m)) t4 = Inr t5"
    "m_pluginManager t5 = (m_pluginManager t4)\<lparr>requestForMasterShardMsg := drop 1 (requestForMasterShardMsg (m_pluginManager t4))\<rparr>"
    using worker_ok [of "\<lambda>q p. p\<lparr>requestForMasterShardMsg := q\<rparr>" requestForMasterShardMsg t4 UNIV "receive_request env"]
      ok(4) by auto
  obtain t6 where t6: "with_popped masterShardPrePrepareMsg (\<lambda>q p. p\<lparr>masterShardPrePrepareMsg := q\<rparr>)
      (\<lambda>m. on_executer (receive_prePrepare env m)) t5 = Inr t6"
    "m_pluginManager t6 = (m_pluginManager t5)\<lparr>masterShardPrePrepareMsg := drop 1 (masterShardPrePrepareMsg (m_pluginManager t5))\<rparr>"
    using worker_ok [of "\<lambda>q p. p\<lparr>masterShardPrePrepareMsg := q\<rparr>" masterShardPrePrepareMsg t5 UNIV "receive_prePrepare env"]
      ok(5) by auto
  obtain t7 where t7: "with_popped masterShardPrepareMsg (\<lambda>q p. p\<lparr>masterShardPrepareMsg := q\<rparr>) (receive_prepare env) t6 = Inr t7"
    "m_pluginManager t7 = (m_pluginManager t6)\<lparr>masterShardPrepareMsg := drop 1 (masterShardPrepareMsg (m_pluginManager t6))\<rparr>"
    using popped_ok [of "\<lambda>q p. p\<lparr>masterShardPrepareMsg := q\<rparr>" masterShardPrepareMsg t6 UNIV "receive_prepare env"]
      receive_prepare_ok [OF fwd] by auto
  obtain t8 where t8: "with_popped masterShardCommitMsg (\<lambda>q p. p\<lparr>masterShardCommitMsg := q\<rparr>)
      (\<lambda>m. on_executer (receive_commit env m)) t7 = Inr t8"
    "m_pluginManager t8 = (m_pluginManager t7)\<lparr>masterShardCommitMsg := drop 1 (masterShardCommitMsg (m_pluginManager t7))\<rparr>"
    using worker_ok [of "\<lambda>q p. p\<lparr>masterShardCommitMsg := q\<rparr>" masterShardCommitMsg t7 UNIV "receive_commit env"] ok(6) by auto
  have "receiveRemoteMsgWorker env t = Inr t8"
    unfolding receiveRemoteMsgWorker_def by (simp only: t1(1) t2(1) t3(1) t4(1) t5(1) t6(1) t7(1) t8(1) rbind_simps)
  moreover have "m_pluginManager t8 = drained 1 (m_pluginManager t)"
    unfolding drained_def t8(2) t7(2) t6(2) t5(2) t4(2) t3(2) t2(2) t1(2) by simp
  ultimately show ?thesis by blast
qed


section \<open>Witnesses\<close>

lemma node_never_set_back_witness:
  "grows (executer_of (boot new_executer)) (executer_of ((boot new_executer)\<lparr>n_chain := [[]]\<rparr>))"
proof -
  have "node_step (env_of 4 example_tree ''n4'') 0 (\<lambda>ty. OtherMsg ''m'') (boot new_executer)
      ((boot new_executer)\<lparr>n_chain := n_chain (boot new_executer) @ [[]]\<rparr>)"
    by (rule agree)
  from node_never_set_back [OF r_into_rtranclp [where r = "node_step (env_of 4 example_tree ''n4'') 0 (\<lambda>ty. OtherMsg ''m'')", OF this]] show ?thesis
    by (simp add: boot_def)
qed

fun example_parse :: "SyncPacketType \<Rightarrow> string \<Rightarrow> payload" where
  "example_parse ReadWriteSetMsg b = csTxRWset b ''v'' ''1'' 1"
| "example_parse CommitResponseToCoordinatorMsg b = CommitResponseToCoordinator 1 b"
| "example_parse RequestForMasterShardMsg_pt b = RequestForMasterShardMsg 1 2 b ''m''"
| "example_parse MasterShardPrePrepareMsg_pt b = MasterShardPrePrepareMsg ''1'' ''2'' b ''m'' 4"
| "example_parse MasterShardPrepareMsg_pt b = MasterShardPrepareMsg ''1'' ''2'' b ''m'' 4"
| "example_parse MasterShardCommitMsg_pt b = MasterShardCommitMsg ''1'' ''2'' b ''m'' 4"
| "example_parse BatchDistributedTxMsg_pt b = BatchDistributedTxMsg 4 1 b ''i'' ''s''"
| "example_parse ShuffleStateValueMsg b = ShuffleStateValue b ''v'' ''1''"
| "example_parse ShuffleTxRlpsMsg b = ShuffleTxRlps b"
| "example_parse ty b = OtherMsg ''other'' b"

lemma reachable_typed_witness:
  "\<exists>s0. new_TransactionExecuter (env_of 4 tree_9 ''n'') ''4,9'' ''4,1,2,3'' = Inr s0
    \<and> queues_exist (executer_of ((boot s0)\<lparr>n_chain := [[]]\<rparr>))
    \<and> upper_groupids (executer_of ((boot s0)\<lparr>n_chain := [[]]\<rparr>)) = [4, 9]"
proof -
  have info: "get_shard_info_by_internal_groupId tree_9 4 = Inr (''4,9'', ''4,1,2,3'')" by code_simp
  have ids: "upper_ids (children root_9 ! 0, [root_9]) = [4, 9]" by (simp add: upper_ids_def lower_ids_def is_leaf_def is_inter_def root_9_def)
  have env: "e_split (env_of 4 tree_9 ''n'') = cut" "e_tree (env_of 4 tree_9 ''n'') = tree_9"
    "e_group (env_of 4 tree_9 ''n'') = 4" "e_simulateTx (env_of 4 tree_9 ''n'') = None"
    by (simp_all add: env_of_def)
  obtain s0 where s0: "new_TransactionExecuter (env_of 4 tree_9 ''n'') ''4,9'' ''4,1,2,3'' = Inr s0"
    using constructed_from_tree [of "env_of 4 tree_9 ''n''", unfolded env, OF splits_ok_cut lookups_9(4) info refl] by auto
  have parser: "parser_typed example_parse" by (auto simp: parser_typed_def has_type_def)
  have "reachable (env_of 4 tree_9 ''n'') 0 example_parse s0 ((boot s0)\<lparr>n_chain := n_chain (boot s0) @ [[]]\<rparr>)"
    by (rule reachable.step [OF reachable.start agree])
  from reachable_typed [OF _ _ _ _ s0 parser this, unfolded env, OF splits_ok_cut lookups_9(4) info refl]
  show ?thesis using s0 by (auto simp: boot_def ids)
qed


section \<open>A moved state is written where it now lives\<close>

lemma prepare_containers:
  assumes "processMasterChangePrepareTx env tx s = Inr s'"
  shows "m_subTxsContainers s' = m_subTxsContainers s"
proof -
  have emits: "m_subTxsContainers (emit_all ns p u) = m_subTxsContainers u" for ns p u
    unfolding emit_all_def by (induction ns arbitrary: u) (simp_all add: emit_def)
  have "m_subTxsContainers t = m_subTxsContainers s" if "sendMasterChangeCommitMsg env ms s = Inr t" for ms t
  proof -
    from that obtain u where u: "rfold (\<lambda>(shardid, m) s. rbind (get_nodeIDs (e_tree env) (atoi shardid)) (\<lambda>nodes.
        Inr (emit_all nodes (MasterShardCommitMsg (cm_sourceshardid m) (cm_destinshardid m)
          (cm_requestkeys m) (cm_messageid m) (e_group env)) s))) (rev ms) s = Inr u"
      and t: "m_subTxsContainers t = m_subTxsContainers u"
      by (auto simp: sendMasterChangeCommitMsg_def rbind_Inr_iff record_masters_def split: prod.splits list.splits)
    have "m_subTxsContainers u = m_subTxsContainers s"
      by (rule rfold_invariant [where P = "\<lambda>u. m_subTxsContainers u = m_subTxsContainers s", OF u])
        (auto simp: rbind_Inr_iff emits split: prod.splits)
    then show ?thesis using t by simp
  qed
  then show ?thesis
    using assms by (auto simp: processMasterChangePrepareTx_def Let_def rbind_Inr_iff split: if_splits)
qed

definition new_master :: "string list \<Rightarrow> int \<Rightarrow> executer \<Rightarrow> part \<Rightarrow> int" where
  "new_master moved owner s p = (if part_key p \<in> set moved then owner else master_of s p)"




end
