(* ===== verification/Dag.thy ===== *)
theory Dag
  imports Prelude
begin

text \<open>
  The dependency graph of the transactions of a block (\<open>libblockverifier/DAG.h\<close>, \<open>DAG.cpp\<close>,
  \<open>TxDAG.h\<close>, \<open>TxDAG.cpp\<close>): vertices with atomic in-degrees, the queue of the transactions that may
  run, and the construction of the graph from the critical fields of the transactions.

  An \<open>ID\<close> is a natural number below \<open>2 ^ 32\<close>. An in-degree is the number of edges into a transaction and
  is not wrapped at \<open>2 ^ 32\<close>, which no block reaches.
\<close>

section \<open>The graph\<close>

definition INVALID_ID :: nat where "INVALID_ID = 4294967295"

record Vertex =
  inDegree :: nat
  outEdge :: "nat list"

record DAG =
  m_vtxs :: "Vertex list"
  m_topLevel :: "nat list"
  m_totalVtxs :: nat
  m_totalConsume :: nat

definition new_DAG :: DAG where
  "new_DAG = \<lparr>m_vtxs = [], m_topLevel = [], m_totalVtxs = 0, m_totalConsume = 0\<rparr>"

definition dag_clear :: "DAG \<Rightarrow> DAG" where
  "dag_clear d = d\<lparr>m_vtxs := []\<rparr>"

definition dag_init :: "nat \<Rightarrow> DAG \<Rightarrow> DAG" where
  "dag_init maxSize d =
     (dag_clear d)\<lparr>m_vtxs := replicate maxSize \<lparr>inDegree = 0, outEdge = []\<rparr>,
        m_totalVtxs := maxSize, m_totalConsume := 0\<rparr>"

text \<open>
  \<open>addEdge\<close> returns early only when both ids are out of range; with one out of range the access to
  \<open>m_vtxs\<close> is undefined, here \<open>OutOfRange\<close>.
\<close>

definition link :: "nat \<Rightarrow> nat \<Rightarrow> Vertex list \<Rightarrow> Vertex list" where
  "link f t vs =
     (let vs = vs[f := (vs ! f)\<lparr>outEdge := outEdge (vs ! f) @ [t]\<rparr>]
      in vs[t := (vs ! t)\<lparr>inDegree := inDegree (vs ! t) + 1\<rparr>])"

definition addEdge :: "nat \<Rightarrow> nat \<Rightarrow> DAG \<Rightarrow> DAG result" where
  "addEdge f t d =
     (if length (m_vtxs d) \<le> f \<and> length (m_vtxs d) \<le> t then Inr d
      else if length (m_vtxs d) \<le> f \<or> length (m_vtxs d) \<le> t then Inl OutOfRange
      else Inr (d\<lparr>m_vtxs := link f t (m_vtxs d)\<rparr>))"

definition generate :: "DAG \<Rightarrow> DAG" where
  "generate d =
     d\<lparr>m_topLevel := m_topLevel d @ filter (\<lambda>i. inDegree (m_vtxs d ! i) = 0) [0..<length (m_vtxs d)]\<rparr>"

section \<open>The critical fields seen last\<close>

record CriticalField =
  m_criticals :: "(string, nat) omap"
  m_criticalAll :: nat

definition new_CriticalField :: CriticalField where
  "new_CriticalField = \<lparr>m_criticals = [], m_criticalAll = INVALID_ID\<rparr>"

definition cf_get :: "string \<Rightarrow> CriticalField \<Rightarrow> nat" where
  "cf_get c l =
     (case map_of (m_criticals l) c of
        None \<Rightarrow> if m_criticalAll l \<noteq> INVALID_ID then m_criticalAll l else INVALID_ID
      | Some i \<Rightarrow> i)"

definition cf_update :: "string \<Rightarrow> nat \<Rightarrow> CriticalField \<Rightarrow> CriticalField" where
  "cf_update c i l = l\<lparr>m_criticals := om_set c i (om_insert c i (m_criticals l))\<rparr>"

text \<open>\<open>foreachField\<close> with a function that never stops it: the ids it visits, in its order.\<close>

definition foreachField :: "CriticalField \<Rightarrow> nat list" where
  "foreachField l =
     map snd (m_criticals l) @ (if m_criticalAll l \<noteq> INVALID_ID then [m_criticalAll l] else [])"

definition setCriticalAll :: "nat \<Rightarrow> CriticalField \<Rightarrow> CriticalField" where
  "setCriticalAll i l = l\<lparr>m_criticalAll := i, m_criticals := []\<rparr>"

section \<open>The graph of a block\<close>

text \<open>
  One transaction: \<open>None\<close> when \<open>getTxCriticals\<close> returns a null pointer (a transaction that must not run
  in parallel), otherwise its critical fields.
\<close>

definition add_tx ::
  "string list option \<Rightarrow> nat \<Rightarrow> DAG \<times> CriticalField \<Rightarrow> (DAG \<times> CriticalField) result" where
  "add_tx criticals i = (\<lambda>(d, latest).
     case criticals of
       Some cs \<Rightarrow>
         rbind (rfold (\<lambda>c d. let p = cf_get c latest in if p \<noteq> INVALID_ID then addEdge p i d else Inr d) cs d) (\<lambda>d.
           Inr (d, fold (\<lambda>c. cf_update c i) cs latest))
     | None \<Rightarrow>
         rbind (rfold (\<lambda>p. addEdge p i) (foreachField latest) d) (\<lambda>d.
           Inr (d, setCriticalAll i latest)))"

definition txdag_init :: "string list option list \<Rightarrow> DAG \<Rightarrow> DAG result" where
  "txdag_init txsCriticals d =
     rbind (rfold (\<lambda>(i, cs). add_tx cs i) (enumerate 0 txsCriticals)
        (dag_init (length txsCriticals) d, new_CriticalField)) (\<lambda>(d, _). Inr (generate d))"

section \<open>What the graph orders\<close>

text \<open>Two transactions conflict when they share a critical field or one is not parallel.\<close>

fun conflict :: "string list option \<Rightarrow> string list option \<Rightarrow> bool" where
  "conflict (Some a) (Some b) = (\<exists>c \<in> set a. c \<in> set b)"
| "conflict None (Some b) = (b \<noteq> [])"
| "conflict (Some a) None = (a \<noteq> [])"
| "conflict None None = True"

lemma conflict_sym: "conflict a b = conflict b a"
  by (cases a; cases b) auto

definition edges :: "DAG \<Rightarrow> (nat \<times> nat) set" where
  "edges d = {(u, v). u < length (m_vtxs d) \<and> v \<in> set (outEdge (m_vtxs d ! u))}"

text \<open>All edges, as a multiset of their targets.\<close>

definition targets :: "Vertex list \<Rightarrow> nat multiset" where
  "targets vs = (\<Sum>u \<in> {..<length vs}. mset (outEdge (vs ! u)))"

definition graph_ok :: "Vertex list \<Rightarrow> bool" where
  "graph_ok vs \<longleftrightarrow> (\<forall>v < length vs. inDegree (vs ! v) = count (targets vs) v)
     \<and> (\<forall>u < length vs. \<forall>v \<in> set (outEdge (vs ! u)). u < v \<and> v < length vs)"

lemma graph_okD:
  assumes "graph_ok vs"
  shows "v < length vs \<Longrightarrow> inDegree (vs ! v) = count (targets vs) v"
    and "u < length vs \<Longrightarrow> v \<in> set (outEdge (vs ! u)) \<Longrightarrow> u < v"
    and "u < length vs \<Longrightarrow> v \<in> set (outEdge (vs ! u)) \<Longrightarrow> v < length vs"
  using assms unfolding graph_ok_def by blast+

lemma length_link [simp]: "length (link f t vs) = length vs"
  by (simp add: link_def Let_def)

lemma outEdge_link:
  assumes "f < length vs" "t < length vs" "u < length vs"
  shows "outEdge (link f t vs ! u) = (if u = f then outEdge (vs ! f) @ [t] else outEdge (vs ! u))"
  using assms by (auto simp: link_def Let_def nth_list_update)

lemma inDegree_link:
  assumes "f < length vs" "t < length vs" "u < length vs"
  shows "inDegree (link f t vs ! u) = (if u = t then inDegree (vs ! u) + 1 else inDegree (vs ! u))"
  using assms by (auto simp: link_def Let_def nth_list_update)

lemma targets_link:
  assumes "f < length vs" "t < length vs"
  shows "targets (link f t vs) = add_mset t (targets vs)"
proof -
  have f: "f \<in> {..<length vs}" using assms by simp
  have "targets (link f t vs) = (\<Sum>u \<in> {..<length vs}. mset (outEdge (vs ! u)) + (if u = f then {#t#} else {#}))"
    unfolding targets_def by (rule sum.cong) (auto simp: outEdge_link [OF assms])
  also have "\<dots> = targets vs + {#t#}"
    using f by (simp add: targets_def sum.distrib)
  finally show ?thesis by simp
qed

lemma graph_ok_link:
  assumes "graph_ok vs" and "f < t" "t < length vs"
  shows "graph_ok (link f t vs)"
proof -
  have f: "f < length vs" using assms by simp
  show ?thesis
    unfolding graph_ok_def targets_link [OF f assms(3)] length_link
  proof (intro conjI allI impI ballI)
    fix v assume "v < length vs"
    then show "inDegree (link f t vs ! v) = count (add_mset t (targets vs)) v"
      by (simp add: inDegree_link [OF f assms(3)] graph_okD(1) [OF assms(1)])
  next
    fix u v assume u: "u < length vs" and v: "v \<in> set (outEdge (link f t vs ! u))"
    have "v \<in> set (outEdge (vs ! u)) \<or> (u = f \<and> v = t)"
      using v by (auto simp add: outEdge_link [OF f assms(3) u] split: if_splits)
    then show "u < v" "v < length vs" using graph_okD(2,3) [OF assms(1) u] assms(2,3) by auto
  qed
qed

lemma addEdge_ok:
  assumes "f < t" "t < length (m_vtxs d)"
  shows "addEdge f t d = Inr (d\<lparr>m_vtxs := link f t (m_vtxs d)\<rparr>)"
  using assms by (simp add: addEdge_def)

lemma edges_link:
  assumes "f < length (m_vtxs d)" "t < length (m_vtxs d)"
  shows "edges (d\<lparr>m_vtxs := link f t (m_vtxs d)\<rparr>) = insert (f, t) (edges d)"
  using assms by (auto simp: edges_def outEdge_link split: if_splits)

text \<open>A loop that adds edges from earlier transactions to one transaction.\<close>

definition same_frame :: "DAG \<Rightarrow> DAG \<Rightarrow> bool" where
  "same_frame d e \<longleftrightarrow> length (m_vtxs e) = length (m_vtxs d) \<and> m_topLevel e = m_topLevel d
     \<and> m_totalVtxs e = m_totalVtxs d \<and> m_totalConsume e = m_totalConsume d"

lemma add_edges:
  assumes "\<forall>p \<in> set ps. p < t" "t < length (m_vtxs d)" "graph_ok (m_vtxs d)"
  shows "\<exists>e. rfold (\<lambda>p. addEdge p t) ps d = Inr e \<and> edges e = edges d \<union> set ps \<times> {t}
    \<and> graph_ok (m_vtxs e) \<and> same_frame d e"
  using assms
proof (induction ps arbitrary: d)
  case (Cons p ps)
  let ?d = "d\<lparr>m_vtxs := link p t (m_vtxs d)\<rparr>"
  have p: "p < t" using Cons.prems by simp
  have "edges ?d = insert (p, t) (edges d)" using edges_link [of p d t] p Cons.prems(2) by simp
  moreover have "graph_ok (m_vtxs ?d)" using graph_ok_link p Cons.prems by simp
  ultimately show ?case
    using Cons.IH [of ?d] Cons.prems p by (auto simp: addEdge_ok same_frame_def)
qed (simp add: same_frame_def)

section \<open>The construction orders the conflicts\<close>

definition touches :: "string \<Rightarrow> string list option \<Rightarrow> bool" where
  "touches c criticals = (case criticals of None \<Rightarrow> True | Some cs \<Rightarrow> c \<in> set cs)"

lemma touches_simps [simp]: "touches c None" "touches c (Some cs) \<longleftrightarrow> c \<in> set cs"
  by (simp_all add: touches_def)

lemma conflict_touches: "conflict a b \<longleftrightarrow> (\<exists>c. touches c a \<and> touches c b)"
  by (cases a; cases b) (auto simp flip: set_empty simp: ex_in_conv)

definition preds :: "string list option \<Rightarrow> CriticalField \<Rightarrow> nat list" where
  "preds criticals l =
     (case criticals of
        Some cs \<Rightarrow> filter (\<lambda>p. p \<noteq> INVALID_ID) (map (\<lambda>c. cf_get c l) cs)
      | None \<Rightarrow> foreachField l)"

definition note_tx :: "string list option \<Rightarrow> nat \<Rightarrow> CriticalField \<Rightarrow> CriticalField" where
  "note_tx criticals i l =
     (case criticals of Some cs \<Rightarrow> fold (\<lambda>c. cf_update c i) cs l | None \<Rightarrow> setCriticalAll i l)"

lemma critical_loop:
  "rfold (\<lambda>c d. let p = cf_get c l in if p \<noteq> INVALID_ID then addEdge p i d else Inr d) cs d
     = rfold (\<lambda>p. addEdge p i) (filter (\<lambda>p. p \<noteq> INVALID_ID) (map (\<lambda>c. cf_get c l) cs)) d"
  by (induction cs arbitrary: d) (auto simp: Let_def intro!: rbind_cong)

lemma add_tx_eq:
  "add_tx criticals i (d, l) = rbind (rfold (\<lambda>p. addEdge p i) (preds criticals l) d) (\<lambda>d. Inr (d, note_tx criticals i l))"
  by (cases criticals) (simp_all only: add_tx_def preds_def note_tx_def critical_loop prod.case option.case)

definition latest_ok :: "CriticalField \<Rightarrow> bool" where
  "latest_ok l \<longleftrightarrow> om_ok (m_criticals l) \<and> INVALID_ID \<notin> set (map snd (m_criticals l))"

lemma values_om_assign: "set (map snd (om_set k v (om_insert k v m))) \<subseteq> insert v (set (map snd m))"
proof -
  have "snd ` set (om_set k v m) \<subseteq> insert v (snd ` set m)" for m
    by (force simp: om_set_def split: if_splits)
  moreover have "snd ` set (om_insert k v m) \<subseteq> insert v (snd ` set m)"
    by (induction k v m rule: om_insert.induct) auto
  ultimately show ?thesis unfolding set_map by blast
qed

lemma cf_update_simps:
  assumes "latest_ok l" and "i \<noteq> INVALID_ID"
  shows "cf_get c (cf_update e i l) = (if c = e then i else cf_get c l)"
    and "latest_ok (cf_update e i l)" and "m_criticalAll (cf_update e i l) = m_criticalAll l"
  using assms values_om_assign [of e i "m_criticals l"]
  by (auto simp: cf_get_def cf_update_def latest_ok_def map_insert_lookup split: option.splits)

lemma cf_get_note:
  assumes "latest_ok l" and "i \<noteq> INVALID_ID"
  shows "cf_get c (note_tx criticals i l) = (if touches c criticals then i else cf_get c l)"
    and "latest_ok (note_tx criticals i l)"
proof -
  have "latest_ok (fold (\<lambda>c. cf_update c i) cs l)
    \<and> cf_get c (fold (\<lambda>c. cf_update c i) cs l) = (if c \<in> set cs then i else cf_get c l)" for cs
    using assms(1) by (induction cs arbitrary: l) (auto simp: cf_update_simps [OF _ assms(2)])
  moreover have "latest_ok (setCriticalAll i l) \<and> cf_get c (setCriticalAll i l) = i"
    using assms(2) by (simp add: setCriticalAll_def cf_get_def latest_ok_def)
  ultimately show "cf_get c (note_tx criticals i l) = (if touches c criticals then i else cf_get c l)"
    and "latest_ok (note_tx criticals i l)"
    by (simp_all add: note_tx_def split: option.split)
qed

lemma criticalAll_note:
  "m_criticalAll (note_tx criticals i l) = (if criticals = None then i else m_criticalAll l)"
proof -
  have "m_criticalAll (fold (\<lambda>c. cf_update c i) cs l) = m_criticalAll l" for cs
    by (induction cs arbitrary: l) (simp_all add: cf_update_def)
  then show ?thesis by (cases criticals) (simp_all add: note_tx_def setCriticalAll_def)
qed

text \<open>The ids that \<open>foreachField\<close> visits are those \<open>get\<close> returns for some field, and the last normal transaction.\<close>

lemma foreachField_set:
  assumes "latest_ok l"
  shows "p \<in> set (foreachField l) \<Longrightarrow> (\<exists>c. cf_get c l = p) \<or> (p = m_criticalAll l \<and> p \<noteq> INVALID_ID)"
    and "cf_get c l \<noteq> INVALID_ID \<Longrightarrow> cf_get c l \<in> set (foreachField l)"
proof -
  have d: "distinct (map fst (m_criticals l))" using assms om_ok_distinct by (auto simp: latest_ok_def)
  show "p \<in> set (foreachField l) \<Longrightarrow> (\<exists>c. cf_get c l = p) \<or> (p = m_criticalAll l \<and> p \<noteq> INVALID_ID)"
  proof -
    assume "p \<in> set (foreachField l)"
    then consider c where "(c, p) \<in> set (m_criticals l)" | "p = m_criticalAll l" "p \<noteq> INVALID_ID"
      by (auto simp: foreachField_def split: if_splits)
    then show ?thesis
    proof cases
      case 1
      then have "cf_get c l = p" using map_of_is_SomeI [OF d] by (simp add: cf_get_def)
      then show ?thesis by blast
    qed auto
  qed
  show "cf_get c l \<noteq> INVALID_ID \<Longrightarrow> cf_get c l \<in> set (foreachField l)"
    using map_of_SomeD [of "m_criticals l" c] by (force simp: foreachField_def cf_get_def split: option.splits if_splits)
qed

lemma preds_get:
  assumes "latest_ok l" and "touches c criticals" and "cf_get c l \<noteq> INVALID_ID"
  shows "cf_get c l \<in> set (preds criticals l)"
  using assms foreachField_set(2) by (auto simp: preds_def split: option.splits)

text \<open>What holds after the first \<open>k\<close> transactions.\<close>

definition built :: "string list option list \<Rightarrow> nat \<Rightarrow> DAG \<times> CriticalField \<Rightarrow> bool" where
  "built cs k = (\<lambda>(d, l). latest_ok l \<and> graph_ok (m_vtxs d)
     \<and> (\<forall>c. cf_get c l \<noteq> INVALID_ID \<longrightarrow> cf_get c l < k \<and> touches c (cs ! cf_get c l))
     \<and> (m_criticalAll l \<noteq> INVALID_ID \<longrightarrow> m_criticalAll l < k \<and> cs ! m_criticalAll l = None)
     \<and> (\<forall>c. \<forall>i < k. touches c (cs ! i) \<longrightarrow> cf_get c l \<noteq> INVALID_ID \<and> (i, cf_get c l) \<in> (edges d)\<^sup>*)
     \<and> (\<forall>i j. i < j \<and> j < k \<and> conflict (cs ! i) (cs ! j) \<longrightarrow> (i, j) \<in> (edges d)\<^sup>+)
     \<and> (\<forall>i j. (i, j) \<in> edges d \<longrightarrow> conflict (cs ! i) (cs ! j)))"

lemma builtD:
  assumes "built cs k (d, l)"
  shows "latest_ok l" "graph_ok (m_vtxs d)"
    and "cf_get c l \<noteq> INVALID_ID \<Longrightarrow> cf_get c l < k"
    and "cf_get c l \<noteq> INVALID_ID \<Longrightarrow> touches c (cs ! cf_get c l)"
    and "m_criticalAll l \<noteq> INVALID_ID \<Longrightarrow> m_criticalAll l < k"
    and "m_criticalAll l \<noteq> INVALID_ID \<Longrightarrow> cs ! m_criticalAll l = None"
    and "i < k \<Longrightarrow> touches c (cs ! i) \<Longrightarrow> cf_get c l \<noteq> INVALID_ID"
    and "i < k \<Longrightarrow> touches c (cs ! i) \<Longrightarrow> (i, cf_get c l) \<in> (edges d)\<^sup>*"
    and "i < j \<Longrightarrow> j < k \<Longrightarrow> conflict (cs ! i) (cs ! j) \<Longrightarrow> (i, j) \<in> (edges d)\<^sup>+"
    and "(i, j) \<in> edges d \<Longrightarrow> conflict (cs ! i) (cs ! j)"
  using assms unfolding built_def prod.case by blast+

lemma preds_below:
  assumes "built cs k (d, l)" and "p \<in> set (preds criticals l)"
  shows "p < k" and "conflict (cs ! p) criticals"
proof -
  have ok: "latest_ok l" using builtD(1) [OF assms(1)] .
  have get: "cf_get c l < k \<and> conflict (cs ! cf_get c l) criticals"
    if "cf_get c l \<noteq> INVALID_ID" "touches c criticals" for c
    unfolding conflict_touches using that builtD(3,4) [OF assms(1), of c] by blast
  have "p < k \<and> conflict (cs ! p) criticals"
  proof (cases criticals)
    case (Some a)
    then obtain c where "c \<in> set a" "p = cf_get c l" "p \<noteq> INVALID_ID" using assms(2) by (auto simp: preds_def)
    then show ?thesis using get [of c] Some by simp
  next
    case None
    have "p \<in> set (foreachField l)" using assms(2) None by (simp add: preds_def)
    moreover from this have "p \<noteq> INVALID_ID" using ok by (auto simp: foreachField_def latest_ok_def split: if_splits)
    ultimately show ?thesis using foreachField_set(1) [OF ok] get builtD(5,6) [OF assms(1)] None
      by (metis conflict.simps(4) touches_simps(1))
  qed
  then show "p < k" "conflict (cs ! p) criticals" by auto
qed

lemma built_step:
  assumes b: "built cs k (d, l)" and k: "k < length cs" "length cs \<le> INVALID_ID" and n: "length (m_vtxs d) = length cs"
  shows "\<exists>d' l'. add_tx (cs ! k) k (d, l) = Inr (d', l') \<and> built cs (Suc k) (d', l') \<and> same_frame d d'"
proof -
  note D = builtD [OF b]
  have ki: "k \<noteq> INVALID_ID" using k by simp
  let ?l = "note_tx (cs ! k) k l" and ?ps = "preds (cs ! k) l"
  obtain e where e: "rfold (\<lambda>p. addEdge p k) ?ps d = Inr e" "edges e = edges d \<union> set ?ps \<times> {k}"
      "graph_ok (m_vtxs e)" "same_frame d e"
    using add_edges [of ?ps k d] preds_below(1) [OF b] k n D(2) by auto
  have up: "(i, j) \<in> (edges d)\<^sup>* \<Longrightarrow> (i, j) \<in> (edges e)\<^sup>*" "(i, j) \<in> (edges d)\<^sup>+ \<Longrightarrow> (i, j) \<in> (edges e)\<^sup>+" for i j
    unfolding e(2) by (auto intro: rtrancl_mono [THEN subsetD] trancl_mono)
  have reach: "(i, k) \<in> (edges e)\<^sup>+" if "i < k" "touches c (cs ! i)" "touches c (cs ! k)" for i c
  proof -
    have "(cf_get c l, k) \<in> edges e" using preds_get [OF D(1) that(3) D(7) [OF that(1,2)]] e(2) by blast
    then show ?thesis using up(1) [OF D(8) [OF that(1,2)]] by (rule rtrancl_into_trancl1 [rotated])
  qed
  have "built cs (Suc k) (e, ?l)"
    unfolding built_def prod.case
  proof (intro conjI allI impI)
    show "latest_ok ?l" using cf_get_note(2) [OF D(1) ki] .
    show "graph_ok (m_vtxs e)" by (rule e(3))
    fix c assume "cf_get c ?l \<noteq> INVALID_ID"
    then show "cf_get c ?l < Suc k" "touches c (cs ! cf_get c ?l)"
      using D(3,4) [of c] by (auto simp: cf_get_note(1) [OF D(1) ki] less_Suc_eq)
  next
    assume "m_criticalAll ?l \<noteq> INVALID_ID"
    then show "m_criticalAll ?l < Suc k" "cs ! m_criticalAll ?l = None"
      using D(5,6) by (auto simp: criticalAll_note less_Suc_eq split: if_splits)
  next
    fix c i assume i: "i < Suc k" "touches c (cs ! i)"
    show "cf_get c ?l \<noteq> INVALID_ID"
      using i D(7) [of i c] ki by (cases "touches c (cs ! k)") (auto simp: cf_get_note(1) [OF D(1) ki] less_Suc_eq)
    show "(i, cf_get c ?l) \<in> (edges e)\<^sup>*"
    proof (cases "touches c (cs ! k)")
      case True
      then show ?thesis using i reach [of i c] by (cases "i = k") (auto simp: cf_get_note(1) [OF D(1) ki])
    next
      case False
      then have "i < k" using i by (auto simp: less_Suc_eq)
      then show ?thesis using False up(1) [OF D(8) [OF _ i(2)]] by (simp add: cf_get_note(1) [OF D(1) ki])
    qed
  next
    fix i j assume ij: "i < j \<and> j < Suc k \<and> conflict (cs ! i) (cs ! j)"
    show "(i, j) \<in> (edges e)\<^sup>+"
    proof (cases "j = k")
      case True
      then show ?thesis using ij reach unfolding conflict_touches by blast
    next
      case False
      then show ?thesis using ij up(2) [OF D(9)] by simp
    qed
  next
    fix i j assume "(i, j) \<in> edges e"
    then show "conflict (cs ! i) (cs ! j)" using D(10) preds_below(2) [OF b] by (auto simp: e(2))
  qed
  then show ?thesis unfolding add_tx_eq e(1) using e(4) by simp
qed

lemma built_loop:
  assumes "built cs k (d, l)" and "k \<le> length cs" "length cs \<le> INVALID_ID" and "length (m_vtxs d) = length cs"
  shows "\<exists>d' l'. rfold (\<lambda>(i, cs). add_tx cs i) (enumerate k (drop k cs)) (d, l) = Inr (d', l')
    \<and> built cs (length cs) (d', l') \<and> same_frame d d'"
  using assms
proof (induction "length cs - k" arbitrary: k d l)
  case 0
  then show ?case by (simp add: same_frame_def)
next
  case (Suc m)
  then have k: "k < length cs" by simp
  obtain e m' where e: "add_tx (cs ! k) k (d, l) = Inr (e, m')" "built cs (Suc k) (e, m')" "same_frame d e"
    using built_step [OF Suc.prems(1) k Suc.prems(3,4)] by blast
  have "enumerate k (drop k cs) = (k, cs ! k) # enumerate (Suc k) (drop (Suc k) cs)"
    using k by (simp add: Cons_nth_drop_Suc [symmetric])
  moreover have "length (m_vtxs e) = length cs" using e(3) Suc.prems(4) by (simp add: same_frame_def)
  moreover have "m = length cs - Suc k" "Suc k \<le> length cs" using Suc k by auto
  ultimately show ?case using Suc.hyps(1) [of "Suc k" e m'] e Suc.prems(3) by (auto simp: same_frame_def)
qed

lemma targets_empty: "targets (replicate n \<lparr>inDegree = 0, outEdge = []\<rparr>) = {#}"
  by (simp add: targets_def)

lemma built_start: "built cs 0 (dag_init (length cs) d, new_CriticalField)"
  by (auto simp: built_def new_CriticalField_def latest_ok_def cf_get_def graph_ok_def dag_init_def dag_clear_def
      targets_empty edges_def)

definition ready :: "Vertex list \<Rightarrow> nat list" where
  "ready vs = filter (\<lambda>v. count (targets vs) v = 0) [0..<length vs]"

lemma txdag_built:
  assumes "length cs \<le> INVALID_ID" and "m_topLevel d0 = []"
  shows "\<exists>d. txdag_init cs d0 = Inr d \<and> graph_ok (m_vtxs d) \<and> length (m_vtxs d) = length cs
    \<and> m_topLevel d = ready (m_vtxs d) \<and> m_totalVtxs d = length cs \<and> m_totalConsume d = 0
    \<and> (\<forall>i j. i < j \<and> j < length cs \<and> conflict (cs ! i) (cs ! j) \<longrightarrow> (i, j) \<in> (edges d)\<^sup>+)
    \<and> (\<forall>i j. (i, j) \<in> edges d \<longrightarrow> conflict (cs ! i) (cs ! j))"
proof -
  have n: "length (m_vtxs (dag_init (length cs) d0)) = length cs" by (simp add: dag_init_def dag_clear_def)
  obtain d l where d: "rfold (\<lambda>(i, cs). add_tx cs i) (enumerate 0 cs) (dag_init (length cs) d0, new_CriticalField) = Inr (d, l)"
      "built cs (length cs) (d, l)" "same_frame (dag_init (length cs) d0) d"
    using built_loop [OF built_start _ assms(1) n] by auto
  note D = builtD [OF d(2)]
  have len: "length (m_vtxs d) = length cs" using d(3) n by (simp add: same_frame_def)
  have init: "txdag_init cs d0 = Inr (generate d)" unfolding txdag_init_def d(1) by simp
  have degrees: "filter (\<lambda>i. inDegree (m_vtxs d ! i) = 0) [0..<length (m_vtxs d)] = ready (m_vtxs d)"
    unfolding ready_def using graph_okD(1) [OF D(2)] by (intro filter_cong) auto
  have rest: "m_topLevel d = []" "m_totalVtxs d = length cs" "m_totalConsume d = 0"
    using d(3) assms(2) by (auto simp: same_frame_def dag_init_def dag_clear_def)
  have g: "edges (generate d) = edges d" "m_vtxs (generate d) = m_vtxs d" "m_totalVtxs (generate d) = m_totalVtxs d"
    "m_totalConsume (generate d) = m_totalConsume d" "m_topLevel (generate d) = ready (m_vtxs d)"
    using rest(1) degrees by (simp_all add: edges_def generate_def)
  show ?thesis
    unfolding init by (rule exI [of _ "generate d"], unfold g) (use D(2,9,10) len rest in blast)
qed

text \<open>
  C26: The graph of a block orders two transactions exactly when a chain of conflicts leads from the one to
  the other: conflicting transactions are ordered as in the block, and no edge joins two that do not
  conflict. The early return of \<open>addEdge\<close>, which lets one id be out of range, is never a problem.
\<close>

theorem txdag_orders_conflicts:
  assumes "length cs \<le> INVALID_ID"
  shows "\<exists>d. txdag_init cs new_DAG = Inr d \<and> edges d \<subseteq> {(i, j). i < j \<and> j < length cs \<and> conflict (cs ! i) (cs ! j)}
    \<and> {(i, j). i < j \<and> j < length cs \<and> conflict (cs ! i) (cs ! j)} \<subseteq> (edges d)\<^sup>+"
proof -
  have new: "m_topLevel new_DAG = []" by (simp add: new_DAG_def)
  obtain d where d: "txdag_init cs new_DAG = Inr d" "graph_ok (m_vtxs d)" "length (m_vtxs d) = length cs"
    and conf: "\<And>i j. i < j \<Longrightarrow> j < length cs \<Longrightarrow> conflict (cs ! i) (cs ! j) \<Longrightarrow> (i, j) \<in> (edges d)\<^sup>+"
      "\<And>i j. (i, j) \<in> edges d \<Longrightarrow> conflict (cs ! i) (cs ! j)"
    using txdag_built [OF assms new] by blast
  have "i < j \<and> j < length cs" if "(i, j) \<in> edges d" for i j
    using that graph_okD(2,3) [OF d(2), of i j] d(3) by (auto simp: edges_def)
  then show ?thesis using d(1) conf by (intro exI [of _ d]) blast
qed

lemma txdag_orders_conflicts_witness:
  "\<exists>d. txdag_init [Some [''a''], Some [''b''], Some [''a'', ''b''], None] new_DAG = Inr d \<and> (0, 3) \<in> (edges d)\<^sup>+"
proof -
  let ?cs = "[Some [''a''], Some [''b''], Some [''a'', ''b''], None]"
  obtain d where "txdag_init ?cs new_DAG = Inr d"
    and all: "{(i, j). i < j \<and> j < length ?cs \<and> conflict (?cs ! i) (?cs ! j)} \<subseteq> (edges d)\<^sup>+"
    using txdag_orders_conflicts [of ?cs] by (auto simp: INVALID_ID_def)
  moreover have "(0, 3) \<in> (edges d)\<^sup>+" by (rule subsetD [OF all]) simp
  ultimately show ?thesis by blast
qed

end
