(* ===== verification/DagRun.thy ===== *)
theory DagRun
  imports Dag
begin

text \<open>
  The execution of a block by the threads of \<open>parallelExecuteBlock\<close> (\<open>libblockverifier/BlockVerifier.cpp\<close>)
  over the dependency graph (\<open>TxDAG::executeUnit\<close>, \<open>DAG::waitPop\<close>, \<open>DAG::consume\<close>), interleaved one atomic
  operation at a time: the invariant of the threads, that every schedule gives the result of the serial
  execution, and that no schedule gets stuck. The exit of the process (\<open>shouldExit\<close>) is not modelled.
\<close>

section \<open>Running the graph\<close>

text \<open>
  A thread of \<open>parallelExecuteBlock\<close>: it tests \<open>hasFinished\<close>, polls for a transaction (\<open>waitPop\<close>),
  executes it and then consumes its edges one by one; \<open>Left\<close> is a thread that has left the loop. The
  count of a thread is the local \<open>exeCnt\<close> of \<open>executeUnit\<close>.
\<close>

datatype pc = Checking | Polling | Executing nat | Consuming "nat list" nat nat | Left

record thread =
  t_pc :: pc
  t_exeCnt :: nat

record 's TxDAG =
  m_dag :: DAG
  m_exeCnt :: nat
  m_totalParaTxs :: nat
  threads :: "thread list"
  world :: 's
  executed :: "nat list"

definition start :: "nat \<Rightarrow> DAG \<Rightarrow> 's \<Rightarrow> 's TxDAG" where
  "start threadNum d w =
     \<lparr>m_dag = d, m_exeCnt = 0, m_totalParaTxs = m_totalVtxs d,
      threads = replicate threadNum \<lparr>t_pc = Checking, t_exeCnt = 0\<rparr>, world = w, executed = []\<rparr>"

definition hasFinished :: "'s TxDAG \<Rightarrow> bool" where
  "hasFinished s = (m_totalParaTxs s \<le> m_exeCnt s)"

text \<open>One iteration of the loop of \<open>consume\<close>: the graph, \<open>producedNum\<close> and \<open>nextId\<close>.\<close>

definition consume_edge :: "nat \<Rightarrow> DAG \<Rightarrow> nat \<Rightarrow> nat \<Rightarrow> DAG \<times> nat \<times> nat" where
  "consume_edge i d producedNum nextId =
     (let lastDegree = inDegree (m_vtxs d ! i);
          d = d\<lparr>m_vtxs := (m_vtxs d)[i := (m_vtxs d ! i)\<lparr>inDegree := lastDegree - 1\<rparr>]\<rparr>
      in if lastDegree = 1 then
           let producedNum = producedNum + 1
           in if producedNum = 1 then (d, producedNum, i)
              else (d\<lparr>m_topLevel := m_topLevel d @ [i]\<rparr>, producedNum, nextId)
         else (d, producedNum, nextId))"

definition goto :: "nat \<Rightarrow> pc \<Rightarrow> 's TxDAG \<Rightarrow> 's TxDAG" where
  "goto i p s = s\<lparr>threads := (threads s)[i := (threads s ! i)\<lparr>t_pc := p\<rparr>]\<rparr>"

text \<open>
  The steps of thread \<open>i\<close>; the world is changed by \<open>f_executeTx\<close> in one step. A thread leaves
  \<open>executeUnit\<close> when it finds no transaction: \<open>waitPop\<close> waits for 10 ms at most.
\<close>

inductive busy_step :: "(nat \<Rightarrow> 's \<Rightarrow> 's) \<Rightarrow> nat \<Rightarrow> 's TxDAG \<Rightarrow> 's TxDAG \<Rightarrow> bool" for f i where
  enter: "i < length (threads s) \<Longrightarrow> t_pc (threads s ! i) = Checking
    \<Longrightarrow> busy_step f i s (goto i (if hasFinished s then Left else Polling) s)"
| pop: "i < length (threads s) \<Longrightarrow> t_pc (threads s ! i) = Polling \<Longrightarrow> m_topLevel (m_dag s) = x # q
    \<Longrightarrow> busy_step f i s (goto i (Executing x) (s\<lparr>m_dag := (m_dag s)\<lparr>m_topLevel := q\<rparr>\<rparr>))"
| exec: "i < length (threads s) \<Longrightarrow> t_pc (threads s ! i) = Executing x
    \<Longrightarrow> busy_step f i s (s\<lparr>threads := (threads s)[i := \<lparr>t_pc = Consuming (outEdge (m_vtxs (m_dag s) ! x)) 0 INVALID_ID,
            t_exeCnt = t_exeCnt (threads s ! i) + 1\<rparr>], world := f x (world s), executed := executed s @ [x]\<rparr>)"
| edge: "i < length (threads s) \<Longrightarrow> t_pc (threads s ! i) = Consuming (e # es) p nx
    \<Longrightarrow> consume_edge e (m_dag s) p nx = (d', p', nx')
    \<Longrightarrow> busy_step f i s (goto i (Consuming es p' nx') (s\<lparr>m_dag := d'\<rparr>))"
| consumed: "i < length (threads s) \<Longrightarrow> t_pc (threads s ! i) = Consuming [] p nx
    \<Longrightarrow> busy_step f i s (goto i (if nx \<noteq> INVALID_ID then Executing nx else Polling)
          (s\<lparr>m_dag := (m_dag s)\<lparr>m_totalConsume := m_totalConsume (m_dag s) + 1\<rparr>\<rparr>))"

inductive dag_step :: "(nat \<Rightarrow> 's \<Rightarrow> 's) \<Rightarrow> 's TxDAG \<Rightarrow> 's TxDAG \<Rightarrow> bool" for f where
  busy: "busy_step f i s s' \<Longrightarrow> dag_step f s s'"
| leave: "i < length (threads s) \<Longrightarrow> t_pc (threads s ! i) = Polling \<Longrightarrow> m_topLevel (m_dag s) = []
    \<Longrightarrow> dag_step f s (s\<lparr>m_exeCnt := m_exeCnt s + t_exeCnt (threads s ! i),
          threads := (threads s)[i := \<lparr>t_pc = Checking, t_exeCnt = 0\<rparr>]\<rparr>)"

inductive_cases busy_stepE: "busy_step f i s s'"
inductive_cases dag_stepE: "dag_step f s s'"

section \<open>What every thread preserves\<close>

fun todo :: "pc \<Rightarrow> nat list" where
  "todo (Consuming es p nx) = es"
| "todo _ = []"

fun token :: "pc \<Rightarrow> nat multiset" where
  "token (Executing x) = {#x#}"
| "token (Consuming es p nx) = (if p = 0 then {#} else {#nx#})"
| "token _ = {#}"

definition total :: "(pc \<Rightarrow> nat multiset) \<Rightarrow> thread list \<Rightarrow> nat multiset" where
  "total g ts = (\<Sum>t\<leftarrow>ts. g (t_pc t))"

lemma sum_list_update_add:
  fixes g :: "'a \<Rightarrow> 'b::comm_monoid_add"
  assumes "i < length ts"
  shows "sum_list (map g (ts[i := t])) + g (ts ! i) = sum_list (map g ts) + g t"
  using assms
proof (induction ts arbitrary: i)
  case (Cons u us)
  then show ?case by (cases i) (auto simp: add_ac)
qed simp

lemma total_update: "i < length ts \<Longrightarrow> total g (ts[i := t]) + g (t_pc (ts ! i)) = total g ts + g (t_pc t)"
  unfolding total_def using sum_list_update_add [of i ts "\<lambda>t. g (t_pc t)" t] by simp

lemma total_elem: "t \<in> set ts \<Longrightarrow> g (t_pc t) \<subseteq># total g ts"
  by (induction ts) (auto simp: total_def intro: subset_mset.add_increasing subset_mset.add_increasing2)

text \<open>The edges not consumed yet: those of the transactions not executed and those being consumed.\<close>

definition pending :: "Vertex list \<Rightarrow> nat list \<Rightarrow> thread list \<Rightarrow> nat multiset" where
  "pending vs log ts =
     (\<Sum>u \<in> {..<length vs} - set log. mset (outEdge (vs ! u))) + total (\<lambda>p. mset (todo p)) ts"

definition pc_ok :: "nat \<Rightarrow> pc \<Rightarrow> bool" where
  "pc_ok n p = (case p of Consuming es k nx \<Rightarrow> (k = 0 \<longrightarrow> nx = INVALID_ID) \<and> set es \<subseteq> {..<n} | _ \<Rightarrow> True)"

definition exec_inv :: "Vertex list \<Rightarrow> 's TxDAG \<Rightarrow> bool" where
  "exec_inv vs s \<longleftrightarrow>
     (let n = length vs; pend = pending vs (executed s) (threads s) in
       length (m_vtxs (m_dag s)) = n
     \<and> (\<forall>u < n. outEdge (m_vtxs (m_dag s) ! u) = outEdge (vs ! u))
     \<and> (\<forall>v < n. inDegree (m_vtxs (m_dag s) ! v) = count pend v)
     \<and> mset (m_topLevel (m_dag s)) + total token (threads s) + mset (executed s)
         = mset (filter (\<lambda>v. count pend v = 0) [0..<n])
     \<and> (\<forall>t \<in> set (threads s). pc_ok n (t_pc t))
     \<and> (\<forall>k < length (executed s). \<forall>u < n. executed s ! k \<in> set (outEdge (vs ! u)) \<longrightarrow> u \<in> set (take k (executed s))))"

definition count_inv :: "(nat \<Rightarrow> 's \<Rightarrow> 's) \<Rightarrow> nat \<Rightarrow> 's \<Rightarrow> 's TxDAG \<Rightarrow> bool" where
  "count_inv f n w s \<longleftrightarrow> m_totalParaTxs s = n \<and> m_exeCnt s + (\<Sum>t\<leftarrow>threads s. t_exeCnt t) = length (executed s)
     \<and> (\<forall>t \<in> set (threads s). t_pc t = Left \<longrightarrow> n \<le> m_exeCnt s) \<and> world s = fold f (executed s) w"

lemma exec_invD:
  assumes "exec_inv vs s" and "pend = pending vs (executed s) (threads s)"
  shows "length (m_vtxs (m_dag s)) = length vs"
    and "u < length vs \<Longrightarrow> outEdge (m_vtxs (m_dag s) ! u) = outEdge (vs ! u)"
    and "u < length vs \<Longrightarrow> inDegree (m_vtxs (m_dag s) ! u) = count pend u"
    and "mset (m_topLevel (m_dag s)) + total token (threads s) + mset (executed s)
         = mset (filter (\<lambda>v. count pend v = 0) [0..<length vs])"
    and "i < length (threads s) \<Longrightarrow> pc_ok (length vs) (t_pc (threads s ! i))"
    and "k < length (executed s) \<Longrightarrow> u < length vs \<Longrightarrow> executed s ! k \<in> set (outEdge (vs ! u))
         \<Longrightarrow> u \<in> set (take k (executed s))"
  using assms(1) unfolding exec_inv_def Let_def assms(2) [symmetric] by (blast, blast, blast, blast, force, blast)

lemma pc_ok_update:
  assumes "\<And>j. j < length ts \<Longrightarrow> pc_ok n (t_pc (ts ! j))" and "pc_ok n (t_pc t)"
  shows "\<forall>u \<in> set (ts[i := t]). pc_ok n (t_pc u)"
  using assms set_update_subset_insert [of ts i t] by (fastforce simp: in_set_conv_nth)

text \<open>A step that moves a token between the queue and its thread.\<close>

lemma exec_inv_move:
  assumes inv: "exec_inv vs s" and i: "i < length (threads s)"
    and s': "threads s' = (threads s)[i := t]" "executed s' = executed s" "m_vtxs (m_dag s') = m_vtxs (m_dag s)"
    and todo: "todo (t_pc t) = todo (t_pc (threads s ! i))"
    and tokens: "mset (m_topLevel (m_dag s')) + token (t_pc t) = mset (m_topLevel (m_dag s)) + token (t_pc (threads s ! i))"
    and ok: "pc_ok (length vs) (t_pc t)"
  shows "exec_inv vs s'"
proof -
  have p: "pending vs (executed s) (threads s') = pending vs (executed s) (threads s)"
    using total_update [OF i, of "\<lambda>p. mset (todo p)" t] by (simp add: pending_def s' todo)
  have *: "total token (threads s') + token (t_pc (threads s ! i)) = total token (threads s) + token (t_pc t)"
    using total_update [OF i] by (simp add: s')
  then have q: "mset (m_topLevel (m_dag s')) + total token (threads s') = mset (m_topLevel (m_dag s)) + total token (threads s)"
  proof (intro multiset_eqI)
    fix x
    show "count (mset (m_topLevel (m_dag s')) + total token (threads s')) x
        = count (mset (m_topLevel (m_dag s)) + total token (threads s)) x"
      using arg_cong [OF *, of "\<lambda>M. count M x"] arg_cong [OF tokens, of "\<lambda>M. count M x"] by simp
  qed
  show ?thesis
    unfolding exec_inv_def Let_def s'(2,3) p q
    using exec_invD [OF inv refl] pc_ok_update [OF exec_invD(5) [OF inv refl] ok, of i, folded s'(1)]
    by (intro conjI allI impI) simp_all
qed

text \<open>A token belongs to a transaction not executed whose edges have all been consumed.\<close>

lemma token_elem:
  assumes inv: "exec_inv vs s" and x: "x \<in># mset (m_topLevel (m_dag s)) + total token (threads s)"
  shows "x < length vs" "x \<notin> set (executed s)" "count (pending vs (executed s) (threads s)) x = 0"
proof -
  let ?F = "filter (\<lambda>v. count (pending vs (executed s) (threads s)) v = 0) [0..<length vs]"
  note D = exec_invD [OF inv refl]
  have "x \<in># mset ?F" using x unfolding D(4) [symmetric] by auto
  then show "x < length vs" "count (pending vs (executed s) (threads s)) x = 0" by auto
  have "distinct ?F" by simp
  then have "count (mset ?F) x \<le> 1" unfolding distinct_count_atmost_1 by simp
  moreover have "count (mset ?F) x = count (mset (m_topLevel (m_dag s)) + total token (threads s)) x + count (mset (executed s)) x"
    unfolding D(4) [symmetric] by simp
  moreover have "count (mset (m_topLevel (m_dag s)) + total token (threads s)) x > 0" using x by simp
  ultimately have "count (mset (executed s)) x = 0" by linarith
  then show "x \<notin> set (executed s)" by (simp add: count_mset_0_iff)
qed

lemma member_le_sum_mset:
  fixes f :: "'a \<Rightarrow> 'b multiset"
  assumes "finite A" "u \<in> A"
  shows "f u \<subseteq># sum f A"
  using sum.remove [OF assms, of f] by simp

lemma running_elem: "i < length ts \<Longrightarrow> x \<in># token (t_pc (ts ! i)) \<Longrightarrow> x \<in># total token ts"
  using total_elem [of "ts ! i" ts token] mset_subset_eqD by (metis nth_mem)

lemma exec_inv_distinct: "exec_inv vs s \<Longrightarrow> distinct (executed s) \<and> set (executed s) \<subseteq> {..<length vs}"
proof -
  assume inv: "exec_inv vs s"
  let ?F = "filter (\<lambda>v. count (pending vs (executed s) (threads s)) v = 0) [0..<length vs]"
  have sub: "mset (executed s) \<subseteq># mset ?F"
    by (simp only: exec_invD(4) [OF inv refl, symmetric] mset_subset_eq_add_right)
  have "distinct ?F" by simp
  then have "count (mset (executed s)) a \<le> 1" for a
    using order_trans [OF mset_subset_eq_count [OF sub, of a]] unfolding distinct_count_atmost_1 by simp
  moreover have "count (mset (executed s)) a > 0 \<longleftrightarrow> a \<in> set (executed s)" for a by simp
  ultimately have "count (mset (executed s)) a = (if a \<in> set (executed s) then 1 else 0)" for a
    by (metis One_nat_def Suc_leI le_antisym neq0_conv)
  then have "distinct (executed s)" unfolding distinct_count_atmost_1 by blast
  moreover have "set (executed s) \<subseteq> set ?F" using set_mset_mono [OF sub] by simp
  ultimately show ?thesis by auto
qed


lemma exec_pending:
  assumes inv: "exec_inv vs s" and i: "i < length (threads s)" and x: "t_pc (threads s ! i) = Executing x"
  shows "pending vs (executed s @ [x]) ((threads s)[i := \<lparr>t_pc = Consuming (outEdge (m_vtxs (m_dag s) ! x)) 0 INVALID_ID, t_exeCnt = c\<rparr>])
    = pending vs (executed s) (threads s)" (is "pending vs _ ?ts = _")
proof -
  have elem: "x < length vs" "x \<notin> set (executed s)"
    using token_elem [OF inv, of x] running_elem [OF i, of x] x by auto
  let ?A = "{..<length vs} - set (executed s)"
  have out: "outEdge (m_vtxs (m_dag s) ! x) = outEdge (vs ! x)" using exec_invD(2) [OF inv refl] elem by blast
  have "total (\<lambda>p. mset (todo p)) ?ts = total (\<lambda>p. mset (todo p)) (threads s) + mset (outEdge (vs ! x))"
    using total_update [OF i, of "\<lambda>p. mset (todo p)" "\<lparr>t_pc = Consuming (outEdge (vs ! x)) 0 INVALID_ID, t_exeCnt = c\<rparr>"]
    by (simp add: out x)
  moreover have "(\<Sum>u \<in> ?A. mset (outEdge (vs ! u))) = mset (outEdge (vs ! x)) + (\<Sum>u \<in> ?A - {x}. mset (outEdge (vs ! u)))"
    by (rule sum.remove) (use elem in auto)
  moreover have "{..<length vs} - set (executed s @ [x]) = ?A - {x}" by auto
  ultimately show ?thesis by (simp add: pending_def add_ac)
qed

lemma exec_inv_exec:
  assumes inv: "exec_inv vs s" and i: "i < length (threads s)" and x: "t_pc (threads s ! i) = Executing x"
    and g: "graph_ok vs"
    and s': "threads s' = (threads s)[i := \<lparr>t_pc = Consuming (outEdge (m_vtxs (m_dag s) ! x)) 0 INVALID_ID, t_exeCnt = c\<rparr>]"
      "executed s' = executed s @ [x]" "m_dag s' = m_dag s"
  shows "exec_inv vs s'"
proof -
  note D = exec_invD [OF inv refl]
  have elem: "x < length vs" "x \<notin> set (executed s)" "count (pending vs (executed s) (threads s)) x = 0"
    using token_elem [OF inv, of x] running_elem [OF i, of x] x by auto
  let ?A = "{..<length vs} - set (executed s)"
  have out: "outEdge (m_vtxs (m_dag s) ! x) = outEdge (vs ! x)" using D(2) elem by blast
  have p: "pending vs (executed s @ [x]) (threads s') = pending vs (executed s) (threads s)"
    unfolding s'(1) by (rule exec_pending [OF inv i x])
  have t: "total token (threads s') + {#x#} = total token (threads s)"
    using total_update [OF i, of token] x by (simp add: s'(1))
  have q: "mset (m_topLevel (m_dag s)) + total token (threads s') + mset (executed s @ [x])
      = mset (m_topLevel (m_dag s)) + total token (threads s) + mset (executed s)"
    unfolding t [symmetric] by (simp add: ac_simps)
  have ok: "pc_ok (length vs) (Consuming (outEdge (m_vtxs (m_dag s) ! x)) 0 INVALID_ID)"
    using graph_okD(3) [OF g elem(1)] by (auto simp: pc_ok_def out)
  have last: "u \<in> set (executed s)" if "u < length vs" "x \<in> set (outEdge (vs ! u))" for u
  proof (rule ccontr)
    assume "u \<notin> set (executed s)"
    then have "mset (outEdge (vs ! u)) \<subseteq># (\<Sum>u \<in> ?A. mset (outEdge (vs ! u)))"
      using that(1) by (intro member_le_sum_mset) auto
    then have "x \<in># (\<Sum>u \<in> ?A. mset (outEdge (vs ! u)))" by (rule mset_subset_eqD) (use that(2) in simp)
    then have "x \<in># pending vs (executed s) (threads s)" by (simp add: pending_def)
    then show False using elem(3) by (simp add: not_in_iff [symmetric])
  qed
  show ?thesis
    unfolding exec_inv_def Let_def s'(2,3) p q
  proof (intro conjI allI impI)
    show "\<forall>t \<in> set (threads s'). pc_ok (length vs) (t_pc t)"
      unfolding s'(1) by (rule pc_ok_update [OF D(5)]) (use ok in simp_all)
    fix k u assume k: "k < length (executed s @ [x])" and u: "u < length vs" "(executed s @ [x]) ! k \<in> set (outEdge (vs ! u))"
    show "u \<in> set (take k (executed s @ [x]))"
      using k u last D(6) by (cases "k < length (executed s)") (auto simp: nth_append less_Suc_eq)
  qed (use D in auto)
qed


lemma count_filter_upt: "count (mset (filter P [0..<n])) v = (if v < n \<and> P v then 1 else 0)"
  by (induction n) (auto simp: less_Suc_eq)

lemma exec_inv_edge:
  assumes inv: "exec_inv vs s" and i: "i < length (threads s)"
    and pc: "t_pc (threads s ! i) = Consuming (e # es) p nx"
    and step: "consume_edge e (m_dag s) p nx = (d', p', nx')"
    and s': "threads s' = (threads s)[i := (threads s ! i)\<lparr>t_pc := Consuming es p' nx'\<rparr>]"
      "executed s' = executed s" "m_dag s' = d'"
  shows "exec_inv vs s'"
proof -
  note D = exec_invD [OF inv refl]
  let ?pend = "pending vs (executed s) (threads s)" and ?pend' = "pending vs (executed s) (threads s')"
  have ok: "e < length vs" "set es \<subseteq> {..<length vs}" "p = 0 \<longrightarrow> nx = INVALID_ID"
    using D(5) [OF i] by (auto simp: pc pc_ok_def)
  have pend: "?pend = add_mset e ?pend'"
    using total_update [OF i, of "\<lambda>p. mset (todo p)" "(threads s ! i)\<lparr>t_pc := Consuming es p' nx'\<rparr>"]
    by (simp add: pending_def s'(1) pc)
  have deg: "inDegree (m_vtxs (m_dag s) ! e) = count ?pend' e + 1" using D(3) [OF ok(1)] pend by simp
  have vs: "m_vtxs d' = (m_vtxs (m_dag s))[e := (m_vtxs (m_dag s) ! e)\<lparr>inDegree := count ?pend' e\<rparr>]"
    using step deg by (auto simp: consume_edge_def Let_def split: if_splits)
  have tok: "total token (threads s') + token (Consuming (e # es) p nx) = total token (threads s) + token (Consuming es p' nx')"
    using total_update [OF i, of token "(threads s ! i)\<lparr>t_pc := Consuming es p' nx'\<rparr>"] by (simp add: s'(1) pc)
  have filt: "mset (filter (\<lambda>v. count ?pend' v = 0) [0..<length vs])
      = mset (filter (\<lambda>v. count ?pend v = 0) [0..<length vs]) + (if count ?pend' e = 0 then {#e#} else {#})"
    by (rule multiset_eqI) (use ok(1) in \<open>auto simp add: count_filter_upt pend simp del: mset_filter elim: in_countE\<close>)
  have new: "mset (m_topLevel d') + token (Consuming es p' nx')
      = mset (m_topLevel (m_dag s)) + token (Consuming (e # es) p nx) + (if count ?pend' e = 0 then {#e#} else {#})"
    using step deg by (auto simp: consume_edge_def Let_def split: if_splits elim: in_countE)
  have q: "mset (m_topLevel d') + total token (threads s') + mset (executed s)
      = mset (filter (\<lambda>v. count ?pend' v = 0) [0..<length vs])"
    unfolding filt D(4) [symmetric]
  proof (intro multiset_eqI)
    fix x
    show "count (mset (m_topLevel d') + total token (threads s') + mset (executed s)) x
       = count (mset (m_topLevel (m_dag s)) + total token (threads s) + mset (executed s) + (if count ?pend' e = 0 then {#e#} else {#})) x"
      using arg_cong [OF tok, of "\<lambda>M. count M x"] arg_cong [OF new, of "\<lambda>M. count M x"] by simp
  qed
  have wf: "pc_ok (length vs) (Consuming es p' nx')"
    using step ok by (auto simp: consume_edge_def Let_def pc_ok_def split: if_splits)
  have len: "length (m_vtxs d') = length vs" using D(1) by (simp add: vs)
  show ?thesis
    unfolding exec_inv_def Let_def s'(2,3) q
  proof (intro conjI allI impI)
    fix u assume u: "u < length vs"
    show "outEdge (m_vtxs d' ! u) = outEdge (vs ! u)"
      using u D(1,2) by (cases "u = e") (simp_all add: vs nth_list_update)
    show "inDegree (m_vtxs d' ! u) = count ?pend' u"
      using u D(1,3) by (cases "u = e") (simp_all add: vs nth_list_update pend)
  next
    show "\<forall>t \<in> set (threads s'). pc_ok (length vs) (t_pc t)"
      unfolding s'(1) by (rule pc_ok_update [OF D(5)]) (use wf in simp_all)
  qed (use len D(6) in auto)
qed

lemma exec_inv_step:
  assumes inv: "exec_inv vs s" and g: "graph_ok vs" and n: "length vs \<le> INVALID_ID" and step: "dag_step f s s'"
  shows "exec_inv vs s'"
  using step
proof (cases rule: dag_step.cases)
  case (leave i)
  then show ?thesis 
    by (intro exec_inv_move [OF inv leave(2), where t = "\<lparr>t_pc = Checking, t_exeCnt = 0\<rparr>"]) (simp_all add: pc_ok_def)
next
  case (busy i)
  from busy show ?thesis
  proof (cases rule: busy_step.cases)
    case enter
    then show ?thesis
      by (intro exec_inv_move [OF inv enter(2), where t = "(threads s ! i)\<lparr>t_pc := if hasFinished s then Left else Polling\<rparr>"])
        (simp_all add: goto_def pc_ok_def)
  next
    case (pop x q)
    then show ?thesis
      by (intro exec_inv_move [OF inv pop(2), where t = "(threads s ! i)\<lparr>t_pc := Executing x\<rparr>"])
        (simp_all add: goto_def pc_ok_def)
  next
    case (exec x)
    then show ?thesis by (intro exec_inv_exec [OF inv exec(2,3) g]) simp_all
  next
    case (edge e es p nx d' p' nx')
    then show ?thesis by (intro exec_inv_edge [OF inv edge(2,3,4)]) (simp_all add: goto_def)
  next
    case (consumed p nx)
    let ?pc = "if nx \<noteq> INVALID_ID then Executing nx else Polling"
    have "p \<noteq> 0 \<Longrightarrow> nx \<noteq> INVALID_ID"
      using token_elem(1) [OF inv, of nx] running_elem [OF consumed(2), of nx] consumed(3) n by auto
    moreover have "p = 0 \<Longrightarrow> nx = INVALID_ID" using exec_invD(5) [OF inv refl consumed(2)] by (simp add: consumed(3) pc_ok_def)
    ultimately have "token ?pc = token (Consuming [] p nx)" by auto
    then show ?thesis using consumed
      by (intro exec_inv_move [OF inv consumed(2), where t = "(threads s ! i)\<lparr>t_pc := ?pc\<rparr>"])
        (simp_all add: goto_def pc_ok_def)
  qed
qed

section \<open>Every schedule gives the result of the block order\<close>

lemma sum_counts_update:
  "i < length ts \<Longrightarrow> (\<Sum>t\<leftarrow>ts[i := u]. t_exeCnt t) + t_exeCnt (ts ! i) = (\<Sum>t\<leftarrow>ts. t_exeCnt t) + t_exeCnt u"
  by (rule sum_list_update_add)

lemma Left_update:
  assumes "\<forall>t \<in> set ts. t_pc t = Left \<longrightarrow> P" and "t_pc u = Left \<longrightarrow> P"
  shows "\<forall>t \<in> set (ts[i := u]). t_pc t = Left \<longrightarrow> P"
  using assms set_update_subset_insert [of ts i u] by blast

lemma count_inv_step:
  assumes c: "count_inv f n w s" and step: "dag_step f s s'"
  shows "count_inv f n w s'"
  using step
proof (cases rule: dag_step.cases)
  case (leave i)
  have "\<forall>t \<in> set (threads s). t_pc t = Left \<longrightarrow> n \<le> m_exeCnt s + t_exeCnt (threads s ! i)"
    using c by (auto simp: count_inv_def)
  from Left_update [OF this, of "\<lparr>t_pc = Checking, t_exeCnt = 0\<rparr>" i]
  show ?thesis
    using c sum_counts_update [OF leave(2), of "\<lparr>t_pc = Checking, t_exeCnt = 0\<rparr>"] leave
    by (simp add: count_inv_def)
next
  case (busy i)
  have upd: "(\<Sum>t\<leftarrow>(threads s)[i := (threads s ! i)\<lparr>t_pc := p\<rparr>]. t_exeCnt t) = (\<Sum>t\<leftarrow>threads s. t_exeCnt t)"
    if "i < length (threads s)" for p
    using sum_counts_update [OF that, of "(threads s ! i)\<lparr>t_pc := p\<rparr>"] by simp
  have left: "\<forall>t \<in> set ((threads s)[i := u]). t_pc t = Left \<longrightarrow> n \<le> m_exeCnt s" if "t_pc u = Left \<longrightarrow> n \<le> m_exeCnt s" for u
    using c that by (intro Left_update) (auto simp: count_inv_def)
  from busy show ?thesis
  proof (cases rule: busy_step.cases)
    case enter
    then show ?thesis using c upd left [of "(threads s ! i)\<lparr>t_pc := Left\<rparr>"] left [of "(threads s ! i)\<lparr>t_pc := Polling\<rparr>"]
      by (cases "n \<le> m_exeCnt s") (simp_all add: count_inv_def goto_def hasFinished_def)
  next
    case (pop x q)
    then show ?thesis using c upd left [of "(threads s ! i)\<lparr>t_pc := Executing x\<rparr>"] by (simp add: count_inv_def goto_def)
  next
    case (exec x)
    let ?u = "\<lparr>t_pc = Consuming (outEdge (m_vtxs (m_dag s) ! x)) 0 INVALID_ID, t_exeCnt = t_exeCnt (threads s ! i) + 1\<rparr>"
    have "(\<Sum>t\<leftarrow>(threads s)[i := ?u]. t_exeCnt t) = (\<Sum>t\<leftarrow>threads s. t_exeCnt t) + 1"
      using sum_counts_update [OF exec(2), of ?u] by simp
    then show ?thesis using c exec left [of ?u] by (simp add: count_inv_def)
  next
    case (edge e es p nx d' p' nx')
    then show ?thesis using c upd left [of "(threads s ! i)\<lparr>t_pc := Consuming es p' nx'\<rparr>"] by (simp add: count_inv_def goto_def)
  next
    case (consumed p nx)
    then show ?thesis using c upd left [of "(threads s ! i)\<lparr>t_pc := Executing nx\<rparr>"] left [of "(threads s ! i)\<lparr>t_pc := Polling\<rparr>"]
      by (cases "nx = INVALID_ID") (simp_all add: count_inv_def goto_def)
  qed
qed

lemma total_start: "total g (replicate k \<lparr>t_pc = p, t_exeCnt = c\<rparr>) = (\<Sum>i\<leftarrow>[0..<k]. g p)"
  by (induction k) (auto simp: total_def replicate_append_same [symmetric] add_ac)

lemma inv_start:
  assumes "graph_ok (m_vtxs d)" and "m_topLevel d = ready (m_vtxs d)" and "m_totalVtxs d = length (m_vtxs d)"
  shows "exec_inv (m_vtxs d) (start k d w)" and "count_inv f (length (m_vtxs d)) w (start k d w)"
proof -
  have t: "total g (threads (start k d w)) = {#}" if "g Checking = {#}" for g
    by (simp add: start_def total_start that)
  have p: "pending (m_vtxs d) [] (threads (start k d w)) = targets (m_vtxs d)"
    by (simp add: pending_def targets_def t)
  show "exec_inv (m_vtxs d) (start k d w)"
    using assms(2) graph_okD(1) [OF assms(1)]
    by (simp add: exec_inv_def Let_def t p start_def [of k d w, THEN arg_cong [of _ _ executed]] ready_def)
      (simp add: start_def p pc_ok_def)
  show "count_inv f (length (m_vtxs d)) w (start k d w)"
    using assms(3) by (simp add: count_inv_def start_def sum_list_replicate)
qed

lemma exec_inv_order:
  assumes inv: "exec_inv vs s" and path: "(u, v) \<in> {(u, v). u < length vs \<and> v \<in> set (outEdge (vs ! u))}\<^sup>+"
    and k: "k < length (executed s)" "executed s ! k = v"
  shows "u \<in> set (take k (executed s))"
  using path k
proof (induction arbitrary: k rule: trancl_induct)
  case (base v)
  then show ?case using exec_invD(6) [OF inv refl, of k u] by simp
next
  case (step v v')
  then have "v \<in> set (take k (executed s))" using exec_invD(6) [OF inv refl, of k v] by simp
  then obtain j where "j < k" "j < length (executed s)" "executed s ! j = v"
    by (auto simp: in_set_conv_nth)
  then show ?case using step.IH [of j] set_take_subset_set_take [of j k "executed s"] by auto
qed

text \<open>
  A list that keeps the order of conflicting elements folds like the sorted list, when the others commute
  on the states that satisfy \<open>P\<close>.
\<close>

lemma fold_commute:
  assumes "\<And>z w. z \<in> set zs \<Longrightarrow> P w \<Longrightarrow> f z (f m w) = f m (f z w)" and "\<And>z w. z \<in> set zs \<Longrightarrow> P w \<Longrightarrow> P (f z w)" and "P w"
  shows "fold f zs (f m w) = f m (fold f zs w)"
  using assms by (induction zs arbitrary: w) auto

lemma fold_reorder:
  assumes "mset xs = mset [0..<n]" and "sorted_wrt (\<lambda>z i. \<not> (i < z \<and> conf i z)) xs"
    and commute: "\<And>i j w. i < j \<Longrightarrow> j < N \<Longrightarrow> \<not> conf i j \<Longrightarrow> P w \<Longrightarrow> f i (f j w) = f j (f i w)"
    and P: "\<And>i w. i < N \<Longrightarrow> P w \<Longrightarrow> P (f i w)" and "P w" and "n \<le> N"
  shows "fold f xs w = fold f [0..<n] w"
  using assms(1,2,5,6)
proof (induction n arbitrary: xs w)
  case (Suc m)
  have "m \<in> set xs" using arg_cong [OF Suc.prems(1), of set_mset] by simp
  then obtain ys zs where xs: "xs = ys @ m # zs" by (meson split_list)
  have rest: "mset (ys @ zs) = mset [0..<m]" using Suc.prems(1) by (simp add: xs)
  then have below: "set (ys @ zs) = {..<m}"
    using mset_eq_setD [OF rest] by (simp add: atLeast0LessThan)
  have lt: "u < m" if "u \<in> set ys \<union> set zs" for u using that unfolding set_append [symmetric] below by simp
  have "\<not> conf z m" if "z \<in> set zs" for z
    using that Suc.prems(2) lt [of z] by (simp add: xs sorted_wrt_append)
  moreover have "P (fold f ys w)"
  proof -
    have "P (fold f us w)" if "\<And>u. u \<in> set us \<Longrightarrow> u < N" "P w" for us w
      using that
    proof (induction us arbitrary: w)
      case (Cons u us)
      have "P (f u w)" using Cons.prems P [of u w] by simp
      then show ?case using Cons by simp
    qed simp
    moreover have "u < N" if "u \<in> set ys" for u using lt [of u] that Suc.prems(4) by simp
    ultimately show ?thesis using Suc.prems(3) by blast
  qed
  moreover have "z < m" "z < N" if "z \<in> set zs" for z using that lt [of z] Suc.prems(4) by simp_all
  moreover have "m < N" using Suc.prems(4) by simp
  ultimately have "fold f zs (f m (fold f ys w)) = f m (fold f zs (fold f ys w))"
    by (intro fold_commute [where P = P]) (use commute P in blast)+
  then have "fold f xs w = f m (fold f (ys @ zs) w)" by (simp add: xs)
  moreover have "fold f (ys @ zs) w = fold f [0..<m] w"
    using rest Suc.prems(2,3,4) by (intro Suc.IH) (auto simp: xs sorted_wrt_append)
  ultimately show ?case by simp
qed simp

lemma reachable_inv:
  assumes d: "txdag_init cs new_DAG = Inr d" and n: "length cs \<le> INVALID_ID"
    and run: "(dag_step f)\<^sup>*\<^sup>* (start threadNum d w) s"
  shows "exec_inv (m_vtxs d) s" "count_inv f (length cs) w s" "length (threads s) = threadNum"
    "graph_ok (m_vtxs d)" "length (m_vtxs d) = length cs"
proof -
  have built: "graph_ok (m_vtxs d)" "length (m_vtxs d) = length cs" "m_topLevel d = ready (m_vtxs d)" "m_totalVtxs d = length cs"
    using txdag_built [OF n, of new_DAG] d by (auto simp: new_DAG_def)
  then show "graph_ok (m_vtxs d)" "length (m_vtxs d) = length cs" by auto
  have "exec_inv (m_vtxs d) s \<and> count_inv f (length cs) w s \<and> length (threads s) = threadNum"
    using run
  proof (induction rule: rtranclp_induct)
    case base
    then show ?case using inv_start(1) [OF built(1,3), of threadNum w] inv_start(2) [OF built(1,3), of f w threadNum] built(2,4)
      by (simp add: start_def)
  next
    case (step t u)
    have "length (threads u) = length (threads t)"
      using step.hyps(2) by (auto elim!: dag_stepE busy_stepE simp: goto_def)
    then show ?case
      using step exec_inv_step [OF _ built(1) _ step.hyps(2)] count_inv_step [OF _ step.hyps(2)] n built(2) by auto
  qed
  then show "exec_inv (m_vtxs d) s" "count_inv f (length cs) w s" "length (threads s) = threadNum" by auto
qed

lemma left_executed:
  assumes "exec_inv vs s" and "count_inv f (length vs) w s" and "threads s \<noteq> []" and "\<forall>t \<in> set (threads s). t_pc t = Left"
  shows "mset (executed s) = mset [0..<length vs]"
proof -
  have "length vs \<le> length (executed s)" using assms(2-4) by (cases "threads s") (auto simp: count_inv_def)
  moreover have d: "distinct (executed s)" "set (executed s) \<subseteq> {..<length vs}" using exec_inv_distinct [OF assms(1)] by auto
  ultimately have "set (executed s) = {..<length vs}"
    by (intro card_seteq) (auto simp: distinct_card)
  then show ?thesis using d(1) by (simp add: set_eq_iff_mset_eq_distinct [symmetric] atLeast0LessThan del: mset_upt)
qed

lemma executed_as_serial:
  assumes n: "length cs \<le> INVALID_ID" and d: "txdag_init cs new_DAG = Inr d"
    and run: "(dag_step f)\<^sup>*\<^sup>* (start threadNum d w) s"
    and left: "0 < threadNum" "\<forall>t \<in> set (threads s). t_pc t = Left"
    and commute: "\<And>i j w. i < j \<Longrightarrow> j < length cs \<Longrightarrow> \<not> conflict (cs ! i) (cs ! j) \<Longrightarrow> P w \<Longrightarrow> f i (f j w) = f j (f i w)"
    and P: "\<And>i w. i < length cs \<Longrightarrow> P w \<Longrightarrow> P (f i w)" "P w"
  shows "world s = fold f [0..<length cs] w \<and> mset (executed s) = mset [0..<length cs]"
proof -
  note inv = reachable_inv [OF d n run]
  have ex: "mset (executed s) = mset [0..<length cs]"
    using left_executed [OF inv(1), of f w] inv left by auto
  have path: "(i, j) \<in> (edges d)\<^sup>+" if "i < j" "j < length cs" "conflict (cs ! i) (cs ! j)" for i j
    using txdag_built [OF n, of new_DAG] d that by (auto simp: new_DAG_def)
  have dist: "distinct (executed s)" and sub: "set (executed s) \<subseteq> {..<length cs}"
    using exec_inv_distinct [OF inv(1)] inv(5) by auto
  have "sorted_wrt (\<lambda>z i. \<not> (i < z \<and> conflict (cs ! i) (cs ! z))) (executed s)"
    unfolding sorted_wrt_iff_nth_less
  proof (intro allI impI notI)
    fix a b assume ab: "a < b" "b < length (executed s)"
      and c: "executed s ! b < executed s ! a \<and> conflict (cs ! (executed s ! b)) (cs ! (executed s ! a))"
    have "executed s ! a < length cs" using sub ab nth_mem [of a "executed s"] by (meson lessThan_iff less_trans subsetD)
    then have "(executed s ! b, executed s ! a) \<in> (edges d)\<^sup>+" using path c by blast
    then have "executed s ! b \<in> set (take a (executed s))"
      using exec_inv_order [OF inv(1), of _ _ a] ab by (simp add: edges_def)
    then obtain e where "e < a" "executed s ! e = executed s ! b" by (auto simp: in_set_conv_nth)
    then show False using dist ab by (simp add: nth_eq_iff_index_eq)
  qed
  then have "fold f (executed s) w = fold f [0..<length cs] w"
    using ex commute P by (intro fold_reorder [where P = P and N = "length cs"]) auto
  then show ?thesis using inv(2) ex by (simp add: count_inv_def)
qed

text \<open>
  C1: However the threads are scheduled, executing a block in parallel gives the result of executing its
  transactions one after the other in the order of the block, when transactions that share no critical
  field commute: once all threads have left, every transaction has been executed exactly once.
\<close>

theorem parallel_execution_serial:
  assumes n: "length cs \<le> INVALID_ID" and d: "txdag_init cs new_DAG = Inr d"
    and run: "(dag_step f)\<^sup>*\<^sup>* (start threadNum d w) s"
    and left: "0 < threadNum" "\<forall>t \<in> set (threads s). t_pc t = Left"
    and commute: "\<And>i j w. i < j \<Longrightarrow> j < length cs \<Longrightarrow> \<not> conflict (cs ! i) (cs ! j) \<Longrightarrow> P w \<Longrightarrow> f i (f j w) = f j (f i w)"
    and P: "\<And>i w. i < length cs \<Longrightarrow> P w \<Longrightarrow> P (f i w)" "P w"
  shows "world s = fold f [0..<length cs] w \<and> mset (executed s) = mset [0..<length cs]"
  using assms by (rule executed_as_serial)

section \<open>The threads never wait for each other for ever\<close>

fun weight :: "pc \<Rightarrow> nat" where
  "weight Checking = 2"
| "weight Polling = 1"
| "weight (Consuming es p nx) = 2"
| "weight _ = 0"

definition work_left :: "Vertex list \<Rightarrow> 's TxDAG \<Rightarrow> nat" where
  "work_left vs s = 4 * (length vs - length (executed s)) + size (pending vs (executed s) (threads s))
     + (\<Sum>t\<leftarrow>threads s. weight (t_pc t))"

lemma weight_update:
  "i < length ts \<Longrightarrow> (\<Sum>t\<leftarrow>ts[i := u]. weight (t_pc t)) + weight (t_pc (ts ! i)) = (\<Sum>t\<leftarrow>ts. weight (t_pc t)) + weight (t_pc u)"
  by (rule sum_list_update_add)

lemma pending_same:
  assumes "i < length ts" and "todo (t_pc u) = todo (t_pc (ts ! i))"
  shows "pending vs log (ts[i := u]) = pending vs log ts"
  using total_update [OF assms(1), of "\<lambda>p. mset (todo p)" u] assms(2) by (simp add: pending_def)

lemma busy_step_works:
  assumes inv: "exec_inv vs s" and g: "graph_ok vs" and step: "busy_step f i s s'"
  shows "work_left vs s' < work_left vs s"
  using step
proof (cases rule: busy_step.cases)
  case enter
  let ?u = "(threads s ! i)\<lparr>t_pc := if hasFinished s then Left else Polling\<rparr>"
  show ?thesis using enter weight_update [OF enter(2), of ?u] pending_same [OF enter(2), of ?u vs "executed s"]
    by (cases "hasFinished s") (simp_all add: work_left_def goto_def)
next
  case (pop x q)
  let ?u = "(threads s ! i)\<lparr>t_pc := Executing x\<rparr>"
  show ?thesis using pop weight_update [OF pop(2), of ?u] pending_same [OF pop(2), of ?u vs "executed s"]
    by (simp add: work_left_def goto_def)
next
  case (exec x)
  let ?u = "\<lparr>t_pc = Consuming (outEdge (m_vtxs (m_dag s) ! x)) 0 INVALID_ID, t_exeCnt = t_exeCnt (threads s ! i) + 1\<rparr>"
  have x: "x < length vs" "x \<notin> set (executed s)"
    using token_elem [OF inv, of x] running_elem [OF exec(2), of x] exec(3) by auto
  have d: "distinct (executed s)" "set (executed s) \<subseteq> {..<length vs}" using exec_inv_distinct [OF inv] by auto
  have "set (x # executed s) \<subseteq> {..<length vs}" "distinct (x # executed s)" using x d by auto
  then have "length (executed s) < length vs" using card_mono [of "{..<length vs}" "set (x # executed s)"] by (simp add: distinct_card)
  moreover have "pending vs (executed s @ [x]) ((threads s)[i := ?u]) = pending vs (executed s) (threads s)"
    by (rule exec_pending [OF inv exec(2,3)])
  ultimately show ?thesis using exec weight_update [OF exec(2), of ?u] by (simp add: work_left_def)
next
  case (edge e es p nx d' p' nx')
  let ?u = "(threads s ! i)\<lparr>t_pc := Consuming es p' nx'\<rparr>"
  have "pending vs (executed s) (threads s) = add_mset e (pending vs (executed s) ((threads s)[i := ?u]))"
    using total_update [OF edge(2), of "\<lambda>p. mset (todo p)" ?u] by (simp add: pending_def edge(3))
  then show ?thesis using edge weight_update [OF edge(2), of ?u] by (simp add: work_left_def goto_def)
next
  case (consumed p nx)
  let ?u = "(threads s ! i)\<lparr>t_pc := if nx \<noteq> INVALID_ID then Executing nx else Polling\<rparr>"
  show ?thesis using consumed weight_update [OF consumed(2), of ?u] pending_same [OF consumed(2), of ?u vs "executed s"]
    by (cases "nx = INVALID_ID") (simp_all add: work_left_def goto_def)
qed

lemma some_busy_step:
  assumes inv: "exec_inv vs s" and c: "count_inv f (length vs) w s" and g: "graph_ok vs"
    and threads: "threads s \<noteq> []" and unfinished: "length (executed s) < length vs"
  shows "\<exists>i s'. busy_step f i s s'"
proof (rule ccontr)
  assume stuck: "\<not> (\<exists>i s'. busy_step f i s s')"
  have polling: "t_pc (threads s ! i) = Polling" if i: "i < length (threads s)" for i
  proof (cases "t_pc (threads s ! i)")
    case Checking
    then show ?thesis using stuck enter [OF i] by blast
  next
    case (Executing x)
    then show ?thesis using stuck exec [OF i] by blast
  next
    case (Consuming es p nx)
    then show ?thesis using stuck edge [OF i] consumed [OF i] by (cases es) (blast, metis prod_cases3)
  next
    case Left
    then have "length vs \<le> m_exeCnt s" using c i by (auto simp: count_inv_def)
    then show ?thesis using c unfinished by (auto simp: count_inv_def)
  qed simp
  then have empty: "m_topLevel (m_dag s) = []"
  proof (cases "m_topLevel (m_dag s)")
    case (Cons x q)
    then show ?thesis using stuck pop [of 0 s x q f] threads polling by auto
  qed
  have none: "total g (threads s) = {#}" if "g Polling = {#}" for g
  proof -
    have "map (\<lambda>t. g (t_pc t)) (threads s) = replicate (length (threads s)) {#}"
      by (rule nth_equalityI) (simp_all add: polling that)
    moreover have "sum_list (replicate k {#}) = {#}" for k by (induction k) simp_all
    ultimately show ?thesis by (simp add: total_def)
  qed
  let ?A = "{..<length vs} - set (executed s)"
  have "\<not> {..<length vs} \<subseteq> set (executed s)"
    using unfinished card_mono [of "set (executed s)" "{..<length vs}"] card_length [of "executed s"] by auto
  then have "?A \<noteq> {}" by auto
  then obtain v where v: "v \<in> ?A" "\<And>u. u \<in> ?A \<Longrightarrow> v \<le> u"
    using Min_in [of ?A] Min_le [of ?A] by (metis finite_Diff finite_lessThan)
  have "count (\<Sum>u \<in> ?A. mset (outEdge (vs ! u))) v = 0"
    using graph_okD(2) [OF g] v(2) by (fastforce simp: count_sum count_mset_0_iff)
  then have "count (pending vs (executed s) (threads s)) v = 0" by (simp add: pending_def none)
  then have "v \<in># mset (filter (\<lambda>v. count (pending vs (executed s) (threads s)) v = 0) [0..<length vs])" using v(1) by simp
  moreover have "mset (executed s) = mset (filter (\<lambda>v. count (pending vs (executed s) (threads s)) v = 0) [0..<length vs])"
    using exec_invD(4) [OF inv refl] unfolding empty none [of token, OF token.simps(4)] by (simp only: mset.simps add_0)
  ultimately have "v \<in> set (executed s)" by (metis set_mset_mset)
  then show False using v(1) by simp
qed


text \<open>
  C23: The parallel execution never gets stuck: whatever the threads have done, as long as one transaction
  is not executed some thread can take a step towards its end, and such steps lead to a state in which
  all transactions of the block have been executed.
\<close>

theorem parallel_execution_finishes:
  assumes n: "length cs \<le> INVALID_ID" and d: "txdag_init cs new_DAG = Inr d"
    and run: "(dag_step f)\<^sup>*\<^sup>* (start threadNum d w) s" and threads: "0 < threadNum"
  shows "\<exists>s'. (\<lambda>s s'. \<exists>i. busy_step f i s s')\<^sup>*\<^sup>* s s' \<and> mset (executed s') = mset [0..<length cs]"
  using run
proof (induction "work_left (m_vtxs d) s" arbitrary: s rule: less_induct)
  case less
  note inv = reachable_inv [OF d n less.prems]
  show ?case
  proof (cases "length (executed s) < length cs")
    case True
    have "threads s \<noteq> []" using inv(3) threads by auto
    then obtain i s1 where s1: "busy_step f i s s1"
      using some_busy_step [OF inv(1) _ inv(4), of f w] inv(2,5) True by auto
    have "(dag_step f)\<^sup>*\<^sup>* (start threadNum d w) s1"
      using less.prems dag_step.busy [OF s1] by (rule rtranclp.rtrancl_into_rtrancl)
    then obtain s' where "(\<lambda>s s'. \<exists>i. busy_step f i s s')\<^sup>*\<^sup>* s1 s'" "mset (executed s') = mset [0..<length cs]"
      using less.hyps [OF busy_step_works [OF inv(1,4) s1]] by blast
    then show ?thesis using s1 by (blast intro: converse_rtranclp_into_rtranclp)
  next
    case False
    have e: "distinct (executed s)" "set (executed s) \<subseteq> {..<length cs}" using exec_inv_distinct [OF inv(1)] inv(5) by auto
    then have "set (executed s) = {..<length cs}" using False by (intro card_seteq) (auto simp: distinct_card)
    then have "mset (executed s) = mset [0..<length cs]"
      using e(1) by (simp add: set_eq_iff_mset_eq_distinct [symmetric] atLeast0LessThan del: mset_upt)
    then show ?thesis by blast
  qed
qed

text \<open>The next step of a thread as a function: a list of thread numbers is a schedule.\<close>

definition next_step :: "(nat \<Rightarrow> 's \<Rightarrow> 's) \<Rightarrow> nat \<Rightarrow> 's TxDAG \<Rightarrow> 's TxDAG" where
  "next_step f i s =
     (if i < length (threads s) then
        case t_pc (threads s ! i) of
          Checking \<Rightarrow> goto i (if hasFinished s then Left else Polling) s
        | Polling \<Rightarrow>
            (case m_topLevel (m_dag s) of
               [] \<Rightarrow> s\<lparr>m_exeCnt := m_exeCnt s + t_exeCnt (threads s ! i),
                      threads := (threads s)[i := \<lparr>t_pc = Checking, t_exeCnt = 0\<rparr>]\<rparr>
             | x # q \<Rightarrow> goto i (Executing x) (s\<lparr>m_dag := (m_dag s)\<lparr>m_topLevel := q\<rparr>\<rparr>))
        | Executing x \<Rightarrow>
            s\<lparr>threads := (threads s)[i := \<lparr>t_pc = Consuming (outEdge (m_vtxs (m_dag s) ! x)) 0 INVALID_ID,
                 t_exeCnt = t_exeCnt (threads s ! i) + 1\<rparr>], world := f x (world s), executed := executed s @ [x]\<rparr>
        | Consuming (e # es) p nx \<Rightarrow>
            (case consume_edge e (m_dag s) p nx of (d', p', nx') \<Rightarrow> goto i (Consuming es p' nx') (s\<lparr>m_dag := d'\<rparr>))
        | Consuming [] p nx \<Rightarrow>
            goto i (if nx \<noteq> INVALID_ID then Executing nx else Polling)
              (s\<lparr>m_dag := (m_dag s)\<lparr>m_totalConsume := m_totalConsume (m_dag s) + 1\<rparr>\<rparr>)
        | Left \<Rightarrow> s
      else s)"

lemma next_step_ok: "next_step f i s = s \<or> dag_step f s (next_step f i s)"
proof (cases "i < length (threads s)")
  case i: True
  show ?thesis
  proof (cases "t_pc (threads s ! i)")
    case Checking
    then show ?thesis using busy [OF enter [OF i]] i by (simp only: next_step_def if_True pc.case) blast
  next
    case Polling
    then show ?thesis using busy [OF pop [OF i]] leave [OF i] i
      by (cases "m_topLevel (m_dag s)") (simp_all only: next_step_def if_True pc.case list.case, blast+)
  next
    case (Executing x)
    then show ?thesis using busy [OF exec [OF i]] i by (simp only: next_step_def if_True pc.case) blast
  next
    case (Consuming es p nx)
    show ?thesis
    proof (cases es)
      case Nil
      then show ?thesis using busy [OF consumed [OF i]] Consuming i by (simp only: next_step_def if_True pc.case list.case) blast
    next
      case (Cons e es)
      obtain d' p' nx' where c: "consume_edge e (m_dag s) p nx = (d', p', nx')" by (rule prod_cases3)
      show ?thesis using busy [OF edge [OF i _ c]] Consuming Cons i
        by (simp only: next_step_def if_True pc.case list.case c prod.case) blast
    qed
  next
    case Left
    then show ?thesis by (simp add: next_step_def)
  qed
qed (simp add: next_step_def)

lemma schedule_run: "(dag_step f)\<^sup>*\<^sup>* s (fold (next_step f) is s)"
proof (induction "is" arbitrary: s)
  case (Cons i js)
  show ?case using next_step_ok [of f i s] Cons [of "next_step f i s"] by (auto intro: converse_rtranclp_into_rtranclp)
qed simp

definition counter_graph :: DAG where
  "counter_graph = \<lparr>m_vtxs = [\<lparr>inDegree = 0, outEdge = [1]\<rparr>, \<lparr>inDegree = 1, outEdge = []\<rparr>, \<lparr>inDegree = 0, outEdge = []\<rparr>],
     m_topLevel = [0, 2], m_totalVtxs = 3, m_totalConsume = 0\<rparr>"

lemma counter_graph_init: "txdag_init [Some [''a''], Some [''a''], Some [''b'']] new_DAG = Inr counter_graph"
  by (simp add: txdag_init_def add_tx_def dag_init_def dag_clear_def new_DAG_def new_CriticalField_def cf_get_def cf_update_def
      om_set_def INVALID_ID_def addEdge_def link_def generate_def counter_graph_def less_char_def Let_def)

text \<open>Two threads: the second executes transaction 2 before the first executes 0 and 1.\<close>

definition counter_schedule :: "nat list" where
  "counter_schedule = [0, 1, 0, 1, 1, 1, 0, 0, 0, 0, 0, 1, 0, 1, 0, 1, 0, 1]"

definition counter_step :: "nat \<Rightarrow> nat \<times> nat \<Rightarrow> nat \<times> nat" where
  "counter_step i = (\<lambda>(a, b). if i = 0 then (a + 5, b) else if i = 1 then (2 * a, b) else (a, b + 1))"

lemma counter_run:
  "executed (fold (next_step counter_step) counter_schedule (start 2 counter_graph (1, 0))) = [2, 0, 1]"
  "\<forall>t \<in> set (threads (fold (next_step counter_step) counter_schedule (start 2 counter_graph (1, 0)))). t_pc t = Left"
  by (simp_all add: counter_schedule_def start_def next_step_def goto_def hasFinished_def consume_edge_def counter_graph_def
      counter_step_def INVALID_ID_def Let_def numeral_2_eq_2)


lemma parallel_execution_serial_witness:
  "world (fold (next_step counter_step) counter_schedule (start 2 counter_graph (1, 0))) = (12, 1)
    \<and> executed (fold (next_step counter_step) counter_schedule (start 2 counter_graph (1, 0))) \<noteq> [0, 1, 2]"
proof -
  let ?cs = "[Some [''a''], Some [''a''], Some [''b'']]"
  let ?s = "fold (next_step counter_step) counter_schedule (start 2 counter_graph (1, 0))"
  have n: "length ?cs \<le> INVALID_ID" by (simp add: INVALID_ID_def)
  have commute: "counter_step i (counter_step j w) = counter_step j (counter_step i w)"
    if "i < j" "j < length ?cs" "\<not> conflict (?cs ! i) (?cs ! j)" "True" for i j w
    using that by (cases i) (auto simp: counter_step_def less_Suc_eq numeral_3_eq_3 split: prod.splits)
  have "world ?s = fold counter_step [0..<length ?cs] (1, 0) \<and> mset (executed ?s) = mset [0..<length ?cs]"
    by (rule parallel_execution_serial [OF n counter_graph_init schedule_run _ counter_run(2) commute]) simp_all
  then show ?thesis unfolding counter_run(1) by (simp add: counter_step_def upt_rec_numeral)
qed

lemma parallel_execution_finishes_witness:
  "\<exists>s'. (\<lambda>s s'. \<exists>i. busy_step counter_step i s s')\<^sup>*\<^sup>* (start 2 counter_graph (1, 0)) s' \<and> mset (executed s') = {#0, 1, 2#}"
proof -
  have n: "length [Some [''a''], Some [''a''], Some [''b'']] \<le> INVALID_ID" by (simp add: INVALID_ID_def)
  from parallel_execution_finishes [OF n counter_graph_init rtranclp.rtrancl_refl, of 2 counter_step "(1, 0)"]
  show ?thesis by (simp add: numeral_3_eq_3 del: mset_upt) (simp add: upt_rec numeral_2_eq_2)
qed

end
