(* ===== verification/DagTransfer.thy ===== *)
theory DagTransfer
  imports DagRun
begin

text \<open>
  Contracts whose transactions may run in parallel. The first part is the contract between the parallel
  execution and a precompiled contract with parallel tags; the second is the transfer contract
  \<open>libprecompiled/extension/DagTransferPrecompiled.cpp\<close>, which keeps it for all its calls but the
  balance query.

  The table of balances is modelled with what the contract uses of it (\<open>select\<close>, \<open>insert\<close>, \<open>update\<close>
  under one key): the balances of the entries under a key. The parameters of a call are decoded; the ABI
  is not modelled here.
\<close>

section \<open>Blocks of a parallel contract\<close>

text \<open>
  \<open>f_executeTx\<close> of \<open>parallelExecuteBlock\<close>: a transaction changes the state and leaves its receipt at its
  place in the block.
\<close>

definition execute_tx :: "('t \<Rightarrow> 's \<Rightarrow> 's \<times> 'r) \<Rightarrow> 't list \<Rightarrow> nat \<Rightarrow> 's \<times> (nat \<rightharpoonup> 'r) \<Rightarrow> 's \<times> (nat \<rightharpoonup> 'r)" where
  "execute_tx run txs i = (\<lambda>(s, receipts). case run (txs ! i) s of (s', r) \<Rightarrow> (s', receipts(i \<mapsto> r)))"

text \<open>The reference: the transactions one after the other, in the order of the block.\<close>

definition serial_block :: "('t \<Rightarrow> 's \<Rightarrow> 's \<times> 'r) \<Rightarrow> 't list \<Rightarrow> 's \<Rightarrow> 's \<times> (nat \<rightharpoonup> 'r)" where
  "serial_block run txs s = fold (execute_tx run txs) [0..<length txs] (s, Map.empty)"

locale parallel_contract =
  fixes run :: "'t \<Rightarrow> 's \<Rightarrow> 's \<times> 'r"
    and criticals :: "'t \<Rightarrow> string list option"
    and admissible :: "'t \<Rightarrow> bool"
    and state_ok :: "'s \<Rightarrow> bool"
  assumes state_ok_run: "admissible t \<Longrightarrow> state_ok s \<Longrightarrow> state_ok (fst (run t s))"
    and independent_state: "admissible t \<Longrightarrow> admissible u \<Longrightarrow> \<not> conflict (criticals t) (criticals u) \<Longrightarrow> state_ok s
      \<Longrightarrow> fst (run t (fst (run u s))) = fst (run u (fst (run t s)))"
    and independent_receipt: "admissible t \<Longrightarrow> admissible u \<Longrightarrow> \<not> conflict (criticals t) (criticals u) \<Longrightarrow> state_ok s
      \<Longrightarrow> snd (run t (fst (run u s))) = snd (run t s)"
begin

lemma txs_commute:
  assumes "i < j" "j < length txs" "list_all admissible txs" "\<not> conflict (criticals (txs ! i)) (criticals (txs ! j))"
    and "state_ok (fst w)"
  shows "execute_tx run txs i (execute_tx run txs j w) = execute_tx run txs j (execute_tx run txs i w)"
proof -
  have adm: "admissible (txs ! i)" "admissible (txs ! j)" using assms(1-3) by (auto simp: list_all_length)
  have c: "\<not> conflict (criticals (txs ! j)) (criticals (txs ! i))" using assms(4) conflict_sym by blast
  show ?thesis
    using independent_state [OF adm assms(4,5)] independent_receipt [OF adm assms(4,5)]
      independent_receipt [OF adm(2,1) c assms(5)] assms(1)
    by (cases w) (simp add: execute_tx_def case_prod_beta fun_upd_twist)
qed

lemma parallel_block:
  assumes adm: "list_all admissible txs" and ok: "state_ok s0"
    and n: "length txs \<le> INVALID_ID" and d: "txdag_init (map criticals txs) new_DAG = Inr d"
    and run: "(dag_step (execute_tx run txs))\<^sup>*\<^sup>* (start threadNum d (s0, Map.empty)) s"
    and left: "0 < threadNum" "\<forall>t \<in> set (threads s). t_pc t = Left"
  shows "world s = serial_block run txs s0"
proof -
  have "world s = fold (execute_tx run txs) [0..<length (map criticals txs)] (s0, Map.empty)
      \<and> mset (executed s) = mset [0..<length (map criticals txs)]"
  proof (rule executed_as_serial [OF _ d run left, where P = "\<lambda>w. state_ok (fst w)"])
    show "execute_tx run txs i (execute_tx run txs j w) = execute_tx run txs j (execute_tx run txs i w)"
      if "i < j" "j < length (map criticals txs)" "\<not> conflict (map criticals txs ! i) (map criticals txs ! j)" "state_ok (fst w)"
      for i j w using that adm by (intro txs_commute) auto
    show "state_ok (fst (execute_tx run txs i w))" if "i < length (map criticals txs)" "state_ok (fst w)" for i w
    proof -
      have "admissible (txs ! i)" using adm that(1) by (simp add: list_all_length)
      then show ?thesis using state_ok_run [OF _ that(2)]
        by (cases w) (simp add: execute_tx_def case_prod_beta)
    qed
  qed (use n ok in simp_all)
  then show ?thesis by (simp add: serial_block_def)
qed

end


section \<open>The transfer contract\<close>

type_synonym u256 = "256 word"

definition CODE_SUCCESS :: int where "CODE_SUCCESS = 0"
definition CODE_INVALID_USER_NAME :: int where "CODE_INVALID_USER_NAME = -51400"
definition CODE_INVALID_AMOUNT :: int where "CODE_INVALID_AMOUNT = -51401"
definition CODE_INVALID_USER_NOT_EXIST :: int where "CODE_INVALID_USER_NOT_EXIST = -51402"
definition CODE_INVALID_USER_ALREADY_EXIST :: int where "CODE_INVALID_USER_ALREADY_EXIST = -51403"
definition CODE_INVALID_INSUFFICIENT_BALANCE :: int where "CODE_INVALID_INSUFFICIENT_BALANCE = -51404"
definition CODE_INVALID_BALANCE_OVERFLOW :: int where "CODE_INVALID_BALANCE_OVERFLOW = -51405"
definition CODE_NO_AUTHORIZED :: int where "CODE_NO_AUTHORIZED = -50000"

datatype dag_call =
    userAdd string u256
  | userSave string u256
  | userDraw string u256
  | userTransfer string string u256
  | userBalance string
  | unknown_function

text \<open>
  The table of balances: the entries under a key, and the accounts that may write (nobody listed: all).
  \<open>None\<close> is a chain on which the table does not exist. A transaction of the contract is the account it
  comes from and the call.
\<close>

type_synonym rows = "string \<Rightarrow> u256 list"

record dag_table =
  dt_rows :: rows
  dt_authorized :: "string list"

definition new_dag_table :: dag_table where
  "new_dag_table = \<lparr>dt_rows = (\<lambda>user. []), dt_authorized = []\<rparr>"

type_synonym dag_tx = "string \<times> dag_call"

text \<open>What a call leaves: its return code, with a balance for the query; nothing for an unknown function.\<close>

datatype receipt = Ret int | RetBalance int u256 | NoResult

definition checkAuthority :: "string \<Rightarrow> string list \<Rightarrow> bool" where
  "checkAuthority origin authorized = (authorized = [] \<or> origin \<in> set authorized)"

definition invalidUserName :: "string \<Rightarrow> bool" where
  "invalidUserName user = (user = [])"

definition getParallelTag :: "dag_call \<Rightarrow> string list" where
  "getParallelTag c =
     (case c of
        userAdd user amount \<Rightarrow> if \<not> invalidUserName user then [user] else []
      | userSave user amount \<Rightarrow> if \<not> invalidUserName user then [user] else []
      | userDraw user amount \<Rightarrow> if \<not> invalidUserName user then [user] else []
      | userTransfer fromUser toUser amount \<Rightarrow>
          if \<not> invalidUserName fromUser \<and> \<not> invalidUserName toUser then [fromUser, toUser] else []
      | userBalance user \<Rightarrow> []
      | unknown_function \<Rightarrow> [])"

text \<open>\<open>getTxCriticals\<close> for this contract: the tags, each with the address of the contract.\<close>

definition dag_criticals :: "string \<Rightarrow> dag_tx \<Rightarrow> string list option" where
  "dag_criticals address = (\<lambda>(origin, c). Some (map (\<lambda>critical. critical @ address) (getParallelTag c)))"

text \<open>
  \<open>openTable\<close> creates the table when there is none: without checking authority, and with no list of
  authorized accounts. It always returns a table, so the code's test of the pointer never fails.
\<close>

definition dag_openTable :: "dag_table option \<Rightarrow> dag_table" where
  "dag_openTable s = (case s of Some t \<Rightarrow> t | None \<Rightarrow> new_dag_table)"

definition table_insert :: "string \<Rightarrow> u256 \<Rightarrow> rows \<Rightarrow> rows" where
  "table_insert user b t = t(user := t user @ [b])"

definition table_update :: "string \<Rightarrow> u256 \<Rightarrow> rows \<Rightarrow> rows" where
  "table_update user b t = t(user := map (\<lambda>_. b) (t user))"

definition with_table :: "string \<Rightarrow> (bool \<Rightarrow> rows \<Rightarrow> rows \<times> int) \<Rightarrow> dag_table option \<Rightarrow> dag_table option \<times> receipt" where
  "with_table origin f s =
     (let table = dag_openTable s
      in case f (checkAuthority origin (dt_authorized table)) (dt_rows table) of
           (t', ret) \<Rightarrow> (Some (table\<lparr>dt_rows := t'\<rparr>), Ret ret))"

definition userAddCall :: "string \<Rightarrow> string \<Rightarrow> u256 \<Rightarrow> dag_table option \<Rightarrow> dag_table option \<times> receipt" where
  "userAddCall origin user amount s =
     (if invalidUserName user then (s, Ret CODE_INVALID_USER_NAME)
      else with_table origin (\<lambda>authorized t.
        if t user \<noteq> [] then (t, CODE_INVALID_USER_ALREADY_EXIST)
        else if \<not> authorized then (t, CODE_NO_AUTHORIZED)
        else (table_insert user amount t, CODE_SUCCESS)) s)"

definition userSaveCall :: "string \<Rightarrow> string \<Rightarrow> u256 \<Rightarrow> dag_table option \<Rightarrow> dag_table option \<times> receipt" where
  "userSaveCall origin user amount s =
     (if invalidUserName user then (s, Ret CODE_INVALID_USER_NAME)
      else if 0 = amount then (s, Ret CODE_INVALID_AMOUNT)
      else with_table origin (\<lambda>authorized t.
        case t user of
          [] \<Rightarrow>
            if \<not> authorized then (t, CODE_NO_AUTHORIZED)
            else (table_insert user amount t, CODE_SUCCESS)
        | balance # _ \<Rightarrow>
            let new_balance = balance + amount
            in if new_balance < balance then (t, CODE_INVALID_BALANCE_OVERFLOW)
               else if \<not> authorized then (t, CODE_NO_AUTHORIZED)
               else (table_update user new_balance t, CODE_SUCCESS)) s)"

definition userDrawCall :: "string \<Rightarrow> string \<Rightarrow> u256 \<Rightarrow> dag_table option \<Rightarrow> dag_table option \<times> receipt" where
  "userDrawCall origin user amount s =
     (if invalidUserName user then (s, Ret CODE_INVALID_USER_NAME)
      else if amount = 0 then (s, Ret CODE_INVALID_AMOUNT)
      else with_table origin (\<lambda>authorized t.
        case t user of
          [] \<Rightarrow> (t, CODE_INVALID_USER_NOT_EXIST)
        | balance # _ \<Rightarrow>
            if balance < amount then (t, CODE_INVALID_INSUFFICIENT_BALANCE)
            else let new_balance = balance - amount
              in if \<not> authorized then (t, CODE_NO_AUTHORIZED)
                 else (table_update user new_balance t, CODE_SUCCESS)) s)"

definition userBalanceCall :: "string \<Rightarrow> string \<Rightarrow> dag_table option \<Rightarrow> dag_table option \<times> receipt" where
  "userBalanceCall origin user s =
     (if invalidUserName user then (s, RetBalance CODE_INVALID_USER_NAME 0)
      else let table = dag_openTable s
        in case dt_rows table user of
             [] \<Rightarrow> (Some table, RetBalance CODE_INVALID_USER_NOT_EXIST 0)
           | balance # _ \<Rightarrow> (Some table, RetBalance CODE_SUCCESS balance))"

text \<open>The result of the second \<open>update\<close> is not tested in the code.\<close>

definition userTransferCall :: "string \<Rightarrow> string \<Rightarrow> string \<Rightarrow> u256 \<Rightarrow> dag_table option \<Rightarrow> dag_table option \<times> receipt" where
  "userTransferCall origin fromUser toUser amount s =
     (if invalidUserName fromUser \<or> invalidUserName toUser then (s, Ret CODE_INVALID_USER_NAME)
      else if amount = 0 then (s, Ret CODE_INVALID_AMOUNT)
      else if fromUser = toUser then (s, Ret CODE_SUCCESS)
      else with_table origin (\<lambda>authorized t.
        case t fromUser of
          [] \<Rightarrow> (t, CODE_INVALID_USER_NOT_EXIST)
        | fromUserBalance # _ \<Rightarrow>
            if fromUserBalance < amount then (t, CODE_INVALID_INSUFFICIENT_BALANCE)
            else if t toUser = [] \<and> \<not> authorized then (t, CODE_NO_AUTHORIZED)
            else
              let (t, toUserBalance) =
                (case t toUser of [] \<Rightarrow> (table_insert toUser 0 t, 0) | balance # _ \<Rightarrow> (t, balance))
              in if toUserBalance + amount < toUserBalance then (t, CODE_INVALID_BALANCE_OVERFLOW)
                 else
                   let newFromUserBalance = fromUserBalance - amount;
                       newToUserBalance = toUserBalance + amount
                   in if \<not> authorized then (t, CODE_NO_AUTHORIZED)
                      else (table_update toUser newToUserBalance (table_update fromUser newFromUserBalance t), CODE_SUCCESS)) s)"

definition dag_call_run :: "dag_tx \<Rightarrow> dag_table option \<Rightarrow> dag_table option \<times> receipt" where
  "dag_call_run = (\<lambda>(origin, c) s.
     case c of
       userAdd user amount \<Rightarrow> userAddCall origin user amount s
     | userSave user amount \<Rightarrow> userSaveCall origin user amount s
     | userDraw user amount \<Rightarrow> userDrawCall origin user amount s
     | userTransfer fromUser toUser amount \<Rightarrow> userTransferCall origin fromUser toUser amount s
     | userBalance user \<Rightarrow> userBalanceCall origin user s
     | unknown_function \<Rightarrow> (s, NoResult))"

section \<open>A call reads and writes the rows of its tags\<close>

lemmas dag_ops = dag_call_run_def userAddCall_def userSaveCall_def userDrawCall_def userTransferCall_def userBalanceCall_def
  with_table_def table_insert_def table_update_def

lemmas dag_codes = CODE_SUCCESS_def CODE_INVALID_USER_NAME_def CODE_INVALID_AMOUNT_def CODE_INVALID_USER_NOT_EXIST_def
  CODE_INVALID_USER_ALREADY_EXIST_def CODE_INVALID_INSUFFICIENT_BALANCE_def CODE_INVALID_BALANCE_OVERFLOW_def CODE_NO_AUTHORIZED_def

definition is_query :: "dag_tx \<Rightarrow> bool" where
  "is_query t = (case snd t of userBalance user \<Rightarrow> True | _ \<Rightarrow> False)"

definition next_rows :: "dag_tx \<Rightarrow> dag_table \<Rightarrow> rows" where
  "next_rows c t = dt_rows (the (fst (dag_call_run c (Some t))))"

definition receipt_of :: "dag_tx \<Rightarrow> dag_table \<Rightarrow> receipt" where
  "receipt_of c t = snd (dag_call_run c (Some t))"

text \<open>A call with invalid parameters does not open the table.\<close>

definition opens :: "dag_tx \<Rightarrow> bool" where
  "opens c = (fst (dag_call_run c None) \<noteq> None)"

lemma open_table [simp]: "dag_openTable (Some t) = t" "dag_openTable None = new_dag_table"
  by (simp_all add: dag_openTable_def)

lemma new_dag_table_simps [simp]:
  "dt_rows new_dag_table = (\<lambda>u. [])" "dt_authorized new_dag_table = []" "checkAuthority origin []"
  "new_dag_table\<lparr>dt_rows := \<lambda>u. []\<rparr> = new_dag_table"
  by (simp_all add: new_dag_table_def checkAuthority_def)

lemma run_on_table: "dag_call_run c (Some t) = (Some (t\<lparr>dt_rows := next_rows c t\<rparr>), receipt_of c t)"
  by (cases c; cases "snd c")
    (auto simp: next_rows_def receipt_of_def dag_ops Let_def split: list.split prod.split)

lemma run_without_table:
  "dag_call_run c None = (if opens c then dag_call_run c (Some new_dag_table) else (None, receipt_of c t))"
  by (cases c; cases "snd c")
    (auto simp: opens_def receipt_of_def dag_ops Let_def split: list.split prod.split if_splits)

lemma not_opens: "\<not> opens c \<Longrightarrow> next_rows c t = dt_rows t"
  by (cases c; cases "snd c")
    (auto simp: opens_def next_rows_def dag_ops Let_def split: list.split prod.split if_splits)

abbreviation tags_of :: "dag_tx \<Rightarrow> string set" where
  "tags_of c \<equiv> set (getParallelTag (snd c))"

lemma next_rows_frame: "u \<notin> tags_of c \<Longrightarrow> next_rows c t u = dt_rows t u"
  by (cases c; cases "snd c") (auto simp: next_rows_def dag_ops getParallelTag_def Let_def split: list.split)

lemma receipt_local:
  assumes "\<And>u. u \<in> tags_of c \<Longrightarrow> r u = dt_rows t u" and "\<not> is_query c"
  shows "receipt_of c (t\<lparr>dt_rows := r\<rparr>) = receipt_of c t"
  using assms by (cases c; cases "snd c")
    (auto simp: receipt_of_def is_query_def dag_ops getParallelTag_def Let_def split: list.split if_splits)

lemma next_rows_local:
  assumes "\<And>u. u \<in> tags_of c \<Longrightarrow> r u = dt_rows t u" and "u \<in> tags_of c"
  shows "next_rows c (t\<lparr>dt_rows := r\<rparr>) u = next_rows c t u"
  using assms by (cases c; cases "snd c")
    (auto simp: next_rows_def dag_ops getParallelTag_def Let_def split: list.split if_splits)

lemma dag_criticals_conflict:
  "conflict (dag_criticals address c) (dag_criticals address d) \<longleftrightarrow> tags_of c \<inter> tags_of d \<noteq> {}"
  by (cases c; cases d) (auto simp: dag_criticals_def)

lemma disjoint_rows:
  assumes "tags_of c \<inter> tags_of d = {}"
  shows "next_rows c (t\<lparr>dt_rows := next_rows d t\<rparr>) = next_rows d (t\<lparr>dt_rows := next_rows c t\<rparr>)"
proof (rule ext)
  fix u
  have c: "next_rows d t v = dt_rows t v" if "v \<in> tags_of c" for v using that assms by (intro next_rows_frame) auto
  have d: "next_rows c t v = dt_rows t v" if "v \<in> tags_of d" for v using that assms by (intro next_rows_frame) auto
  consider "u \<in> tags_of c" | "u \<in> tags_of d" | "u \<notin> tags_of c" "u \<notin> tags_of d" by blast
  then show "next_rows c (t\<lparr>dt_rows := next_rows d t\<rparr>) u = next_rows d (t\<lparr>dt_rows := next_rows c t\<rparr>) u"
  proof cases
    case 1
    then have "u \<notin> tags_of d" using assms by auto
    then show ?thesis using next_rows_local [OF c 1] by (simp add: next_rows_frame)
  next
    case 2
    then have "u \<notin> tags_of c" using assms by auto
    then show ?thesis using next_rows_local [OF d 2] by (simp add: next_rows_frame)
  qed (simp add: next_rows_frame)
qed

interpretation dag_transfer: parallel_contract dag_call_run "dag_criticals address" "\<lambda>c. \<not> is_query c" "\<lambda>s. True"
  for address
proof
  fix t u and s :: "dag_table option"
  assume t: "\<not> is_query t" and u: "\<not> is_query u" and "\<not> conflict (dag_criticals address t) (dag_criticals address u)"
  then have dis: "tags_of t \<inter> tags_of u = {}" by (simp add: dag_criticals_conflict)
  have receipt: "receipt_of t (r\<lparr>dt_rows := next_rows u r\<rparr>) = receipt_of t r" for r
    using dis by (intro receipt_local [OF next_rows_frame t]) auto
  show "fst (dag_call_run t (fst (dag_call_run u s))) = fst (dag_call_run u (fst (dag_call_run t s)))"
    using disjoint_rows [OF dis] not_opens
    by (cases s) (auto simp: run_without_table [of _ undefined] run_on_table)
  show "snd (dag_call_run t (fst (dag_call_run u s))) = snd (dag_call_run t s)"
    using receipt run_without_table [of t] not_opens
    by (cases s) (auto simp: run_without_table [of _ new_dag_table] run_on_table)
qed simp

text \<open>
  C2: A block of calls of the transfer contract (no balance queries) that is executed in
  parallel leaves the balances and the receipts of the serial execution, for every schedule of the threads.
\<close>

theorem dag_transfer_block_serial:
  assumes "list_all (\<lambda>c. \<not> is_query c) txs" and "length txs \<le> INVALID_ID"
    and "txdag_init (map (dag_criticals address) txs) new_DAG = Inr d"
    and "(dag_step (execute_tx dag_call_run txs))\<^sup>*\<^sup>* (start threadNum d (t, Map.empty)) s"
    and "0 < threadNum" and "\<forall>u \<in> set (threads s). t_pc u = Left"
  shows "world s = serial_block dag_call_run txs t"
  using assms by (intro dag_transfer.parallel_block) auto



section \<open>The balance query\<close>

definition query_block :: "dag_tx list" where
  "query_block = [(''o'', userSave ''a'' 5), (''o'', userBalance ''a'')]"

definition two_free :: DAG where
  "two_free = \<lparr>m_vtxs = replicate 2 \<lparr>inDegree = 0, outEdge = []\<rparr>, m_topLevel = [0, 1], m_totalVtxs = 2, m_totalConsume = 0\<rparr>"

lemma query_block_init: "txdag_init (map (dag_criticals address) query_block) new_DAG = Inr two_free"
  by (simp add: query_block_def dag_criticals_def getParallelTag_def invalidUserName_def txdag_init_def add_tx_def
      dag_init_def dag_clear_def new_DAG_def new_CriticalField_def cf_get_def cf_update_def om_set_def INVALID_ID_def
      addEdge_def link_def generate_def two_free_def numeral_2_eq_2 Let_def)

text \<open>
  C25: The balance query has no parallel tag, so a block is executed with no order between a query and the
  transactions on the same user: two schedules of the same block leave different receipts.
\<close>

theorem balance_query_unordered:
  "\<exists>d s1 s2. txdag_init (map (dag_criticals address) query_block) new_DAG = Inr d
    \<and> (dag_step (execute_tx dag_call_run query_block))\<^sup>*\<^sup>* (start 2 d (None, Map.empty)) s1
    \<and> (dag_step (execute_tx dag_call_run query_block))\<^sup>*\<^sup>* (start 2 d (None, Map.empty)) s2
    \<and> mset (executed s1) = {#0, 1#} \<and> mset (executed s2) = {#0, 1#}
    \<and> snd (world s1) 1 = Some (RetBalance CODE_SUCCESS 5)
    \<and> snd (world s2) 1 = Some (RetBalance CODE_INVALID_USER_NOT_EXIST 0)"
proof -
  let ?f = "execute_tx dag_call_run query_block" and ?s = "start 2 two_free (None, Map.empty)"
  let ?r1 = "fold (next_step ?f) [0, 1, 0, 1, 0, 1] ?s" and ?r2 = "fold (next_step ?f) [0, 1, 0, 1, 1, 0] ?s"
  have "executed ?r1 = [0, 1]" "executed ?r2 = [1, 0]"
    by (simp_all add: start_def next_step_def goto_def hasFinished_def two_free_def numeral_2_eq_2)
  moreover have "world ?r1 = ?f 1 (?f 0 (None, Map.empty))" "world ?r2 = ?f 0 (?f 1 (None, Map.empty))"
    by (simp_all add: start_def next_step_def goto_def hasFinished_def two_free_def numeral_2_eq_2)
  ultimately have "mset (executed ?r1) = {#0, 1#} \<and> mset (executed ?r2) = {#0, 1#}
    \<and> snd (world ?r1) 1 = Some (RetBalance CODE_SUCCESS 5) \<and> snd (world ?r2) 1 = Some (RetBalance CODE_INVALID_USER_NOT_EXIST 0)"
    by (simp add: execute_tx_def query_block_def dag_ops invalidUserName_def new_dag_table_def checkAuthority_def CODE_SUCCESS_def CODE_INVALID_USER_NOT_EXIST_def)
  then show ?thesis using query_block_init schedule_run [of ?f ?s] by blast
qed

text \<open>One entry for each user: no call adds a second.\<close>

lemma one_record: "(\<And>u. length (dt_rows t u) \<le> 1) \<Longrightarrow> length (next_rows c t u) \<le> 1"
  by (cases c; cases "snd c") (auto simp: next_rows_def dag_ops Let_def split: list.split)

section \<open>Witnesses\<close>

definition transfer_block :: "dag_tx list" where
  "transfer_block =
     [(''o'', userSave ''a'' 5), (''o'', userTransfer ''a'' ''b'' 3), (''o'', userSave ''c'' 1)]"

lemma transfer_block_init: "txdag_init (map (dag_criticals ''x'') transfer_block) new_DAG = Inr counter_graph"
  by (simp add: transfer_block_def dag_criticals_def getParallelTag_def invalidUserName_def txdag_init_def add_tx_def
      dag_init_def dag_clear_def new_DAG_def new_CriticalField_def cf_get_def cf_update_def om_set_def INVALID_ID_def
      addEdge_def link_def generate_def counter_graph_def less_char_def Let_def)

lemma dag_transfer_block_serial_witness:
  "world (fold (next_step (execute_tx dag_call_run transfer_block)) counter_schedule
      (start 2 counter_graph (None, Map.empty))) = serial_block dag_call_run transfer_block None"
proof -
  let ?s = "fold (next_step (execute_tx dag_call_run transfer_block)) counter_schedule (start 2 counter_graph (None, Map.empty))"
  have "list_all (\<lambda>c. \<not> is_query c) transfer_block" "length transfer_block \<le> INVALID_ID"
    by (simp_all add: transfer_block_def is_query_def INVALID_ID_def Let_def)
  moreover have "\<forall>u \<in> set (threads ?s). t_pc u = Left"
    by (simp add: counter_schedule_def start_def next_step_def goto_def hasFinished_def consume_edge_def counter_graph_def
      INVALID_ID_def Let_def numeral_2_eq_2)
  ultimately show ?thesis
    using dag_transfer_block_serial [OF _ _ transfer_block_init schedule_run] by simp
qed


end
