(* ===== verification/PbftMsg.thy ===== *)
theory PbftMsg
  imports Packets
begin

text \<open>
  The messages of the PBFT consensus (\<open>libconsensus/pbft/Common.h\<close>, \<open>libconsensus/Common.h\<close>) with
  their RLP encodings. A block and the result of its execution are parameters of the prepare request.
\<close>

section \<open>Messages\<close>

definition MAXIDX :: nat where "MAXIDX = 65535"
definition MAXVIEW :: int where "MAXVIEW = 2 ^ 63 - 1"
definition MAXTTL :: "8 word" where "MAXTTL = 2"
definition Invalid256 :: nat where "Invalid256 = 2 ^ 256 - 1"
definition zero_h256 :: string where "zero_h256 = replicate 32 (CHR 0x00)"

definition PrepareReqPacket :: nat where "PrepareReqPacket = 0"
definition SignReqPacket :: nat where "SignReqPacket = 1"
definition CommitReqPacket :: nat where "CommitReqPacket = 2"
definition ViewChangeReqPacket :: nat where "ViewChangeReqPacket = 3"

text \<open>Heights and views are 64-bit signed integers, indices 16-bit, the time stamp a 256-bit number.\<close>

record PBFTMsg =
  height :: int
  view :: int
  idx :: nat
  timestamp :: nat
  block_hash :: string
  sig :: string
  sig2 :: string
  isFuture :: bool
  signChecked :: bool
  isEmpty :: bool

definition new_PBFTMsg :: PBFTMsg where
  "new_PBFTMsg = \<lparr>height = -1, view = MAXVIEW, idx = MAXIDX, timestamp = Invalid256,
     block_hash = zero_h256, sig = [], sig2 = [], isFuture = False, signChecked = True, isEmpty = False\<rparr>"

text \<open>\<open>resize\<close> to the present size leaves the signatures as they are.\<close>

definition clear_msg :: "'a PBFTMsg_scheme \<Rightarrow> 'a PBFTMsg_scheme" where
  "clear_msg m = m\<lparr>height := -1, view := MAXVIEW, idx := MAXIDX, timestamp := Invalid256, block_hash := zero_h256\<rparr>"

record ('b, 'c) PrepareReq = PBFTMsg +
  block :: string
  pBlock :: "'b option"
  p_execContext :: "'c option"

definition new_PrepareReq :: "('b, 'c) PrepareReq" where
  "new_PrepareReq = PBFTMsg.extend new_PBFTMsg \<lparr>block = [], pBlock = None, p_execContext = None\<rparr>"

definition uniqueKey :: "'a PBFTMsg_scheme \<Rightarrow> string" where
  "uniqueKey m = toHex (sig m) [] @ toHex (sig2 m) []"

section \<open>Encoding\<close>

text \<open>
  Heights, views and indices are streamed with \<open><<\<close>, which takes the overload of \<open>append\<close> for
  \<open>unsigned\<close>: the low 32 bits are written.
\<close>

definition append_unsigned :: "int \<Rightarrow> RLPStream \<Rightarrow> RLPStream result" where
  "append_unsigned i = appendInt (nat (i mod 2 ^ 32))"

definition streamRLPFields :: "'a PBFTMsg_scheme \<Rightarrow> RLPStream \<Rightarrow> RLPStream result" where
  "streamRLPFields m s =
     rbind (append_unsigned (height m) s) (\<lambda>s.
     rbind (append_unsigned (view m) s) (\<lambda>s.
     rbind (append_unsigned (int (idx m)) s) (\<lambda>s.
     rbind (appendInt (timestamp m) s) (\<lambda>s.
     rbind (append_bytes (block_hash m) False s) (\<lambda>s.
     rbind (append_bytes (sig m) False s) (\<lambda>s.
     append_bytes (sig2 m) False s))))))"

text \<open>The encodings write the fields into a stream of their own and wrap its bytes as one string.\<close>

definition wrap_fields :: "(RLPStream \<Rightarrow> RLPStream result) \<Rightarrow> string result" where
  "wrap_fields write =
     rbind (write new_stream) (\<lambda>tmp.
     rbind (out tmp) (\<lambda>bs.
     rbind (appendList 1 new_stream) (\<lambda>s.
     rbind (append_bytes bs False s) out)))"

definition encode_msg :: "'a PBFTMsg_scheme \<Rightarrow> string result" where
  "encode_msg m = wrap_fields (streamRLPFields m)"

definition encode_prepare :: "('b, 'c) PrepareReq \<Rightarrow> string result" where
  "encode_prepare m = wrap_fields (\<lambda>s. rbind (streamRLPFields m s) (append_bytes (block m) False))"

definition fieldsWithoutBlock :: "(string \<Rightarrow> string) \<Rightarrow> 'a PBFTMsg_scheme \<Rightarrow> string result" where
  "fieldsWithoutBlock Hash m =
     rbind (rbind (append_unsigned (height m) new_stream) (\<lambda>s.
            rbind (append_unsigned (view m) s) (\<lambda>s.
            rbind (append_unsigned (int (idx m)) s) (appendInt (timestamp m))))) (\<lambda>s.
     rbind (out s) (\<lambda>bs. Inr (Hash bs)))"

definition populate :: "string \<Rightarrow> 'a PBFTMsg_scheme \<Rightarrow> 'a PBFTMsg_scheme result" where
  "populate d m =
     rbind (rbind (field 0 d) (toInt 8 Strict)) (\<lambda>h.
     rbind (rbind (field 1 d) (toInt 8 Strict)) (\<lambda>v.
     rbind (rbind (field 2 d) (toInt 2 Strict)) (\<lambda>i.
     rbind (rbind (field 3 d) (toInt 32 Strict)) (\<lambda>t.
     rbind (rbind (field 4 d) (toHash 32 VeryStrict)) (\<lambda>hash.
     rbind (rbind (field 5 d) (toString LaissezFaire)) (\<lambda>s1.
     rbind (rbind (field 6 d) (toString LaissezFaire)) (\<lambda>s2.
       Inr (m\<lparr>height := to_int64 h, view := to_int64 v, idx := i, timestamp := t, block_hash := hash,
              sig := s1, sig2 := s2\<rparr>))))))))"

definition decode_msg :: "string \<Rightarrow> 'a PBFTMsg_scheme \<Rightarrow> 'a PBFTMsg_scheme result" where
  "decode_msg bs m =
     rbind (new_RLP bs VeryStrict) (\<lambda>d.
     rbind (field 0 d) (\<lambda>e. populate e m))"

definition decode_prepare :: "string \<Rightarrow> ('b, 'c) PrepareReq \<Rightarrow> ('b, 'c) PrepareReq result" where
  "decode_prepare bs m =
     rbind (new_RLP bs VeryStrict) (\<lambda>d.
     rbind (field 0 d) (\<lambda>e.
     rbind (populate e m) (\<lambda>m.
     rbind (rbind (field 7 e) (toString LaissezFaire)) (\<lambda>b. Inr (m\<lparr>block := b\<rparr>)))))"

definition encodeStatus :: "'a PBFTMsg_scheme \<Rightarrow> string result" where
  "encodeStatus m =
     wrap_fields (\<lambda>s.
       rbind (append_unsigned (height m) s) (\<lambda>s.
       rbind (append_unsigned (view m) s) (\<lambda>s.
       rbind (append_unsigned (int (idx m)) s) (append_bytes (block_hash m) False))))"

definition decodeStatus :: "string \<Rightarrow> 'a PBFTMsg_scheme \<Rightarrow> 'a PBFTMsg_scheme result" where
  "decodeStatus bs m =
     rbind (new_RLP bs VeryStrict) (\<lambda>d.
     rbind (field 0 d) (\<lambda>e.
     rbind (rbind (field 0 e) (toInt 8 Strict)) (\<lambda>h.
     rbind (rbind (field 1 e) (toInt 8 Strict)) (\<lambda>v.
     rbind (rbind (field 2 e) (toInt 2 Strict)) (\<lambda>i.
     rbind (rbind (field 3 e) (toHash 32 VeryStrict)) (\<lambda>hash.
       Inr (m\<lparr>height := to_int64 h, view := to_int64 v, idx := i, block_hash := hash\<rparr>)))))))"

section \<open>Packets\<close>

text \<open>
  The packet around a message. \<open>forwardNodes\<close> is \<open>None\<close> for the null pointer; only a packet of the
  optimised flooding (\<open>OPBFTMsgPacket\<close>) sends it.
\<close>

record PBFTMsgPacket =
  test_label :: int
  node_idx :: nat
  node_id :: string
  packet_id :: nat
  ttl :: "8 word"
  prepareWithEmptyBlock :: bool
  data :: string
  endpoint :: string
  forwardNodes :: "string list option"

unbundle bit_operations_syntax

definition new_PBFTMsgPacket :: "bool \<Rightarrow> PBFTMsgPacket" where
  "new_PBFTMsgPacket optimized =
     \<lparr>test_label = 0, node_idx = 0, node_id = replicate 64 (CHR 0x00), packet_id = 0, ttl = MAXTTL,
      prepareWithEmptyBlock = False, data = [], endpoint = [],
      forwardNodes = (if optimized then Some [] else None)\<rparr>"

definition stream_packet :: "PBFTMsgPacket \<Rightarrow> RLPStream \<Rightarrow> RLPStream result" where
  "stream_packet p s =
     (let ttl' = (if prepareWithEmptyBlock p then ttl p OR 0x80 else ttl p)
      in rbind (appendInt (packet_id p) s) (\<lambda>s.
         rbind (appendInt (unat ttl') s) (\<lambda>s.
         rbind (append_bytes (data p) False s) (append_unsigned (test_label p)))))"

definition stream_opacket :: "PBFTMsgPacket \<Rightarrow> RLPStream \<Rightarrow> RLPStream result" where
  "stream_opacket p s =
     rbind (stream_packet p s) (\<lambda>s.
       case forwardNodes p of
         None \<Rightarrow> Inl NullPointer
       | Some ns \<Rightarrow> rbind (appendList (length ns) s) (rfold (\<lambda>n. append_bytes n False) ns))"

definition populate_packet :: "string \<Rightarrow> PBFTMsgPacket \<Rightarrow> PBFTMsgPacket result" where
  "populate_packet d p =
     rbind (rbind (field 0 d) (toInt 1 Strict)) (\<lambda>id.
     rbind (rbind (field 1 d) (toInt 1 Strict)) (\<lambda>t.
     rbind (rbind (field 2 d) (toString LaissezFaire)) (\<lambda>bs.
     rbind (rbind (field 3 d) (toInt 1 Strict)) (\<lambda>l.
       let extendedTTL = word_of_nat t :: 8 word
       in Inr (p\<lparr>packet_id := id, ttl := extendedTTL AND 0x7f,
                 prepareWithEmptyBlock := (extendedTTL AND 0x80 \<noteq> 0), data := bs, test_label := int l\<rparr>)))))"

text \<open>The conversion to a list is lenient: an item that is no list becomes the empty list.\<close>

definition toVector_h512 :: "string \<Rightarrow> string list result" where
  "toVector_h512 d =
     (if isList d then rbind (toList LaissezFaire d) (rmap (toHash 64 LaissezFaire)) else Inr [])"

definition populate_opacket :: "string \<Rightarrow> PBFTMsgPacket \<Rightarrow> PBFTMsgPacket result" where
  "populate_opacket d p =
     rbind (populate_packet d p) (\<lambda>p.
     rbind (rbind (field 3 d) toVector_h512) (\<lambda>ns. Inr (p\<lparr>forwardNodes := Some ns\<rparr>)))"

definition encode_packet :: "bool \<Rightarrow> PBFTMsgPacket \<Rightarrow> string result" where
  "encode_packet optimized p = wrap_fields (if optimized then stream_opacket p else stream_packet p)"

definition decode_pbft_packet :: "bool \<Rightarrow> string \<Rightarrow> PBFTMsgPacket result" where
  "decode_pbft_packet optimized bs =
     rbind (new_RLP bs VeryStrict) (\<lambda>d.
     rbind (field 0 d) (\<lambda>e.
       (if optimized then populate_opacket else populate_packet) e (new_PBFTMsgPacket optimized)))"

definition setOtherField :: "nat \<Rightarrow> string \<Rightarrow> string \<Rightarrow> PBFTMsgPacket \<Rightarrow> PBFTMsgPacket" where
  "setOtherField i n e p = p\<lparr>node_idx := i, node_id := n, endpoint := e\<rparr>"

section \<open>What a receiver reads\<close>

lemma appendRaw_open [simp]: "appendRaw bs (Suc 0) \<lparr>m_out = o1, m_listStack = []\<rparr> = Inr \<lparr>m_out = o1 @ bs, m_listStack = []\<rparr>"
  by (simp add: appendRaw_def noteAppended_def)

lemma append_data_open:
  "fits (length b) \<Longrightarrow> append_bytes b False \<lparr>m_out = o1, m_listStack = []\<rparr>
     = Inr \<lparr>m_out = o1 @ encoding (Data b), m_listStack = []\<rparr>"
  by (simp add: append_data del: encoding.simps)

abbreviation number :: "nat \<Rightarrow> item" where "number n \<equiv> Data (toCompactBigEndian n 0)"

lemma append_int_open:
  "bytesRequired n < 56 \<Longrightarrow> appendInt n \<lparr>m_out = o1, m_listStack = []\<rparr>
     = Inr \<lparr>m_out = o1 @ encoding (number n), m_listStack = []\<rparr>"
  by (simp add: appendInt_raw del: encoding.simps)

lemma bytes_of_unsigned: "bytesRequired (nat (i mod 2 ^ 32)) \<le> 4"
  by (rule bytesRequired_le) (simp add: nat_less_iff)

lemma append_unsigned_open:
  "append_unsigned i \<lparr>m_out = o1, m_listStack = []\<rparr>
     = Inr \<lparr>m_out = o1 @ encoding (number (nat (i mod 2 ^ 32))), m_listStack = []\<rparr>"
  using bytes_of_unsigned [of i] by (simp add: append_unsigned_def append_int_open del: encoding.simps)

lemmas writes_open = append_data_open append_int_open append_unsigned_open

lemma wrapped:
  assumes "write new_stream = Inr \<lparr>m_out = encodings xs, m_listStack = []\<rparr>"
    and "fits (length (encodings xs) + 18)"
  shows "wrap_fields write = Inr (encoding (Items [Data (encodings xs)]))"
    "new_RLP (encoding (Items [Data (encodings xs)])) VeryStrict = Inr (encoding (Items [Data (encodings xs)]))"
    "field 0 (encoding (Items [Data (encodings xs)])) = Inr (encoding (Data (encodings xs)))"
    "i < 2 ^ 64 - 1 \<Longrightarrow> field i (encoding (Data (encodings xs))) = Inr (item_at xs i)"
proof -
  let ?b = "encodings xs" let ?e = "encoding (Items [Data ?b])"
  note fit = fits_message [OF assms(2)]
  have fb: "fits (length ?b)" using assms(2) by (simp add: fits_def)
  have "rfold write_item [Data ?b] = append_bytes ?b False" by (rule ext) (simp add: rbind_unit rfold_Nil_fun)
  then have "rbind (appendList 1 new_stream) (append_bytes ?b False) = appendRaw ?e 1 new_stream"
    using write_item_raw [OF fit(1), of new_stream] by (simp del: encoding.simps)
  then have "rbind (rbind (appendList 1 new_stream) (append_bytes ?b False)) out = Inr ?e"
    by (simp add: new_stream_def out_def del: encoding.simps)
  then have "rbind (appendList 1 new_stream) (\<lambda>s. rbind (append_bytes ?b False s) out) = Inr ?e"
    by (cases "appendList 1 new_stream") (simp_all del: encoding.simps)
  then show "wrap_fields write = Inr ?e"
    using assms(1) by (simp add: wrap_fields_def out_def del: encoding.simps)
  show "new_RLP ?e VeryStrict = Inr ?e" by (rule new_RLP_encoding [OF fit(1)])
  show "field 0 ?e = Inr (encoding (Data ?b))"
    using field_items [OF fit(2), of 0] by (simp add: item_at_def del: encoding.simps)
  show "i < 2 ^ 64 - 1 \<Longrightarrow> field i (encoding (Data ?b)) = Inr (item_at xs i)"
    using data_facts(3) [OF fb] by (intro field_payload fb) auto
qed

lemma toString_data: "fits (length b) \<Longrightarrow> toString LaissezFaire (encoding (Data b)) = Inr b"
  using data_facts [of b] by (simp add: toString_def cropped_def del: encoding.simps)

lemma toHash_strict: "length h = N \<Longrightarrow> N < 56 \<Longrightarrow> toHash N VeryStrict (encoding (Data h)) = Inr h"
  using data_facts [of h] by (simp add: toHash_def fits_def flag_def rlp_flags Let_def del: encoding.simps)

definition msg_items :: "'a PBFTMsg_scheme \<Rightarrow> item list" where
  "msg_items m = [number (nat (height m mod 2 ^ 32)), number (nat (view m mod 2 ^ 32)), number (nat (int (idx m) mod 2 ^ 32)),
     number (timestamp m), Data (block_hash m), Data (sig m), Data (sig2 m)]"

definition msg_ok :: "'a PBFTMsg_scheme \<Rightarrow> bool" where
  "msg_ok m \<longleftrightarrow> length (block_hash m) = 32 \<and> timestamp m < 2 ^ 256 \<and> idx m < 2 ^ 16
     \<and> length (sig m) < 2 ^ 32 \<and> length (sig2 m) < 2 ^ 32"

lemma msg_okD:
  assumes "msg_ok m"
  shows "length (block_hash m) = 32" "bytesRequired (timestamp m) \<le> 32"
    "fits (length (block_hash m))" "fits (length (sig m))" "fits (length (sig2 m))"
    "nat (int (idx m) mod 2 ^ 32) = idx m" "bytesRequired (idx m) \<le> 2"
  using assms bytesRequired_le [of "timestamp m" 32] bytesRequired_le [of "idx m" 2] by (auto simp: msg_ok_def fits_def)

lemma stream_msg:
  assumes "msg_ok m"
  shows "streamRLPFields m \<lparr>m_out = o1, m_listStack = []\<rparr> = Inr \<lparr>m_out = o1 @ encodings (msg_items m), m_listStack = []\<rparr>"
  using msg_okD [OF assms] by (simp add: streamRLPFields_def writes_open msg_items_def del: encoding.simps)

lemma length_number: "bytesRequired n \<le> k \<Longrightarrow> k < 56 \<Longrightarrow> length (encoding (number n)) \<le> k + 1"
  by (simp add: length_compact length_item_header)

lemma length_msg:
  assumes "msg_ok m"
  shows "length (encodings (msg_items m)) \<le> 2 * 2 ^ 32 + 200"
proof -
  note ok = msg_okD [OF assms]
  have "length (encoding (number (nat (i mod 2 ^ 32)))) \<le> 5" for i
    using length_number [OF bytes_of_unsigned, of i] by (simp del: encoding.simps)
  note num = this [of "height m"] this [of "view m"] this [of "int (idx m)"]
  have t: "length (encoding (number (timestamp m))) \<le> 33" using length_number [OF ok(2)] by (simp del: encoding.simps)
  have d: "length (encoding (Data (block_hash m))) \<le> 41" "length (encoding (Data (sig m))) \<le> 2 ^ 32 + 9"
      "length (encoding (Data (sig2 m))) \<le> 2 ^ 32 + 9"
    using data_bound [OF ok(3)] data_bound [OF ok(4)] data_bound [OF ok(5)] ok(1) assms unfolding msg_ok_def by linarith+
  have "length (encodings (msg_items m)) = length (encoding (number (nat (height m mod 2 ^ 32))))
      + length (encoding (number (nat (view m mod 2 ^ 32)))) + length (encoding (number (nat (int (idx m) mod 2 ^ 32))))
      + length (encoding (number (timestamp m))) + length (encoding (Data (block_hash m)))
      + length (encoding (Data (sig m))) + length (encoding (Data (sig2 m)))"
    by (simp add: msg_items_def del: encoding.simps)
  then show ?thesis using num t d by linarith
qed

lemma unsigned_read: "to_int64 (nat (i mod 2 ^ 32)) = i mod 2 ^ 32"
proof -
  have "nat (i mod 2 ^ 32) < 2 ^ 32" by (simp add: nat_less_iff)
  then show ?thesis by (simp add: to_int64_def)
qed

lemma item_at_msg:
  "item_at (msg_items m @ ys) 0 = encoding (number (nat (height m mod 2 ^ 32)))"
  "item_at (msg_items m @ ys) 1 = encoding (number (nat (view m mod 2 ^ 32)))"
  "item_at (msg_items m @ ys) 2 = encoding (number (nat (int (idx m) mod 2 ^ 32)))"
  "item_at (msg_items m @ ys) 3 = encoding (number (timestamp m))"
  "item_at (msg_items m @ ys) 4 = encoding (Data (block_hash m))"
  "item_at (msg_items m @ ys) 5 = encoding (Data (sig m))"
  "item_at (msg_items m @ ys) 6 = encoding (Data (sig2 m))"
  by (simp_all add: item_at_def msg_items_def del: encoding.simps)

lemma populate_fields:
  assumes ok: "msg_ok m" and at: "\<And>i. i < 7 \<Longrightarrow> field i d = Inr (item_at (msg_items m @ ys) i)"
  shows "populate d r = Inr (r\<lparr>height := height m mod 2 ^ 32, view := view m mod 2 ^ 32, idx := idx m,
     timestamp := timestamp m, block_hash := block_hash m, sig := sig m, sig2 := sig2 m\<rparr>)"
proof -
  note m = msg_okD [OF ok]
  have b: "bytesRequired (nat (i mod 2 ^ 32)) \<le> 8" for i using bytes_of_unsigned [of i] by simp
  have f: "field 0 d = Inr (encoding (number (nat (height m mod 2 ^ 32))))"
      "field 1 d = Inr (encoding (number (nat (view m mod 2 ^ 32))))"
      "field 2 d = Inr (encoding (number (idx m)))" "field 3 d = Inr (encoding (number (timestamp m)))"
      "field 4 d = Inr (encoding (Data (block_hash m)))" "field 5 d = Inr (encoding (Data (sig m)))"
      "field 6 d = Inr (encoding (Data (sig2 m)))"
    using at [of 0] at [of 1] at [of 2] at [of 3] at [of 4] at [of 5] at [of 6] m(6)
    by (simp_all only: item_at_msg)
  have r: "toInt 8 Strict (encoding (number (nat (i mod 2 ^ 32)))) = Inr (nat (i mod 2 ^ 32))" for i
    by (rule toInt_compact [OF b]) simp
  have i: "toInt 2 Strict (encoding (number (idx m))) = Inr (idx m)" by (rule toInt_compact [OF m(7)]) simp
  have t: "toInt 32 Strict (encoding (number (timestamp m))) = Inr (timestamp m)" by (rule toInt_compact [OF m(2)]) simp
  have h: "toHash 32 VeryStrict (encoding (Data (block_hash m))) = Inr (block_hash m)" by (rule toHash_strict [OF m(1)]) simp
  show ?thesis
    unfolding populate_def f by (simp only: rbind_simps r i t h toString_data [OF m(4)] toString_data [OF m(5)] unsigned_read)
qed

lemma item_at_append: "i < length xs \<Longrightarrow> item_at (xs @ ys) i = item_at xs i"
  by (simp add: item_at_def nth_append)

lemma prepare_roundtrip_aux:
  assumes ok: "msg_ok p" and b: "length (block p) < 2 ^ 32"
  shows "\<exists>bs. encode_prepare p = Inr bs \<and> decode_prepare bs r
    = Inr (r\<lparr>height := height p mod 2 ^ 32, view := view p mod 2 ^ 32, idx := idx p, timestamp := timestamp p,
        block_hash := block_hash p, sig := sig p, sig2 := sig2 p, block := block p\<rparr>)"
proof -
  let ?xs = "msg_items p @ [Data (block p)]"
  have fb: "fits (length (block p))" using b by (simp add: fits_def)
  have wr: "rbind (streamRLPFields p new_stream) (append_bytes (block p) False)
      = Inr \<lparr>m_out = encodings ?xs, m_listStack = []\<rparr>"
    using stream_msg [OF ok, of "[]"] by (simp add: new_stream_def append_data_open [OF fb] del: encoding.simps)
  have "length (encodings ?xs) \<le> 2 * 2 ^ 32 + 200 + (2 ^ 32 + 9)"
    using length_msg [OF ok] data_bound [OF fb] b by (simp del: encoding.simps)
  then have fit: "fits (length (encodings ?xs) + 18)" by (simp add: fits_def)
  note w = wrapped [of "\<lambda>s. rbind (streamRLPFields p s) (append_bytes (block p) False)", OF wr fit]
  have len: "length (msg_items p) = 7" by (simp add: msg_items_def)
  have "field 7 (encoding (Data (encodings ?xs))) = Inr (encoding (Data (block p)))"
    using w(4) [of 7] len by (simp add: item_at_def nth_append del: encoding.simps)
  moreover have "populate (encoding (Data (encodings ?xs))) r = Inr (r\<lparr>height := height p mod 2 ^ 32, view := view p mod 2 ^ 32,
      idx := idx p, timestamp := timestamp p, block_hash := block_hash p, sig := sig p, sig2 := sig2 p\<rparr>)"
    by (rule populate_fields [OF ok]) (rule w(4), simp)
  ultimately have "decode_prepare (encoding (Items [Data (encodings ?xs)])) r = Inr (r\<lparr>height := height p mod 2 ^ 32, view := view p mod 2 ^ 32,
      idx := idx p, timestamp := timestamp p, block_hash := block_hash p, sig := sig p, sig2 := sig2 p, block := block p\<rparr>)"
    unfolding decode_prepare_def w(2) rbind_simps w(3) by (simp only: rbind_simps toString_data [OF fb])
  then show ?thesis using w(1) unfolding encode_prepare_def by blast
qed

lemma msg_roundtrip:
  assumes ok: "msg_ok m"
  shows "\<exists>bs. encode_msg m = Inr bs \<and> decode_msg bs r
    = Inr (r\<lparr>height := height m mod 2 ^ 32, view := view m mod 2 ^ 32, idx := idx m, timestamp := timestamp m,
        block_hash := block_hash m, sig := sig m, sig2 := sig2 m\<rparr>)"
proof -
  have wr: "streamRLPFields m new_stream = Inr \<lparr>m_out = encodings (msg_items m), m_listStack = []\<rparr>"
    using stream_msg [OF ok, of "[]"] by (simp add: new_stream_def del: encoding.simps)
  have fit: "fits (length (encodings (msg_items m)) + 18)" using length_msg [OF ok] by (simp add: fits_def)
  note w = wrapped [of "streamRLPFields m", OF wr fit]
  have "populate (encoding (Data (encodings (msg_items m)))) r = Inr (r\<lparr>height := height m mod 2 ^ 32, view := view m mod 2 ^ 32,
      idx := idx m, timestamp := timestamp m, block_hash := block_hash m, sig := sig m, sig2 := sig2 m\<rparr>)"
    by (rule populate_fields [OF ok, where ys = "[]"]) (simp only: append_Nil2, rule w(4), simp)
  then have "decode_msg (encoding (Items [Data (encodings (msg_items m))])) r = Inr (r\<lparr>height := height m mod 2 ^ 32, view := view m mod 2 ^ 32,
      idx := idx m, timestamp := timestamp m, block_hash := block_hash m, sig := sig m, sig2 := sig2 m\<rparr>)"
    unfolding decode_msg_def w(2) rbind_simps w(3) .
  then show ?thesis using w(1) unfolding encode_msg_def by blast
qed

text \<open>
  C30: A prepare request survives its encoding except for its height and view: what a receiver decodes
  into any object are the sender's fields, the two signed 64-bit numbers reduced modulo \<open>2 ^ 32\<close> (so a
  request for block \<open>2 ^ 32\<close> arrives as one for block 0, and the height -1 as \<open>2 ^ 32 - 1\<close>).
\<close>

theorem prepare_roundtrip:
  assumes "msg_ok p" and "length (block p) < 2 ^ 32"
  shows "\<exists>bs. encode_prepare p = Inr bs \<and> decode_prepare bs r
    = Inr (r\<lparr>height := height p mod 2 ^ 32, view := view p mod 2 ^ 32, idx := idx p, timestamp := timestamp p,
        block_hash := block_hash p, sig := sig p, sig2 := sig2 p, block := block p\<rparr>)"
  using assms by (rule prepare_roundtrip_aux)

lemma prepare_roundtrip_witness:
  "\<exists>bs. encode_prepare (new_PrepareReq\<lparr>height := 4294967303, view := 2, idx := 3, block := ''b''\<rparr> :: (nat, nat) PrepareReq) = Inr bs
     \<and> decode_prepare bs new_PrepareReq = Inr (new_PrepareReq\<lparr>height := 7, view := 2, idx := 3, block := ''b''\<rparr> :: (nat, nat) PrepareReq)"
proof -
  let ?p = "new_PrepareReq\<lparr>height := 4294967303, view := 2, idx := 3, block := ''b''\<rparr> :: (nat, nat) PrepareReq"
  have "msg_ok ?p" "length (block ?p) < 2 ^ 32"
    by (simp_all add: msg_ok_def new_PrepareReq_def new_PBFTMsg_def PBFTMsg.defs zero_h256_def Invalid256_def)
  from prepare_roundtrip [OF this, of new_PrepareReq] show ?thesis
    by (simp add: new_PrepareReq_def new_PBFTMsg_def PBFTMsg.defs)
qed

definition packet_items :: "PBFTMsgPacket \<Rightarrow> item list" where
  "packet_items p =
     [number (packet_id p), number (unat (if prepareWithEmptyBlock p then ttl p OR 0x80 else ttl p)), Data (data p),
      number (nat (test_label p mod 2 ^ 32))]"

lemma bytes_1: "n < 256 \<Longrightarrow> bytesRequired n \<le> 1"
  using bytesRequired_le [of n 1] by simp

lemma unat_byte: "unat (t :: 8 word) < 256"
  using unsigned_less [of t, where ?'a = nat] by simp

lemma extended_ttl:
  assumes "t < (128 :: 8 word)"
  shows "(t OR 0x80) AND 0x7f = t" "t AND 0x7f = t" "t AND 0x80 = 0" "(t OR 0x80) AND 0x80 \<noteq> 0"
proof -
  have m: "t AND 0x7f = t"
    using assms and_mask_less' [of 7 t] less_mask_eq [of t 7] by (simp add: mask_eq_exp_minus_1)
  then show "t AND 0x7f = t" .
  have "(t AND 0x7f) AND 0x80 = 0" by (simp add: and.assoc)
  then show z: "t AND 0x80 = 0" unfolding m .
  show "(t OR 0x80) AND 0x7f = t" using m by (simp add: bit.conj_disj_distrib2)
  show "(t OR 0x80) AND 0x80 \<noteq> 0" using z by (simp add: bit.conj_disj_distrib2)
qed

lemma stream_packet_items:
  assumes "packet_id p < 256" and "fits (length (data p))"
  shows "stream_packet p \<lparr>m_out = o1, m_listStack = []\<rparr> = Inr \<lparr>m_out = o1 @ encodings (packet_items p), m_listStack = []\<rparr>"
proof -
  have "bytesRequired (packet_id p) < 56" using bytes_1 [OF assms(1)] by simp
  moreover have "bytesRequired (unat t) < 56" for t :: "8 word" using bytes_1 [OF unat_byte] by (rule le_less_trans) simp
  ultimately show ?thesis
    using assms(2) by (simp add: stream_packet_def Let_def writes_open packet_items_def del: encoding.simps)
qed

lemma length_packet:
  assumes "packet_id p < 256" and "length (data p) < 2 ^ 32"
  shows "length (encodings (packet_items p)) \<le> 2 ^ 32 + 30"
proof -
  have "length (encoding (number (packet_id p))) \<le> 2" using length_number [OF bytes_1 [OF assms(1)]] by (simp del: encoding.simps)
  moreover have byte: "length (encoding (number (unat t))) \<le> 2" for t :: "8 word"
    using length_number [OF bytes_1 [OF unat_byte, of t]] by (simp del: encoding.simps)
  note byte [of "if prepareWithEmptyBlock p then ttl p OR 0x80 else ttl p"]
  moreover have "length (encoding (number (nat (test_label p mod 2 ^ 32)))) \<le> 5"
    using length_number [OF bytes_of_unsigned] by (simp del: encoding.simps)
  moreover have "length (encoding (Data (data p))) \<le> 2 ^ 32 + 9"
    using data_bound [of "data p"] assms(2) by (simp add: fits_def)
  moreover have "length (encodings (packet_items p)) = length (encoding (number (packet_id p)))
      + length (encoding (number (unat (if prepareWithEmptyBlock p then ttl p OR 0x80 else ttl p))))
      + length (encoding (Data (data p))) + length (encoding (number (nat (test_label p mod 2 ^ 32))))"
    unfolding packet_items_def by (simp del: encoding.simps)
  ultimately show ?thesis by linarith
qed

lemma populate_packet_fields:
  assumes id: "packet_id p < 256" and t: "ttl p < 128" and l: "0 \<le> test_label p" "test_label p < 256" and b: "fits (length (data p))"
    and at: "\<And>i. i < 4 \<Longrightarrow> field i d = Inr (item_at (packet_items p @ ys) i)"
  shows "populate_packet d r = Inr (r\<lparr>packet_id := packet_id p, ttl := ttl p,
     prepareWithEmptyBlock := prepareWithEmptyBlock p, data := data p, test_label := test_label p\<rparr>)"
proof -
  let ?t = "if prepareWithEmptyBlock p then ttl p OR 0x80 else ttl p"
  have items: "item_at (packet_items p @ ys) 0 = encoding (number (packet_id p))"
      "item_at (packet_items p @ ys) 1 = encoding (number (unat ?t))"
      "item_at (packet_items p @ ys) 2 = encoding (Data (data p))"
      "item_at (packet_items p @ ys) 3 = encoding (number (nat (test_label p mod 2 ^ 32)))"
    by (simp_all add: item_at_def packet_items_def del: encoding.simps)
  have f: "field 0 d = Inr (encoding (number (packet_id p)))" "field 1 d = Inr (encoding (number (unat ?t)))"
      "field 2 d = Inr (encoding (Data (data p)))" "field 3 d = Inr (encoding (number (nat (test_label p))))"
    using at [of 0] at [of 1] at [of 2] at [of 3] l unfolding items by simp_all
  have byte: "n < 256 \<Longrightarrow> toInt 1 Strict (encoding (number n)) = Inr n" for n
    using toInt_compact [OF bytes_1, of n] by (simp del: encoding.simps)
  have r: "toInt 1 Strict (encoding (number (packet_id p))) = Inr (packet_id p)"
      "toInt 1 Strict (encoding (number (unat ?t))) = Inr (unat ?t)"
      "toInt 1 Strict (encoding (number (nat (test_label p)))) = Inr (nat (test_label p))"
    using byte id l unat_byte [of ?t] by (simp_all del: encoding.simps)
  have w: "word_of_nat (unat ?t) = ?t" by simp
  have x: "?t AND 0x7f = ttl p" "(?t AND 0x80 \<noteq> 0) = prepareWithEmptyBlock p" using extended_ttl [OF t] by auto
  have lab: "int (nat (test_label p)) = test_label p" using l by simp
  show ?thesis
    unfolding populate_packet_def f rbind_simps r toString_data [OF b] Let_def w x lab ..
qed

lemma write_vector:
  assumes "length ns < 2 ^ 32" and "list_all (\<lambda>n. length n = 64) ns"
  shows "fits (length (encoding (Items (map Data ns))) + 2 ^ 34)"
    "rbind (appendList (length ns) s) (rfold (\<lambda>n. append_bytes n False) ns) = appendRaw (encoding (Items (map Data ns))) 1 s"
proof -
  have "length (encodings (map Data ns)) \<le> 73 * length ns"
    using assms(2)
  proof (induction ns)
    case (Cons n ns)
    then have "length (encoding (Data n)) \<le> 73" using data_bound [of n] by (simp add: fits_def del: encoding.simps)
    then show ?case using Cons by (simp del: encoding.simps)
  qed simp
  then have body: "length (encodings (map Data ns)) \<le> 73 * 2 ^ 32" using assms(1) by simp
  then have fb: "fits (length (encodings (map Data ns)))" by (simp add: fits_def)
  have "length (encoding (Items (map Data ns))) \<le> 73 * 2 ^ 32 + 9"
    using header_bound [OF fb, of 192] body by (simp add: Let_def del: encoding.simps(1))
  then show fit: "fits (length (encoding (Items (map Data ns))) + 2 ^ 34)" by (simp add: fits_def del: encoding.simps)
  then have "fits (length (encoding (Items (map Data ns))))" by (simp add: fits_def del: encoding.simps)
  from write_item_raw [OF this, of s]
  have "rbind (appendList (length ns) s) (rfold write_item (map Data ns)) = appendRaw (encoding (Items (map Data ns))) 1 s"
    by (simp del: encoding.simps)
  moreover have "rfold write_item (map Data ns) t = rfold (\<lambda>n. append_bytes n False) ns t" for t
    by (induction ns arbitrary: t) (auto intro!: rbind_cong)
  then have "rfold write_item (map Data ns) = rfold (\<lambda>n. append_bytes n False) ns" by (rule ext)
  ultimately show "rbind (appendList (length ns) s) (rfold (\<lambda>n. append_bytes n False) ns) = appendRaw (encoding (Items (map Data ns))) 1 s"
    by simp
qed

text \<open>
  What a receiver gets of a packet: type, ttl, data, label and the flag for an empty block, which
  travels in the high bit of the ttl. The list of nodes to forward to never arrives: \<open>OPBFTMsgPacket\<close>
  writes it as the fifth field and reads the fourth, the label, which is no list and so reads as the empty
  list.
\<close>

theorem packet_loses_forward_nodes:
  assumes "packet_id p < 256" and "ttl p < 128" and "0 \<le> test_label p" "test_label p < 256" and "length (data p) < 2 ^ 32"
    and "optimized \<Longrightarrow> forwardNodes p = Some ns \<and> length ns < 2 ^ 32 \<and> list_all (\<lambda>n. length n = 64) ns"
  shows "\<exists>bs. encode_packet optimized p = Inr bs \<and> decode_pbft_packet optimized bs
    = Inr ((new_PBFTMsgPacket optimized)\<lparr>packet_id := packet_id p, ttl := ttl p,
        prepareWithEmptyBlock := prepareWithEmptyBlock p, data := data p, test_label := test_label p\<rparr>)"
proof -
  define ys where "ys = (if optimized then [Items (map Data ns)] else [])"
  let ?xs = "packet_items p @ ys" and ?w = "if optimized then stream_opacket p else stream_packet p"
  let ?r = "(new_PBFTMsgPacket optimized)\<lparr>packet_id := packet_id p, ttl := ttl p,
        prepareWithEmptyBlock := prepareWithEmptyBlock p, data := data p, test_label := test_label p\<rparr>"
  have fb: "fits (length (data p))" using assms(5) by (simp add: fits_def)
  have vec: "fits (length (encodings ys) + 2 ^ 34)"
    using write_vector(1) assms(6) by (auto simp: ys_def fits_def simp del: encoding.simps)
  have wr: "?w new_stream = Inr \<lparr>m_out = encodings ?xs, m_listStack = []\<rparr>"
    using stream_packet_items [OF assms(1) fb, of "[]"] write_vector(2) assms(6)
    by (auto simp: new_stream_def stream_opacket_def ys_def simp del: encoding.simps)
  have fit: "fits (length (encodings ?xs) + 18)"
    using vec length_packet [OF assms(1,5)] by (simp add: fits_def)
  note w = wrapped [of ?w, OF wr fit]
  let ?d = "encoding (Data (encodings ?xs))"
  have pop: "populate_packet ?d (new_PBFTMsgPacket optimized) = Inr ?r"
    using assms(1-4) fb by (rule populate_packet_fields) (rule w(4), simp)
  have "item_at ?xs 3 = encoding (number (nat (test_label p mod 2 ^ 32)))"
    by (simp add: item_at_def packet_items_def del: encoding.simps)
  moreover have "fits (length (toCompactBigEndian (nat (test_label p mod 2 ^ 32)) 0))"
    using bytes_of_unsigned [of "test_label p"] by (simp add: length_compact fits_def)
  note data_facts(2) [OF this]
  ultimately have "rbind (field 3 ?d) toVector_h512 = Inr []"
    using w(4) [of 3] by (simp add: toVector_h512_def del: encoding.simps)
  then have "populate_opacket ?d (new_PBFTMsgPacket optimized) = Inr (?r\<lparr>forwardNodes := Some []\<rparr>)"
    unfolding populate_opacket_def pop rbind_simps by (simp only: rbind_simps)
  then have "(if optimized then populate_opacket else populate_packet) ?d (new_PBFTMsgPacket optimized) = Inr ?r"
    using pop by (cases optimized) (simp_all add: new_PBFTMsgPacket_def del: encoding.simps)
  then have "decode_pbft_packet optimized (encoding (Items [Data (encodings ?xs)])) = Inr ?r"
    unfolding decode_pbft_packet_def w(2) rbind_simps w(3) .
  then show ?thesis using w(1) unfolding encode_packet_def by blast
qed

lemma packet_loses_forward_nodes_witness:
  "\<exists>bs. encode_packet True ((new_PBFTMsgPacket True)\<lparr>packet_id := 2, data := ''commit'', forwardNodes := Some [replicate 64 (CHR ''n'')]\<rparr>) = Inr bs
    \<and> decode_pbft_packet True bs = Inr ((new_PBFTMsgPacket True)\<lparr>packet_id := 2, data := ''commit'', forwardNodes := Some []\<rparr>)"
proof -
  let ?p = "(new_PBFTMsgPacket True)\<lparr>packet_id := 2, data := ''commit'', forwardNodes := Some [replicate 64 (CHR ''n'')]\<rparr>"
  have "packet_id ?p < 256" "ttl ?p < 128" "0 \<le> test_label ?p" "test_label ?p < 256" "length (data ?p) < 2 ^ 32"
    by (simp_all add: new_PBFTMsgPacket_def MAXTTL_def)
  from packet_loses_forward_nodes [OF this, of True "[replicate 64 (CHR ''n'')]"] show ?thesis
    by (simp add: new_PBFTMsgPacket_def)
qed

end
