(* ===== verification/PbftCache.thy ===== *)
theory PbftCache
  imports PbftMsg "HOL-Library.AList"
begin

text \<open>
  The request cache of PBFT (\<open>libconsensus/pbft/PBFTReqCache.h\<close>, \<open>PBFTReqCache.cpp\<close>): the proposals a node
  works on and the votes it has received.

  A \<open>std::unordered_map\<close> is an association list in the order in which it is iterated. C++ leaves that
  order open; a new entry comes last here, and the lemmas on what is counted hold for every order. The
  messages in the cache are shared objects: what the code changes in them is changed in place. View change
  requests are compared as objects in \<open>eraseExpiredViewChange\<close>, here as values: two requests with the
  same signatures.
\<close>

section \<open>Blocks and the state of the cache\<close>

text \<open>The header carries its hash. Transactions are given by their hashes.\<close>

record BlockHeader =
  number :: int
  hash :: string
  parentHash :: string
  sealer :: nat
  sealerList :: "string list"
  block_time :: nat

record Block =
  blockHeader :: BlockHeader
  transactions :: "string list"
  sigList :: "(nat \<times> string) list"

definition new_BlockHeader :: BlockHeader where
  "new_BlockHeader = \<lparr>number = 0, hash = zero_h256, parentHash = zero_h256, sealer = Invalid256, sealerList = [],
     block_time = 2 ^ 64 - 1\<rparr>"

type_synonym prepare = "(Block, nat) PrepareReq"

type_synonym ('k, 'v) umap = "('k \<times> 'v) list"

record PBFTReqCache =
  m_prepareCache :: prepare
  m_rawPrepareCache :: prepare
  m_signCache :: "(string, (string, PBFTMsg) umap) umap"
  m_recvViewChangeReq :: "(int, (nat, PBFTMsg) umap) umap"
  m_latestViewChangeReqCache :: "(nat, PBFTMsg) umap"
  m_commitCache :: "(string, (string, PBFTMsg) umap) umap"
  m_committedPrepareCache :: prepare
  m_futurePrepareCache :: "(nat, prepare) umap"

definition new_PBFTReqCache :: PBFTReqCache where
  "new_PBFTReqCache = \<lparr>m_prepareCache = new_PrepareReq, m_rawPrepareCache = new_PrepareReq, m_signCache = [],
     m_recvViewChangeReq = [], m_latestViewChangeReqCache = [], m_commitCache = [],
     m_committedPrepareCache = new_PrepareReq, m_futurePrepareCache = []\<rparr>"

text \<open>\<open>operator[]\<close> of a map of maps: a missing entry is the empty map.\<close>

definition entry :: "'k \<Rightarrow> ('k, ('j, 'v) umap) umap \<Rightarrow> ('j, 'v) umap" where
  "entry k c = (case map_of c k of None \<Rightarrow> [] | Some m \<Rightarrow> m)"

section \<open>Looking up\<close>

definition isExistPrepare :: "'a PBFTMsg_scheme \<Rightarrow> PBFTReqCache \<Rightarrow> bool" where
  "isExistPrepare req c =
     (block_hash (m_rawPrepareCache c) = block_hash req \<and> view (m_rawPrepareCache c) \<ge> view req)"

definition cacheExists :: "('k, ('j, 'v) umap) umap \<Rightarrow> 'k \<Rightarrow> 'j \<Rightarrow> bool" where
  "cacheExists cache mainKey key =
     (case map_of cache mainKey of None \<Rightarrow> False | Some m \<Rightarrow> map_of m key \<noteq> None)"

definition isExistSign :: "PBFTMsg \<Rightarrow> PBFTReqCache \<Rightarrow> bool" where
  "isExistSign req c = cacheExists (m_signCache c) (block_hash req) (toHex (sig req) [])"

definition isExistCommit :: "PBFTMsg \<Rightarrow> PBFTReqCache \<Rightarrow> bool" where
  "isExistCommit req c = cacheExists (m_commitCache c) (block_hash req) (toHex (sig req) [])"

definition isExistViewChange :: "PBFTMsg \<Rightarrow> PBFTReqCache \<Rightarrow> bool" where
  "isExistViewChange req c = cacheExists (m_recvViewChangeReq c) (view req) (idx req)"

definition getSizeFromCache :: "'k \<Rightarrow> ('k, ('j, 'v) umap) umap \<Rightarrow> nat" where
  "getSizeFromCache key cache = (case map_of cache key of None \<Rightarrow> 0 | Some m \<Rightarrow> length m)"

definition getViewChangeSize :: "int \<Rightarrow> PBFTReqCache \<Rightarrow> nat" where
  "getViewChangeSize toView c = getSizeFromCache toView (m_recvViewChangeReq c)"

definition futurePrepareCache :: "nat \<Rightarrow> PBFTReqCache \<Rightarrow> prepare option" where
  "futurePrepareCache blockNumber c = map_of (m_futurePrepareCache c) blockNumber"

definition futurePrepareCacheSize :: "PBFTReqCache \<Rightarrow> nat" where
  "futurePrepareCacheSize c = length (m_futurePrepareCache c)"

definition rawPrepareCacheHeight :: "PBFTReqCache \<Rightarrow> int" where
  "rawPrepareCacheHeight c = height (m_rawPrepareCache c)"

section \<open>Counting votes\<close>

text \<open>
  Requests for a future block are stored unchecked. When enough votes have come together their signatures
  are checked. The loop runs over \<open>cachedItem\<close>, a copy of the map: what it erases is erased from the copy
  alone, whereas \<open>signChecked\<close> is set in the shared request. The two results are the copy and the
  requests of the map.
\<close>

definition removeAllRedundantFutureReq :: "('k, PBFTMsg) umap \<Rightarrow> ('k, PBFTMsg) umap" where
  "removeAllRedundantFutureReq m = filter (\<lambda>(_, req). \<not> isFuture req) m"

fun check_future ::
  "(PBFTMsg \<Rightarrow> bool) \<Rightarrow> bool \<Rightarrow> nat \<Rightarrow> nat \<Rightarrow> ('k, PBFTMsg) umap \<Rightarrow> ('k, PBFTMsg) umap \<times> ('k, PBFTMsg) umap" where
  "check_future checkSign needLimit limitedSize futureReqSize [] = ([], [])"
| "check_future checkSign needLimit limitedSize futureReqSize ((k, req) # m) =
     (if \<not> isFuture req then
        case check_future checkSign needLimit limitedSize futureReqSize m of (copy, objs) \<Rightarrow> ((k, req) # copy, (k, req) # objs)
      else if needLimit \<and> futureReqSize \<ge> limitedSize then (removeAllRedundantFutureReq ((k, req) # m), (k, req) # m)
      else if signChecked req \<or> checkSign req then
        let req' = req\<lparr>signChecked := True\<rparr>
        in case check_future checkSign needLimit limitedSize (futureReqSize + 1) m of
             (copy, objs) \<Rightarrow> ((k, req') # copy, (k, req') # objs)
      else case check_future checkSign needLimit limitedSize futureReqSize m of (copy, objs) \<Rightarrow> (copy, (k, req) # objs))"

definition checkAndRemoveInvalidFutureReq ::
  "(PBFTMsg \<Rightarrow> bool) \<Rightarrow> string \<Rightarrow> bool \<Rightarrow> nat \<Rightarrow> (string, (string, PBFTMsg) umap) umap
     \<Rightarrow> nat \<times> (string, (string, PBFTMsg) umap) umap" where
  "checkAndRemoveInvalidFutureReq checkSign blockHash needLimit limitedSize cache =
     (case map_of cache blockHash of
        None \<Rightarrow> (0, cache)
      | Some m \<Rightarrow>
          (case check_future checkSign needLimit limitedSize 0 m of
             (copy, objs) \<Rightarrow>
               if length copy = 0 then (0, AList.delete blockHash cache)
               else (length copy, AList.update blockHash objs cache)))"

text \<open>The threshold less one is computed in 16 bits.\<close>

definition getSigCacheSize :: "(PBFTMsg \<Rightarrow> bool) \<Rightarrow> string \<Rightarrow> nat \<Rightarrow> PBFTReqCache \<Rightarrow> nat \<times> PBFTReqCache" where
  "getSigCacheSize checkSign blockHash sizeToCheck c =
     (let cachedSignSize = getSizeFromCache blockHash (m_signCache c)
      in if cachedSignSize \<ge> sizeToCheck then
           case checkAndRemoveInvalidFutureReq checkSign blockHash True ((sizeToCheck + 65535) mod 65536) (m_signCache c) of
             (n, cache) \<Rightarrow> (n, c\<lparr>m_signCache := cache\<rparr>)
         else (cachedSignSize, c))"

definition getCommitCacheSize :: "(PBFTMsg \<Rightarrow> bool) \<Rightarrow> string \<Rightarrow> nat \<Rightarrow> PBFTReqCache \<Rightarrow> nat \<times> PBFTReqCache" where
  "getCommitCacheSize checkSign blockHash sizeToCheck c =
     (let cachedCommitSize = getSizeFromCache blockHash (m_commitCache c)
      in if cachedCommitSize \<ge> sizeToCheck then
           case checkAndRemoveInvalidFutureReq checkSign blockHash False ((sizeToCheck + 65535) mod 65536) (m_commitCache c) of
             (n, cache) \<Rightarrow> (n, c\<lparr>m_commitCache := cache\<rparr>)
         else (cachedCommitSize, c))"

section \<open>Adding requests\<close>

definition addRawPrepare :: "prepare \<Rightarrow> PBFTReqCache \<Rightarrow> PBFTReqCache" where
  "addRawPrepare req c = c\<lparr>m_rawPrepareCache := req, m_prepareCache := clear_msg (m_prepareCache c)\<rparr>"

text \<open>The requests of a block that satisfy \<open>P\<close> are erased; their map stays, even when it is empty.\<close>

definition erase_where :: "('v \<Rightarrow> bool) \<Rightarrow> 'k \<Rightarrow> ('k, ('j, 'v) umap) umap \<Rightarrow> ('k, ('j, 'v) umap) umap" where
  "erase_where P k cache =
     (case map_of cache k of None \<Rightarrow> cache
      | Some m \<Rightarrow> AList.update k (filter (\<lambda>(_, req). \<not> P req) m) cache)"

definition removeInvalidSignCache :: "string \<Rightarrow> int \<Rightarrow> PBFTReqCache \<Rightarrow> PBFTReqCache" where
  "removeInvalidSignCache blockHash v c = c\<lparr>m_signCache := erase_where (\<lambda>req. view req \<noteq> v) blockHash (m_signCache c)\<rparr>"

definition removeInvalidCommitCache :: "string \<Rightarrow> int \<Rightarrow> PBFTReqCache \<Rightarrow> PBFTReqCache" where
  "removeInvalidCommitCache blockHash v c = c\<lparr>m_commitCache := erase_where (\<lambda>req. view req \<noteq> v) blockHash (m_commitCache c)\<rparr>"

definition addPrepareReq :: "prepare \<Rightarrow> PBFTReqCache \<Rightarrow> PBFTReqCache" where
  "addPrepareReq req c =
     removeInvalidCommitCache (block_hash req) (view req)
       (removeInvalidSignCache (block_hash req) (view req) (c\<lparr>m_prepareCache := req\<rparr>))"

definition add_vote :: "PBFTMsg \<Rightarrow> (string, (string, PBFTMsg) umap) umap \<Rightarrow> (string, (string, PBFTMsg) umap) umap" where
  "add_vote req cache =
     (let signature = toHex (sig req) []
      in if cacheExists cache (block_hash req) signature then cache
         else AList.update (block_hash req) (AList.update signature req (entry (block_hash req) cache)) cache)"

definition addSignReq :: "PBFTMsg \<Rightarrow> PBFTReqCache \<Rightarrow> PBFTReqCache" where
  "addSignReq req c = c\<lparr>m_signCache := add_vote req (m_signCache c)\<rparr>"

definition addCommitReq :: "PBFTMsg \<Rightarrow> PBFTReqCache \<Rightarrow> PBFTReqCache" where
  "addCommitReq req c = c\<lparr>m_commitCache := add_vote req (m_commitCache c)\<rparr>"

text \<open>A block number is the key as an unsigned 64-bit number.\<close>

definition to_uint64 :: "int \<Rightarrow> nat" where
  "to_uint64 n = nat (n mod 2 ^ 64)"

definition m_maxFuturePrepareCacheSize :: nat where
  "m_maxFuturePrepareCacheSize = 10"

definition addFuturePrepareCache :: "prepare \<Rightarrow> PBFTReqCache \<Rightarrow> PBFTReqCache" where
  "addFuturePrepareCache req c =
     (if length (m_futurePrepareCache c) \<ge> m_maxFuturePrepareCacheSize then c
      else case map_of (m_futurePrepareCache c) (to_uint64 (height req)) of
             None \<Rightarrow> c\<lparr>m_futurePrepareCache := AList.update (to_uint64 (height req)) req (m_futurePrepareCache c)\<rparr>
           | Some _ \<Rightarrow> c)"

definition updateCommittedPrepare :: "PBFTReqCache \<Rightarrow> PBFTReqCache" where
  "updateCommittedPrepare c = c\<lparr>m_committedPrepareCache := m_rawPrepareCache c\<rparr>"

section \<open>View change requests\<close>

definition eraseExpiredViewChange :: "PBFTMsg \<Rightarrow> PBFTReqCache \<Rightarrow> PBFTReqCache" where
  "eraseExpiredViewChange req c =
     (case map_of (m_latestViewChangeReqCache c) (idx req) of
        None \<Rightarrow> c
      | Some viewChangeReq \<Rightarrow>
          (case map_of (entry (view viewChangeReq) (m_recvViewChangeReq c)) (idx req) of
             None \<Rightarrow> c
           | Some recv \<Rightarrow>
               let c = (if viewChangeReq = recv
                        then c\<lparr>m_recvViewChangeReq := AList.update (view viewChangeReq)
                               (AList.delete (idx req) (entry (view viewChangeReq) (m_recvViewChangeReq c))) (m_recvViewChangeReq c)\<rparr>
                        else c)
               in c\<lparr>m_latestViewChangeReqCache := AList.delete (idx req) (m_latestViewChangeReqCache c)\<rparr>))"

definition checkViewChangeReq :: "PBFTMsg \<Rightarrow> int \<Rightarrow> PBFTReqCache \<Rightarrow> bool \<times> PBFTReqCache" where
  "checkViewChangeReq req blockNumber c =
     (if height req < blockNumber then (False, c)
      else case map_of (m_latestViewChangeReqCache c) (idx req) of
             None \<Rightarrow> (True, c)
           | Some viewChangeReq \<Rightarrow>
               if height viewChangeReq < blockNumber then (True, eraseExpiredViewChange viewChangeReq c)
               else if height req < height viewChangeReq then (False, c)
               else if view req < view viewChangeReq then (False, c)
               else (True, c))"

definition addViewChangeReq :: "PBFTMsg \<Rightarrow> int \<Rightarrow> PBFTReqCache \<Rightarrow> PBFTReqCache" where
  "addViewChangeReq req blockNumber c =
     (case checkViewChangeReq req blockNumber c of (ok, c) \<Rightarrow>
        if \<not> ok then c
        else c\<lparr>m_recvViewChangeReq := AList.update (view req)
                 (AList.update (idx req) req (entry (view req) (m_recvViewChangeReq c))) (m_recvViewChangeReq c),
               m_latestViewChangeReqCache := AList.update (idx req) req (m_latestViewChangeReqCache c)\<rparr>)"

definition eraseLatestViewChangeCacheForNodeUpdated :: "nat \<Rightarrow> PBFTReqCache \<Rightarrow> PBFTReqCache" where
  "eraseLatestViewChangeCacheForNodeUpdated reqIdx c =
     c\<lparr>m_latestViewChangeReqCache := AList.delete reqIdx (m_latestViewChangeReqCache c)\<rparr>"

text \<open>
  \<open>canTriggerViewChange\<close>: the views of the nodes, the least view and the least height that are noted in
  the order of the iteration.
\<close>

fun trigger_entry :: "int \<Rightarrow> int \<Rightarrow> nat \<times> PBFTMsg \<Rightarrow> (nat, int) umap \<times> int \<times> int \<Rightarrow> (nat, int) umap \<times> int \<times> int" where
  "trigger_entry highest v (i, req) (idx_view_map, minView, min_height) =
     (if (case map_of idx_view_map i of None \<Rightarrow> True | Some v' \<Rightarrow> v > v') \<and> height req \<ge> highest
      then (AList.update i v idx_view_map, min minView v, min min_height (height req))
      else (idx_view_map, minView, min_height))"

definition canTriggerViewChange :: "nat \<Rightarrow> int \<Rightarrow> BlockHeader \<Rightarrow> int \<Rightarrow> PBFTReqCache \<Rightarrow> bool \<times> int" where
  "canTriggerViewChange maxInvalidNodeNum toView highestBlock consensusBlockNumber c =
     (case fold (\<lambda>(v, m). if v > toView then fold (trigger_entry (number highestBlock) v) m else id)
             (m_recvViewChangeReq c) ([], MAXVIEW, MAXVIEW) of
        (idx_view_map, minView, min_height) \<Rightarrow>
          let flag = (min_height = consensusBlockNumber \<and> min_height = height (m_committedPrepareCache c))
          in (length idx_view_map mod 65536 > maxInvalidNodeNum \<and> \<not> flag, minView))"

section \<open>Clearing\<close>

definition stale :: "BlockHeader \<Rightarrow> 'a PBFTMsg_scheme \<Rightarrow> bool" where
  "stale highest req \<longleftrightarrow> height req < number highest \<or> height req = number highest \<and> block_hash req \<noteq> hash highest"

definition removeInvalidEntryFromCache :: "BlockHeader \<Rightarrow> ('k, ('j, PBFTMsg) umap) umap \<Rightarrow> ('k, ('j, PBFTMsg) umap) umap" where
  "removeInvalidEntryFromCache highest cache =
     filter (\<lambda>(_, m). length m \<noteq> 0) (map (\<lambda>(k, m). (k, filter (\<lambda>(_, req). \<not> stale highest req) m)) cache)"

definition removeInvalidLatestViewChangeReq :: "BlockHeader \<Rightarrow> PBFTReqCache \<Rightarrow> PBFTReqCache" where
  "removeInvalidLatestViewChangeReq highest c =
     c\<lparr>m_latestViewChangeReqCache := filter (\<lambda>(_, req). \<not> stale highest req) (m_latestViewChangeReqCache c)\<rparr>"

definition removeInvalidViewChange :: "int \<Rightarrow> BlockHeader \<Rightarrow> PBFTReqCache \<Rightarrow> PBFTReqCache" where
  "removeInvalidViewChange v highest c =
     (case map_of (m_recvViewChangeReq c) v of
        None \<Rightarrow> c
      | Some _ \<Rightarrow> removeInvalidLatestViewChangeReq highest
          (c\<lparr>m_recvViewChangeReq := erase_where (stale highest) v (m_recvViewChangeReq c)\<rparr>))"

definition delInvalidViewChange :: "BlockHeader \<Rightarrow> PBFTReqCache \<Rightarrow> PBFTReqCache" where
  "delInvalidViewChange highest c = c\<lparr>m_recvViewChangeReq := removeInvalidEntryFromCache highest (m_recvViewChangeReq c)\<rparr>"

text \<open>The view change requests up to a view, in both maps.\<close>

definition removeViewsUpTo :: "int \<Rightarrow> PBFTReqCache \<Rightarrow> PBFTReqCache" where
  "removeViewsUpTo curView c =
     c\<lparr>m_recvViewChangeReq := filter (\<lambda>(v, _). \<not> v \<le> curView) (m_recvViewChangeReq c),
       m_latestViewChangeReqCache := filter (\<lambda>(_, req). \<not> view req \<le> curView) (m_latestViewChangeReqCache c)\<rparr>"

definition removeInvalidFutureCache :: "int \<Rightarrow> int \<Rightarrow> PBFTReqCache \<Rightarrow> PBFTReqCache" where
  "removeInvalidFutureCache highestBlockNumber v c =
     c\<lparr>m_futurePrepareCache := filter (\<lambda>(n, req). \<not> n \<le> to_uint64 highestBlockNumber \<and> \<not> view req < v) (m_futurePrepareCache c)\<rparr>"

definition collectGarbage :: "BlockHeader \<Rightarrow> PBFTReqCache \<Rightarrow> PBFTReqCache" where
  "collectGarbage highest c =
     removeInvalidLatestViewChangeReq highest (delInvalidViewChange highest (removeInvalidFutureCache (number highest) 0
       (c\<lparr>m_signCache := removeInvalidEntryFromCache highest (m_signCache c),
          m_commitCache := removeInvalidEntryFromCache highest (m_commitCache c)\<rparr>)))"

definition triggerViewChange :: "int \<Rightarrow> int \<Rightarrow> PBFTReqCache \<Rightarrow> PBFTReqCache" where
  "triggerViewChange curView highestBlockNumber c =
     (let expire = map (\<lambda>(h, m). (h, filter (\<lambda>(_, req). \<not> view req < curView) m));
          commits = expire (m_commitCache c);
          signs = filter (\<lambda>(h, _). map_of commits h \<noteq> None) (expire (m_signCache c))
      in removeViewsUpTo curView (removeInvalidFutureCache highestBlockNumber curView
           (c\<lparr>m_rawPrepareCache := clear_msg (m_rawPrepareCache c), m_prepareCache := clear_msg (m_prepareCache c),
              m_commitCache := commits, m_signCache := signs\<rparr>)))"

definition delCache :: "BlockHeader \<Rightarrow> PBFTReqCache \<Rightarrow> PBFTReqCache" where
  "delCache highest c =
     c\<lparr>m_signCache := AList.delete (hash highest) (m_signCache c),
       m_commitCache := AList.delete (hash highest) (m_commitCache c),
       m_prepareCache := (if hash highest = block_hash (m_prepareCache c) then clear_msg (m_prepareCache c) else m_prepareCache c),
       m_futurePrepareCache := []\<rparr>"

definition eraseHandledFutureReq :: "nat \<Rightarrow> PBFTReqCache \<Rightarrow> PBFTReqCache" where
  "eraseHandledFutureReq blockNumber c = c\<lparr>m_futurePrepareCache := AList.delete blockNumber (m_futurePrepareCache c)\<rparr>"

definition clearAllExceptCommitCache :: "PBFTReqCache \<Rightarrow> PBFTReqCache" where
  "clearAllExceptCommitCache c =
     c\<lparr>m_prepareCache := clear_msg (m_prepareCache c), m_signCache := [], m_recvViewChangeReq := []\<rparr>"

definition clearAll :: "PBFTReqCache \<Rightarrow> PBFTReqCache" where
  "clearAll c =
     (clearAllExceptCommitCache (c\<lparr>m_rawPrepareCache := clear_msg (m_rawPrepareCache c), m_futurePrepareCache := []\<rparr>))
       \<lparr>m_commitCache := []\<rparr>"

section \<open>The signatures of a block\<close>

definition hex_bytes :: "string \<Rightarrow> string" where
  "hex_bytes h = (case fromHex False h of Inr bs \<Rightarrow> bs | Inl _ \<Rightarrow> [])"

definition generateAndSetSigList :: "nat \<Rightarrow> PBFTReqCache \<Rightarrow> Block \<Rightarrow> bool \<times> Block" where
  "generateAndSetSigList minSigSize c b =
     (case map_of (m_commitCache c) (block_hash (m_prepareCache c)) of
        None \<Rightarrow> (False, b)
      | Some m \<Rightarrow>
          let sig_list = map (\<lambda>(h, req). (idx req, hex_bytes h)) m
          in if length sig_list < minSigSize then (False, b) else (True, b\<lparr>sigList := sig_list\<rparr>))"

section \<open>What is counted\<close>

text \<open>The votes that count: requests that were checked on arrival, and future ones with a good signature.\<close>

definition current_votes :: "('k, PBFTMsg) umap \<Rightarrow> nat" where
  "current_votes m = length (filter (\<lambda>(_, req). \<not> isFuture req) m)"

definition future_votes :: "(PBFTMsg \<Rightarrow> bool) \<Rightarrow> ('k, PBFTMsg) umap \<Rightarrow> nat" where
  "future_votes checkSign m = length (filter (\<lambda>(_, req). isFuture req \<and> (signChecked req \<or> checkSign req)) m)"

lemma check_future_length:
  "length (fst (check_future checkSign needLimit limitedSize n m))
     = current_votes m + (if needLimit then min (limitedSize - n) (future_votes checkSign m) else future_votes checkSign m)"
  by (induction checkSign needLimit limitedSize n m rule: check_future.induct)
    (auto simp: current_votes_def future_votes_def removeAllRedundantFutureReq_def Let_def case_prod_beta)

text \<open>The requests of the map: the same, but for the mark that a signature was checked.\<close>

definition marked :: "(PBFTMsg \<Rightarrow> bool) \<Rightarrow> 'k \<times> PBFTMsg \<Rightarrow> 'k \<times> PBFTMsg \<Rightarrow> bool" where
  "marked checkSign = (\<lambda>(k, req) (k', req'). k' = k
     \<and> (req' = req \<or> isFuture req \<and> (signChecked req \<or> checkSign req) \<and> req' = req\<lparr>signChecked := True\<rparr>))"

lemma list_all2_marked_refl: "list_all2 (marked checkSign) m m"
  by (simp add: list_all2_same marked_def split: prod.splits)

lemma check_future_marked: "list_all2 (marked checkSign) m (snd (check_future checkSign needLimit limitedSize n m))"
  by (induction checkSign needLimit limitedSize n m rule: check_future.induct)
    (auto simp: Let_def marked_def list_all2_marked_refl [unfolded marked_def] split: prod.splits)

lemma getSizeFromCache_entry: "getSizeFromCache h c = length (entry h c)"
  by (simp add: getSizeFromCache_def entry_def split: option.split)

lemma entry_facts [simp]:
  "entry h (AList.update k m c) = (if h = k then m else entry h c)"
  "entry h (AList.delete k c) = (if h = k then [] else entry h c)"
  "entry h [] = []"
  by (auto simp: entry_def update_conv' delete_conv')

lemma check_size:
  "fst (checkAndRemoveInvalidFutureReq checkSign h needLimit limitedSize c)
     = current_votes (entry h c)
       + (if needLimit then min limitedSize (future_votes checkSign (entry h c)) else future_votes checkSign (entry h c))"
proof (cases "map_of c h")
  case None
  then show ?thesis by (simp add: checkAndRemoveInvalidFutureReq_def entry_def current_votes_def future_votes_def)
next
  case (Some m)
  then show ?thesis
    using check_future_length [of checkSign needLimit limitedSize 0 m]
    by (auto simp: checkAndRemoveInvalidFutureReq_def entry_def split: prod.splits)
qed

lemma sig_size:
  "fst (getSigCacheSize checkSign h q c) =
     (let m = entry h (m_signCache c)
      in if length m < q then length m else current_votes m + min ((q + 65535) mod 65536) (future_votes checkSign m))"
  using check_size [of checkSign h True "(q + 65535) mod 65536" "m_signCache c"]
  by (auto simp: getSigCacheSize_def getSizeFromCache_entry Let_def split: prod.splits)

lemma commit_size:
  "fst (getCommitCacheSize checkSign h q c) =
     (let m = entry h (m_commitCache c) in if length m < q then length m else current_votes m + future_votes checkSign m)"
  using check_size [of checkSign h False "(q + 65535) mod 65536" "m_commitCache c"]
  by (auto simp: getCommitCacheSize_def getSizeFromCache_entry Let_def split: prod.splits)

text \<open>
  How many votes a node counts does not depend on the order in which its hash maps are iterated: of a
  block's sign requests all of those checked on arrival and at most one less than the threshold of the
  early ones with a good signature, of its commit requests all early ones with a good signature; below
  the threshold every stored request counts, checked or not.
\<close>

theorem vote_counts:
  "fst (getSigCacheSize checkSign h q c) =
     (let m = entry h (m_signCache c)
      in if length m < q then length m else current_votes m + min ((q + 65535) mod 65536) (future_votes checkSign m))
   \<and> fst (getCommitCacheSize checkSign h q c) =
     (let m = entry h (m_commitCache c) in if length m < q then length m else current_votes m + future_votes checkSign m)"
  using sig_size commit_size by blast

section \<open>Well-formed caches\<close>

text \<open>Maps of maps with distinct keys whose entries satisfy \<open>K\<close>.\<close>

definition inner_ok :: "('j \<Rightarrow> 'v \<Rightarrow> bool) \<Rightarrow> ('j, 'v) umap \<Rightarrow> bool" where
  "inner_ok K m \<longleftrightarrow> distinct (map fst m) \<and> list_all (\<lambda>(k, r). K k r) m"

definition nested_ok :: "('k \<Rightarrow> 'j \<Rightarrow> 'v \<Rightarrow> bool) \<Rightarrow> ('k, ('j, 'v) umap) umap \<Rightarrow> bool" where
  "nested_ok K c \<longleftrightarrow> distinct (map fst c) \<and> list_all (\<lambda>(k, m). inner_ok (K k) m) c"

lemma inner_ok_Nil [simp]: "inner_ok K []"
  by (simp add: inner_ok_def)

lemma nested_ok_Nil [simp]: "nested_ok K []"
  by (simp add: nested_ok_def)

lemma distinct_fst_filter: "distinct (map fst m) \<Longrightarrow> distinct (map fst (filter P m))"
  by (induction m) auto

lemma set_update_subset: "set (AList.update k v m) \<subseteq> insert (k, v) (set m)"
  by (induction m) auto

lemma set_delete_subset: "set (AList.delete k m) \<subseteq> set m"
  by (auto simp: AList.delete_eq)

lemma inner_ok_filter [intro]: "inner_ok K m \<Longrightarrow> inner_ok K (filter P m)"
  by (auto simp: inner_ok_def distinct_fst_filter list_all_iff)

lemma inner_ok_update [intro]: "inner_ok K m \<Longrightarrow> K k r \<Longrightarrow> inner_ok K (AList.update k r m)"
  using set_update_subset [of k r m] by (auto simp: inner_ok_def distinct_update list_all_iff)

lemma inner_ok_delete [intro]: "inner_ok K m \<Longrightarrow> inner_ok K (AList.delete k m)"
  using set_delete_subset [of k m] by (auto simp: inner_ok_def distinct_delete list_all_iff)

lemma nested_ok_update [intro]: "nested_ok K c \<Longrightarrow> inner_ok (K k) m \<Longrightarrow> nested_ok K (AList.update k m c)"
  using set_update_subset [of k m c] by (auto simp: nested_ok_def distinct_update list_all_iff)

lemma nested_ok_delete [intro]: "nested_ok K c \<Longrightarrow> nested_ok K (AList.delete k c)"
  using set_delete_subset [of k c] by (auto simp: nested_ok_def distinct_delete list_all_iff)

lemma nested_ok_filter [intro]: "nested_ok K c \<Longrightarrow> nested_ok K (filter P c)"
  by (auto simp: nested_ok_def distinct_fst_filter list_all_iff)

lemma nested_ok_inner_filter [intro]:
  "nested_ok K c \<Longrightarrow> nested_ok K (map (\<lambda>(k, m). (k, filter P m)) c)"
  by (auto simp: nested_ok_def list_all_iff case_prod_beta comp_def)

lemma nested_ok_entry [intro]: "nested_ok K c \<Longrightarrow> inner_ok (K k) (entry k c)"
  by (auto simp: nested_ok_def entry_def list_all_iff split: option.split dest: map_of_SomeD)

lemma nested_ok_map_of: "nested_ok K c \<Longrightarrow> map_of c k = Some m \<Longrightarrow> inner_ok (K k) m"
  by (auto simp: nested_ok_def list_all_iff dest: map_of_SomeD)

lemma nested_ok_erase [intro]: "nested_ok K c \<Longrightarrow> nested_ok K (erase_where P k c)"
  by (auto simp: erase_where_def split: option.split intro: nested_ok_map_of)

lemma nested_ok_stale [intro]: "nested_ok K c \<Longrightarrow> nested_ok K (removeInvalidEntryFromCache highest c)"
  unfolding removeInvalidEntryFromCache_def by (intro nested_ok_filter nested_ok_inner_filter)

text \<open>
  Votes are filed under block hash and signature, view changes under view and node; whatever is not an
  unchecked early vote has a valid signature.
\<close>

definition vote_ok :: "(PBFTMsg \<Rightarrow> bool) \<Rightarrow> string \<Rightarrow> string \<Rightarrow> PBFTMsg \<Rightarrow> bool" where
  "vote_ok valid h k r \<longleftrightarrow> block_hash r = h \<and> k = toHex (sig r) [] \<and> (isFuture r \<and> \<not> signChecked r \<or> valid r)"

definition change_ok :: "(PBFTMsg \<Rightarrow> bool) \<Rightarrow> int \<Rightarrow> nat \<Rightarrow> PBFTMsg \<Rightarrow> bool" where
  "change_ok valid v i r \<longleftrightarrow> view r = v \<and> idx r = i \<and> valid r"

definition requests_ok :: "(PBFTMsg \<Rightarrow> bool) \<Rightarrow> PBFTReqCache \<Rightarrow> bool" where
  "requests_ok valid c \<longleftrightarrow> nested_ok (vote_ok valid) (m_signCache c) \<and> nested_ok (vote_ok valid) (m_commitCache c)
     \<and> nested_ok (change_ok valid) (m_recvViewChangeReq c)"

lemma add_vote_ok: "nested_ok (vote_ok valid) c \<Longrightarrow> isFuture r \<and> \<not> signChecked r \<or> valid r \<Longrightarrow> nested_ok (vote_ok valid) (add_vote r c)"
  unfolding add_vote_def Let_def by (auto intro!: nested_ok_update inner_ok_update) (auto simp: vote_ok_def)

text \<open>Marking a request as checked must not matter to the validity of its signatures.\<close>

definition ignores_marks :: "(PBFTMsg \<Rightarrow> bool) \<Rightarrow> bool" where
  "ignores_marks valid \<longleftrightarrow> (\<forall>r b. valid (r\<lparr>signChecked := b\<rparr>) = valid r)"

lemma marked_ok:
  assumes "list_all2 (marked valid) m m'" and "inner_ok (vote_ok valid h) m" and "ignores_marks valid"
  shows "inner_ok (vote_ok valid h) m'"
proof -
  have "map fst m' = map fst m" using assms(1) by (induction rule: list_all2_induct) (auto simp: marked_def)
  moreover have "list_all (\<lambda>(k, r). vote_ok valid h k r) m" using assms(2) by (simp add: inner_ok_def)
  with assms(1) have "list_all (\<lambda>(k, r). vote_ok valid h k r) m'"
  proof (induction rule: list_all2_induct)
    case (Cons x xs y ys)
    then have "vote_ok valid h (fst y) (snd y)"
      using assms(3) by (cases x; cases y) (auto simp: marked_def vote_ok_def ignores_marks_def)
    then show ?case using Cons by (simp add: case_prod_beta)
  qed simp
  ultimately show ?thesis using assms(2) by (simp add: inner_ok_def)
qed

lemma check_ok:
  assumes "nested_ok (vote_ok valid) c" and "ignores_marks valid"
  shows "nested_ok (vote_ok valid) (snd (checkAndRemoveInvalidFutureReq valid h needLimit limitedSize c))"
proof (cases "map_of c h")
  case (Some m)
  let ?r = "check_future valid needLimit limitedSize 0 m"
  have "inner_ok (vote_ok valid h) (snd ?r)"
    by (rule marked_ok [OF check_future_marked nested_ok_map_of [OF assms(1) Some] assms(2)])
  then have "nested_ok (vote_ok valid) (AList.update h (snd ?r) c)" using assms(1) by blast
  then show ?thesis
    using Some assms(1) by (auto simp: checkAndRemoveInvalidFutureReq_def case_prod_beta)
qed (use assms in \<open>simp add: checkAndRemoveInvalidFutureReq_def\<close>)

lemma getSize_ok:
  assumes "requests_ok valid c" and "ignores_marks valid"
  shows "requests_ok valid (snd (getSigCacheSize valid h q c))" "requests_ok valid (snd (getCommitCacheSize valid h q c))"
  using assms check_ok [OF _ assms(2)]
  by (simp_all add: requests_ok_def getSigCacheSize_def getCommitCacheSize_def Let_def case_prod_beta)

named_theorems req_ok

lemma requests_okI: "nested_ok (vote_ok valid) (m_signCache c) \<Longrightarrow> nested_ok (vote_ok valid) (m_commitCache c)
    \<Longrightarrow> nested_ok (change_ok valid) (m_recvViewChangeReq c) \<Longrightarrow> requests_ok valid c"
  by (simp add: requests_ok_def)

lemma requests_okD:
  assumes "requests_ok valid c"
  shows "nested_ok (vote_ok valid) (m_signCache c)" "nested_ok (vote_ok valid) (m_commitCache c)"
    "nested_ok (change_ok valid) (m_recvViewChangeReq c)"
  using assms by (simp_all add: requests_ok_def)

lemma requests_ok_new [req_ok]: "requests_ok valid new_PBFTReqCache"
  by (simp add: requests_ok_def new_PBFTReqCache_def)

lemma requests_ok_prepares [req_ok]:
  assumes "requests_ok valid c"
  shows "requests_ok valid (addRawPrepare p c)" "requests_ok valid (addPrepareReq p c)"
    "requests_ok valid (addFuturePrepareCache p c)" "requests_ok valid (updateCommittedPrepare c)"
    "requests_ok valid (eraseHandledFutureReq n c)" "requests_ok valid (removeInvalidFutureCache h v c)"
    "requests_ok valid (eraseLatestViewChangeCacheForNodeUpdated i c)" "requests_ok valid (removeInvalidLatestViewChangeReq b c)"
  using assms
  by (auto simp: requests_ok_def addRawPrepare_def addPrepareReq_def removeInvalidCommitCache_def removeInvalidSignCache_def
      addFuturePrepareCache_def updateCommittedPrepare_def eraseHandledFutureReq_def removeInvalidFutureCache_def
      eraseLatestViewChangeCacheForNodeUpdated_def removeInvalidLatestViewChangeReq_def split: option.split)

lemma requests_ok_votes [req_ok]:
  assumes "requests_ok valid c" and "isFuture r \<and> \<not> signChecked r \<or> valid r"
  shows "requests_ok valid (addSignReq r c)" "requests_ok valid (addCommitReq r c)"
  using assms add_vote_ok by (auto simp: requests_ok_def addSignReq_def addCommitReq_def)

lemma requests_ok_erased [req_ok]: "requests_ok valid c \<Longrightarrow> requests_ok valid (eraseExpiredViewChange r c)"
  unfolding eraseExpiredViewChange_def requests_ok_def Let_def
  by (auto split: option.split)

lemma requests_ok_checked: "requests_ok valid c \<Longrightarrow> requests_ok valid (snd (checkViewChangeReq r n c))"
  by (auto simp: checkViewChangeReq_def req_ok split: option.split)

lemma requests_ok_change [req_ok]:
  assumes "requests_ok valid c" and "valid r"
  shows "requests_ok valid (addViewChangeReq r n c)"
proof -
  obtain ok c' where c': "checkViewChangeReq r n c = (ok, c')" by fastforce
  then have "requests_ok valid c'" using requests_ok_checked [OF assms(1), of r n] by simp
  then show ?thesis
    using assms(2) c' unfolding requests_ok_def addViewChangeReq_def
    by (auto intro!: nested_ok_update inner_ok_update) (auto simp: change_ok_def)
qed

lemma requests_ok_clearing [req_ok]:
  assumes "requests_ok valid c"
  shows "requests_ok valid (removeInvalidViewChange v b c)" "requests_ok valid (delInvalidViewChange b c)"
    "requests_ok valid (collectGarbage b c)" "requests_ok valid (triggerViewChange v n c)" "requests_ok valid (delCache b c)"
  using assms
  by (auto simp: requests_ok_def removeInvalidViewChange_def removeInvalidLatestViewChangeReq_def delInvalidViewChange_def
      collectGarbage_def removeInvalidFutureCache_def triggerViewChange_def removeViewsUpTo_def delCache_def Let_def
      split: option.split)

section \<open>Votes and voters\<close>

definition voters :: "(PBFTMsg \<Rightarrow> bool) \<Rightarrow> ('k, PBFTMsg) umap \<Rightarrow> nat set" where
  "voters valid m = {idx r | k r. (k, r) \<in> set m \<and> valid r}"

lemma toHex_inj: "toHex a [] = toHex b [] \<Longrightarrow> a = b"
  by (metis append_Nil hex_pairs_toHex sum.inject(2))

lemma finite_voters [simp]: "finite (voters valid m)"
proof -
  have "voters valid m \<subseteq> idx ` snd ` set m" by (force simp: voters_def)
  then show ?thesis by (rule finite_subset) simp
qed

text \<open>When a node signs a block once, the valid votes for it have as many voters.\<close>

lemma votes_voters:
  assumes "inner_ok (vote_ok valid h) m"
    and single: "\<And>r r'. valid r \<Longrightarrow> valid r' \<Longrightarrow> block_hash r = h \<Longrightarrow> block_hash r' = h \<Longrightarrow> idx r = idx r' \<Longrightarrow> sig r = sig r'"
  shows "current_votes m + future_votes valid m \<le> card (voters valid m)"
proof -
  let ?good = "filter (\<lambda>(k, r). valid r) m"
  have good: "distinct (map fst ?good)" "\<And>k r. (k, r) \<in> set ?good \<Longrightarrow> k = toHex (sig r) [] \<and> block_hash r = h \<and> valid r"
    using assms(1) by (auto simp: inner_ok_def distinct_fst_filter vote_ok_def list_all_iff)
  have "inj_on (\<lambda>(k, r). idx r) (set ?good)"
  proof (rule inj_onI, clarify)
    fix k r k' r' assume *: "(k, r) \<in> set ?good" "(k', r') \<in> set ?good" "idx r = idx r'"
    then have "sig r = sig r'" using good(2) single by blast
    then have "k = k'" using good(2) [OF *(1)] good(2) [OF *(2)] by simp
    then show "k = k' \<and> r = r'" using eq_key_imp_eq_value [OF good(1)] * by blast
  qed
  then have "card ((\<lambda>(k, r). idx r) ` set ?good) = card (set ?good)" by (rule card_image)
  moreover have "card (set ?good) = length ?good"
    using good(1) unfolding distinct_map by (intro distinct_card) blast
  ultimately have "length ?good = card ((\<lambda>(k, r). idx r) ` set ?good)" by (simp only:)
  also have "(\<lambda>(k, r). idx r) ` set ?good = voters valid m" by (force simp: voters_def)
  finally have "length ?good = card (voters valid m)" .
  moreover have "current_votes m + future_votes valid m
      = length (filter (\<lambda>(_, r). \<not> isFuture r \<or> isFuture r \<and> (signChecked r \<or> valid r)) m)"
    unfolding current_votes_def future_votes_def by (induction m) auto
  moreover have "\<dots> \<le> length ?good"
  proof -
    have eq: "(case x of (_, r) \<Rightarrow> \<not> isFuture r \<or> isFuture r \<and> (signChecked r \<or> valid r))
        = ((case x of (k, r) \<Rightarrow> valid r) \<and> (case x of (_, r) \<Rightarrow> \<not> isFuture r \<or> isFuture r \<and> (signChecked r \<or> valid r)))" if "x \<in> set m" for x
      using that assms(1) by (cases x) (auto simp: inner_ok_def vote_ok_def list_all_iff)
    have "filter (\<lambda>(_, r). \<not> isFuture r \<or> isFuture r \<and> (signChecked r \<or> valid r)) m = filter (\<lambda>(_, r). \<not> isFuture r \<or> isFuture r \<and> (signChecked r \<or> valid r)) ?good"
      unfolding filter_filter by (rule filter_cong [OF refl eq])
    then show ?thesis by (subst \<open>filter _ m = filter _ ?good\<close>) (rule length_filter_le)
  qed
  ultimately show ?thesis by linarith
qed

lemma commit_voters:
  assumes "requests_ok valid c" and "q \<le> fst (getCommitCacheSize valid h q c)"
    and "\<And>r r'. valid r \<Longrightarrow> valid r' \<Longrightarrow> block_hash r = h \<Longrightarrow> block_hash r' = h \<Longrightarrow> idx r = idx r' \<Longrightarrow> sig r = sig r'"
  shows "q \<le> card (voters valid (entry h (m_commitCache c)))"
proof -
  have "inner_ok (vote_ok valid h) (entry h (m_commitCache c))" using requests_okD(2) [OF assms(1)] by blast
  from votes_voters [OF this assms(3)]
  have "current_votes (entry h (m_commitCache c)) + future_votes valid (entry h (m_commitCache c))
      \<le> card (voters valid (entry h (m_commitCache c)))" .
  then show ?thesis using assms(2) unfolding commit_size Let_def by (simp split: if_splits)
qed

text \<open>Each request has its own signature here: the votes are counted by signature, whoever signed.\<close>

lemma entry_add_vote:
  "entry h (add_vote r c) = (if h = block_hash r \<and> map_of (entry h c) (toHex (sig r) []) = None
     then AList.update (toHex (sig r) []) r (entry h c) else entry h c)"
  by (auto simp: add_vote_def Let_def cacheExists_def entry_def update_conv' split: option.splits)

lemma length_update: "map_of m k = None \<Longrightarrow> length (AList.update k v m) = Suc (length m)"
  by (induction m) (auto split: if_splits)

lemma votes_per_signature_aux:
  assumes "list_all (\<lambda>r. block_hash r = h) rs" and "distinct (map fst (entry h c))"
  shows "length (entry h (fold add_vote rs c)) = card (dom (map_of (entry h c)) \<union> (\<lambda>r. toHex (sig r) []) ` set rs)
     \<and> distinct (map fst (entry h (fold add_vote rs c)))"
  using assms
proof (induction rs arbitrary: c)
  case Nil
  then show ?case using distinct_card [of "map fst (entry h c)"] by (simp add: dom_map_of_conv_image_fst)
next
  case (Cons r rs)
  let ?k = "toHex (sig r) []"
  have d: "distinct (map fst (entry h (add_vote r c)))" using Cons.prems by (auto simp: entry_add_vote distinct_update)
  have "dom (map_of (entry h (add_vote r c))) = insert ?k (dom (map_of (entry h c)))"
    using Cons.prems by (auto simp: entry_add_vote update_conv')
  then show ?case using Cons.IH [OF _ d] Cons.prems by simp
qed

text \<open>
  C28: Votes are counted by signature, not by node: of commit requests for one block, checked on arrival,
  a node counts as many as there are different signatures among them, even if they all come from the same
  node.
\<close>

theorem votes_per_signature:
  assumes "list_all (\<lambda>r. block_hash r = h \<and> \<not> isFuture r) rs"
  shows "fst (getCommitCacheSize checkSign h q (fold addCommitReq rs new_PBFTReqCache)) = card (sig ` set rs)"
proof -
  let ?c = "fold addCommitReq rs new_PBFTReqCache" and ?m = "entry h (fold add_vote rs [])"
  have commits: "m_commitCache (fold addCommitReq rs c) = fold add_vote rs (m_commitCache c)" for c
    by (induction rs arbitrary: c) (simp_all add: addCommitReq_def)
  then have m: "entry h (m_commitCache ?c) = ?m" by (simp add: new_PBFTReqCache_def)
  have len: "length ?m = card ((\<lambda>r. toHex (sig r) []) ` set rs)"
    using votes_per_signature_aux [of h rs "[]"] assms by (simp add: list_all_iff)
  have "(\<lambda>r. toHex (sig r) []) ` set rs = (\<lambda>s. toHex s []) ` sig ` set rs" by (simp add: image_image)
  also have "card \<dots> = card (sig ` set rs)" by (rule card_image) (auto intro: inj_onI dest: toHex_inj)
  finally have card: "length ?m = card (sig ` set rs)" unfolding len .
  have "snd ` set (entry h (fold add_vote rs c)) \<subseteq> snd ` set (entry h c) \<union> set rs" for c
  proof (induction rs arbitrary: c)
    case (Cons r rs)
    have "snd ` set (entry h (add_vote r c)) \<subseteq> insert r (snd ` set (entry h c))"
      using set_update_subset [of _ r "entry h c"] by (auto simp: entry_add_vote image_iff) (metis in_mono insert_iff prod.inject snd_conv)
    with Cons [of "add_vote r c"] show ?case unfolding fold_Cons comp_apply list.set(2) by blast
  qed simp
  from this [of "[]"] have "snd ` set ?m \<subseteq> set rs" by simp
  then have "\<not> isFuture (snd x)" if "x \<in> set ?m" for x using that assms by (force simp: list_all_iff)
  then have "filter (\<lambda>(_, r). \<not> isFuture r) ?m = ?m"
      "filter (\<lambda>(_, r). isFuture r \<and> (signChecked r \<or> checkSign r)) ?m = []"
    by (auto simp: filter_id_conv filter_empty_conv case_prod_beta simp del: split_paired_All)
  then have "current_votes ?m = length ?m" "future_votes checkSign ?m = 0"
    unfolding current_votes_def future_votes_def by simp_all
  then show ?thesis using card unfolding commit_size m Let_def by simp
qed

lemma votes_per_signature_witness:
  "fst (getCommitCacheSize (\<lambda>_. True) zero_h256 3
     (fold addCommitReq [new_PBFTMsg\<lparr>idx := 1, sig := ''a''\<rparr>, new_PBFTMsg\<lparr>idx := 1, sig := ''b''\<rparr>,
        new_PBFTMsg\<lparr>idx := 1, sig := ''c''\<rparr>, new_PBFTMsg\<lparr>idx := 2, sig := ''c''\<rparr>] new_PBFTReqCache)) = 3"
  using votes_per_signature [of zero_h256 "[new_PBFTMsg\<lparr>idx := 1, sig := ''a''\<rparr>, new_PBFTMsg\<lparr>idx := 1, sig := ''b''\<rparr>,
        new_PBFTMsg\<lparr>idx := 1, sig := ''c''\<rparr>, new_PBFTMsg\<lparr>idx := 2, sig := ''c''\<rparr>]" "\<lambda>_. True" 3]
  by (simp add: new_PBFTMsg_def)

section \<open>View changes\<close>

text \<open>The nodes that ask for a view above \<open>toView\<close>, with the view and the height of each request.\<close>

definition asked :: "int \<Rightarrow> int \<Rightarrow> PBFTReqCache \<Rightarrow> (nat \<times> int \<times> int) list" where
  "asked highest toView c =
     concat (map (\<lambda>(v, m). if v > toView then map (\<lambda>(i, r). (i, v, height r)) (filter (\<lambda>(i, r). height r \<ge> highest) m) else [])
       (m_recvViewChangeReq c))"

definition note_asked :: "nat \<times> int \<times> int \<Rightarrow> (nat, int) umap \<times> int \<times> int \<Rightarrow> (nat, int) umap \<times> int \<times> int" where
  "note_asked = (\<lambda>(i, v, h) (m, minView, min_height).
     if case map_of m i of None \<Rightarrow> True | Some v' \<Rightarrow> v > v'
     then (AList.update i v m, min minView v, min min_height h) else (m, minView, min_height))"

lemma trigger_asked:
  "fold (trigger_entry highest v) m s = fold note_asked (map (\<lambda>(i, r). (i, v, height r)) (filter (\<lambda>(i, r). height r \<ge> highest) m)) s"
  by (induction m arbitrary: s) (auto simp: note_asked_def split: option.split)

lemma trigger_fold:
  "fold (\<lambda>(v, m). if v > toView then fold (trigger_entry highest v) m else id) (m_recvViewChangeReq c) s
     = fold note_asked (asked highest toView c) s"
proof -
  have "fold (\<lambda>(v, m). if v > toView then fold (trigger_entry highest v) m else id) rs s
     = fold note_asked (concat (map (\<lambda>(v, m). if v > toView then map (\<lambda>(i, r). (i, v, height r))
          (filter (\<lambda>(i, r). height r \<ge> highest) m) else []) rs)) s" for rs
    by (induction rs arbitrary: s) (auto simp: trigger_asked)
  then show ?thesis by (simp add: asked_def)
qed

definition noted :: "(nat \<times> int \<times> int) list \<Rightarrow> (nat, int) umap \<times> int \<times> int \<Rightarrow> bool" where
  "noted as = (\<lambda>(m, minView, min_height). distinct (map fst m) \<and> fst ` set m = fst ` set as
     \<and> (\<forall>(i, v) \<in> set m. minView \<le> v \<and> (\<exists>h. (i, v, h) \<in> set as))
     \<and> (if as = [] then minView = MAXVIEW else minView \<in> (\<lambda>(i, v, h). v) ` set as))"

lemma noted_step:
  assumes "noted as s" and "v \<le> MAXVIEW"
  shows "noted (as @ [(i, v, h)]) (note_asked (i, v, h) s)"
proof -
  obtain m a b where s: "s = (m, a, b)" by (cases s)
  note inv = assms(1) [unfolded noted_def s prod.case]
  have elem: "(j, w) \<in> set m \<longleftrightarrow> map_of m j = Some w" for j w using inv by (simp add: map_of_eq_Some_iff)
  show ?thesis
  proof (cases "case map_of m i of None \<Rightarrow> True | Some v' \<Rightarrow> v > v'")
    case True
    have keys: "fst ` set (AList.update i v m) = insert i (fst ` set m)" by (induction m) auto
    have mem: "(j, w) \<in> set (AList.update i v m) \<Longrightarrow> j = i \<and> w = v \<or> (j, w) \<in> set m" for j w
      using set_update_subset [of i v m] by auto
    show ?thesis
      using True inv keys mem assms(2) distinct_update [of m i v]
      unfolding s noted_def note_asked_def prod.case
      by (auto simp: min_def split: if_splits) (fastforce dest: mem)+
  next
    case False
    then obtain w where "map_of m i = Some w" "v \<le> w" by (auto split: option.splits)
    then have "(i, w) \<in> set m" using elem by simp
    then have "i \<in> fst ` set as" using inv by force
    then show ?thesis using False inv unfolding s noted_def note_asked_def prod.case by (auto split: if_splits)
  qed
qed

lemma noted_fold:
  assumes "noted as s" and "\<And>i v h. (i, v, h) \<in> set bs \<Longrightarrow> v \<le> MAXVIEW"
  shows "noted (as @ bs) (fold note_asked bs s)"
  using assms
proof (induction bs arbitrary: as s)
  case (Cons b bs)
  obtain i v h where b: "b = (i, v, h)" by (cases b)
  have "noted (as @ [b]) (note_asked b s)" using noted_step [OF Cons.prems(1), of v i h] Cons.prems(2) [of i v h] b by simp
  moreover have "v \<le> MAXVIEW" if "(i, v, h) \<in> set bs" for i v h using Cons.prems(2) [of i v h] that by simp
  ultimately show ?case using Cons.IH [of "as @ [b]" "note_asked b s"] by simp
qed simp

definition asking :: "int \<Rightarrow> int \<Rightarrow> PBFTReqCache \<Rightarrow> nat set" where
  "asking highest toView c = fst ` set (asked highest toView c)"

lemma mem_asked:
  "(i, v, h) \<in> set (asked highest toView c)
     \<longleftrightarrow> (\<exists>m r. (v, m) \<in> set (m_recvViewChangeReq c) \<and> (i, r) \<in> set m \<and> toView < v \<and> highest \<le> h \<and> height r = h)"
  by (force simp: asked_def split: if_splits)

lemma trigger_facts:
  assumes "canTriggerViewChange maxInvalid toView highest n c = (True, minView)"
    and "list_all (\<lambda>(v, m). v \<le> MAXVIEW) (m_recvViewChangeReq c)"
  shows "maxInvalid < card (asking (number highest) toView c)"
    "\<exists>i h. (i, minView, h) \<in> set (asked (number highest) toView c)"
    "i \<in> asking (number highest) toView c \<Longrightarrow> \<exists>v h. minView \<le> v \<and> (i, v, h) \<in> set (asked (number highest) toView c)"
proof -
  let ?as = "asked (number highest) toView c"
  obtain m mh where s: "fold note_asked ?as ([], MAXVIEW, MAXVIEW) = (m, minView, mh)"
      and len: "maxInvalid < length m mod 65536"
    using assms(1) unfolding canTriggerViewChange_def trigger_fold
    by (auto simp: Let_def split: prod.splits)
  have "noted [] ([], MAXVIEW, MAXVIEW)" by (simp add: noted_def)
  from noted_fold [OF this, of ?as] have inv: "noted ?as (m, minView, mh)"
    using assms(2) s by (auto simp: mem_asked list_all_iff)
  then have "length m = card (fst ` set ?as)"
    unfolding noted_def prod.case by (metis distinct_card length_map list.set_map)
  moreover have "length m mod 65536 \<le> length m" by simp
  ultimately show "maxInvalid < card (asking (number highest) toView c)" using len by (simp add: asking_def)
  have "?as \<noteq> []" using inv len unfolding noted_def by (auto split: if_splits)
  then show "\<exists>i h. (i, minView, h) \<in> set ?as" using inv unfolding noted_def by (auto split: if_splits)
  show "\<exists>v h. minView \<le> v \<and> (i, v, h) \<in> set ?as" if "i \<in> asking (number highest) toView c"
  proof -
    have "i \<in> fst ` set m" using that inv by (simp add: asking_def noted_def)
    then obtain v where "(i, v) \<in> set m" by auto
    then show ?thesis using inv unfolding noted_def by fastforce
  qed
qed

text \<open>
  C27: A fast view change is triggered only when more nodes than can be faulty ask for a view above the
  node's own target, and the view it aims at is one that a node asked for and that none of those nodes is
  beyond: each has asked for this view or a later one.
\<close>

theorem trigger_view_change:
  assumes "canTriggerViewChange maxInvalid toView highest n c = (True, minView)"
    and "list_all (\<lambda>(v, m). v \<le> MAXVIEW) (m_recvViewChangeReq c)"
  shows "toView < minView \<and> maxInvalid < card (asking (number highest) toView c)
    \<and> (\<exists>i h. (i, minView, h) \<in> set (asked (number highest) toView c))
    \<and> asking (number highest) toView c = {i. \<exists>v h. minView \<le> v \<and> (i, v, h) \<in> set (asked (number highest) toView c)}"
proof -
  have "toView < minView" using trigger_facts(2) [OF assms] by (auto simp: mem_asked)
  moreover have "asking (number highest) toView c = {i. \<exists>v h. minView \<le> v \<and> (i, v, h) \<in> set (asked (number highest) toView c)}"
    using trigger_facts(3) [OF assms] unfolding asking_def by (auto simp: rev_image_eqI)
  ultimately show ?thesis using trigger_facts [OF assms] by blast
qed

definition change_req :: "nat \<Rightarrow> int \<Rightarrow> PBFTMsg" where
  "change_req i v = new_PBFTMsg\<lparr>height := 5, view := v, idx := i\<rparr>"

definition header_5 :: BlockHeader where
  "header_5 = \<lparr>number = 5, hash = zero_h256, parentHash = zero_h256, sealer = 0, sealerList = [],
     block_time = 0\<rparr>"

lemma trigger_view_change_witness:
  "asking 5 1 (addViewChangeReq (change_req 2 3) 5 (addViewChangeReq (change_req 1 2) 5 new_PBFTReqCache))
     = {i. \<exists>v h. 2 \<le> v \<and> (i, v, h) \<in> set (asked 5 1
          (addViewChangeReq (change_req 2 3) 5 (addViewChangeReq (change_req 1 2) 5 new_PBFTReqCache)))}"
proof -
  let ?c = "addViewChangeReq (change_req 2 3) 5 (addViewChangeReq (change_req 1 2) 5 new_PBFTReqCache)"
  have c: "m_recvViewChangeReq ?c = [(2, [(1, change_req 1 2)]), (3, [(2, change_req 2 3)])]"
      "height (m_committedPrepareCache ?c) = -1"
    by (simp_all add: addViewChangeReq_def checkViewChangeReq_def new_PBFTReqCache_def change_req_def entry_def
        new_PrepareReq_def new_PBFTMsg_def PBFTMsg.defs)
  have "canTriggerViewChange 1 1 header_5 6 ?c = (True, 2)"
    unfolding canTriggerViewChange_def c by (simp add: change_req_def header_5_def MAXVIEW_def)
  moreover have "list_all (\<lambda>(v, m). v \<le> MAXVIEW) (m_recvViewChangeReq ?c)" unfolding c by (simp add: MAXVIEW_def)
  ultimately show ?thesis using trigger_view_change [of 1 1 header_5 6 ?c 2] by (simp add: header_5_def)
qed

text \<open>The view depends on the order in which the hash map is iterated when a node has asked twice.\<close>

lemma trigger_order:
  "canTriggerViewChange 0 1 header_5 6 (new_PBFTReqCache\<lparr>m_recvViewChangeReq := [(2, [(1, change_req 1 2)]), (3, [(1, change_req 1 3)])]\<rparr>) = (True, 2)"
  "canTriggerViewChange 0 1 header_5 6 (new_PBFTReqCache\<lparr>m_recvViewChangeReq := [(3, [(1, change_req 1 3)]), (2, [(1, change_req 1 2)])]\<rparr>) = (True, 3)"
  by (simp_all add: canTriggerViewChange_def change_req_def header_5_def MAXVIEW_def new_PBFTReqCache_def
      new_PrepareReq_def new_PBFTMsg_def PBFTMsg.defs)

section \<open>The exported signatures\<close>

lemma hex_bytes_toHex [simp]: "hex_bytes (toHex b []) = b"
  using toHex_no_prefix [of b] hex_pairs_toHex [of False "[]" b] length_toHex [of b] by (simp add: hex_bytes_def fromHex_def Let_def)

text \<open>Every commit request of the map is exported, also the early ones whose signature was found bad.\<close>

lemma sig_list_exports:
  assumes "requests_ok valid c"
  shows "generateAndSetSigList q c b =
    (let m = entry (block_hash (m_prepareCache c)) (m_commitCache c)
     in if map_of (m_commitCache c) (block_hash (m_prepareCache c)) = None \<or> length m < q then (False, b)
        else (True, b\<lparr>sigList := map (\<lambda>(k, r). (idx r, sig r)) m\<rparr>))"
proof -
  let ?m = "entry (block_hash (m_prepareCache c)) (m_commitCache c)"
  have "inner_ok (vote_ok valid (block_hash (m_prepareCache c))) ?m" using requests_okD(2) [OF assms] by blast
  then have "map (\<lambda>(k, r). (idx r, hex_bytes k)) ?m = map (\<lambda>(k, r). (idx r, sig r)) ?m"
    by (auto simp: inner_ok_def list_all_iff vote_ok_def)
  then show ?thesis
    by (cases "map_of (m_commitCache c) (block_hash (m_prepareCache c))") (simp_all add: generateAndSetSigList_def entry_def Let_def)
qed

end
