(* ===== verification/PbftEngine.thy ===== *)
theory PbftEngine
  imports PbftCache
begin

text \<open>
  The PBFT engine (\<open>libconsensus/pbft/PBFTEngine.h\<close>, \<open>PBFTEngine.cpp\<close>, \<open>TimeManager.h\<close>, and what it
  inherits from \<open>libconsensus/ConsensusEngineBase.h\<close>, \<open>ConsensusEngineBase.cpp\<close>), with proposals that
  carry their transactions (\<open>m_enablePrepareWithTxsHash\<close> off).

  Every public operation holds the engine's mutex, so it is one step. Views and heights are 64-bit
  integers and not wrapped. A message that is sent, and a call of another module that changes it, is an
  event; who a broadcast reaches is not modelled, it always succeeds in the code.
\<close>

section \<open>Time\<close>

record TimeManager =
  m_emptyBlockGenTime :: nat
  m_viewTimeout :: nat
  m_consensusTimeout :: nat
  m_changeCycle :: nat
  m_lastSignTime :: nat
  m_lastConsensusTime :: nat
  m_lastAddRawPrepareTime :: nat
  m_lastExecTime :: nat
  m_minBlockGenTime :: nat
  m_lastGarbageCollection :: nat

definition kMaxChangeCycle :: nat where "kMaxChangeCycle = 20"
definition CollectInterval :: nat where "CollectInterval = 60"

definition initTimerManager :: "nat \<Rightarrow> nat \<Rightarrow> TimeManager \<Rightarrow> TimeManager" where
  "initTimerManager now view_timeout t =
     t\<lparr>m_lastAddRawPrepareTime := now, m_lastConsensusTime := now, m_lastExecTime := now, m_lastSignTime := 0,
       m_viewTimeout := view_timeout, m_changeCycle := 0, m_lastGarbageCollection := now\<rparr>"

text \<open>
  The block times. The setter of the time of an empty block ignores its argument. Elapsed times are
  unsigned, the last consensus time is 0 after a fast view change.
\<close>

definition setEmptyBlockGenTime :: "nat \<Rightarrow> TimeManager \<Rightarrow> TimeManager" where
  "setEmptyBlockGenTime intervalBlockTime t = t\<lparr>m_emptyBlockGenTime := 300\<rparr>"

definition setMinBlockGenerationTime :: "nat \<Rightarrow> TimeManager \<Rightarrow> TimeManager" where
  "setMinBlockGenerationTime time t =
     t\<lparr>m_minBlockGenTime := (if time < m_emptyBlockGenTime t then time else (m_emptyBlockGenTime t + 2 ^ 32 - 1) mod 2 ^ 32)\<rparr>"

definition reachMinBlockGenTime :: "nat \<Rightarrow> TimeManager \<Rightarrow> bool" where
  "reachMinBlockGenTime now t \<longleftrightarrow> nat ((int now - int (m_lastConsensusTime t)) mod 2 ^ 64) \<ge> m_minBlockGenTime t"

definition reachBlockIntervalTime :: "nat \<Rightarrow> TimeManager \<Rightarrow> bool" where
  "reachBlockIntervalTime now t \<longleftrightarrow> nat ((int now - int (m_lastConsensusTime t)) mod 2 ^ 64) \<ge> m_emptyBlockGenTime t"

definition changeView :: "TimeManager \<Rightarrow> TimeManager" where
  "changeView t = t\<lparr>m_lastConsensusTime := 0, m_lastSignTime := 0\<rparr>"

definition updateChangeCycle :: "TimeManager \<Rightarrow> TimeManager" where
  "updateChangeCycle t = t\<lparr>m_changeCycle := min (m_changeCycle t + 1) kMaxChangeCycle\<rparr>"

text \<open>
  The interval is the timeout times \<open>1.5 ^ m_changeCycle\<close>, rounded down: with at most 20 cycles the power
  is exact in a \<open>double\<close>, and so is the product for timeouts below \<open>2 ^ 21\<close> milliseconds. The elapsed time
  is computed in unsigned 64 bits.
\<close>

definition isTimeout :: "nat \<Rightarrow> TimeManager \<Rightarrow> bool" where
  "isTimeout now t =
     (let maxConsensusTime = max (m_lastConsensusTime t) (m_lastSignTime t);
          (viewTimeOut, last) =
            (if m_lastAddRawPrepareTime t > maxConsensusTime \<and> (m_lastConsensusTime t \<noteq> 0 \<or> m_lastSignTime t \<noteq> 0) then
               if m_lastAddRawPrepareTime t > m_lastExecTime t
               then (m_consensusTimeout t, m_lastAddRawPrepareTime t) else (m_viewTimeout t, m_lastExecTime t)
             else (m_viewTimeout t, maxConsensusTime));
          interval = viewTimeOut * 3 ^ m_changeCycle t div 2 ^ m_changeCycle t
      in nat ((int now - int last) mod 2 ^ 64) \<ge> interval)"

section \<open>State\<close>

text \<open>What the engine sends and what it tells the other modules.\<close>

datatype event =
    SendPrepare prepare
  | SendSign PBFTMsg
  | SendCommit PBFTMsg
  | SendViewChange PBFTMsg
  | SendViewChangeTo string PBFTMsg
  | Backup prepare
  | NoteSealing int
  | NotifyNextLeader "string list"
  | DropTxs Block
  | HandleBadBlock Block
  | OnTimeout nat
  | OnViewChange
  | OnCommitBlock int nat nat
  | Forward PBFTMsgPacket

text \<open>
  What the engine is built on: its key pair, the cryptography, the execution and decoding of blocks, what
  the chain's tables hold, and configuration. \<open>run_block\<close> checks the signatures of the transactions and
  executes the block, which it changes, on the given parent. \<open>consensusTimeout\<close> is \<open>None\<close> where the
  timeout cannot be adjusted.
\<close>

record pbft_env =
  pub :: string
  Sign :: "string \<Rightarrow> string"
  Verify :: "string \<Rightarrow> string \<Rightarrow> string \<Rightarrow> bool"
  Hash :: "string \<Rightarrow> string"
  run_block :: "Block \<Rightarrow> BlockHeader \<Rightarrow> Block \<times> nat option result"
  decodeBlock :: "string \<Rightarrow> Block result"
  encodeProposal :: "Block \<Rightarrow> string"
  dbCommit :: "Block \<Rightarrow> bool"
  chain_sealers :: "Block list \<Rightarrow> string list"
  tx_count_limit :: "Block list \<Rightarrow> nat"
  consensusTimeout :: "Block list \<Rightarrow> nat option"
  omitEmptyBlock :: bool
  allowFutureBlocks :: bool
  m_enableTTLOptimize :: bool

record sync_status =
  farBehind :: bool
  syncing :: bool
  knownHighestNumber :: int

record PBFTEngine =
  m_view :: int
  m_toView :: int
  m_leaderFailed :: bool
  m_notifyNextLeaderSeal :: bool
  m_fastViewChange :: bool
  m_generatePrepare :: bool
  m_sealingNumber :: nat
  m_viewMap :: "nat \<rightharpoonup> int"
  m_highestBlock :: BlockHeader
  m_consensusBlockNumber :: int
  m_nodeNum :: nat
  m_f :: nat
  m_idx :: nat
  m_cfgErr :: bool
  m_sealer :: bool
  m_sealerList :: "string list"
  m_maxBlockTransactions :: nat
  m_timeManager :: TimeManager
  m_reqCache :: PBFTReqCache
  m_blockChain :: "Block list"
  m_blockSync :: sync_status
  steady_clock :: nat
  utc_clock :: nat
  events :: "event list"

definition raise :: "event \<Rightarrow> PBFTEngine \<Rightarrow> PBFTEngine" where
  "raise ev e = e\<lparr>events := events e @ [ev]\<rparr>"

definition on_cache :: "(PBFTReqCache \<Rightarrow> PBFTReqCache) \<Rightarrow> PBFTEngine \<Rightarrow> PBFTEngine" where
  "on_cache f e = e\<lparr>m_reqCache := f (m_reqCache e)\<rparr>"

definition on_time :: "(TimeManager \<Rightarrow> TimeManager) \<Rightarrow> PBFTEngine \<Rightarrow> PBFTEngine" where
  "on_time f e = e\<lparr>m_timeManager := f (m_timeManager e)\<rparr>"

text \<open>The chain: the block with number \<open>n\<close> at index \<open>n\<close>, the genesis block first.\<close>

definition chain_number :: "Block list \<Rightarrow> int" where
  "chain_number ch = int (length ch) - 1"

definition getBlockByNumber :: "Block list \<Rightarrow> int \<Rightarrow> Block option" where
  "getBlockByNumber ch n = (if 0 \<le> n \<and> nat n < length ch then Some (ch ! nat n) else None)"

definition numberHash :: "Block list \<Rightarrow> int \<Rightarrow> string" where
  "numberHash ch n = (case getBlockByNumber ch n of None \<Rightarrow> zero_h256 | Some b \<Rightarrow> hash (blockHeader b))"

datatype CommitResult = CommitOK | ERROR_NUMBER | ERROR_PARENT_HASH | ERROR_COMMITTING

definition commitBlock :: "pbft_env \<Rightarrow> Block \<Rightarrow> Block list \<Rightarrow> CommitResult \<times> Block list" where
  "commitBlock env b ch =
     (if number (blockHeader b) \<noteq> chain_number ch + 1 then (ERROR_NUMBER, ch)
      else if parentHash (blockHeader b) \<noteq> numberHash ch (chain_number ch) then (ERROR_PARENT_HASH, ch)
      else if \<not> dbCommit env b then (ERROR_COMMITTING, ch)
      else (CommitOK, ch @ [b]))"

section \<open>Sealers and quorums\<close>

definition zero_h512 :: string where "zero_h512 = replicate 64 (CHR 0x00)"

definition max_faulty :: "nat \<Rightarrow> nat" where
  "max_faulty n = (n - 1) div 3"

definition minValidNodes :: "PBFTEngine \<Rightarrow> nat" where
  "minValidNodes e = m_nodeNum e - m_f e"

definition nodeIdx :: "PBFTEngine \<Rightarrow> nat" where
  "nodeIdx e = m_idx e"

definition getSealerByIndex :: "PBFTEngine \<Rightarrow> nat \<Rightarrow> string" where
  "getSealerByIndex e i = (if i < length (m_sealerList e) then m_sealerList e ! i else zero_h512)"

definition getNodeIDByIndex :: "PBFTEngine \<Rightarrow> nat \<Rightarrow> string option" where
  "getNodeIDByIndex e i = (let nid = getSealerByIndex e i in if nid = zero_h512 then None else Some nid)"

fun index_of :: "string \<Rightarrow> nat \<Rightarrow> string list \<Rightarrow> int" where
  "index_of nid i [] = -1"
| "index_of nid i (n # ns) = (if n = nid then int i else index_of nid (i + 1) ns)"

definition getIndexBySealer :: "string \<Rightarrow> PBFTEngine \<Rightarrow> int" where
  "getIndexBySealer nid e = index_of nid 0 (m_sealerList e)"

text \<open>The sealers are sorted, so that all nodes number them alike.\<close>

definition updateConsensusNodeList :: "pbft_env \<Rightarrow> PBFTEngine \<Rightarrow> PBFTEngine" where
  "updateConsensusNodeList env e = e\<lparr>m_sealerList := sort (chain_sealers env (m_blockChain e))\<rparr>"

definition resetConsensusTimeout :: "pbft_env \<Rightarrow> PBFTEngine \<Rightarrow> PBFTEngine" where
  "resetConsensusTimeout env e =
     (case consensusTimeout env (m_blockChain e) of
        None \<Rightarrow> e
      | Some seconds \<Rightarrow>
          let timeout = seconds * 1000 mod 2 ^ 64
          in on_time (\<lambda>t.
               let t = (if m_emptyBlockGenTime t > timeout then t\<lparr>m_emptyBlockGenTime := timeout div 3\<rparr> else t)
               in if m_viewTimeout t \<noteq> timeout then t\<lparr>m_consensusTimeout := timeout mod 2 ^ 32\<rparr> else t) e)"

text \<open>The number of nodes is kept in 16 bits. Without a sealer the process is told to terminate.\<close>

definition resetConfig :: "pbft_env \<Rightarrow> PBFTEngine \<Rightarrow> PBFTEngine result" where
  "resetConfig env e0 =
     (let e = updateConsensusNodeList env (e0\<lparr>m_maxBlockTransactions := tx_count_limit env (m_blockChain e0)\<rparr>);
          i = index_of (pub env) 0 (m_sealerList e);
          node_idx = (if i < 0 then MAXIDX else nat i mod 65536);
          nodeNum = length (m_sealerList e)
      in if nodeNum < 1 then Inl EmptySealers
         else Inr (resetConsensusTimeout env
           (e\<lparr>m_sealer := (0 \<le> i), m_nodeNum := nodeNum mod 65536, m_f := max_faulty (nodeNum mod 65536),
              m_cfgErr := (node_idx = MAXIDX), m_idx := node_idx\<rparr>)))"

definition getNextLeader :: "PBFTEngine \<Rightarrow> nat" where
  "getNextLeader e = nat ((number (m_highestBlock e) + 1) mod int (m_nodeNum e))"

definition getLeader :: "PBFTEngine \<Rightarrow> nat option" where
  "getLeader e =
     (if m_cfgErr e \<or> m_leaderFailed e \<or> sealer (m_highestBlock e) = Invalid256 \<or> m_nodeNum e = 0 then None
      else Some (nat ((m_view e + number (m_highestBlock e)) mod int (m_nodeNum e))))"

section \<open>Signatures\<close>

text \<open>A time stamp of 256 bits can always be encoded.\<close>

definition fields_hash :: "pbft_env \<Rightarrow> 'a PBFTMsg_scheme \<Rightarrow> string" where
  "fields_hash env m = (case fieldsWithoutBlock (Hash env) m of Inr h \<Rightarrow> h | Inl _ \<Rightarrow> zero_h256)"

definition checkSign :: "pbft_env \<Rightarrow> PBFTEngine \<Rightarrow> 'a PBFTMsg_scheme \<Rightarrow> bool" where
  "checkSign env e req =
     (case getNodeIDByIndex e (idx req) of
        None \<Rightarrow> False
      | Some nid \<Rightarrow> Verify env nid (sig req) (block_hash req) \<and> Verify env nid (sig2 req) (fields_hash env req))"

definition checkSign_block :: "pbft_env \<Rightarrow> PBFTEngine \<Rightarrow> nat \<Rightarrow> string \<Rightarrow> string \<Rightarrow> bool" where
  "checkSign_block env e i h s =
     (case getNodeIDByIndex e i of None \<Rightarrow> False | Some nid \<Rightarrow> Verify env nid s h)"

text \<open>The constructors of the requests: the fields, then the two signatures.\<close>

definition sign_msg :: "pbft_env \<Rightarrow> 'a PBFTMsg_scheme \<Rightarrow> 'a PBFTMsg_scheme" where
  "sign_msg env m = m\<lparr>sig := Sign env (block_hash m), sig2 := Sign env (fields_hash env m)\<rparr>"

definition new_request :: "pbft_env \<Rightarrow> PBFTEngine \<Rightarrow> int \<Rightarrow> int \<Rightarrow> string \<Rightarrow> PBFTMsg" where
  "new_request env e h v bh =
     sign_msg env (new_PBFTMsg\<lparr>height := h, view := v, idx := nodeIdx e, timestamp := utc_clock e, block_hash := bh\<rparr>)"

definition new_SignReq :: "pbft_env \<Rightarrow> PBFTEngine \<Rightarrow> prepare \<Rightarrow> PBFTMsg" where
  "new_SignReq env e req = new_request env e (height req) (view req) (block_hash req)"

definition new_CommitReq :: "pbft_env \<Rightarrow> PBFTEngine \<Rightarrow> prepare \<Rightarrow> PBFTMsg" where
  "new_CommitReq env e req = new_request env e (height req) (view req) (block_hash req)"

definition new_ViewChangeReq :: "pbft_env \<Rightarrow> PBFTEngine \<Rightarrow> PBFTMsg" where
  "new_ViewChangeReq env e = new_request env e (number (m_highestBlock e)) (m_toView e) (hash (m_highestBlock e))"

text \<open>The three ways to build a prepare request: from a block, from an older request, and after execution.\<close>

definition new_PrepareReq_block :: "pbft_env \<Rightarrow> PBFTEngine \<Rightarrow> Block \<Rightarrow> prepare" where
  "new_PrepareReq_block env e b =
     sign_msg env (new_PrepareReq\<lparr>height := number (blockHeader b), view := m_view e, idx := nodeIdx e,
       timestamp := utc_clock e, block_hash := hash (blockHeader b), block := encodeProposal env b, pBlock := Some b\<rparr>)"

definition new_PrepareReq_again :: "pbft_env \<Rightarrow> PBFTEngine \<Rightarrow> prepare \<Rightarrow> prepare" where
  "new_PrepareReq_again env e req =
     sign_msg env (new_PrepareReq\<lparr>height := height req, view := m_view e, idx := nodeIdx e,
       timestamp := utc_clock e, block_hash := block_hash req, block := block req, pBlock := pBlock req\<rparr>)"

definition new_PrepareReq_executed :: "pbft_env \<Rightarrow> PBFTEngine \<Rightarrow> prepare \<Rightarrow> Block \<Rightarrow> nat option \<Rightarrow> prepare" where
  "new_PrepareReq_executed env e req b ctx =
     sign_msg env (new_PrepareReq\<lparr>height := height req, view := view req, idx := idx req,
       timestamp := utc_clock e, block_hash := hash (blockHeader b), pBlock := Some b, p_execContext := ctx\<rparr>)"

section \<open>Checking requests\<close>

datatype CheckResult = VALID | INVALID | FUTURE

definition hasConsensused :: "'a PBFTMsg_scheme \<Rightarrow> PBFTEngine \<Rightarrow> bool" where
  "hasConsensused req e \<longleftrightarrow>
     height req < m_consensusBlockNumber e \<or> height req = m_consensusBlockNumber e \<and> view req < m_view e"

definition isSyncingHigherBlock :: "'a PBFTMsg_scheme \<Rightarrow> PBFTEngine \<Rightarrow> bool" where
  "isSyncingHigherBlock req e \<longleftrightarrow>
     farBehind (m_blockSync e) \<or> syncing (m_blockSync e) \<and> height req \<le> knownHighestNumber (m_blockSync e)"

definition isFutureBlock :: "'a PBFTMsg_scheme \<Rightarrow> PBFTEngine \<Rightarrow> bool" where
  "isFutureBlock req e \<longleftrightarrow> height req \<ge> m_consensusBlockNumber e \<or> view req > m_view e"

definition isFuturePrepare :: "'a PBFTMsg_scheme \<Rightarrow> PBFTEngine \<Rightarrow> bool" where
  "isFuturePrepare req e \<longleftrightarrow>
     height req > m_consensusBlockNumber e \<or> height req = m_consensusBlockNumber e \<and> view req > m_view e"

definition isHashSavedAfterCommit :: "'a PBFTMsg_scheme \<Rightarrow> PBFTEngine \<Rightarrow> bool" where
  "isHashSavedAfterCommit req e \<longleftrightarrow>
     \<not> (height req = height (m_committedPrepareCache (m_reqCache e))
        \<and> block_hash req \<noteq> block_hash (m_committedPrepareCache (m_reqCache e)))"

definition isValidLeader :: "'a PBFTMsg_scheme \<Rightarrow> PBFTEngine \<Rightarrow> bool" where
  "isValidLeader req e \<longleftrightarrow> getLeader e = Some (idx req)"

definition checkReq :: "pbft_env \<Rightarrow> PBFTMsg \<Rightarrow> PBFTEngine \<Rightarrow> CheckResult" where
  "checkReq env req e =
     (if isSyncingHigherBlock req e then INVALID
      else if block_hash (m_prepareCache (m_reqCache e)) \<noteq> block_hash req then
        if isFutureBlock req e then FUTURE else INVALID
      else if idx req = nodeIdx e then INVALID
      else if view (m_prepareCache (m_reqCache e)) \<noteq> view req then INVALID
      else if \<not> checkSign env e req then INVALID
      else VALID)"

definition as_future :: "PBFTMsg \<Rightarrow> PBFTMsg" where
  "as_future req = req\<lparr>isFuture := True, signChecked := False\<rparr>"

definition isValidSignReq :: "pbft_env \<Rightarrow> PBFTMsg \<Rightarrow> PBFTEngine \<Rightarrow> CheckResult \<times> PBFTEngine" where
  "isValidSignReq env req e =
     (if isExistSign req (m_reqCache e) then (INVALID, e)
      else if hasConsensused req e then (INVALID, e)
      else case checkReq env req e of
             FUTURE \<Rightarrow> (FUTURE, on_cache (addSignReq (as_future req)) e)
           | result \<Rightarrow> (result, e))"

definition isValidCommitReq :: "pbft_env \<Rightarrow> PBFTMsg \<Rightarrow> PBFTEngine \<Rightarrow> CheckResult \<times> PBFTEngine" where
  "isValidCommitReq env req e =
     (if isExistCommit req (m_reqCache e) then (INVALID, e)
      else if hasConsensused req e then (INVALID, e)
      else case checkReq env req e of
             FUTURE \<Rightarrow> (FUTURE, on_cache (addCommitReq (as_future req)) e)
           | result \<Rightarrow> (result, e))"

definition isValidPrepare :: "pbft_env \<Rightarrow> prepare \<Rightarrow> PBFTEngine \<Rightarrow> CheckResult" where
  "isValidPrepare env req e =
     (if isExistPrepare req (m_reqCache e) then INVALID
      else if isSyncingHigherBlock req e then INVALID
      else if hasConsensused req e then INVALID
      else if \<not> isEmpty req \<and> \<not> isHashSavedAfterCommit req e then INVALID
      else if isFuturePrepare req e then FUTURE
      else if \<not> isValidLeader req e then INVALID
      else if \<not> checkSign env e req then INVALID
      else VALID)"

definition updateViewMap :: "nat \<Rightarrow> int \<Rightarrow> PBFTEngine \<Rightarrow> PBFTEngine" where
  "updateViewMap i v e = e\<lparr>m_viewMap := (m_viewMap e)(i \<mapsto> v)\<rparr>"

text \<open>
  The check of a block before it is executed: the part of the base class, given the limit of transactions,
  the time and the chain, and the one of PBFT, which compares the sealers, too.
\<close>

definition base_checkBlockValid :: "pbft_env \<Rightarrow> nat \<Rightarrow> nat \<Rightarrow> Block list \<Rightarrow> Block \<Rightarrow> unit result" where
  "base_checkBlockValid env maxTransactions now ch b =
     (let h = blockHeader b
      in if length (transactions b) > maxTransactions then Inl OverThresTransNum
         else if block_time h > now \<and> \<not> allowFutureBlocks env then Inl DisabledFutureTime
         else if number h \<le> chain_number ch then Inl InvalidBlockHeight
         else if \<not> list_ex (\<lambda>p. hash (blockHeader p) = parentHash h) ch then Inl ParentNoneExist
         else if number h > 1 \<and> numberHash ch (number h - 1) \<noteq> parentHash h then Inl WrongParentHash
         else Inr ())"

definition checkBlockValid :: "pbft_env \<Rightarrow> Block \<Rightarrow> PBFTEngine \<Rightarrow> unit result" where
  "checkBlockValid env b e =
     rbind (base_checkBlockValid env (m_maxBlockTransactions e) (utc_clock e) (m_blockChain e) b) (\<lambda>_.
       if m_sealerList e \<noteq> sealerList (blockHeader b) then Inl BlockSealerListWrong else Inr ())"

text \<open>The check of a block that the synchronisation downloaded.\<close>

definition checkBlock :: "pbft_env \<Rightarrow> Block \<Rightarrow> PBFTEngine \<Rightarrow> (bool \<times> PBFTEngine) result" where
  "checkBlock env b e0 =
     (if number (blockHeader b) \<le> chain_number (m_blockChain e0) then Inr (False, e0)
      else rbind (resetConfig env e0) (\<lambda>e. Inr (
        if number (blockHeader b) = 0 then True
        else if m_sealerList e \<noteq> sealerList (blockHeader b) then False
        else if getSealerByIndex e (sealer (blockHeader b) mod 2 ^ 64) = zero_h512 then False
        else if length (sigList b) < minValidNodes e then False
        else if \<not> list_all (\<lambda>(i, s). checkSign_block env e (i mod 65536) (hash (blockHeader b)) s) (sigList b) then False
        else length (transactions b) \<le> m_maxBlockTransactions e, e)))"

section \<open>Executing a proposal\<close>

definition changeViewForFastViewChange :: "PBFTEngine \<Rightarrow> PBFTEngine" where
  "changeViewForFastViewChange e = (on_time changeView e)\<lparr>m_fastViewChange := True\<rparr>"

definition notifySealing :: "Block \<Rightarrow> PBFTEngine \<Rightarrow> PBFTEngine" where
  "notifySealing b e =
     (if m_generatePrepare e then e
      else if getLeader e \<noteq> None \<and> getLeader e \<noteq> Some (nodeIdx e) \<and> nodeIdx e = getNextLeader e
      then raise (NotifyNextLeader (transactions b)) (e\<lparr>m_notifyNextLeaderSeal := True\<rparr>)
      else e)"

text \<open>
  Execution changes the block object. A proposal of this node shares it with the raw request, and a
  rehandled one with the committed request, too; a proposal from the network is decoded into an object
  of its own.
\<close>

definition set_block :: "prepare \<Rightarrow> Block \<Rightarrow> PBFTReqCache \<Rightarrow> PBFTReqCache" where
  "set_block req b c =
     (case pBlock req of
        None \<Rightarrow> c
      | Some old \<Rightarrow>
          let update = (\<lambda>p. if pBlock p = Some old then p\<lparr>pBlock := Some b\<rparr> else p)
          in c\<lparr>m_rawPrepareCache := update (m_rawPrepareCache c), m_committedPrepareCache := update (m_committedPrepareCache c)\<rparr>)"

definition execBlock :: "pbft_env \<Rightarrow> prepare \<Rightarrow> PBFTEngine \<Rightarrow> (Block \<times> nat option) result \<times> PBFTEngine" where
  "execBlock env req e =
     (case (case pBlock req of Some b \<Rightarrow> Inr b | None \<Rightarrow> decodeBlock env (block req)) of
        Inl x \<Rightarrow> (Inl x, e)
      | Inr b \<Rightarrow>
          let e = e\<lparr>m_sealingNumber := length (transactions b)\<rparr>
          in if transactions b = [] \<and> omitEmptyBlock env then (Inr (b, None), e)
             else case checkBlockValid env b e of
                    Inl x \<Rightarrow> (Inl x, e)
                  | Inr _ \<Rightarrow>
                      let e = (if idx req \<noteq> nodeIdx e then notifySealing b e else e);
                          e = raise (NoteSealing (number (blockHeader b))) e
                      in case run_block env b (blockHeader (last (m_blockChain e))) of
                           (b', r) \<Rightarrow> (rbind r (\<lambda>ctx. Inr (b', ctx)), on_cache (set_block req b') e))"

definition needOmit :: "pbft_env \<Rightarrow> Block \<Rightarrow> bool" where
  "needOmit env b \<longleftrightarrow> transactions b = [] \<and> omitEmptyBlock env"

definition broadcastSignReq :: "pbft_env \<Rightarrow> prepare \<Rightarrow> PBFTEngine \<Rightarrow> PBFTEngine" where
  "broadcastSignReq env req e = (let m = new_SignReq env e req in on_cache (addSignReq m) (raise (SendSign m) e))"

definition broadcastCommitReq :: "pbft_env \<Rightarrow> prepare \<Rightarrow> PBFTEngine \<Rightarrow> PBFTEngine" where
  "broadcastCommitReq env req e = (let m = new_CommitReq env e req in on_cache (addCommitReq m) (raise (SendCommit m) e))"

text \<open>
  The block of a request in the cache is there when its height is above the chain's: a cleared request
  has height -1. The list of signatures is read only by the commit that has just set it.
\<close>

definition commit_prepared :: "pbft_env \<Rightarrow> PBFTEngine \<Rightarrow> PBFTEngine" where
  "commit_prepared env e =
     (case pBlock (m_prepareCache (m_reqCache e)) of
        None \<Rightarrow> e
      | Some b \<Rightarrow>
          let b = snd (generateAndSetSigList (minValidNodes e) (m_reqCache e) b);
              e = on_cache (\<lambda>c. c\<lparr>m_prepareCache := (m_prepareCache c)\<lparr>pBlock := Some b\<rparr>\<rparr>) e
          in case commitBlock env b (m_blockChain e) of
               (CommitOK, ch) \<Rightarrow>
                 on_cache (delCache (blockHeader b))
                   (raise (NoteSealing (height (m_prepareCache (m_reqCache e)))) (raise (DropTxs b) (e\<lparr>m_blockChain := ch\<rparr>)))
             | (_, ch) \<Rightarrow> raise (HandleBadBlock b) (raise (NoteSealing (chain_number (m_blockChain e))) e))"

definition checkAndSave :: "pbft_env \<Rightarrow> PBFTEngine \<Rightarrow> PBFTEngine" where
  "checkAndSave env e0 =
     (let q = minValidNodes e0; h = block_hash (m_prepareCache (m_reqCache e0));
          (sign_size, c1) = getSigCacheSize (checkSign env e0) h q (m_reqCache e0);
          (commit_size, c2) = getCommitCacheSize (checkSign env e0) h q c1;
          e = e0\<lparr>m_reqCache := c2\<rparr>
      in if sign_size \<ge> q \<and> commit_size \<ge> q \<and> view (m_prepareCache c2) = m_view e
            \<and> height (m_prepareCache c2) > number (m_highestBlock e)
         then commit_prepared env e else e)"

definition checkAndCommit :: "pbft_env \<Rightarrow> PBFTEngine \<Rightarrow> PBFTEngine" where
  "checkAndCommit env e0 =
     (let q = minValidNodes e0;
          (sign_size, c) = getSigCacheSize (checkSign env e0) (block_hash (m_prepareCache (m_reqCache e0))) q (m_reqCache e0);
          e = e0\<lparr>m_reqCache := c\<rparr>
      in if sign_size = q \<and> view (m_prepareCache c) = m_view e then
           let e = on_cache updateCommittedPrepare e;
               e = raise (Backup (m_committedPrepareCache (m_reqCache e))) e;
               e = broadcastCommitReq env (m_prepareCache (m_reqCache e)) e
           in checkAndSave env (on_time (\<lambda>t. t\<lparr>m_lastSignTime := steady_clock e\<rparr>) e)
         else e)"

definition execPrepareAndGenerateSignMsg :: "pbft_env \<Rightarrow> prepare \<Rightarrow> PBFTEngine \<Rightarrow> bool \<times> PBFTEngine" where
  "execPrepareAndGenerateSignMsg env req e =
     (case execBlock env req (on_time (\<lambda>t. t\<lparr>m_lastAddRawPrepareTime := steady_clock e\<rparr>) e) of
        (Inl _, e) \<Rightarrow> (True, e)
      | (Inr (b, ctx), e) \<Rightarrow>
          let e = on_time (\<lambda>t. t\<lparr>m_lastExecTime := steady_clock e\<rparr>) e
          in if ctx = None \<and> transactions b \<noteq> [] then (False, e)
             else if needOmit env b then (True, on_time (\<lambda>t. t\<lparr>m_changeCycle := 0\<rparr>) (changeViewForFastViewChange e))
             else let sign_prepare = new_PrepareReq_executed env e req b ctx
                  in (True, checkAndCommit env (broadcastSignReq env sign_prepare (on_cache (addPrepareReq sign_prepare) e))))"

section \<open>Handling messages\<close>

definition handlePrepareMsg :: "pbft_env \<Rightarrow> prepare \<Rightarrow> PBFTEngine \<Rightarrow> bool \<times> PBFTEngine" where
  "handlePrepareMsg env req e =
     (case isValidPrepare env req e of
        INVALID \<Rightarrow> (False, e)
      | FUTURE \<Rightarrow> (True, on_cache (addFuturePrepareCache req) (updateViewMap (idx req) (view req) e))
      | VALID \<Rightarrow> execPrepareAndGenerateSignMsg env req (on_cache (addRawPrepare req) (updateViewMap (idx req) (view req) e)))"

text \<open>A handler for a packet also gives the decoded request.\<close>

definition handlePrepareMsg_packet :: "pbft_env \<Rightarrow> PBFTMsgPacket \<Rightarrow> PBFTEngine \<Rightarrow> (bool \<times> PBFTMsg) \<times> PBFTEngine" where
  "handlePrepareMsg_packet env p e =
     (case decode_prepare (data p) new_PrepareReq of
        Inl _ \<Rightarrow> ((False, new_PBFTMsg), e)
      | Inr req \<Rightarrow>
          let req = (if prepareWithEmptyBlock p then req\<lparr>isEmpty := True\<rparr> else req)
          in case handlePrepareMsg env req e of (ok, e) \<Rightarrow> ((ok, PBFTMsg.truncate req), e))"

definition handleSignMsg :: "pbft_env \<Rightarrow> PBFTMsgPacket \<Rightarrow> PBFTEngine \<Rightarrow> (bool \<times> PBFTMsg) \<times> PBFTEngine" where
  "handleSignMsg env p e =
     (case decode_msg (data p) new_PBFTMsg of
        Inl _ \<Rightarrow> ((False, new_PBFTMsg), e)
      | Inr req \<Rightarrow>
          (case isValidSignReq env req e of
             (INVALID, e) \<Rightarrow> ((False, req), e)
           | (FUTURE, e) \<Rightarrow> ((True, as_future req), updateViewMap (idx req) (view req) e)
           | (VALID, e) \<Rightarrow> ((True, req), checkAndCommit env (on_cache (addSignReq req) (updateViewMap (idx req) (view req) e)))))"

definition handleCommitMsg :: "pbft_env \<Rightarrow> PBFTMsgPacket \<Rightarrow> PBFTEngine \<Rightarrow> (bool \<times> PBFTMsg) \<times> PBFTEngine" where
  "handleCommitMsg env p e =
     (case decode_msg (data p) new_PBFTMsg of
        Inl _ \<Rightarrow> ((False, new_PBFTMsg), e)
      | Inr req \<Rightarrow>
          (case isValidCommitReq env req e of
             (INVALID, e) \<Rightarrow> ((False, req), e)
           | (FUTURE, e) \<Rightarrow> ((True, as_future req), updateViewMap (idx req) (view req) e)
           | (VALID, e) \<Rightarrow> ((True, req), checkAndSave env (on_cache (addCommitReq req) (updateViewMap (idx req) (view req) e)))))"

section \<open>Changing the view\<close>

definition sendViewChangeMsg :: "pbft_env \<Rightarrow> string \<Rightarrow> PBFTEngine \<Rightarrow> PBFTEngine" where
  "sendViewChangeMsg env nid e = raise (SendViewChangeTo nid (new_ViewChangeReq env e)) e"

definition broadcastViewChangeReq :: "pbft_env \<Rightarrow> PBFTEngine \<Rightarrow> PBFTEngine" where
  "broadcastViewChangeReq env e =
     (let req = new_ViewChangeReq env e
      in raise (SendViewChange req) (on_cache (addViewChangeReq req (chain_number (m_blockChain e))) e))"

definition catchupView :: "pbft_env \<Rightarrow> PBFTMsg \<Rightarrow> PBFTEngine \<Rightarrow> PBFTEngine" where
  "catchupView env req e =
     (if view req + 1 < m_toView e then
        case getNodeIDByIndex e (idx req) of
          None \<Rightarrow> e
        | Some nid \<Rightarrow> on_cache (eraseLatestViewChangeCacheForNodeUpdated (idx req)) (sendViewChangeMsg env nid e)
      else e)"

definition isValidViewChangeReq :: "pbft_env \<Rightarrow> PBFTMsg \<Rightarrow> nat \<Rightarrow> PBFTEngine \<Rightarrow> bool \<times> PBFTEngine" where
  "isValidViewChangeReq env req source e =
     (if isExistViewChange req (m_reqCache e) then (False, e)
      else if idx req = nodeIdx e then (False, e)
      else if height req < number (m_highestBlock e) then (False, e)
      else let e = (if view req + 1 < m_toView e \<and> idx req = source then catchupView env req e else e)
           in if view req \<le> m_view e then (False, e)
              else if height req = number (m_highestBlock e) \<and> block_hash req \<noteq> hash (m_highestBlock e)
                   \<or> getBlockByNumber (m_blockChain e) (height req) = None then (False, e)
              else if \<not> checkSign env e req then (False, e)
              else (True, e))"

definition checkAndChangeView :: "int \<Rightarrow> PBFTEngine \<Rightarrow> bool \<times> PBFTEngine" where
  "checkAndChangeView v e =
     (if getViewChangeSize v (m_reqCache e) mod 65536 \<ge> minValidNodes e then
        let e = (if m_lastSignTime (m_timeManager e) = 0 then e\<lparr>m_fastViewChange := False\<rparr> else e);
            e = on_time (\<lambda>t. t\<lparr>m_lastConsensusTime := steady_clock e\<rparr>) (e\<lparr>m_leaderFailed := False\<rparr>);
            e = e\<lparr>m_view := v, m_toView := v, m_notifyNextLeaderSeal := False\<rparr>;
            e = on_cache (triggerViewChange v (chain_number (m_blockChain e))) e
        in (True, raise (NoteSealing (chain_number (m_blockChain e))) e)
      else (False, e))"

definition handleViewChangeMsg :: "pbft_env \<Rightarrow> PBFTMsgPacket \<Rightarrow> PBFTEngine \<Rightarrow> (bool \<times> PBFTMsg) \<times> PBFTEngine" where
  "handleViewChangeMsg env p e =
     (case decode_msg (data p) new_PBFTMsg of
        Inl _ \<Rightarrow> ((False, new_PBFTMsg), e)
      | Inr req \<Rightarrow>
          (case isValidViewChangeReq env req (node_idx p) e of
             (False, e) \<Rightarrow> ((False, req), e)
           | (True, e) \<Rightarrow>
               (case checkAndChangeView (view req) (on_cache (addViewChangeReq req (chain_number (m_blockChain e))) e) of
                  (success, e) \<Rightarrow>
                    ((True, req),
                     if \<not> success \<and> view req > m_toView e then
                       case canTriggerViewChange (m_f e) (m_toView e) (m_highestBlock e) (m_consensusBlockNumber e) (m_reqCache e) of
                         (True, min_view) \<Rightarrow> changeViewForFastViewChange (e\<lparr>m_toView := min_view - 1\<rparr>)
                       | (False, _) \<Rightarrow> e
                     else e))))"

definition checkTimeout :: "pbft_env \<Rightarrow> PBFTEngine \<Rightarrow> PBFTEngine" where
  "checkTimeout env e =
     (if isTimeout (steady_clock e) (m_timeManager e) then
        let e = (if m_lastConsensusTime (m_timeManager e) \<noteq> 0 then
                   let e = e\<lparr>m_fastViewChange := False\<rparr>
                   in if height (m_prepareCache (m_reqCache e)) > number (m_highestBlock e)
                      then raise (OnTimeout (m_sealingNumber e)) e else e
                 else e);
            e = on_time updateChangeCycle e;
            e = e\<lparr>m_toView := m_toView e + 1, m_leaderFailed := True\<rparr>;
            e = raise (NoteSealing (chain_number (m_blockChain e))) e;
            e = on_time (\<lambda>t. t\<lparr>m_lastConsensusTime := steady_clock e\<rparr>) e;
            e = on_cache (removeInvalidViewChange (m_toView e) (m_highestBlock e)) e;
            e = broadcastViewChangeReq env e
        in raise OnViewChange (snd (checkAndChangeView (m_toView e) e))
      else e)"

section \<open>The loop\<close>

definition needForwardMsg :: "pbft_env \<Rightarrow> bool \<Rightarrow> PBFTMsgPacket \<Rightarrow> PBFTMsg \<Rightarrow> PBFTEngine \<Rightarrow> bool" where
  "needForwardMsg env valid p m e =
     (if forwardNodes p = Some [] then False
      else if \<not> valid \<or> uniqueKey m = [] then False
      else if \<not> m_enableTTLOptimize env \<and> ttl p = 1 then False
      else height m > number (m_highestBlock e) \<or> number (m_highestBlock e) - height m < 10)"

definition handleMsg :: "pbft_env \<Rightarrow> PBFTMsgPacket \<Rightarrow> PBFTEngine \<Rightarrow> PBFTEngine" where
  "handleMsg env p e =
     (let forward = (\<lambda>((ok, m), e). if needForwardMsg env ok p m e then raise (Forward p) e else e)
      in if packet_id p = PrepareReqPacket then forward (handlePrepareMsg_packet env p e)
         else if packet_id p = SignReqPacket then forward (handleSignMsg env p e)
         else if packet_id p = CommitReqPacket then forward (handleCommitMsg env p e)
         else if packet_id p = ViewChangeReqPacket then forward (handleViewChangeMsg env p e)
         else e)"

definition handleFutureBlock :: "pbft_env \<Rightarrow> PBFTEngine \<Rightarrow> PBFTEngine" where
  "handleFutureBlock env e =
     (case futurePrepareCache (to_uint64 (m_consensusBlockNumber e)) (m_reqCache e) of
        None \<Rightarrow> e
      | Some p \<Rightarrow>
          if view p = m_view e
          then on_cache (eraseHandledFutureReq (to_uint64 (height p))) (snd (handlePrepareMsg env p e))
          else e)"

text \<open>A block header whose time stamp is the largest 64-bit number counts as unset. Times are in milliseconds.\<close>

definition engine_collectGarbage :: "PBFTEngine \<Rightarrow> PBFTEngine" where
  "engine_collectGarbage e =
     (if block_time (m_highestBlock e) = 2 ^ 64 - 1 then e
      else if int (steady_clock e) - int (m_lastGarbageCollection (m_timeManager e)) > int CollectInterval * 1000
      then on_time (\<lambda>t. t\<lparr>m_lastGarbageCollection := steady_clock e\<rparr>) (on_cache (collectGarbage (m_highestBlock e)) e)
      else e)"

section \<open>New blocks and proposals\<close>

definition reportBlockWithoutLock :: "pbft_env \<Rightarrow> Block \<Rightarrow> PBFTEngine \<Rightarrow> PBFTEngine result" where
  "reportBlockWithoutLock env b e =
     (if chain_number (m_blockChain e) = 0 \<or> number (m_highestBlock e) < number (blockHeader b) then
        let e = e\<lparr>m_highestBlock := blockHeader b\<rparr>;
            e = (if number (m_highestBlock e) \<ge> m_consensusBlockNumber e then
                   on_cache (delInvalidViewChange (m_highestBlock e))
                     (on_time (\<lambda>t. t\<lparr>m_lastConsensusTime := steady_clock e, m_changeCycle := 0\<rparr>)
                       (e\<lparr>m_view := 0, m_toView := 0, m_leaderFailed := False,
                          m_consensusBlockNumber := number (m_highestBlock e) + 1\<rparr>))
                 else e)
        in rbind (resetConfig env e) (\<lambda>e.
             Inr (on_cache (delCache (m_highestBlock e))
               (raise (OnCommitBlock (number (blockHeader b)) (length (transactions b)) (m_changeCycle (m_timeManager e))) e)))
      else Inr e)"

text \<open>
  The start: the chain's highest block is reported, then the committed request that was stored before
  the node stopped is read back, when there is one.
\<close>

definition initPBFTEnv :: "pbft_env \<Rightarrow> nat \<Rightarrow> prepare option \<Rightarrow> PBFTEngine \<Rightarrow> PBFTEngine result" where
  "initPBFTEnv env view_timeout stored e =
     (let e = on_time (initTimerManager (steady_clock e) view_timeout)
                (e\<lparr>m_consensusBlockNumber := 0, m_view := 0, m_toView := 0, m_leaderFailed := False,
                   m_reqCache := new_PBFTReqCache\<rparr>)
      in rbind (reportBlockWithoutLock env (last (m_blockChain e)) e) (\<lambda>e.
           Inr (case stored of None \<Rightarrow> e | Some p \<Rightarrow> on_cache (\<lambda>c. c\<lparr>m_committedPrepareCache := p\<rparr>) e)))"

text \<open>\<open>generatePrepare\<close> first raises a flag, then waits for the mutex.\<close>

definition generatePrepare_enter :: "PBFTEngine \<Rightarrow> PBFTEngine" where
  "generatePrepare_enter e = e\<lparr>m_generatePrepare := True\<rparr>"

definition constructPrepareReq :: "pbft_env \<Rightarrow> Block \<Rightarrow> PBFTEngine \<Rightarrow> prepare \<times> PBFTEngine" where
  "constructPrepareReq env b e =
     (let req = (new_PrepareReq_block env e b)\<lparr>isEmpty := (transactions b = [])\<rparr>
      in (req, raise (SendPrepare req) e))"

definition generatePrepare :: "pbft_env \<Rightarrow> Block \<Rightarrow> PBFTEngine \<Rightarrow> PBFTEngine" where
  "generatePrepare env b e =
     (if getLeader e \<noteq> Some (nodeIdx e) then e\<lparr>m_generatePrepare := False\<rparr>
      else case constructPrepareReq env b (e\<lparr>m_notifyNextLeaderSeal := False\<rparr>) of
        (req, e) \<Rightarrow>
          if transactions b = [] \<and> omitEmptyBlock env
          then on_time (\<lambda>t. t\<lparr>m_changeCycle := 0\<rparr>) (changeViewForFastViewChange (e\<lparr>m_leaderFailed := True\<rparr>))
          else (snd (handlePrepareMsg env req e))\<lparr>m_generatePrepare := False\<rparr>)"

definition rehandleCommitedPrepareCache :: "pbft_env \<Rightarrow> prepare \<Rightarrow> PBFTEngine \<Rightarrow> PBFTEngine" where
  "rehandleCommitedPrepareCache env req e =
     (let p = new_PrepareReq_again env e req;
          e = snd (handlePrepareMsg env p (raise (SendPrepare p) e))
      in raise (NoteSealing (chain_number (m_blockChain e))) e)"

definition engine_shouldSeal :: "pbft_env \<Rightarrow> PBFTEngine \<Rightarrow> bool \<times> PBFTEngine" where
  "engine_shouldSeal env e =
     (if m_cfgErr e \<or> \<not> m_sealer e then (False, e)
      else case getLeader e of
        None \<Rightarrow> (False, e)
      | Some l \<Rightarrow>
          if l \<noteq> nodeIdx e then (m_notifyNextLeaderSeal e \<and> getNextLeader e = nodeIdx e, e)
          else if height (m_committedPrepareCache (m_reqCache e)) = m_consensusBlockNumber e then
            (False, if rawPrepareCacheHeight (m_reqCache e) \<noteq> m_consensusBlockNumber e
                    then rehandleCommitedPrepareCache env (m_committedPrepareCache (m_reqCache e)) e else e)
          else (True, e))"

definition canHandleBlockForNextLeader :: "PBFTEngine \<Rightarrow> bool" where
  "canHandleBlockForNextLeader e =
     (case getLeader e of None \<Rightarrow> False
      | Some l \<Rightarrow> if l = nodeIdx e then True else \<not> (m_notifyNextLeaderSeal e \<and> getNextLeader e = nodeIdx e))"

end
