(* ===== verification/PbftSteps.thy ===== *)
theory PbftSteps
  imports PbftEngine
begin

text \<open>
  The PBFT engine as a state machine: one step for each operation that takes the mutex, the states a
  started node reaches, and what every operation leaves alone or keeps of the request cache.
\<close>

section \<open>The engine as a state machine\<close>

text \<open>
  A step of the worker thread (\<open>Receive\<close> to \<open>Garbage\<close>, only while the node is a sealer), of the sealer's
  thread, of the block synchronisation or of the network, and the changes of the world around the engine:
  time, the state of the synchronisation and blocks that it downloaded. \<open>Inl\<close> ends the process.
\<close>

datatype action =
    Receive PBFTMsgPacket
  | CheckTimeout
  | HandleFuture
  | Garbage
  | Report int
  | EnterGenerate
  | Generate Block
  | ShouldSeal
  | CheckBlock Block
  | Disconnected string
  | Tick nat nat
  | SyncStatus sync_status
  | Synced Block

definition disconnected :: "string \<Rightarrow> PBFTEngine \<Rightarrow> PBFTEngine" where
  "disconnected nid e =
     (if getIndexBySealer nid e < 0 then e
      else on_cache (eraseLatestViewChangeCacheForNodeUpdated (nat (getIndexBySealer nid e))) e)"

fun engine_step :: "pbft_env \<Rightarrow> action \<Rightarrow> PBFTEngine \<Rightarrow> PBFTEngine result" where
  "engine_step env (Receive p) e = Inr (if m_idx e = MAXIDX then e else handleMsg env p e)"
| "engine_step env CheckTimeout e = Inr (if m_idx e = MAXIDX then e else checkTimeout env e)"
| "engine_step env HandleFuture e = Inr (if m_idx e = MAXIDX then e else handleFutureBlock env e)"
| "engine_step env Garbage e = Inr (if m_idx e = MAXIDX then e else engine_collectGarbage e)"
| "engine_step env (Report n) e =
     (case getBlockByNumber (m_blockChain e) n of None \<Rightarrow> Inr e | Some b \<Rightarrow> reportBlockWithoutLock env b e)"
| "engine_step env EnterGenerate e = Inr (generatePrepare_enter e)"
| "engine_step env (Generate b) e = Inr (generatePrepare env b e)"
| "engine_step env ShouldSeal e = Inr (snd (engine_shouldSeal env e))"
| "engine_step env (CheckBlock b) e = rbind (checkBlock env b e) (\<lambda>(_, e). Inr e)"
| "engine_step env (Disconnected nid) e = Inr (disconnected nid e)"
| "engine_step env (Tick s u) e = Inr (e\<lparr>steady_clock := s, utc_clock := u\<rparr>)"
| "engine_step env (SyncStatus s) e = Inr (e\<lparr>m_blockSync := s\<rparr>)"
| "engine_step env (Synced b) e = Inr (e\<lparr>m_blockChain := snd (commitBlock env b (m_blockChain e))\<rparr>)"

text \<open>The states that are reached from \<open>e0\<close> by steps that \<open>allowed\<close> admits.\<close>

inductive engine_reaches :: "pbft_env \<Rightarrow> (action \<Rightarrow> PBFTEngine \<Rightarrow> bool) \<Rightarrow> PBFTEngine \<Rightarrow> PBFTEngine \<Rightarrow> bool"
  for env allowed e0 where
  engine_start: "engine_reaches env allowed e0 e0"
| engine_next: "engine_reaches env allowed e0 e \<Longrightarrow> allowed a e \<Longrightarrow> engine_step env a e = Inr e'
    \<Longrightarrow> engine_reaches env allowed e0 e'"

section \<open>What the operations leave alone\<close>

named_theorems frame

text \<open>Everything but the caches, the clocks of the timer, the views, flags, the chain and the events.\<close>

definition fixed :: "PBFTEngine \<Rightarrow> _" where
  "fixed e = (m_highestBlock e, m_consensusBlockNumber e, m_nodeNum e, m_f e, m_idx e, m_cfgErr e,
     m_sealer e, m_sealerList e, m_maxBlockTransactions e, m_blockSync e, steady_clock e, utc_clock e)"

lemma fixedD:
  assumes "fixed e' = fixed e"
  shows "m_highestBlock e' = m_highestBlock e" "m_consensusBlockNumber e' = m_consensusBlockNumber e"
    "m_nodeNum e' = m_nodeNum e" "m_f e' = m_f e" "m_idx e' = m_idx e" "m_sealerList e' = m_sealerList e"
    "m_cfgErr e' = m_cfgErr e" "minValidNodes e' = minValidNodes e" "nodeIdx e' = nodeIdx e"
    "checkSign env e' = checkSign env e" "getNodeIDByIndex e' = getNodeIDByIndex e"
  using assms
  by (auto simp: fixed_def minValidNodes_def nodeIdx_def checkSign_def getNodeIDByIndex_def getSealerByIndex_def fun_eq_iff)

lemma fixed_updates [frame]:
  "fixed (raise ev e) = fixed e" "fixed (on_cache f e) = fixed e" "fixed (on_time g e) = fixed e"
  "fixed (e\<lparr>m_reqCache := c\<rparr>) = fixed e" "fixed (e\<lparr>m_blockChain := ch\<rparr>) = fixed e"
  "fixed (e\<lparr>m_sealingNumber := n\<rparr>) = fixed e" "fixed (e\<lparr>m_fastViewChange := b\<rparr>) = fixed e"
  "fixed (e\<lparr>m_notifyNextLeaderSeal := b\<rparr>) = fixed e" "fixed (e\<lparr>m_viewMap := vm\<rparr>) = fixed e"
  "fixed (e\<lparr>m_view := v\<rparr>) = fixed e" "fixed (e\<lparr>m_toView := v\<rparr>) = fixed e"
  "fixed (e\<lparr>m_leaderFailed := b\<rparr>) = fixed e" "fixed (e\<lparr>m_generatePrepare := b\<rparr>) = fixed e"
  by (simp_all add: fixed_def raise_def on_cache_def on_time_def)

lemma view_updates [frame]:
  "m_view (raise ev e) = m_view e" "m_view (on_cache f e) = m_view e" "m_view (on_time g e) = m_view e"
  "m_toView (raise ev e) = m_toView e" "m_toView (on_cache f e) = m_toView e" "m_toView (on_time g e) = m_toView e"
  "m_reqCache (raise ev e) = m_reqCache e" "m_reqCache (on_cache f e) = f (m_reqCache e)" "m_reqCache (on_time g e) = m_reqCache e"
  "events (raise ev e) = events e @ [ev]" "events (on_cache f e) = events e" "events (on_time g e) = events e"
  "m_blockChain (raise ev e) = m_blockChain e" "m_blockChain (on_cache f e) = m_blockChain e" "m_blockChain (on_time g e) = m_blockChain e"
  by (simp_all add: raise_def on_cache_def on_time_def)

lemma fixed_notify [frame]: "fixed (notifySealing b e) = fixed e" "m_view (notifySealing b e) = m_view e"
    "m_toView (notifySealing b e) = m_toView e" "m_reqCache (notifySealing b e) = m_reqCache e"
    "m_blockChain (notifySealing b e) = m_blockChain e"
  by (simp_all add: notifySealing_def frame)

lemma fixed_fast [frame]: "fixed (changeViewForFastViewChange e) = fixed e"
    "m_view (changeViewForFastViewChange e) = m_view e" "m_toView (changeViewForFastViewChange e) = m_toView e"
    "m_reqCache (changeViewForFastViewChange e) = m_reqCache e" "events (changeViewForFastViewChange e) = events e"
  by (simp_all add: changeViewForFastViewChange_def frame)

lemma fixed_viewmap [frame]: "fixed (updateViewMap i v e) = fixed e" "m_view (updateViewMap i v e) = m_view e"
    "m_toView (updateViewMap i v e) = m_toView e" "m_reqCache (updateViewMap i v e) = m_reqCache e"
    "events (updateViewMap i v e) = events e"
  by (simp_all add: updateViewMap_def frame)

definition same_view :: "PBFTEngine \<Rightarrow> PBFTEngine \<Rightarrow> bool" where
  "same_view e e' \<longleftrightarrow> fixed e' = fixed e \<and> m_view e' = m_view e \<and> m_toView e' = m_toView e"

lemma same_view_refl [simp]: "same_view e e"
  by (simp add: same_view_def)

lemma same_view_trans: "same_view e e' \<Longrightarrow> same_view e' e'' \<Longrightarrow> same_view e e''"
  by (simp add: same_view_def)

lemma frame_sends:
  "same_view e (broadcastSignReq env req e)" "same_view e (broadcastCommitReq env req e)"
  by (simp_all add: same_view_def broadcastSignReq_def broadcastCommitReq_def Let_def frame)

lemma frame_commit_prepared: "same_view e (commit_prepared env e)"
  by (auto simp: same_view_def commit_prepared_def Let_def frame split: option.split prod.split CommitResult.split)

lemma frame_checkAndSave: "same_view e (checkAndSave env e)"
  using frame_commit_prepared
  by (auto simp: checkAndSave_def Let_def same_view_def frame split: prod.split)

lemma frame_checkAndCommit: "same_view e (checkAndCommit env e)"
  using frame_checkAndSave frame_sends(2)
  by (auto simp: checkAndCommit_def Let_def same_view_def frame split: prod.split)

lemma frame_execBlock: "same_view e (snd (execBlock env req e))"
  by (auto simp: execBlock_def Let_def same_view_def frame split: sum.split prod.split option.split)

lemma frame_execPrepare: "same_view e (snd (execPrepareAndGenerateSignMsg env req e))"
proof -
  obtain r e' where x: "execBlock env req (on_time (\<lambda>t. t\<lparr>m_lastAddRawPrepareTime := steady_clock e\<rparr>) e) = (r, e')"
    by fastforce
  have "same_view e e'" using frame_execBlock [of _ env req] x
    by (metis (no_types, lifting) snd_conv same_view_def fixed_updates(3) view_updates(3) view_updates(6))
  then show ?thesis
    using frame_checkAndCommit frame_sends(1) x
    by (auto simp: execPrepareAndGenerateSignMsg_def Let_def same_view_def frame split: sum.split)
qed

lemma frame_handlePrepare: "same_view e (snd (handlePrepareMsg env req e))"
  using frame_execPrepare
  by (auto simp: handlePrepareMsg_def same_view_def frame split: CheckResult.split)

lemma frame_votes:
  "same_view e (snd (isValidSignReq env req e))" "same_view e (snd (isValidCommitReq env req e))"
  by (auto simp: isValidSignReq_def isValidCommitReq_def same_view_def frame split: CheckResult.split)

section \<open>A started node\<close>

definition new_TimeManager :: TimeManager where
  "new_TimeManager = \<lparr>m_emptyBlockGenTime = 1000, m_viewTimeout = 3000, m_consensusTimeout = 3000, m_changeCycle = 0,
     m_lastSignTime = 0, m_lastConsensusTime = 0, m_lastAddRawPrepareTime = 0, m_lastExecTime = 0,
     m_minBlockGenTime = 500, m_lastGarbageCollection = 0\<rparr>"

text \<open>
  The engine as it is constructed and configured by the ledger, over a chain, the synchronisation's state
  and the clocks.
\<close>

lemma emptyBlockGenTime_ignored [simp]: "setEmptyBlockGenTime n t = t\<lparr>m_emptyBlockGenTime := 300\<rparr>"
  by (simp add: setEmptyBlockGenTime_def)

definition new_PBFTEngine :: "Block list \<Rightarrow> sync_status \<Rightarrow> nat \<Rightarrow> nat \<Rightarrow> PBFTEngine" where
  "new_PBFTEngine ch s steady utc =
     \<lparr>m_view = 0, m_toView = 0, m_leaderFailed = False, m_notifyNextLeaderSeal = False, m_fastViewChange = False,
      m_generatePrepare = False, m_sealingNumber = 0, m_viewMap = Map.empty, m_highestBlock = new_BlockHeader,
      m_consensusBlockNumber = 0, m_nodeNum = 0, m_f = 0, m_idx = 0, m_cfgErr = False, m_sealer = False,
      m_sealerList = [], m_maxBlockTransactions = 1000, m_timeManager = setEmptyBlockGenTime 1000 new_TimeManager,
      m_reqCache = new_PBFTReqCache, m_blockChain = ch, m_blockSync = s, steady_clock = steady, utc_clock = utc,
      events = []\<rparr>"

text \<open>\<open>start\<close>: the view timeout is three times the time for an empty block.\<close>

definition start_engine :: "pbft_env \<Rightarrow> prepare option \<Rightarrow> Block list \<Rightarrow> sync_status \<Rightarrow> nat \<Rightarrow> nat \<Rightarrow> PBFTEngine result" where
  "start_engine env stored ch s steady utc =
     (let e = new_PBFTEngine ch s steady utc
      in initPBFTEnv env (3 * m_emptyBlockGenTime (m_timeManager e)) stored e)"

section \<open>Sealers that do not change\<close>

text \<open>
  The sealers are \<open>S\<close>, this node is one of them, and its signatures are good. Fewer than 65535 fit the
  index of 16 bits.
\<close>

definition sealers :: "pbft_env \<Rightarrow> string list \<Rightarrow> bool" where
  "sealers env S \<longleftrightarrow> chain_sealers env = (\<lambda>_. S) \<and> pub env \<in> set S \<and> zero_h512 \<notin> set S \<and> length S < 65535
     \<and> (\<forall>h. Verify env (pub env) (Sign env h) h)"

definition chain_ok :: "Block list \<Rightarrow> bool" where
  "chain_ok ch \<longleftrightarrow> ch \<noteq> [] \<and> list_all (\<lambda>i. number (blockHeader (ch ! i)) = int i) [0..<length ch]"

definition config_ok :: "pbft_env \<Rightarrow> string list \<Rightarrow> PBFTEngine \<Rightarrow> bool" where
  "config_ok env S e \<longleftrightarrow> m_sealerList e = sort S \<and> m_nodeNum e = length S \<and> m_f e = max_faulty (length S)
     \<and> m_idx e < length S \<and> sort S ! m_idx e = pub env \<and> \<not> m_cfgErr e"

definition engine_ok :: "pbft_env \<Rightarrow> string list \<Rightarrow> PBFTEngine \<Rightarrow> bool" where
  "engine_ok env S e \<longleftrightarrow> config_ok env S e \<and> chain_ok (m_blockChain e) \<and> requests_ok (checkSign env e) (m_reqCache e)
     \<and> 0 \<le> number (m_highestBlock e)"

lemma config_same:
  assumes "fixed e' = fixed e"
  shows "config_ok env S e' = config_ok env S e"
  unfolding config_ok_def fixedD [OF assms] ..

lemma index_of_found:
  assumes "x \<in> set xs"
  shows "\<exists>i < length xs. xs ! i = x \<and> index_of x k xs = int (k + i)"
  using assms
proof (induction xs arbitrary: k)
  case (Cons y ys)
  show ?case
  proof (cases "y = x")
    case False
    then obtain i where "i < length ys" "ys ! i = x" "index_of x (Suc k) ys = int (Suc k + i)"
      using Cons.IH [of "Suc k"] Cons.prems by auto
    then show ?thesis using False by (intro exI [of _ "Suc i"]) simp
  qed (intro exI [of _ 0], simp)
qed simp

lemma resetConfig_ok:
  assumes "sealers env S" and "resetConfig env e = Inr e'"
  shows "config_ok env S e'" "m_blockChain e' = m_blockChain e" "m_reqCache e' = m_reqCache e" "m_view e' = m_view e"
    "m_toView e' = m_toView e" "m_highestBlock e' = m_highestBlock e" "events e' = events e"
    "m_consensusBlockNumber e' = m_consensusBlockNumber e"
proof -
  obtain i where i: "i < length S" "sort S ! i = pub env" "index_of (pub env) 0 (sort S) = int i"
    using assms(1) index_of_found [of "pub env" "sort S" 0] by (auto simp: sealers_def)
  have "length S < 65535" "chain_sealers env (m_blockChain e) = S" using assms(1) by (simp_all add: sealers_def)
  then have "m_sealerList e' = sort S \<and> m_nodeNum e' = length S \<and> m_f e' = max_faulty (length S) \<and> m_idx e' = i
      \<and> \<not> m_cfgErr e' \<and> m_blockChain e' = m_blockChain e \<and> m_reqCache e' = m_reqCache e \<and> m_view e' = m_view e
      \<and> m_toView e' = m_toView e \<and> m_highestBlock e' = m_highestBlock e \<and> events e' = events e
      \<and> m_consensusBlockNumber e' = m_consensusBlockNumber e"
    using assms(2) i
    by (auto simp: resetConfig_def updateConsensusNodeList_def resetConsensusTimeout_def Let_def MAXIDX_def on_time_def
        split: if_splits option.splits)
  then show "config_ok env S e'" "m_blockChain e' = m_blockChain e" "m_reqCache e' = m_reqCache e" "m_view e' = m_view e"
    "m_toView e' = m_toView e" "m_highestBlock e' = m_highestBlock e" "events e' = events e"
    "m_consensusBlockNumber e' = m_consensusBlockNumber e"
    using i by (simp_all add: config_ok_def)
qed

lemma checkSign_config: "config_ok env S e \<Longrightarrow> config_ok env S e' \<Longrightarrow> checkSign env e' = checkSign env e"
  by (simp add: fun_eq_iff checkSign_def getNodeIDByIndex_def getSealerByIndex_def config_ok_def)

lemma fields_hash_marks [simp]:
  "fields_hash env (m\<lparr>sig := a\<rparr>) = fields_hash env m" "fields_hash env (m\<lparr>sig2 := a\<rparr>) = fields_hash env m"
  "fields_hash env (m\<lparr>signChecked := b\<rparr>) = fields_hash env m" "fields_hash env (m\<lparr>isFuture := b\<rparr>) = fields_hash env m"
  by (simp_all add: fields_hash_def fieldsWithoutBlock_def)

lemma marks_ignored: "ignores_marks (checkSign env e)"
  by (simp add: ignores_marks_def checkSign_def split: option.split)

lemma own_signed:
  assumes "sealers env S" and "config_ok env S e"
  shows "checkSign env e (new_request env e h v bh)"
proof -
  have "getSealerByIndex e (m_idx e) = pub env" using assms(2) by (simp add: getSealerByIndex_def config_ok_def)
  moreover have "pub env \<noteq> zero_h512" using assms(1) by (auto simp: sealers_def)
  ultimately have "getNodeIDByIndex e (m_idx e) = Some (pub env)" by (simp add: getNodeIDByIndex_def)
  then show ?thesis using assms(1) by (simp add: checkSign_def new_request_def sign_msg_def nodeIdx_def sealers_def)
qed

section \<open>The caches stay well-formed\<close>

lemma requests_ok_parts [simp]:
  "requests_ok valid (c\<lparr>m_prepareCache := p\<rparr>) = requests_ok valid c"
  "requests_ok valid (c\<lparr>m_committedPrepareCache := p\<rparr>) = requests_ok valid c"
  "requests_ok valid (set_block req b c) = requests_ok valid c"
  by (simp_all add: requests_ok_def set_block_def Let_def split: option.split)

lemma chain_ok_commit: "chain_ok ch \<Longrightarrow> chain_ok (snd (commitBlock env b ch))"
  by (auto simp: chain_ok_def commitBlock_def chain_number_def list_all_iff nth_append less_Suc_eq)

text \<open>What an operation that changes neither the configuration nor the highest block must keep.\<close>

definition keeps :: "PBFTEngine \<Rightarrow> PBFTEngine \<Rightarrow> (PBFTMsg \<Rightarrow> bool) \<Rightarrow> bool" where
  "keeps e e' valid \<longleftrightarrow> fixed e' = fixed e \<and> (chain_ok (m_blockChain e) \<longrightarrow> chain_ok (m_blockChain e'))
     \<and> (requests_ok valid (m_reqCache e) \<longrightarrow> requests_ok valid (m_reqCache e'))"

lemma keeps_refl [simp]: "keeps e e valid"
  by (simp add: keeps_def)

lemma keeps_trans: "keeps e e' valid \<Longrightarrow> keeps e' e'' valid \<Longrightarrow> keeps e e'' valid"
  by (simp add: keeps_def)

lemma keeps_ok:
  assumes "keeps e e' (checkSign env e)" and "engine_ok env S e"
  shows "engine_ok env S e'"
proof -
  have f: "fixed e' = fixed e" using assms(1) by (simp add: keeps_def)
  show ?thesis using assms unfolding engine_ok_def keeps_def config_same [OF f] fixedD [OF f] by blast
qed

lemma keeps_updates:
  "keeps e (raise ev e) valid" "keeps e (on_time g e) valid"
  "(\<And>c. requests_ok valid c \<Longrightarrow> requests_ok valid (f c)) \<Longrightarrow> keeps e (on_cache f e) valid"
  "keeps e (updateViewMap i v e) valid" "keeps e (changeViewForFastViewChange e) valid" "keeps e (notifySealing b e) valid"
  by (simp_all add: keeps_def frame changeViewForFastViewChange_def updateViewMap_def)

lemma fixed_same:
  assumes "fixed e' = fixed e" and "config_ok env S e"
  shows "config_ok env S e'" "(checkSign env e' :: PBFTMsg \<Rightarrow> bool) = checkSign env e"
  using assms(2) unfolding config_same [OF assms(1)] fixedD(10) [OF assms(1)] by auto

lemma keeps_broadcasts:
  assumes "sealers env S" and "config_ok env S e"
  shows "keeps e (broadcastSignReq env req e) (checkSign env e)" "keeps e (broadcastCommitReq env req e) (checkSign env e)"
    "keeps e (broadcastViewChangeReq env e) (checkSign env e)"
  using own_signed [OF assms]
  by (simp_all add: keeps_def broadcastSignReq_def broadcastCommitReq_def broadcastViewChangeReq_def new_SignReq_def
      new_CommitReq_def new_ViewChangeReq_def Let_def frame req_ok)

lemma keeps_commit: "keeps e (commit_prepared env e) valid"
proof (cases "pBlock (m_prepareCache (m_reqCache e))")
  case (Some b)
  let ?b = "snd (generateAndSetSigList (minValidNodes e) (m_reqCache e) b)"
  have "chain_ok (m_blockChain e) \<Longrightarrow> chain_ok (snd (commitBlock env ?b (m_blockChain e)))" by (rule chain_ok_commit)
  then show ?thesis using Some
    by (auto simp: keeps_def commit_prepared_def Let_def frame req_ok split: prod.split CommitResult.split)
qed (simp add: commit_prepared_def)

lemma keeps_sizes:
  assumes "ignores_marks valid"
  shows "keeps e (e\<lparr>m_reqCache := snd (getSigCacheSize valid h q (m_reqCache e))\<rparr>) valid"
    "keeps e (e\<lparr>m_reqCache := snd (getCommitCacheSize valid h q (snd (getSigCacheSize valid h q (m_reqCache e))))\<rparr>) valid"
  using getSize_ok [OF _ assms] by (simp_all add: keeps_def frame)

lemma keeps_save: "keeps e (checkAndSave env e) (checkSign env e)"
proof -
  let ?h = "block_hash (m_prepareCache (m_reqCache e))" and ?q = "minValidNodes e" and ?v = "checkSign env e"
  let ?c1 = "getSigCacheSize ?v ?h ?q (m_reqCache e)"
  let ?c2 = "getCommitCacheSize ?v ?h ?q (snd ?c1)"
  have "keeps e (e\<lparr>m_reqCache := snd ?c2\<rparr>) ?v" by (rule keeps_sizes(2) [OF marks_ignored])
  moreover from keeps_trans [OF this keeps_commit]
  have "keeps e (commit_prepared env (e\<lparr>m_reqCache := snd ?c2\<rparr>)) ?v" .
  ultimately show ?thesis by (simp add: checkAndSave_def Let_def case_prod_beta)
qed

lemma keeps_checkAndCommit:
  assumes "sealers env S" and "config_ok env S e"
  shows "keeps e (checkAndCommit env e) (checkSign env e)"
proof -
  let ?c = "getSigCacheSize (checkSign env e) (block_hash (m_prepareCache (m_reqCache e))) (minValidNodes e) (m_reqCache e)"
  let ?e = "e\<lparr>m_reqCache := snd ?c\<rparr>"
  have k: "keeps e ?e (checkSign env e)" by (rule keeps_sizes(1) [OF marks_ignored])
  define e2 where "e2 = raise (Backup (m_committedPrepareCache (updateCommittedPrepare (snd ?c)))) (on_cache updateCommittedPrepare ?e)"
  define e3 where "e3 = broadcastCommitReq env (m_prepareCache (m_reqCache e2)) e2"
  define e4 where "e4 = on_time (\<lambda>t. t\<lparr>m_lastSignTime := steady_clock e3\<rparr>) e3"
  have fix2: "fixed e2 = fixed e" by (simp add: e2_def frame)
  then have "keeps e e2 (checkSign env e)" using k by (simp add: keeps_def e2_def frame req_ok)
  moreover have "keeps e2 e3 (checkSign env e)"
    using keeps_broadcasts(2) [OF assms(1) fixed_same(1) [OF fix2 assms(2)]] unfolding fixed_same(2) [OF fix2 assms(2)] e3_def .
  moreover have fix4: "fixed e4 = fixed e" using frame_sends(2) [of e2] fix2 by (simp add: e4_def e3_def same_view_def frame)
  ultimately have "keeps e e4 (checkSign env e)" by (simp add: keeps_def e4_def frame)
  from keeps_trans [OF this, of "checkAndSave env e4"] have "keeps e (checkAndSave env e4) (checkSign env e)"
    using keeps_save [of e4 env] unfolding fixed_same(2) [OF fix4 assms(2)] by blast
  then show ?thesis using k
    by (simp add: checkAndCommit_def Let_def case_prod_beta e4_def e3_def e2_def frame)
qed

lemma keeps_exec: "keeps e (snd (execBlock env req e)) valid"
  by (auto simp: execBlock_def Let_def keeps_def frame split: sum.split prod.split option.split)

lemma keeps_execPrepare:
  assumes "sealers env S" and "config_ok env S e"
  shows "keeps e (snd (execPrepareAndGenerateSignMsg env req e)) (checkSign env e)"
proof -
  obtain r e1 where x: "execBlock env req (on_time (\<lambda>t. t\<lparr>m_lastAddRawPrepareTime := steady_clock e\<rparr>) e) = (r, e1)" by fastforce
  have k1: "keeps e e1 (checkSign env e)"
    using keeps_trans [OF keeps_updates(2) keeps_exec] x by (metis snd_conv)
  show ?thesis
  proof (cases r)
    case (Inl a)
    then show ?thesis using x k1 by (simp add: execPrepareAndGenerateSignMsg_def)
  next
    case (Inr p)
    obtain b ctx where p: "p = (b, ctx)" by fastforce
    define e2 where "e2 = on_time (\<lambda>t. t\<lparr>m_lastExecTime := steady_clock e1\<rparr>) e1"
    define sp where "sp = new_PrepareReq_executed env e2 req b ctx"
    define e3 where "e3 = on_cache (addPrepareReq sp) e2"
    define e4 where "e4 = broadcastSignReq env sp e3"
    have k2: "keeps e e2 (checkSign env e)" using k1 by (simp add: keeps_def e2_def frame)
    then have k3: "keeps e e3 (checkSign env e)" by (simp add: keeps_def e3_def frame req_ok)
    then have f3: "fixed e3 = fixed e" by (simp add: keeps_def)
    have k4: "keeps e e4 (checkSign env e)"
      using keeps_trans [OF k3] keeps_broadcasts(1) [OF assms(1) fixed_same(1) [OF f3 assms(2)]]
      unfolding fixed_same(2) [OF f3 assms(2)] e4_def by blast
    then have f4: "fixed e4 = fixed e" by (simp add: keeps_def)
    have "keeps e (checkAndCommit env e4) (checkSign env e)"
      using keeps_trans [OF k4] keeps_checkAndCommit [OF assms(1) fixed_same(1) [OF f4 assms(2)]]
      unfolding fixed_same(2) [OF f4 assms(2)] by blast
    moreover have "keeps e (on_time g (changeViewForFastViewChange e2)) (checkSign env e)" for g
      using k2 by (simp add: keeps_def frame changeViewForFastViewChange_def)
    ultimately show ?thesis
      using x Inr p k2 by (simp add: execPrepareAndGenerateSignMsg_def Let_def e2_def sp_def e3_def e4_def)
  qed
qed

lemma keeps_prepare:
  assumes "sealers env S" and "config_ok env S e"
  shows "keeps e (snd (handlePrepareMsg env req e)) (checkSign env e)"
proof -
  define e1 where "e1 = on_cache (addRawPrepare req) (updateViewMap (idx req) (view req) e)"
  have k1: "keeps e e1 (checkSign env e)" by (simp add: keeps_def e1_def frame req_ok updateViewMap_def)
  then have f1: "fixed e1 = fixed e" by (simp add: keeps_def)
  have "keeps e (snd (execPrepareAndGenerateSignMsg env req e1)) (checkSign env e)"
    using keeps_trans [OF k1] keeps_execPrepare [OF assms(1) fixed_same(1) [OF f1 assms(2)]]
    unfolding fixed_same(2) [OF f1 assms(2)] by blast
  moreover have "keeps e (on_cache (addFuturePrepareCache req) (updateViewMap (idx req) (view req) e)) (checkSign env e)"
    by (simp add: keeps_def frame req_ok updateViewMap_def)
  ultimately show ?thesis by (simp add: handlePrepareMsg_def e1_def split: CheckResult.split)
qed

lemma as_future_unchecked: "isFuture (as_future r) \<and> \<not> signChecked (as_future r)"
  by (simp add: as_future_def)

lemma keeps_valid_vote:
  "keeps e (snd (isValidSignReq env req e)) valid" "keeps e (snd (isValidCommitReq env req e)) valid"
  using requests_ok_votes [of valid _ "as_future req"] as_future_unchecked [of req]
  by (auto simp: isValidSignReq_def isValidCommitReq_def keeps_def frame split: CheckResult.split)

lemma valid_vote_signed:
  "fst (isValidSignReq env req e) = VALID \<Longrightarrow> checkSign env e req \<and> snd (isValidSignReq env req e) = e"
  "fst (isValidCommitReq env req e) = VALID \<Longrightarrow> checkSign env e req \<and> snd (isValidCommitReq env req e) = e"
  by (auto simp: isValidSignReq_def isValidCommitReq_def checkReq_def split: CheckResult.splits if_splits)

lemma keeps_sign:
  assumes "sealers env S" and "config_ok env S e"
  shows "keeps e (snd (handleSignMsg env p e)) (checkSign env e)"
proof (cases "decode_msg (data p) new_PBFTMsg")
  case (Inr req)
  obtain r e1 where x: "isValidSignReq env req e = (r, e1)" by fastforce
  have k1: "keeps e e1 (checkSign env e)" using keeps_valid_vote(1) [of e env req] x by (metis snd_conv)
  show ?thesis
  proof (cases r)
    case VALID
    define e2 where "e2 = on_cache (addSignReq req) (updateViewMap (idx req) (view req) e)"
    have v: "checkSign env e req" "e1 = e" using valid_vote_signed(1) [of env req e] x VALID by auto
    have k2: "keeps e e2 (checkSign env e)" using v by (simp add: keeps_def e2_def frame req_ok updateViewMap_def)
    then have f2: "fixed e2 = fixed e" by (simp add: keeps_def)
    have "keeps e (checkAndCommit env e2) (checkSign env e)"
      using keeps_trans [OF k2] keeps_checkAndCommit [OF assms(1) fixed_same(1) [OF f2 assms(2)]]
      unfolding fixed_same(2) [OF f2 assms(2)] by blast
    then show ?thesis using Inr x VALID v by (simp add: handleSignMsg_def e2_def)
  next
    case FUTURE
    have "keeps e (updateViewMap (idx req) (view req) e1) (checkSign env e)" using k1 by (simp add: keeps_def updateViewMap_def frame)
    then show ?thesis using Inr x FUTURE by (simp add: handleSignMsg_def)
  qed (use Inr x k1 in \<open>simp add: handleSignMsg_def\<close>)
qed (simp add: handleSignMsg_def)

lemma keeps_commitMsg:
  assumes "config_ok env S e"
  shows "keeps e (snd (handleCommitMsg env p e)) (checkSign env e)"
proof (cases "decode_msg (data p) new_PBFTMsg")
  case (Inr req)
  obtain r e1 where x: "isValidCommitReq env req e = (r, e1)" by fastforce
  have k1: "keeps e e1 (checkSign env e)" using keeps_valid_vote(2) [of e env req] x by (metis snd_conv)
  show ?thesis
  proof (cases r)
    case VALID
    define e2 where "e2 = on_cache (addCommitReq req) (updateViewMap (idx req) (view req) e)"
    have v: "checkSign env e req" "e1 = e" using valid_vote_signed(2) [of env req e] x VALID by auto
    have k2: "keeps e e2 (checkSign env e)" using v by (simp add: keeps_def e2_def frame req_ok updateViewMap_def)
    then have f2: "fixed e2 = fixed e" by (simp add: keeps_def)
    have "keeps e (checkAndSave env e2) (checkSign env e)"
      using keeps_trans [OF k2] keeps_save [of e2 env] unfolding fixed_same(2) [OF f2 assms] by blast
    then show ?thesis using Inr x VALID v by (simp add: handleCommitMsg_def e2_def)
  next
    case FUTURE
    have "keeps e (updateViewMap (idx req) (view req) e1) (checkSign env e)" using k1 by (simp add: keeps_def updateViewMap_def frame)
    then show ?thesis using Inr x FUTURE by (simp add: handleCommitMsg_def)
  qed (use Inr x k1 in \<open>simp add: handleCommitMsg_def\<close>)
qed (simp add: handleCommitMsg_def)

lemma requests_ok_latest [simp]:
  "requests_ok valid (eraseLatestViewChangeCacheForNodeUpdated i c) = requests_ok valid c"
  by (simp add: requests_ok_def eraseLatestViewChangeCacheForNodeUpdated_def)

lemma keeps_catchup: "keeps e (catchupView env req e) valid" "same_view e (catchupView env req e)"
  by (simp_all add: keeps_def same_view_def catchupView_def sendViewChangeMsg_def frame split: option.split)

lemma keeps_valid_change: "keeps e (snd (isValidViewChangeReq env req source e)) valid"
    "same_view e (snd (isValidViewChangeReq env req source e))"
  using keeps_catchup by (auto simp: isValidViewChangeReq_def Let_def)

lemma valid_change_signed:
  assumes "fst (isValidViewChangeReq env req source e)"
  shows "checkSign env (snd (isValidViewChangeReq env req source e)) req"
  using assms by (auto simp: isValidViewChangeReq_def Let_def split: if_splits)

lemma keeps_change_view: "keeps e (snd (checkAndChangeView v e)) valid"
  by (auto simp: checkAndChangeView_def Let_def keeps_def frame req_ok)

text \<open>The requests that are counted when a view is changed.\<close>

definition change_quorum :: "pbft_env \<Rightarrow> int \<Rightarrow> PBFTEngine \<Rightarrow> PBFTMsg set \<Rightarrow> bool" where
  "change_quorum env v e R \<longleftrightarrow> finite R \<and> inj_on idx R \<and> minValidNodes e \<le> card R \<and> (\<forall>r \<in> R. view r = v \<and> checkSign env e r)"

lemma counted_changes:
  assumes "requests_ok (checkSign env e) (m_reqCache e)" and "fst (checkAndChangeView v e)"
  shows "\<exists>R. change_quorum env v e R"
proof -
  let ?m = "entry v (m_recvViewChangeReq (m_reqCache e))"
  have m: "inner_ok (change_ok (checkSign env e) v) ?m" using requests_okD(3) [OF assms(1)] by blast
  have "minValidNodes e \<le> getViewChangeSize v (m_reqCache e) mod 65536"
    using assms(2) by (simp add: checkAndChangeView_def Let_def split: if_splits)
  then have q: "minValidNodes e \<le> length ?m"
    using mod_less_eq_dividend [of "length ?m" 65536] by (simp add: getViewChangeSize_def getSizeFromCache_entry)
  let ?R = "snd ` set ?m"
  have idx: "(k, r) \<in> set ?m \<Longrightarrow> idx r = k \<and> view r = v \<and> checkSign env e r" for k r
    using m by (auto simp: inner_ok_def list_all_iff change_ok_def)
  have d: "distinct (map fst ?m)" using m by (simp add: inner_ok_def)
  have "idx ` ?R = fst ` set ?m" using idx by (force simp: image_image)
  then have "card (idx ` ?R) = length ?m" using distinct_card [OF d] by simp
  moreover have "card (idx ` ?R) \<le> card ?R" "card ?R \<le> length ?m"
    using card_length [of "map snd ?m"] by (auto intro: card_image_le)
  ultimately have "card ?R = length ?m" "card (idx ` ?R) = card ?R" by simp_all
  then have "change_quorum env v e ?R"
    using q idx unfolding change_quorum_def by (auto intro: eq_card_imp_inj_on)
  then show ?thesis by blast
qed

lemma change_view_result:
  "snd (checkAndChangeView v e) = e \<or> fst (checkAndChangeView v e) \<and> m_view (snd (checkAndChangeView v e)) = v"
  by (simp add: checkAndChangeView_def Let_def frame)

lemma keeps_view_msg:
  assumes "config_ok env S e"
  shows "keeps e (snd (handleViewChangeMsg env p e)) (checkSign env e)"
    "requests_ok (checkSign env e) (m_reqCache e)
       \<Longrightarrow> m_view (snd (handleViewChangeMsg env p e)) = m_view e \<or> (\<exists>R. change_quorum env (m_view (snd (handleViewChangeMsg env p e))) e R)"
proof -
  have "keeps e (snd (handleViewChangeMsg env p e)) (checkSign env e) \<and> (requests_ok (checkSign env e) (m_reqCache e)
       \<longrightarrow> m_view (snd (handleViewChangeMsg env p e)) = m_view e \<or> (\<exists>R. change_quorum env (m_view (snd (handleViewChangeMsg env p e))) e R))"
  proof (cases "decode_msg (data p) new_PBFTMsg")
    case (Inr req)
    obtain ok e1 where x: "isValidViewChangeReq env req (node_idx p) e = (ok, e1)" by fastforce
    have k1: "keeps e e1 (checkSign env e)" "same_view e e1"
      using keeps_valid_change [of e env req "node_idx p"] x by (metis snd_conv)+
    have f1: "fixed e1 = fixed e" using k1 by (simp add: keeps_def)
    show ?thesis
    proof (cases ok)
      case True
      have signed: "checkSign env e req"
        using valid_change_signed [of env req "node_idx p" e] x True unfolding fixed_same(2) [OF f1 assms, symmetric] by simp
      define e2 where "e2 = on_cache (addViewChangeReq req (chain_number (m_blockChain e1))) e1"
      have k2: "keeps e e2 (checkSign env e)" using k1 signed by (simp add: keeps_def e2_def frame req_ok)
      have f2: "fixed e2 = fixed e" using k2 by (simp add: keeps_def)
      have v2: "m_view e2 = m_view e" using k1 by (simp add: e2_def same_view_def frame)
      obtain success e3 where y: "checkAndChangeView (view req) e2 = (success, e3)" by fastforce
      have k3: "keeps e e3 (checkSign env e)" using keeps_trans [OF k2 keeps_change_view] y by (metis snd_conv)
      define e4 where "e4 = (if \<not> success \<and> view req > m_toView e3 then
                       case canTriggerViewChange (m_f e3) (m_toView e3) (m_highestBlock e3) (m_consensusBlockNumber e3) (m_reqCache e3) of
                         (True, min_view) \<Rightarrow> changeViewForFastViewChange (e3\<lparr>m_toView := min_view - 1\<rparr>)
                       | (False, _) \<Rightarrow> e3
                     else e3)"
      have eq: "snd (handleViewChangeMsg env p e) = e4"
        using Inr x True y by (simp add: handleViewChangeMsg_def e2_def e4_def)
      have e4: "keeps e3 e4 (checkSign env e)" "m_view e4 = m_view e3"
        by (auto simp: e4_def keeps_def frame changeViewForFastViewChange_def split: prod.split bool.split)
      have "m_view e3 = m_view e \<or> (\<exists>R. change_quorum env (m_view e3) e R)" if "requests_ok (checkSign env e) (m_reqCache e)"
      proof (cases "e3 = e2")
        case False
        then have s: "fst (checkAndChangeView (view req) e2)" "m_view e3 = view req"
          using change_view_result [of "view req" e2] y by auto
        have "requests_ok (checkSign env e2) (m_reqCache e2)"
          using k2 that unfolding fixed_same(2) [OF f2 assms] keeps_def by blast
        from counted_changes [OF this s(1)] obtain R where "change_quorum env (view req) e2 R" by blast
        then have "change_quorum env (view req) e R"
          unfolding change_quorum_def fixed_same(2) [OF f2 assms] fixedD(8) [OF f2] .
        then show ?thesis using s by auto
      qed (use v2 in simp)
      then show ?thesis using keeps_trans [OF k3 e4(1)] e4(2) unfolding eq by simp
    qed (use Inr x k1 in \<open>simp add: handleViewChangeMsg_def same_view_def\<close>)
  qed (simp add: handleViewChangeMsg_def)
  then show "keeps e (snd (handleViewChangeMsg env p e)) (checkSign env e)"
    "requests_ok (checkSign env e) (m_reqCache e)
       \<Longrightarrow> m_view (snd (handleViewChangeMsg env p e)) = m_view e \<or> (\<exists>R. change_quorum env (m_view (snd (handleViewChangeMsg env p e))) e R)"
    by blast+
qed

lemma keeps_timeout:
  assumes "sealers env S" and "config_ok env S e"
  shows "keeps e (checkTimeout env e) (checkSign env e)"
    "requests_ok (checkSign env e) (m_reqCache e)
       \<Longrightarrow> m_view (checkTimeout env e) = m_view e \<or> (\<exists>R. change_quorum env (m_view (checkTimeout env e)) e R)"
proof -
  have "keeps e (checkTimeout env e) (checkSign env e) \<and> (requests_ok (checkSign env e) (m_reqCache e)
       \<longrightarrow> m_view (checkTimeout env e) = m_view e \<or> (\<exists>R. change_quorum env (m_view (checkTimeout env e)) e R))"
  proof (cases "isTimeout (steady_clock e) (m_timeManager e)")
    case True
    define e1 where "e1 = (if m_lastConsensusTime (m_timeManager e) \<noteq> 0 then
                   let e = e\<lparr>m_fastViewChange := False\<rparr>
                   in if height (m_prepareCache (m_reqCache e)) > number (m_highestBlock e)
                      then raise (OnTimeout (m_sealingNumber e)) e else e
                 else e)"
    define e1a where "e1a = on_time updateChangeCycle e1"
    define e1b where "e1b = e1a\<lparr>m_toView := m_toView e1a + 1, m_leaderFailed := True\<rparr>"
    define e2 where "e2 = raise (NoteSealing (chain_number (m_blockChain e1b))) e1b"
    define e2a where "e2a = on_time (\<lambda>t. t\<lparr>m_lastConsensusTime := steady_clock e2\<rparr>) e2"
    define e3 where "e3 = on_cache (removeInvalidViewChange (m_toView e2a) (m_highestBlock e2a)) e2a"
    define e4 where "e4 = broadcastViewChangeReq env e3"
    have k1: "keeps e e1 (checkSign env e)" "m_view e1 = m_view e" by (simp_all add: e1_def keeps_def Let_def frame)
    have k2: "keeps e e2 (checkSign env e)" "m_view e2 = m_view e" using k1 by (simp_all add: e2_def e1a_def e1b_def keeps_def frame)
    have k3: "keeps e e3 (checkSign env e)" "m_view e3 = m_view e" using k2 by (simp_all add: e3_def e2a_def keeps_def frame req_ok)
    have f3: "fixed e3 = fixed e" using k3 by (simp add: keeps_def)
    have k4: "keeps e e4 (checkSign env e)" "m_view e4 = m_view e"
      using keeps_trans [OF k3(1)] keeps_broadcasts(3) [OF assms(1) fixed_same(1) [OF f3 assms(2)]] k3(2)
      unfolding fixed_same(2) [OF f3 assms(2)] e4_def by (auto simp: broadcastViewChangeReq_def Let_def frame)
    have f4: "fixed e4 = fixed e" using k4 by (simp add: keeps_def)
    have eq: "checkTimeout env e = raise OnViewChange (snd (checkAndChangeView (m_toView e4) e4))"
      using True unfolding checkTimeout_def Let_def e1_def e1a_def e1b_def e2_def e2a_def e3_def e4_def by (simp only: if_True)
    have "m_view (snd (checkAndChangeView (m_toView e4) e4)) = m_view e
        \<or> (\<exists>R. change_quorum env (m_view (snd (checkAndChangeView (m_toView e4) e4))) e R)"
      if "requests_ok (checkSign env e) (m_reqCache e)"
    proof (cases "snd (checkAndChangeView (m_toView e4) e4) = e4")
      case False
      then have s: "fst (checkAndChangeView (m_toView e4) e4)" "m_view (snd (checkAndChangeView (m_toView e4) e4)) = m_toView e4"
        using change_view_result [of "m_toView e4" e4] by auto
      have "requests_ok (checkSign env e4) (m_reqCache e4)"
        using k4 that unfolding fixed_same(2) [OF f4 assms(2)] keeps_def by blast
      from counted_changes [OF this s(1)] obtain R where "change_quorum env (m_toView e4) e4 R" by blast
      then have "change_quorum env (m_toView e4) e R"
        unfolding change_quorum_def fixed_same(2) [OF f4 assms(2)] fixedD(8) [OF f4] .
      then show ?thesis using s by auto
    qed (use k4 in simp)
    then show ?thesis using keeps_trans [OF keeps_trans [OF k4(1) keeps_change_view] keeps_updates(1)] unfolding eq by (simp add: frame)
  qed (simp add: checkTimeout_def)
  then show "keeps e (checkTimeout env e) (checkSign env e)"
    "requests_ok (checkSign env e) (m_reqCache e)
       \<Longrightarrow> m_view (checkTimeout env e) = m_view e \<or> (\<exists>R. change_quorum env (m_view (checkTimeout env e)) e R)"
    by blast+
qed

end
