(* ===== verification/PbftViews.thy ===== *)
theory PbftViews
  imports PbftSteps
begin

text \<open>
  What holds in every state of a PBFT node whose sealers stay the same: its caches are well-formed, and
  it changes its view only with a quorum of signed requests.
\<close>

lemma view_votes:
  "m_view (snd (handlePrepareMsg_packet env p e)) = m_view e"
  "m_view (snd (handleSignMsg env p e)) = m_view e" "m_view (snd (handleCommitMsg env p e)) = m_view e"
proof -
  have v: "m_view (checkAndCommit env e') = m_view e'" "m_view (checkAndSave env e') = m_view e'"
      "m_view (snd (isValidSignReq env req e)) = m_view e" "m_view (snd (isValidCommitReq env req e)) = m_view e"
      "m_view (snd (handlePrepareMsg env req' e)) = m_view e" for e' req req'
    using frame_checkAndCommit frame_checkAndSave frame_votes frame_handlePrepare by (simp_all add: same_view_def)
  show "m_view (snd (handlePrepareMsg_packet env p e)) = m_view e"
    using v(5) by (auto simp: handlePrepareMsg_packet_def Let_def split: sum.split prod.split) (metis snd_conv)+
  show "m_view (snd (handleSignMsg env p e)) = m_view e"
    using v by (auto simp: handleSignMsg_def frame updateViewMap_def split: sum.split prod.split CheckResult.split) (metis snd_conv)+
  show "m_view (snd (handleCommitMsg env p e)) = m_view e"
    using v by (auto simp: handleCommitMsg_def frame updateViewMap_def split: sum.split prod.split CheckResult.split) (metis snd_conv)+
qed

lemma keeps_forward: "keeps e e' valid \<Longrightarrow> keeps e (if b then raise ev e' else e') valid"
  by (simp add: keeps_def frame)

lemma keeps_prepare_packet:
  assumes "sealers env S" and "config_ok env S e"
  shows "keeps e (snd (handlePrepareMsg_packet env p e)) (checkSign env e)"
  using keeps_prepare [OF assms]
  by (auto simp: handlePrepareMsg_packet_def Let_def split: sum.split prod.split) (metis snd_conv)+

lemma handleMsg_cases:
  "\<exists>x \<in> {e, snd (handlePrepareMsg_packet env p e), snd (handleSignMsg env p e), snd (handleCommitMsg env p e),
      snd (handleViewChangeMsg env p e)}. handleMsg env p e = x \<or> handleMsg env p e = raise (Forward p) x"
  by (simp add: handleMsg_def Let_def case_prod_beta)

lemma keeps_handleMsg:
  assumes "sealers env S" and "config_ok env S e"
  shows "keeps e (handleMsg env p e) (checkSign env e)"
    "requests_ok (checkSign env e) (m_reqCache e)
       \<Longrightarrow> m_view (handleMsg env p e) = m_view e \<or> (\<exists>R. change_quorum env (m_view (handleMsg env p e)) e R)"
proof -
  obtain x where x: "x \<in> {e, snd (handlePrepareMsg_packet env p e), snd (handleSignMsg env p e), snd (handleCommitMsg env p e),
      snd (handleViewChangeMsg env p e)}" "handleMsg env p e = x \<or> handleMsg env p e = raise (Forward p) x"
    using handleMsg_cases by blast
  have "keeps e x (checkSign env e)"
    using x(1) keeps_prepare_packet [OF assms, of p] keeps_sign [OF assms, of p] keeps_commitMsg [OF assms(2), of p]
      keeps_view_msg(1) [OF assms(2), of p] by auto
  then show "keeps e (handleMsg env p e) (checkSign env e)" using x(2) by (auto simp: keeps_def frame)
  have "m_view x = m_view e \<or> (\<exists>R. change_quorum env (m_view x) e R)" if "requests_ok (checkSign env e) (m_reqCache e)"
    using x(1) view_votes [of env p e] keeps_view_msg(2) [OF assms(2) that, of p] by auto
  moreover have "m_view (handleMsg env p e) = m_view x" using x(2) by (auto simp: frame)
  ultimately show "requests_ok (checkSign env e) (m_reqCache e)
       \<Longrightarrow> m_view (handleMsg env p e) = m_view e \<or> (\<exists>R. change_quorum env (m_view (handleMsg env p e)) e R)" by simp
qed

lemma keeps_future:
  assumes "sealers env S" and "config_ok env S e"
  shows "keeps e (handleFutureBlock env e) (checkSign env e)" "m_view (handleFutureBlock env e) = m_view e"
  using keeps_prepare [OF assms] frame_handlePrepare [of e env]
  by (auto simp: handleFutureBlock_def keeps_def frame req_ok same_view_def split: option.split)

lemma keeps_generate:
  assumes "sealers env S" and "config_ok env S e"
  shows "keeps e (generatePrepare env b e) (checkSign env e)" "m_view (generatePrepare env b e) = m_view e"
proof -
  define e1 where "e1 = snd (constructPrepareReq env b (e\<lparr>m_notifyNextLeaderSeal := False\<rparr>))"
  have k1: "keeps e e1 (checkSign env e)" "m_view e1 = m_view e"
    by (simp_all add: e1_def constructPrepareReq_def Let_def keeps_def frame)
  then have f1: "fixed e1 = fixed e" by (simp add: keeps_def)
  have k2: "keeps e (snd (handlePrepareMsg env req e1)) (checkSign env e)"
      "m_view (snd (handlePrepareMsg env req e1)) = m_view e" for req
    using keeps_trans [OF k1(1)] keeps_prepare [OF assms(1) fixed_same(1) [OF f1 assms(2)]] frame_handlePrepare [of e1 env req] k1(2)
    unfolding fixed_same(2) [OF f1 assms(2)] by (auto simp: same_view_def)
  have flag: "keeps e (e'\<lparr>m_generatePrepare := x\<rparr>) (checkSign env e) = keeps e e' (checkSign env e)" for e' x
    by (simp add: keeps_def frame)
  have "keeps e (on_time g (changeViewForFastViewChange (e1\<lparr>m_leaderFailed := True\<rparr>))) (checkSign env e)" for g
    using k1 by (simp add: keeps_def frame changeViewForFastViewChange_def)
  then show "keeps e (generatePrepare env b e) (checkSign env e)" "m_view (generatePrepare env b e) = m_view e"
    using k1 k2 unfolding generatePrepare_def case_prod_beta e1_def [symmetric]
    by (simp_all add: flag frame)
qed

lemma keeps_rehandle:
  assumes "sealers env S" and "config_ok env S e"
  shows "keeps e (snd (engine_shouldSeal env e)) (checkSign env e)" "m_view (snd (engine_shouldSeal env e)) = m_view e"
proof -
  have "keeps e (rehandleCommitedPrepareCache env req e) (checkSign env e)
      \<and> m_view (rehandleCommitedPrepareCache env req e) = m_view e" for req
  proof -
    let ?p = "new_PrepareReq_again env e req"
    define e1 where "e1 = raise (SendPrepare ?p) e"
    have k1: "keeps e e1 (checkSign env e)" "m_view e1 = m_view e" by (simp_all add: e1_def keeps_def frame)
    then have f1: "fixed e1 = fixed e" by (simp add: keeps_def)
    have "keeps e (snd (handlePrepareMsg env ?p e1)) (checkSign env e)"
      using keeps_trans [OF k1(1)] keeps_prepare [OF assms(1) fixed_same(1) [OF f1 assms(2)]]
      unfolding fixed_same(2) [OF f1 assms(2)] by blast
    then show ?thesis
      using frame_handlePrepare [of e1 env ?p] k1 unfolding e1_def
      by (simp add: rehandleCommitedPrepareCache_def Let_def keeps_def frame same_view_def)
  qed
  then show "keeps e (snd (engine_shouldSeal env e)) (checkSign env e)" "m_view (snd (engine_shouldSeal env e)) = m_view e"
    by (auto simp: engine_shouldSeal_def split: option.split)
qed

lemma report_ok:
  assumes "sealers env S" and "reportBlockWithoutLock env b e = Inr e'" and "0 \<le> number (blockHeader b)"
    and "chain_ok (m_blockChain e)" and "requests_ok (checkSign env e) (m_reqCache e)"
    and "config_ok env S e \<and> 0 \<le> number (m_highestBlock e) \<or> chain_number (m_blockChain e) = 0 \<or> number (m_highestBlock e) < number (blockHeader b)"
    and "config_ok env S e \<or> m_reqCache e = new_PBFTReqCache"
  shows "engine_ok env S e'"
    "m_view e' = m_view e \<or> m_view e' = 0 \<and> m_consensusBlockNumber e < m_consensusBlockNumber e'"
proof -
  have "engine_ok env S e' \<and> (m_view e' = m_view e \<or> m_view e' = 0 \<and> m_consensusBlockNumber e < m_consensusBlockNumber e')"
  proof (cases "chain_number (m_blockChain e) = 0 \<or> number (m_highestBlock e) < number (blockHeader b)")
    case False
    then show ?thesis using assms(2-6) by (simp add: reportBlockWithoutLock_def engine_ok_def)
  next
    case True
    define e1 where "e1 = e\<lparr>m_highestBlock := blockHeader b\<rparr>"
    define e2 where "e2 = (if number (m_highestBlock e1) \<ge> m_consensusBlockNumber e1 then
                   on_cache (delInvalidViewChange (m_highestBlock e1))
                     (on_time (\<lambda>t. t\<lparr>m_lastConsensusTime := steady_clock e1, m_changeCycle := 0\<rparr>)
                       (e1\<lparr>m_view := 0, m_toView := 0, m_leaderFailed := False,
                          m_consensusBlockNumber := number (m_highestBlock e1) + 1\<rparr>))
                 else e1)"
    obtain e3 where e3: "resetConfig env e2 = Inr e3"
      and e': "e' = on_cache (delCache (m_highestBlock e3))
               (raise (OnCommitBlock (number (blockHeader b)) (length (transactions b)) (m_changeCycle (m_timeManager e3))) e3)"
      using assms(2) True unfolding reportBlockWithoutLock_def if_P [OF True] Let_def e1_def [symmetric] e2_def [symmetric]
      by (cases "resetConfig env e2") auto
    note r = resetConfig_ok [OF assms(1) e3]
    have e2: "m_blockChain e2 = m_blockChain e" "m_highestBlock e2 = blockHeader b"
        "\<And>valid. requests_ok valid (m_reqCache e) \<Longrightarrow> requests_ok valid (m_reqCache e2)"
        "m_view e2 = m_view e \<or> m_view e2 = 0 \<and> m_consensusBlockNumber e < m_consensusBlockNumber e2"
      by (auto simp: e2_def e1_def frame req_ok) (simp_all add: on_cache_def on_time_def)
    have f': "fixed e' = fixed e3" by (simp add: e' frame)
    have cfg: "config_ok env S e'" using r(1) unfolding config_same [OF f'] .
    have "requests_ok (checkSign env e') (m_reqCache e)"
    proof (cases "m_reqCache e = new_PBFTReqCache")
      case False
      then have "config_ok env S e" using assms(7) by simp
      then have "(checkSign env e' :: PBFTMsg \<Rightarrow> bool) = checkSign env e" using cfg by (rule checkSign_config)
      then show ?thesis using assms(5) by simp
    qed (simp add: req_ok)
    then have "requests_ok (checkSign env e') (m_reqCache e')" using e2 e' r by (simp add: frame req_ok)
    moreover have "m_blockChain e' = m_blockChain e" "m_highestBlock e' = blockHeader b"
      using r(2,6) e2(1,2) fixedD(1) [OF f'] by (simp_all add: e' frame)
    ultimately have "engine_ok env S e'" using cfg assms(3,4) by (simp add: engine_ok_def)
    moreover have "m_view e' = m_view e2" "m_consensusBlockNumber e' = m_consensusBlockNumber e2"
      using r e' by (simp_all add: frame) (simp add: on_cache_def raise_def)
    ultimately show ?thesis using e2 by simp
  qed
  then show "engine_ok env S e'"
    "m_view e' = m_view e \<or> m_view e' = 0 \<and> m_consensusBlockNumber e < m_consensusBlockNumber e'" by blast+
qed

lemma start_ok:
  assumes "sealers env S" and "chain_ok ch" and "start_engine env stored ch s steady utc = Inr e"
  shows "engine_ok env S e"
proof -
  define e0 where "e0 = on_time (initTimerManager steady 900) (new_PBFTEngine ch s steady utc)"
  have init: "(new_PBFTEngine ch s steady utc)\<lparr>m_consensusBlockNumber := 0, m_view := 0, m_toView := 0, m_leaderFailed := False,
                   m_reqCache := new_PBFTReqCache\<rparr> = new_PBFTEngine ch s steady utc"
    by (simp add: new_PBFTEngine_def)
  obtain e1 where e1: "reportBlockWithoutLock env (last ch) e0 = Inr e1"
    and e: "e = (case stored of None \<Rightarrow> e1 | Some p \<Rightarrow> on_cache (\<lambda>c. c\<lparr>m_committedPrepareCache := p\<rparr>) e1)"
    using assms(3) unfolding start_engine_def initPBFTEnv_def Let_def init
    by (cases "reportBlockWithoutLock env (last ch) e0")
      (auto simp: e0_def new_PBFTEngine_def new_TimeManager_def on_time_def)
  have f: "m_blockChain e0 = ch" "m_reqCache e0 = new_PBFTReqCache" "m_highestBlock e0 = new_BlockHeader"
    by (simp_all add: e0_def new_PBFTEngine_def on_time_def)
  have last: "number (blockHeader (last ch)) = chain_number ch" "0 \<le> chain_number ch"
    using assms(2) last_conv_nth [of ch] by (cases ch; auto simp: chain_ok_def chain_number_def list_all_iff)+
  have "engine_ok env S e1"
    by (rule report_ok(1) [OF assms(1) e1]) (use f last assms(2) in \<open>auto simp: req_ok new_BlockHeader_def\<close>)
  moreover have "keeps e1 e (checkSign env e1)" by (simp add: e keeps_def frame split: option.split)
  ultimately show ?thesis by (blast intro: keeps_ok)
qed

lemma keeps_check_block:
  assumes "sealers env S" and "checkBlock env b e = Inr (ok, e')" and "engine_ok env S e"
  shows "engine_ok env S e'" "m_view e' = m_view e"
proof -
  have c: "config_ok env S e" using assms(3) by (simp add: engine_ok_def)
  have "e' = e \<or> resetConfig env e = Inr e'"
    using assms(2) by (cases "resetConfig env e") (auto simp: checkBlock_def split: if_splits)
  then have "engine_ok env S e' \<and> m_view e' = m_view e"
  proof
    assume "resetConfig env e = Inr e'"
    note r = resetConfig_ok [OF assms(1) this]
    have "(checkSign env e' :: PBFTMsg \<Rightarrow> bool) = checkSign env e" by (rule checkSign_config [OF c r(1)])
    then show ?thesis using assms(3) r by (simp add: engine_ok_def)
  qed (use assms(3) in simp)
  then show "engine_ok env S e'" "m_view e' = m_view e" by simp_all
qed

definition view_justified :: "pbft_env \<Rightarrow> PBFTEngine \<Rightarrow> PBFTEngine \<Rightarrow> bool" where
  "view_justified env e e' \<longleftrightarrow> m_view e' = m_view e
     \<or> m_view e' = 0 \<and> m_consensusBlockNumber e < m_consensusBlockNumber e'
     \<or> (\<exists>R. change_quorum env (m_view e') e R)"

lemma keeps_step: "keeps e e' (checkSign env e) \<Longrightarrow> m_view e' = m_view e \<or> (\<exists>R. change_quorum env (m_view e') e R)
    \<Longrightarrow> engine_ok env S e \<Longrightarrow> engine_ok env S e' \<and> view_justified env e e'"
  using keeps_ok [of e e' env S] by (auto simp: view_justified_def)

lemma step_ok:
  assumes "sealers env S" and "engine_ok env S e" and "engine_step env a e = Inr e'"
  shows "engine_ok env S e' \<and> view_justified env e e'"
proof -
  have c: "config_ok env S e" and ch: "chain_ok (m_blockChain e)" and rq: "requests_ok (checkSign env e) (m_reqCache e)"
    using assms(2) by (simp_all add: engine_ok_def)
  note k = keeps_step [OF _ _ assms(2)]
  show ?thesis
  proof (cases a)
    case (Receive p)
    then show ?thesis using assms(2,3) k keeps_handleMsg [OF assms(1) c, of p] rq by (auto simp: view_justified_def split: if_splits)
  next
    case CheckTimeout
    then show ?thesis using assms(2,3) k keeps_timeout [OF assms(1) c] rq by (auto simp: view_justified_def split: if_splits)
  next
    case HandleFuture
    then show ?thesis using assms(2,3) k keeps_future [OF assms(1) c] by (auto simp: view_justified_def split: if_splits)
  next
    case Garbage
    have "keeps e (engine_collectGarbage e) (checkSign env e)" "m_view (engine_collectGarbage e) = m_view e"
      by (simp_all add: engine_collectGarbage_def keeps_def frame req_ok)
    then show ?thesis using Garbage assms(2,3) k by (auto simp: view_justified_def split: if_splits)
  next
    case (Report n)
    show ?thesis
    proof (cases "getBlockByNumber (m_blockChain e) n")
      case (Some b)
      have "0 \<le> number (blockHeader b)"
        using Some ch by (auto simp: getBlockByNumber_def chain_ok_def list_all_iff split: if_splits)
      then show ?thesis
        using report_ok [OF assms(1) _ _ ch rq, of b e'] Some Report assms(2,3) c
        by (auto simp: view_justified_def engine_ok_def)
    qed (use Report assms in \<open>simp add: view_justified_def\<close>)
  next
    case EnterGenerate
    have "keeps e (generatePrepare_enter e) (checkSign env e)" "m_view (generatePrepare_enter e) = m_view e"
      by (simp_all add: generatePrepare_enter_def keeps_def frame)
    then show ?thesis using EnterGenerate assms(3) k by simp
  next
    case (Generate b)
    then show ?thesis using assms(3) k keeps_generate [OF assms(1) c] by auto
  next
    case ShouldSeal
    then show ?thesis using assms(3) k keeps_rehandle [OF assms(1) c] by auto
  next
    case (CheckBlock b)
    then obtain ok where "checkBlock env b e = Inr (ok, e')" using assms(3) by (cases "checkBlock env b e") auto
    then show ?thesis using keeps_check_block [OF assms(1) _ assms(2)] by (simp add: view_justified_def)
  next
    case (Disconnected nid)
    have "keeps e (disconnected nid e) (checkSign env e)" "m_view (disconnected nid e) = m_view e"
      by (simp_all add: disconnected_def keeps_def frame)
    then show ?thesis using Disconnected assms(3) k by simp
  next
    case (Tick s u)
    have f: "config_ok env S (e\<lparr>steady_clock := s, utc_clock := u\<rparr>)" using c by (simp add: config_ok_def)
    have "(checkSign env (e\<lparr>steady_clock := s, utc_clock := u\<rparr>) :: PBFTMsg \<Rightarrow> bool) = checkSign env e" by (rule checkSign_config [OF c f])
    then show ?thesis using Tick assms(2,3) f by (auto simp: engine_ok_def view_justified_def)
  next
    case (SyncStatus s)
    have f: "config_ok env S (e\<lparr>m_blockSync := s\<rparr>)" using c by (simp add: config_ok_def)
    have "(checkSign env (e\<lparr>m_blockSync := s\<rparr>) :: PBFTMsg \<Rightarrow> bool) = checkSign env e" by (rule checkSign_config [OF c f])
    then show ?thesis using SyncStatus assms(2,3) f by (auto simp: engine_ok_def view_justified_def)
  next
    case (Synced b)
    have "keeps e (e\<lparr>m_blockChain := snd (commitBlock env b (m_blockChain e))\<rparr>) (checkSign env e)"
      using chain_ok_commit by (simp add: keeps_def frame)
    then show ?thesis using Synced assms(3) k by auto
  qed
qed

lemma reached_ok:
  assumes "sealers env S" and "engine_ok env S e0" and "engine_reaches env allowed e0 e"
  shows "engine_ok env S e"
  using assms(3,2) by (induction rule: engine_reaches.induct) (auto dest: step_ok [OF assms(1)])



section \<open>A node alone\<close>

definition demo_id :: string where "demo_id = replicate 64 (CHR ''a'')"

definition demo_env :: pbft_env where
  "demo_env = \<lparr>pub = demo_id, Sign = (\<lambda>h. h), Verify = (\<lambda>_ s h. s = h), Hash = (\<lambda>_. zero_h256),
     run_block = (\<lambda>b _. (b, Inr (Some 0))), decodeBlock = (\<lambda>_. Inl Malformed), encodeProposal = (\<lambda>_. []),
     dbCommit = (\<lambda>_. True), chain_sealers = (\<lambda>_. [demo_id]), tx_count_limit = (\<lambda>_. 1000),
     consensusTimeout = (\<lambda>_. None), omitEmptyBlock = True, allowFutureBlocks = False, m_enableTTLOptimize = False\<rparr>"

definition demo_genesis :: Block where
  "demo_genesis = \<lparr>blockHeader = \<lparr>number = 0, hash = replicate 32 (CHR ''g''), parentHash = zero_h256, sealer = 0,
     sealerList = [demo_id], block_time = 0\<rparr>, transactions = [], sigList = []\<rparr>"

definition demo_sync :: sync_status where
  "demo_sync = \<lparr>farBehind = False, syncing = False, knownHighestNumber = 0\<rparr>"

lemma demo_sealers: "sealers demo_env [demo_id]" "chain_ok [demo_genesis]"
  by (simp_all add: sealers_def demo_env_def chain_ok_def demo_genesis_def demo_id_def zero_h512_def)

lemma demo_fields [simp]: "fields_hash demo_env m = zero_h256"
  by (cases "rbind (append_unsigned (height m) new_stream) (\<lambda>s.
            rbind (append_unsigned (view m) s) (\<lambda>s.
            rbind (append_unsigned (int (idx m)) s) (appendInt (timestamp m))))")
    (auto simp: fields_hash_def fieldsWithoutBlock_def demo_env_def rbind_def split: sum.split)

definition demo_engine :: PBFTEngine where
  "demo_engine = (new_PBFTEngine [demo_genesis] demo_sync 1000 1000)
     \<lparr>m_highestBlock := blockHeader demo_genesis, m_consensusBlockNumber := 1, m_nodeNum := 1, m_sealer := True,
      m_sealerList := [demo_id], m_timeManager := new_TimeManager\<lparr>m_emptyBlockGenTime := 300, m_lastAddRawPrepareTime := 1000, m_lastConsensusTime := 1000,
        m_lastExecTime := 1000, m_viewTimeout := 900, m_lastGarbageCollection := 1000\<rparr>,
      events := [OnCommitBlock 0 0 0]\<rparr>"

lemma demo_start:
  "start_engine demo_env None [demo_genesis] demo_sync 1000 1000 = Inr demo_engine"
  unfolding start_engine_def initPBFTEnv_def reportBlockWithoutLock_def resetConfig_def 
  by (simp add: Let_def new_PBFTEngine_def new_TimeManager_def on_time_def on_cache_def raise_def chain_number_def demo_genesis_def new_BlockHeader_def
    updateConsensusNodeList_def resetConsensusTimeout_def demo_env_def demo_engine_def initTimerManager_def delInvalidViewChange_def removeInvalidEntryFromCache_def 
    new_PBFTReqCache_def delCache_def new_PrepareReq_def new_PBFTMsg_def PBFTMsg.defs clear_msg_def MAXIDX_def max_faulty_def)


lemma demo_later:
  "engine_reaches demo_env (\<lambda>_ _. True) demo_engine (demo_engine\<lparr>steady_clock := 2000, utc_clock := 2000\<rparr>)"
  by (rule engine_next [OF engine_start, where a = "Tick 2000 2000"]) simp_all

lemma demo_timeout:
  "m_view (checkTimeout demo_env (demo_engine\<lparr>steady_clock := 2000, utc_clock := 2000\<rparr>)) = 1"
  "m_idx demo_engine = 0" "m_view demo_engine = 0" "m_consensusBlockNumber demo_engine = 1"
  by (simp_all add: checkTimeout_def isTimeout_def demo_engine_def new_PBFTEngine_def new_TimeManager_def Let_def
      checkAndChangeView_def broadcastViewChangeReq_def new_ViewChangeReq_def new_request_def sign_msg_def
      addViewChangeReq_def checkViewChangeReq_def removeInvalidViewChange_def new_PBFTReqCache_def
      getViewChangeSize_def getSizeFromCache_def entry_def demo_genesis_def new_PrepareReq_def new_PBFTMsg_def
      PBFTMsg.defs nodeIdx_def chain_number_def minValidNodes_def on_cache_def raise_def on_time_def updateChangeCycle_def kMaxChangeCycle_def cong: let_weak_cong)



end
