(* ===== verification/PbftSafety.thy ===== *)
theory PbftSafety
  imports PbftViews
begin

text \<open>
  What protects the safety of PBFT inside one node: the lock on a committed proposal, kept by every
  operation, and the way around it.
\<close>

section \<open>One block for each height\<close>

text \<open>
  Execution is deterministic: the hash of an executed block is a function \<open>post\<close> of the hash it had
  before, executing again changes nothing, and a failed execution leaves one of the two hashes.
\<close>

definition deterministic :: "pbft_env \<Rightarrow> (string \<Rightarrow> string) \<Rightarrow> bool" where
  "deterministic env post \<longleftrightarrow> (\<forall>h. post (post h) = post h)
     \<and> (\<forall>b parent. case run_block env b parent of (b', r) \<Rightarrow> transactions b' = transactions b
          \<and> (hash (blockHeader b') = post (hash (blockHeader b))
             \<or> (\<exists>x. r = Inl x) \<and> hash (blockHeader b') = hash (blockHeader b)))"

text \<open>
  A proper proposal: the hash it names is that of its block, before or after execution, and it is marked
  as empty only when the block is empty.
\<close>

definition block_of :: "pbft_env \<Rightarrow> prepare \<Rightarrow> Block result" where
  "block_of env p = (case pBlock p of Some b \<Rightarrow> Inr b | None \<Rightarrow> decodeBlock env (block p))"

definition proposal :: "pbft_env \<Rightarrow> (string \<Rightarrow> string) \<Rightarrow> prepare \<Rightarrow> bool" where
  "proposal env post p \<longleftrightarrow> (case block_of env p of Inl _ \<Rightarrow> True
     | Inr b \<Rightarrow> hash (blockHeader b) \<in> {block_hash p, post (block_hash p)} \<and> (isEmpty p \<longrightarrow> transactions b = []))"

definition live :: "PBFTReqCache \<Rightarrow> bool" where
  "live c \<longleftrightarrow> view (m_prepareCache c) \<noteq> MAXVIEW"

definition core :: "PBFTReqCache \<Rightarrow> _" where
  "core c = (m_rawPrepareCache c, m_prepareCache c, m_committedPrepareCache c, m_futurePrepareCache c)"

text \<open>
  The executed proposal in work comes from the raw one, at most at the height under consensus. A commit
  request that was sent for this height is that of the committed proposal, and one for the height in work
  is that of the proposal in work.
\<close>

definition prepares_ok :: "pbft_env \<Rightarrow> (string \<Rightarrow> string) \<Rightarrow> int \<Rightarrow> PBFTReqCache \<Rightarrow> bool" where
  "prepares_ok env post n c \<longleftrightarrow>
     (live c \<longrightarrow> height (m_prepareCache c) = height (m_rawPrepareCache c) \<and> height (m_rawPrepareCache c) \<le> n
        \<and> block_hash (m_prepareCache c) = post (block_hash (m_rawPrepareCache c)) \<and> proposal env post (m_rawPrepareCache c))
     \<and> (0 \<le> height (m_committedPrepareCache c) \<longrightarrow> proposal env post (m_committedPrepareCache c))
     \<and> list_all (\<lambda>(_, p). proposal env post p) (m_futurePrepareCache c)"

definition sent_ok :: "(string \<Rightarrow> string) \<Rightarrow> int \<Rightarrow> PBFTReqCache \<Rightarrow> PBFTMsg \<Rightarrow> bool" where
  "sent_ok post n c r \<longleftrightarrow> height r \<le> n
     \<and> (height r = n \<longrightarrow> height (m_committedPrepareCache c) = n \<and> block_hash r = post (block_hash (m_committedPrepareCache c))
          \<and> (live c \<longrightarrow> height (m_rawPrepareCache c) = n))
     \<and> (live c \<and> height (m_rawPrepareCache c) = height r \<longrightarrow> block_hash r = block_hash (m_prepareCache c))"

definition commits :: "PBFTEngine \<Rightarrow> PBFTMsg set" where
  "commits e = {r. SendCommit r \<in> set (events e)}"

definition locked :: "pbft_env \<Rightarrow> (string \<Rightarrow> string) \<Rightarrow> PBFTEngine \<Rightarrow> bool" where
  "locked env post e \<longleftrightarrow> 0 \<le> m_consensusBlockNumber e \<and> prepares_ok env post (m_consensusBlockNumber e) (m_reqCache e)
     \<and> (\<forall>r \<in> commits e. sent_ok post (m_consensusBlockNumber e) (m_reqCache e) r)
     \<and> (\<forall>r \<in> commits e. \<forall>r' \<in> commits e. height r = height r' \<longrightarrow> block_hash r = block_hash r')"

lemma core_ok:
  assumes "core c' = core c"
  shows "prepares_ok env post n c' = prepares_ok env post n c" "sent_ok post n c' = sent_ok post n c" "live c' = live c"
  using assms by (simp_all add: core_def prepares_ok_def sent_ok_def live_def fun_eq_iff)

lemma core_votes [simp]:
  "core (addSignReq r c) = core c" "core (addCommitReq r c) = core c" "core (addViewChangeReq r n c) = core c"
  "core (eraseLatestViewChangeCacheForNodeUpdated i c) = core c" "core (delInvalidViewChange b c) = core c"
  "core (removeInvalidViewChange v b c) = core c" "core (removeInvalidLatestViewChangeReq b c) = core c"
  "core (snd (getSigCacheSize valid h q c)) = core c" "core (snd (getCommitCacheSize valid h q c)) = core c"
  "core (removeInvalidSignCache h v c) = core c" "core (removeInvalidCommitCache h v c) = core c"
proof -
  show "core (addViewChangeReq r n c) = core c"
    by (auto simp: core_def addViewChangeReq_def checkViewChangeReq_def eraseExpiredViewChange_def Let_def split: option.split)
qed (auto simp: core_def addSignReq_def addCommitReq_def eraseLatestViewChangeCacheForNodeUpdated_def
    delInvalidViewChange_def removeInvalidViewChange_def removeInvalidLatestViewChangeReq_def getSigCacheSize_def
    getCommitCacheSize_def removeInvalidSignCache_def removeInvalidCommitCache_def Let_def split: option.split prod.split)

text \<open>Clearing a proposal in work, or dropping future ones, keeps everything.\<close>

definition same_request :: "prepare \<Rightarrow> prepare \<Rightarrow> bool" where
  "same_request p p' \<longleftrightarrow> height p' = height p \<and> block_hash p' = block_hash p \<and> view p' = view p"

definition cleared :: "PBFTReqCache \<Rightarrow> PBFTReqCache \<Rightarrow> bool" where
  "cleared c c' \<longleftrightarrow> (same_request (m_prepareCache c) (m_prepareCache c') \<and> m_rawPrepareCache c' = m_rawPrepareCache c \<or> \<not> live c')
     \<and> m_committedPrepareCache c' = m_committedPrepareCache c
     \<and> set (m_futurePrepareCache c') \<subseteq> set (m_futurePrepareCache c)"

lemma cleared_core: "core c' = core c \<Longrightarrow> cleared c c'"
  by (simp add: cleared_def core_def same_request_def)

lemma cleared_ok:
  assumes "cleared c c'"
  shows "prepares_ok env post n c \<Longrightarrow> prepares_ok env post n c'" "sent_ok post n c r \<Longrightarrow> sent_ok post n c' r"
  using assms by (auto simp: cleared_def same_request_def prepares_ok_def sent_ok_def live_def list_all_iff)

lemma clear_msg_fields [simp]: "view (clear_msg m) = MAXVIEW" "height (clear_msg m) = -1" "block_hash (clear_msg m) = zero_h256"
  by (simp_all add: clear_msg_def)

lemma cleared_clearing:
  "cleared c (triggerViewChange v n c)" "cleared c (delCache b c)" "cleared c (collectGarbage b c)"
  "cleared c (eraseHandledFutureReq k c)" "cleared c (removeInvalidFutureCache h v c)"
  using set_delete_subset [of _ "m_futurePrepareCache c"]
  by (auto simp: cleared_def same_request_def live_def triggerViewChange_def removeViewsUpTo_def removeInvalidFutureCache_def delCache_def
      collectGarbage_def removeInvalidLatestViewChangeReq_def delInvalidViewChange_def eraseHandledFutureReq_def Let_def)

lemma cleared_trans: "cleared c c' \<Longrightarrow> cleared c' c'' \<Longrightarrow> cleared c c''"
  by (auto simp: cleared_def live_def same_request_def)

text \<open>A step that clears and sends no commit request.\<close>

definition calm :: "PBFTEngine \<Rightarrow> PBFTEngine \<Rightarrow> bool" where
  "calm e e' \<longleftrightarrow> cleared (m_reqCache e) (m_reqCache e') \<and> commits e' = commits e
     \<and> m_consensusBlockNumber e \<le> m_consensusBlockNumber e'"

lemma cleared_refl [simp]: "cleared c c"
  by (simp add: cleared_def same_request_def)

lemma calm_refl [simp]: "calm e e"
  by (simp add: calm_def)

lemma calm_trans: "calm e e' \<Longrightarrow> calm e' e'' \<Longrightarrow> calm e e''"
  by (auto simp: calm_def intro: cleared_trans)

lemma calm_locked:
  assumes "calm e e'" and "locked env post e"
  shows "locked env post e'"
proof -
  let ?n = "m_consensusBlockNumber e" and ?n' = "m_consensusBlockNumber e'"
  have n: "?n \<le> ?n'" and c: "cleared (m_reqCache e) (m_reqCache e')" and s: "commits e' = commits e"
    using assms(1) by (simp_all add: calm_def)
  have "prepares_ok env post ?n (m_reqCache e)" using assms(2) by (simp add: locked_def)
  then have up1: "prepares_ok env post ?n' (m_reqCache e)"
    using n unfolding prepares_ok_def by (meson order_trans)
  have up2: "sent_ok post ?n (m_reqCache e) r \<Longrightarrow> sent_ok post ?n' (m_reqCache e) r" for r
    using n by (cases "?n = ?n'") (simp_all add: sent_ok_def)
  have "prepares_ok env post ?n' (m_reqCache e')" by (rule cleared_ok(1) [OF c up1])
  moreover have "sent_ok post ?n' (m_reqCache e') r" if "r \<in> commits e" for r
    by (intro cleared_ok(2) [OF c up2]) (use assms(2) that in \<open>unfold locked_def, blast\<close>)
  moreover have "0 \<le> ?n'" using assms(2) n unfolding locked_def by linarith
  moreover have "\<forall>r \<in> commits e. \<forall>r' \<in> commits e. height r = height r' \<longrightarrow> block_hash r = block_hash r'"
    using assms(2) unfolding locked_def by blast
  ultimately show ?thesis unfolding locked_def s by blast
qed

lemma commits_updates [frame]:
  "commits (on_cache f e) = commits e" "commits (on_time g e) = commits e"
  "commits (raise ev e) = (case ev of SendCommit r \<Rightarrow> insert r (commits e) | _ \<Rightarrow> commits e)"
  "commits (e\<lparr>m_reqCache := c\<rparr>) = commits e" "commits (e\<lparr>m_blockChain := ch\<rparr>) = commits e"
  "commits (e\<lparr>m_sealingNumber := n\<rparr>) = commits e" "commits (e\<lparr>m_fastViewChange := b\<rparr>) = commits e"
  "commits (e\<lparr>m_notifyNextLeaderSeal := b\<rparr>) = commits e" "commits (e\<lparr>m_viewMap := vm\<rparr>) = commits e"
  "commits (e\<lparr>m_view := v\<rparr>) = commits e" "commits (e\<lparr>m_toView := v\<rparr>) = commits e"
  "commits (e\<lparr>m_leaderFailed := b\<rparr>) = commits e" "commits (e\<lparr>m_generatePrepare := b\<rparr>) = commits e"
  by (auto simp: commits_def on_cache_def on_time_def raise_def split: event.split)

lemma commits_ops [frame]:
  "commits (updateViewMap i v e) = commits e" "commits (changeViewForFastViewChange e) = commits e"
  "commits (notifySealing b e) = commits e" "commits (broadcastSignReq env req e) = commits e"
  by (simp_all add: updateViewMap_def changeViewForFastViewChange_def notifySealing_def broadcastSignReq_def Let_def frame)

lemma number_updates [frame]:
  "m_consensusBlockNumber (raise ev e) = m_consensusBlockNumber e" "m_consensusBlockNumber (on_cache f e) = m_consensusBlockNumber e"
  "m_consensusBlockNumber (on_time g e) = m_consensusBlockNumber e" "m_consensusBlockNumber (updateViewMap i v e) = m_consensusBlockNumber e"
  "m_consensusBlockNumber (changeViewForFastViewChange e) = m_consensusBlockNumber e"
  "m_consensusBlockNumber (notifySealing b e) = m_consensusBlockNumber e"
  using fixedD(2) [of "notifySealing b e" e] frame
  by (simp_all add: raise_def on_cache_def on_time_def updateViewMap_def changeViewForFastViewChange_def)

lemma calm_cache:
  assumes "cleared (m_reqCache e) c"
  shows "calm e (e\<lparr>m_reqCache := c\<rparr>)"
  using assms by (simp add: calm_def frame)

lemma calm_on_cache: "(\<And>c. cleared c (f c)) \<Longrightarrow> calm e (on_cache f e)"
  by (simp add: calm_def frame)

lemma calm_commit_prepared: "calm e (commit_prepared env e)"
proof (cases "pBlock (m_prepareCache (m_reqCache e))")
  case (Some b)
  let ?b = "snd (generateAndSetSigList (minValidNodes e) (m_reqCache e) b)"
  define e1 where "e1 = on_cache (\<lambda>c. c\<lparr>m_prepareCache := (m_prepareCache c)\<lparr>pBlock := Some ?b\<rparr>\<rparr>) e"
  have k1: "calm e e1" unfolding e1_def by (rule calm_on_cache) (simp add: cleared_def same_request_def)
  obtain r ch where x: "commitBlock env ?b (m_blockChain e1) = (r, ch)" by fastforce
  define e2 where "e2 = raise (NoteSealing (height (m_prepareCache (m_reqCache e1)))) (raise (DropTxs ?b) (e1\<lparr>m_blockChain := ch\<rparr>))"
  have "calm e1 e2" by (simp add: e2_def calm_def frame)
  moreover have "calm e2 (on_cache (delCache (blockHeader ?b)) e2)" by (rule calm_on_cache) (rule cleared_clearing)
  moreover have "calm e1 (raise (HandleBadBlock ?b) (raise (NoteSealing n) e1))" for n by (simp add: calm_def frame)
  ultimately have "calm e1 (commit_prepared env e)"
    using Some x by (cases r) (auto simp: commit_prepared_def Let_def e1_def e2_def frame intro: calm_trans)
  with k1 show ?thesis by (rule calm_trans)
qed (simp add: commit_prepared_def)

lemma calm_save: "calm e (checkAndSave env e)"
proof -
  let ?h = "block_hash (m_prepareCache (m_reqCache e))" and ?q = "minValidNodes e" and ?v = "checkSign env e"
  let ?c1 = "getSigCacheSize ?v ?h ?q (m_reqCache e)"
  let ?c2 = "getCommitCacheSize ?v ?h ?q (snd ?c1)"
  have "calm e (e\<lparr>m_reqCache := snd ?c2\<rparr>)" by (rule calm_cache, rule cleared_core) simp
  from this calm_trans [OF this calm_commit_prepared] show ?thesis
    by (simp add: checkAndSave_def Let_def case_prod_beta)
qed

lemma calm_sign: "calm e (broadcastSignReq env req e)"
proof -
  have "cleared c (addSignReq r c)" for c r by (rule cleared_core) simp
  then show ?thesis by (simp add: calm_def broadcastSignReq_def Let_def frame)
qed

lemma coreD:
  assumes "core c' = core c"
  shows "m_rawPrepareCache c' = m_rawPrepareCache c" "m_prepareCache c' = m_prepareCache c"
    "m_committedPrepareCache c' = m_committedPrepareCache c" "m_futurePrepareCache c' = m_futurePrepareCache c"
  using assms by (simp_all add: core_def)

lemma lockedD:
  assumes "locked env post e"
  shows "0 \<le> m_consensusBlockNumber e" "prepares_ok env post (m_consensusBlockNumber e) (m_reqCache e)"
    "r \<in> commits e \<Longrightarrow> sent_ok post (m_consensusBlockNumber e) (m_reqCache e) r"
    "r \<in> commits e \<Longrightarrow> r' \<in> commits e \<Longrightarrow> height r = height r' \<Longrightarrow> block_hash r = block_hash r'"
  using assms unfolding locked_def by blast+

text \<open>The proposal in work is committed: it becomes the lock, and a commit request is sent for it.\<close>

lemma locked_commit:
  assumes "locked env post e" and "live (m_reqCache e)"
  shows "locked env post (broadcastCommitReq env (m_prepareCache (m_reqCache e)) (raise (Backup p) (on_cache updateCommittedPrepare e)))"
proof -
  let ?n = "m_consensusBlockNumber e" and ?c = "m_reqCache e"
  define e1 where "e1 = raise (Backup p) (on_cache updateCommittedPrepare e)"
  define m where "m = new_CommitReq env e1 (m_prepareCache ?c)"
  define e2 where "e2 = broadcastCommitReq env (m_prepareCache ?c) e1"
  have m: "height m = height (m_prepareCache ?c)" "block_hash m = block_hash (m_prepareCache ?c)"
    by (simp_all add: m_def new_CommitReq_def new_request_def sign_msg_def)
  have c2: "m_reqCache e2 = addCommitReq m (updateCommittedPrepare ?c)"
    by (simp add: e2_def e1_def broadcastCommitReq_def Let_def m_def frame)
  have n2: "m_consensusBlockNumber e2 = ?n" by (simp add: e2_def e1_def broadcastCommitReq_def Let_def frame)
  have s2: "commits e2 = insert m (commits e)" by (simp add: e2_def e1_def broadcastCommitReq_def Let_def m_def frame)
  have core2: "m_rawPrepareCache (m_reqCache e2) = m_rawPrepareCache ?c" "m_prepareCache (m_reqCache e2) = m_prepareCache ?c"
      "m_committedPrepareCache (m_reqCache e2) = m_rawPrepareCache ?c" "m_futurePrepareCache (m_reqCache e2) = m_futurePrepareCache ?c"
    unfolding c2 by (simp_all add: coreD [OF core_votes(2)]) (simp_all add: updateCommittedPrepare_def)
  note pr = lockedD(2) [OF assms(1), unfolded prepares_ok_def]
  have raw: "height (m_prepareCache ?c) = height (m_rawPrepareCache ?c)" "height (m_rawPrepareCache ?c) \<le> ?n"
      "block_hash (m_prepareCache ?c) = post (block_hash (m_rawPrepareCache ?c))" "proposal env post (m_rawPrepareCache ?c)"
    using pr assms(2) by simp_all
  have live2: "live (m_reqCache e2)" using assms(2) by (simp add: live_def core2)
  have old: "height r \<le> ?n \<and> (height r = ?n \<longrightarrow> height (m_rawPrepareCache ?c) = ?n)
      \<and> (height (m_rawPrepareCache ?c) = height r \<longrightarrow> block_hash r = block_hash (m_prepareCache ?c))" if "r \<in> commits e" for r
    using lockedD(3) [OF assms(1) that] assms(2) unfolding sent_ok_def by simp
  have "prepares_ok env post ?n (m_reqCache e2)" using pr raw unfolding prepares_ok_def core2 by simp
  moreover have "sent_ok post ?n (m_reqCache e2) r" if "r \<in> insert m (commits e)" for r
    using that
  proof
    assume "r = m"
    then show ?thesis using raw m by (simp add: sent_ok_def core2)
  next
    assume "r \<in> commits e"
    from old [OF this] show ?thesis using raw by (simp add: sent_ok_def core2)
  qed
  moreover have new: "block_hash r = block_hash m" if "r \<in> commits e" "height r = height m" for r
  proof -
    have "height (m_rawPrepareCache ?c) = height r" using that(2) m(1) raw(1) by simp
    then show ?thesis using old [OF that(1)] m(2) by simp
  qed
  have "block_hash r = block_hash r'"
    if "r \<in> insert m (commits e)" "r' \<in> insert m (commits e)" "height r = height r'" for r r'
    using that new [of r] new [of r'] lockedD(4) [OF assms(1), of r r'] by (metis insertE)
  ultimately show ?thesis
    unfolding e2_def [symmetric] e1_def [symmetric] locked_def n2 s2 using lockedD(1) [OF assms(1)] by blast
qed

lemma locked_checkAndCommit:
  assumes "locked env post e" and "m_view e < MAXVIEW"
  shows "locked env post (checkAndCommit env e)"
proof -
  let ?c = "getSigCacheSize (checkSign env e) (block_hash (m_prepareCache (m_reqCache e))) (minValidNodes e) (m_reqCache e)"
  define e1 where "e1 = e\<lparr>m_reqCache := snd ?c\<rparr>"
  have "calm e e1" unfolding e1_def by (rule calm_cache, rule cleared_core) simp
  then have l1: "locked env post e1" using assms(1) by (rule calm_locked)
  show ?thesis
  proof (cases "fst ?c = minValidNodes e \<and> view (m_prepareCache (snd ?c)) = m_view e1")
    case True
    then have "live (m_reqCache e1)" using assms(2) by (simp add: live_def e1_def)
    define e2 where "e2 = raise (Backup (m_committedPrepareCache (updateCommittedPrepare (snd ?c)))) (on_cache updateCommittedPrepare e1)"
    define e3 where "e3 = broadcastCommitReq env (m_prepareCache (m_reqCache e1)) e2"
    have "locked env post e3" unfolding e3_def e2_def by (rule locked_commit) fact+
    moreover have "calm e3 (checkAndSave env (on_time g e3))" for g
      by (rule calm_trans [OF _ calm_save]) (simp add: calm_def frame)
    ultimately have "locked env post (checkAndSave env (on_time g e3))" for g by (metis calm_locked)
    moreover have "m_prepareCache (updateCommittedPrepare c) = m_prepareCache c" for c by (simp add: updateCommittedPrepare_def)
    ultimately show ?thesis using True
      by (simp add: checkAndCommit_def Let_def case_prod_beta e1_def e2_def e3_def frame)
  next
    case False
    then show ?thesis using l1 by (auto simp: checkAndCommit_def Let_def case_prod_beta e1_def)
  qed
qed

lemma locked_caches:
  assumes "locked env post e" and "m_consensusBlockNumber e' = m_consensusBlockNumber e" and "commits e' = commits e"
    and "prepares_ok env post (m_consensusBlockNumber e) (m_reqCache e')"
    and "\<And>m. m \<in> commits e \<Longrightarrow> sent_ok post (m_consensusBlockNumber e) (m_reqCache e') m"
  shows "locked env post e'"
  using assms unfolding locked_def by metis

lemma deterministicD:
  assumes "deterministic env post" and "run_block env b parent = (b', r)"
  shows "post (post h) = post h" "transactions b' = transactions b"
    "hash (blockHeader b') = post (hash (blockHeader b)) \<or> (\<exists>x. r = Inl x) \<and> hash (blockHeader b') = hash (blockHeader b)"
  using assms unfolding deterministic_def by (fastforce split: prod.splits)+

text \<open>An executed block in place of the proposed one is a proper proposal still.\<close>

lemma proposal_executed:
  assumes "deterministic env post" and "run_block env b parent = (b', r)" and "proposal env post p" and "pBlock p = Some b"
  shows "proposal env post (p\<lparr>pBlock := Some b'\<rparr>)"
  using assms(3,4) deterministicD [OF assms(1,2)] unfolding proposal_def block_of_def by auto

lemma set_block_facts:
  "m_prepareCache (set_block req b c) = m_prepareCache c" "m_futurePrepareCache (set_block req b c) = m_futurePrepareCache c"
  "height (m_rawPrepareCache (set_block req b c)) = height (m_rawPrepareCache c)"
  "block_hash (m_rawPrepareCache (set_block req b c)) = block_hash (m_rawPrepareCache c)"
  "height (m_committedPrepareCache (set_block req b c)) = height (m_committedPrepareCache c)"
  "block_hash (m_committedPrepareCache (set_block req b c)) = block_hash (m_committedPrepareCache c)"
  "live (set_block req b c) = live c"
  by (simp_all add: set_block_def Let_def live_def split: option.split)

lemma set_block_proposals:
  assumes "deterministic env post" and "run_block env b parent = (b', r)" and "pBlock req = None \<or> pBlock req = Some b"
  shows "proposal env post (m_rawPrepareCache c) \<Longrightarrow> proposal env post (m_rawPrepareCache (set_block req b' c))"
    "proposal env post (m_committedPrepareCache c) \<Longrightarrow> proposal env post (m_committedPrepareCache (set_block req b' c))"
  using assms(3) proposal_executed [OF assms(1,2)]
  by (auto simp: set_block_def Let_def)

lemma set_block_locked:
  assumes "deterministic env post" and "run_block env b parent = (b', r)" and "pBlock req = None \<or> pBlock req = Some b"
    and "locked env post e" and "\<not> live (m_reqCache e)"
  shows "locked env post (on_cache (set_block req b') e)"
proof -
  let ?n = "m_consensusBlockNumber e" and ?c = "m_reqCache e"
  have "prepares_ok env post ?n (set_block req b' ?c)"
    using lockedD(2) [OF assms(4)] assms(5) set_block_proposals(2) [OF assms(1-3), of ?c]
    unfolding prepares_ok_def set_block_facts by simp
  moreover have "sent_ok post ?n (set_block req b' ?c) x" if "x \<in> commits e" for x
    using lockedD(3) [OF assms(4) that] unfolding sent_ok_def set_block_facts .
  ultimately show ?thesis by (intro locked_caches [OF assms(4)]) (simp_all add: frame)
qed

text \<open>Before the execution of a request: it is the raw one, and nothing is in work.\<close>

definition taken :: "prepare \<Rightarrow> PBFTEngine \<Rightarrow> bool" where
  "taken req e \<longleftrightarrow> \<not> live (m_reqCache e) \<and> height (m_rawPrepareCache (m_reqCache e)) = height req
     \<and> block_hash (m_rawPrepareCache (m_reqCache e)) = block_hash req"

lemma calm_taken:
  assumes "m_reqCache e' = m_reqCache e"
  shows "taken req e' = taken req e"
  using assms by (simp add: taken_def)

lemma execBlock_locked:
  assumes "deterministic env post" and "locked env post e" and "taken req e" and "proposal env post req"
    and "m_rawPrepareCache (m_reqCache e) = req" and "execBlock env req e = (r, e')"
  shows "locked env post e' \<and> taken req e' \<and> proposal env post (m_rawPrepareCache (m_reqCache e'))
    \<and> block_hash (m_committedPrepareCache (m_reqCache e')) = block_hash (m_committedPrepareCache (m_reqCache e))
    \<and> height (m_committedPrepareCache (m_reqCache e')) = height (m_committedPrepareCache (m_reqCache e))
    \<and> m_consensusBlockNumber e' = m_consensusBlockNumber e
    \<and> (\<forall>b ctx. r = Inr (b, ctx) \<longrightarrow> (transactions b = [] \<and> omitEmptyBlock env)
         \<or> hash (blockHeader b) = post (block_hash req) \<and> (isEmpty req \<longrightarrow> transactions b = []))"
    (is "?P e'")
proof (cases "block_of env req")
  case (Inl x)
  then have "r = Inl x \<and> e' = e" using assms(6) by (simp add: execBlock_def block_of_def)
  then show ?thesis using assms by simp
next
  case (Inr b)
  have req: "hash (blockHeader b) \<in> {block_hash req, post (block_hash req)}" "isEmpty req \<Longrightarrow> transactions b = []"
    using assms(4) Inr by (simp_all add: proposal_def)
  define e1 where "e1 = e\<lparr>m_sealingNumber := length (transactions b)\<rparr>"
  have k1: "calm e e1" "m_reqCache e1 = m_reqCache e" "m_consensusBlockNumber e1 = m_consensusBlockNumber e" "m_blockChain e1 = m_blockChain e"
    by (simp_all add: e1_def calm_def frame)
  have l1: "locked env post e1" by (rule calm_locked [OF k1(1) assms(2)])
  note ex = assms(6) [unfolded execBlock_def block_of_def [symmetric] Inr sum.case Let_def e1_def [symmetric]]
  show ?thesis
  proof (cases "transactions b = [] \<and> omitEmptyBlock env")
    case True
    then have "r = Inr (b, None) \<and> e' = e1" using ex by simp
    then show ?thesis using True l1 k1 assms(3-5) calm_taken [OF k1(2)] by simp
  next
    case False
    note ex = ex [unfolded if_not_P [OF False]]
    show ?thesis
    proof (cases "checkBlockValid env b e1")
      case (Inl x)
      then have "r = Inl x \<and> e' = e1" using ex by simp
      then show ?thesis using l1 k1 assms(3-5) calm_taken [OF k1(2)] by simp
    next
      case (Inr u)
      define e2 where "e2 = (if idx req \<noteq> nodeIdx e1 then notifySealing b e1 else e1)"
      define e3 where "e3 = raise (NoteSealing (number (blockHeader b))) e2"
      have k3: "calm e1 e3" "m_reqCache e3 = m_reqCache e" "m_consensusBlockNumber e3 = m_consensusBlockNumber e" "m_blockChain e3 = m_blockChain e"
        using k1 by (simp_all add: e3_def e2_def calm_def frame)
      have l3: "locked env post e3" by (rule calm_locked [OF k3(1) l1])
      obtain b' x where run: "run_block env b (blockHeader (last (m_blockChain e3))) = (b', x)" by fastforce
      have r: "r = rbind x (\<lambda>ctx. Inr (b', ctx))" and e': "e' = on_cache (set_block req b') e3"
        using ex Inr run unfolding e2_def [symmetric] e3_def [symmetric] by simp_all
      have pb: "pBlock req = None \<or> pBlock req = Some b"
        using \<open>block_of env req = Inr b\<close> by (auto simp: block_of_def split: option.splits)
      have l: "locked env post e'"
        unfolding e' by (rule set_block_locked [OF assms(1) run pb l3]) (use assms(3) k3 in \<open>simp add: taken_def\<close>)
      have c: "m_reqCache e' = set_block req b' (m_reqCache e)" "m_consensusBlockNumber e' = m_consensusBlockNumber e"
        using k3 by (simp_all add: e' frame)
      have p: "proposal env post (m_rawPrepareCache (m_reqCache e'))"
        unfolding c by (rule set_block_proposals(1) [OF assms(1) run pb]) (simp add: assms(4,5))
      have "hash (blockHeader b'') = post (block_hash req) \<and> (isEmpty req \<longrightarrow> transactions b'' = [])"
        if "r = Inr (b'', ctx)" for b'' ctx
      proof -
        have b'': "b'' = b'" "\<nexists>y. x = Inl y" using that r by (cases x; simp)+
        then have "hash (blockHeader b'') = post (hash (blockHeader b))" "transactions b'' = transactions b"
          using deterministicD(2,3) [OF assms(1) run] by simp_all
        then show ?thesis using req deterministicD(1) [OF assms(1) run] by auto
      qed
      then show ?thesis using l p c set_block_facts assms(3) by (simp add: taken_def)
    qed
  qed
qed

lemma execPrepare_locked:
  assumes det: "deterministic env post" and omit: "omitEmptyBlock env" and l: "locked env post e" and t: "taken req e"
    and p: "proposal env post req" and raw: "m_rawPrepareCache (m_reqCache e) = req"
    and n: "height req = m_consensusBlockNumber e" and v: "m_view e < MAXVIEW" "view req = m_view e"
    and saved: "isEmpty req \<or> isHashSavedAfterCommit req e"
  shows "locked env post (snd (execPrepareAndGenerateSignMsg env req e))"
proof -
  define e1 where "e1 = on_time (\<lambda>t. t\<lparr>m_lastAddRawPrepareTime := steady_clock e\<rparr>) e"
  have k1: "calm e e1" "m_reqCache e1 = m_reqCache e" "m_consensusBlockNumber e1 = m_consensusBlockNumber e"
    by (simp_all add: e1_def calm_def frame)
  obtain r e2 where x: "execBlock env req e1 = (r, e2)" by fastforce
  have "taken req e1" "m_rawPrepareCache (m_reqCache e1) = req" using t raw k1 calm_taken [OF k1(2)] by simp_all
  note e2 = execBlock_locked [OF det calm_locked [OF k1(1) l] this(1) p this(2) x]
  show ?thesis
  proof (cases r)
    case (Inl y)
    then show ?thesis using x e2 by (simp add: execPrepareAndGenerateSignMsg_def e1_def)
  next
    case (Inr y)
    obtain b ctx where y: "y = (b, ctx)" by fastforce
    define e3 where "e3 = on_time (\<lambda>t. t\<lparr>m_lastExecTime := steady_clock e2\<rparr>) e2"
    have k3: "calm e2 e3" "m_reqCache e3 = m_reqCache e2" "m_consensusBlockNumber e3 = m_consensusBlockNumber e" "commits e3 = commits e2"
      using e2 k1 by (simp_all add: e3_def calm_def frame)
    have l3: "locked env post e3" using e2 k3(1) by (metis calm_locked)
    have res: "execPrepareAndGenerateSignMsg env req e =
        (if ctx = None \<and> transactions b \<noteq> [] then (False, e3)
         else if needOmit env b then (True, on_time (\<lambda>t. t\<lparr>m_changeCycle := 0\<rparr>) (changeViewForFastViewChange e3))
         else let sign_prepare = new_PrepareReq_executed env e3 req b ctx
              in (True, checkAndCommit env (broadcastSignReq env sign_prepare (on_cache (addPrepareReq sign_prepare) e3))))"
      using x Inr y by (simp add: execPrepareAndGenerateSignMsg_def e1_def e3_def Let_def)
    show ?thesis
    proof (cases "ctx = None \<and> transactions b \<noteq> [] \<or> needOmit env b")
      case True
      have "calm e3 (on_time g (changeViewForFastViewChange e3))" for g by (simp add: calm_def frame)
      then have "locked env post (on_time g (changeViewForFastViewChange e3))" for g using l3 by (metis calm_locked)
      then show ?thesis using True l3 by (auto simp: res)
    next
      case False
      have b: "hash (blockHeader b) = post (block_hash req)" "\<not> isEmpty req"
        using e2 Inr y False omit by (auto simp: needOmit_def)
      define sp where "sp = new_PrepareReq_executed env e3 req b ctx"
      have sp: "height sp = height req" "view sp = view req" "block_hash sp = post (block_hash req)"
        using b by (simp_all add: sp_def new_PrepareReq_executed_def sign_msg_def)
      define e4 where "e4 = on_cache (addPrepareReq sp) e3"
      let ?c = "m_reqCache e3"
      have c4: "m_prepareCache (m_reqCache e4) = sp" "m_rawPrepareCache (m_reqCache e4) = m_rawPrepareCache ?c"
          "m_committedPrepareCache (m_reqCache e4) = m_committedPrepareCache ?c" "m_futurePrepareCache (m_reqCache e4) = m_futurePrepareCache ?c"
        by (simp_all add: e4_def frame addPrepareReq_def coreD [OF core_votes(10)] coreD [OF core_votes(11)])
      have n4: "m_consensusBlockNumber e4 = m_consensusBlockNumber e" "commits e4 = commits e3" using k3 by (simp_all add: e4_def frame)
      have raw3: "height (m_rawPrepareCache ?c) = height req" "block_hash (m_rawPrepareCache ?c) = block_hash req"
          "proposal env post (m_rawPrepareCache ?c)"
        using e2 k3 by (simp_all add: taken_def)
      have "prepares_ok env post (m_consensusBlockNumber e) (m_reqCache e4)"
        using lockedD(2) [OF l3] raw3 sp n k3(3) unfolding prepares_ok_def c4 by simp
      moreover have "sent_ok post (m_consensusBlockNumber e) (m_reqCache e4) m" if "m \<in> commits e3" for m
      proof -
        have old: "sent_ok post (m_consensusBlockNumber e) ?c m" using lockedD(3) [OF l3 that] k3(3) by simp
        have "block_hash m = post (block_hash req)" if "height m = m_consensusBlockNumber e"
        proof -
          have com: "height (m_committedPrepareCache ?c) = m_consensusBlockNumber e" "block_hash m = post (block_hash (m_committedPrepareCache ?c))"
            using old that by (simp_all add: sent_ok_def)
          have "height (m_committedPrepareCache ?c) = height (m_committedPrepareCache (m_reqCache e))"
              "block_hash (m_committedPrepareCache ?c) = block_hash (m_committedPrepareCache (m_reqCache e))"
            using e2 k3(2) k1(2) by simp_all
          then have "block_hash req = block_hash (m_committedPrepareCache ?c)"
            using saved b(2) n com(1) by (simp add: isHashSavedAfterCommit_def)
          then show ?thesis using com(2) by simp
        qed
        then show ?thesis using old raw3 sp n unfolding sent_ok_def c4 by simp
      qed
      ultimately have l4: "locked env post e4"
        by (intro locked_caches [OF l3]) (simp_all only: n4 k3(3))
      define e5 where "e5 = broadcastSignReq env sp e4"
      have l5: "locked env post e5" unfolding e5_def by (rule calm_locked [OF calm_sign l4])
      have "m_view e5 = m_view e"
        using frame_sends(1) [of e4 env sp] frame_execBlock [of e1 env req] x
        by (simp add: same_view_def e5_def e4_def e3_def e1_def frame)
      then have "locked env post (checkAndCommit env e5)" using locked_checkAndCommit [OF l5] v(1) by simp
      then show ?thesis using False by (auto simp add: res Let_def e5_def e4_def sp_def)
    qed
  qed
qed

lemma handlePrepare_locked:
  assumes "deterministic env post" and "omitEmptyBlock env" and "locked env post e" and "proposal env post req" and "m_view e < MAXVIEW"
  shows "locked env post (snd (handlePrepareMsg env req e))"
proof (cases "isValidPrepare env req e")
  case VALID
  define e1 where "e1 = on_cache (addRawPrepare req) (updateViewMap (idx req) (view req) e)"
  have v: "height req = m_consensusBlockNumber e" "view req = m_view e" "isEmpty req \<or> isHashSavedAfterCommit req e"
    using VALID by (auto simp: isValidPrepare_def hasConsensused_def isFuturePrepare_def split: if_splits)
  have c1: "m_reqCache e1 = addRawPrepare req (m_reqCache e)" by (simp add: e1_def frame)
  then have k1: "calm e e1"
    by (simp add: calm_def e1_def frame cleared_def live_def addRawPrepare_def)
  have "taken req e1" "m_rawPrepareCache (m_reqCache e1) = req" "m_consensusBlockNumber e1 = m_consensusBlockNumber e"
      "m_view e1 = m_view e" "m_committedPrepareCache (m_reqCache e1) = m_committedPrepareCache (m_reqCache e)"
    unfolding taken_def c1 by (simp_all add: addRawPrepare_def live_def e1_def frame)
  then have "locked env post (snd (execPrepareAndGenerateSignMsg env req e1))"
    using execPrepare_locked [OF assms(1,2) calm_locked [OF k1 assms(3)], of req] assms(4,5) v
    by (simp add: isHashSavedAfterCommit_def)
  then show ?thesis using VALID by (simp add: handlePrepareMsg_def e1_def)
next
  case FUTURE
  define e1 where "e1 = on_cache (addFuturePrepareCache req) (updateViewMap (idx req) (view req) e)"
  let ?c = "m_reqCache e"
  have c: "m_prepareCache (addFuturePrepareCache req ?c) = m_prepareCache ?c" "m_rawPrepareCache (addFuturePrepareCache req ?c) = m_rawPrepareCache ?c"
      "m_committedPrepareCache (addFuturePrepareCache req ?c) = m_committedPrepareCache ?c"
      "set (m_futurePrepareCache (addFuturePrepareCache req ?c)) \<subseteq> insert (to_uint64 (height req), req) (set (m_futurePrepareCache ?c))"
    using set_update_subset [of "to_uint64 (height req)" req "m_futurePrepareCache ?c"]
    by (auto simp: addFuturePrepareCache_def split: option.splits if_splits)
  have "prepares_ok env post (m_consensusBlockNumber e) (addFuturePrepareCache req ?c)"
    using lockedD(2) [OF assms(3)] assms(4) c(4) unfolding prepares_ok_def live_def c(1-3) list_all_iff by auto
  moreover have "sent_ok post (m_consensusBlockNumber e) (addFuturePrepareCache req ?c) m" if "m \<in> commits e" for m
    using lockedD(3) [OF assms(3) that] unfolding sent_ok_def live_def c(1-3) .
  ultimately have "locked env post e1" unfolding e1_def by (intro locked_caches [OF assms(3)]) (simp_all add: frame)
  then show ?thesis using FUTURE by (simp add: handlePrepareMsg_def e1_def)
qed (use assms in \<open>simp add: handlePrepareMsg_def\<close>)

lemma calm_updates:
  "calm e (raise (Forward p) e)" "calm e (updateViewMap i v e)" "calm e (on_time g e)"
  by (simp_all add: calm_def frame)

lemma calm_valid_vote: "calm e (snd (isValidSignReq env req e))" "calm e (snd (isValidCommitReq env req e))"
proof -
  have "cleared c (addSignReq r c)" "cleared c (addCommitReq r c)" for c r by (simp_all add: cleared_core)
  then show "calm e (snd (isValidSignReq env req e))" "calm e (snd (isValidCommitReq env req e))"
    by (auto simp: isValidSignReq_def isValidCommitReq_def calm_def frame split: CheckResult.split)
qed

lemma locked_sign:
  assumes "locked env post e" and "m_view e < MAXVIEW"
  shows "locked env post (snd (handleSignMsg env p e))"
proof (cases "decode_msg (data p) new_PBFTMsg")
  case (Inr req)
  obtain r e1 where x: "isValidSignReq env req e = (r, e1)" by fastforce
  have l1: "locked env post e1" "m_view e1 = m_view e"
    using calm_locked [OF calm_valid_vote(1) assms(1), of env req] frame_votes(1) [of e env req] x by (simp_all add: same_view_def)
  define e2 where "e2 = on_cache (addSignReq req) (updateViewMap (idx req) (view req) e1)"
  have "cleared c (addSignReq req c)" for c by (simp add: cleared_core)
  then have "calm e1 e2" by (simp add: e2_def calm_def frame)
  then have "locked env post (checkAndCommit env e2)"
    using locked_checkAndCommit [OF calm_locked [OF _ l1(1)]] l1(2) assms(2) by (simp add: e2_def frame)
  moreover have "locked env post (updateViewMap (idx req) (view req) e1)" by (rule calm_locked [OF calm_updates(2) l1(1)])
  ultimately show ?thesis using Inr x l1 by (cases r) (simp_all add: handleSignMsg_def e2_def)
qed (use assms in \<open>simp add: handleSignMsg_def\<close>)

lemma calm_commit_msg: "calm e (snd (handleCommitMsg env p e))"
proof (cases "decode_msg (data p) new_PBFTMsg")
  case (Inr req)
  obtain r e1 where x: "isValidCommitReq env req e = (r, e1)" by fastforce
  have k1: "calm e e1" using calm_valid_vote(2) [of e env req] x by simp
  define e2 where "e2 = on_cache (addCommitReq req) (updateViewMap (idx req) (view req) e1)"
  have "cleared c (addCommitReq req c)" for c by (simp add: cleared_core)
  then have "calm e1 e2" by (simp add: e2_def calm_def frame)
  then have "calm e (checkAndSave env e2)" using k1 calm_save calm_trans by blast
  moreover have "calm e (updateViewMap (idx req) (view req) e1)" by (rule calm_trans [OF k1 calm_updates(2)])
  ultimately show ?thesis using Inr x k1 by (cases r) (simp_all add: handleCommitMsg_def e2_def)
qed (simp add: handleCommitMsg_def)

lemma calm_change_view: "calm e (snd (checkAndChangeView v e))"
  using cleared_clearing(1) [of "m_reqCache e" v "chain_number (m_blockChain e)"]
  by (auto simp: checkAndChangeView_def Let_def calm_def frame)

lemma calm_valid_change: "calm e (snd (isValidViewChangeReq env req source e))"
proof -
  have "calm e (catchupView env req e)"
    by (simp add: catchupView_def sendViewChangeMsg_def calm_def frame cleared_core split: option.split)
  then show ?thesis by (simp add: isValidViewChangeReq_def Let_def)
qed

lemma calm_view_msg: "calm e (snd (handleViewChangeMsg env p e))"
proof (cases "decode_msg (data p) new_PBFTMsg")
  case (Inr req)
  obtain ok e1 where x: "isValidViewChangeReq env req (node_idx p) e = (ok, e1)" by fastforce
  have k1: "calm e e1" using calm_valid_change [of e env req "node_idx p"] x by simp
  define e2 where "e2 = on_cache (addViewChangeReq req (chain_number (m_blockChain e1))) e1"
  have "calm e1 e2" unfolding e2_def by (rule calm_on_cache) (simp add: cleared_core)
  obtain success e3 where y: "checkAndChangeView (view req) e2 = (success, e3)" by fastforce
  have "calm e2 e3" using calm_change_view [of e2 "view req"] y by simp
  then have k3: "calm e e3" using k1 \<open>calm e1 e2\<close> calm_trans by blast
  have "calm e3 (changeViewForFastViewChange (e3\<lparr>m_toView := v\<rparr>))" for v by (simp add: calm_def frame)
  then have "calm e (changeViewForFastViewChange (e3\<lparr>m_toView := v\<rparr>))" for v using k3 calm_trans by blast
  then show ?thesis using Inr x y k1 k3 by (auto simp: handleViewChangeMsg_def e2_def split: prod.split bool.split)
qed (simp add: handleViewChangeMsg_def)

lemma calm_timeout: "calm e (checkTimeout env e)"
proof (cases "isTimeout (steady_clock e) (m_timeManager e)")
  case True
  have core: "cleared c (removeInvalidViewChange v b c)" "cleared c (addViewChangeReq r n c)" for v b c r n by (simp_all add: cleared_core)
  then have k: "calm e' (on_cache (removeInvalidViewChange v b) e')" "calm e' (broadcastViewChangeReq env e')" for v b e'
    by (simp_all add: calm_def broadcastViewChangeReq_def Let_def frame)
  have r: "calm e' (raise ev e'')" if "calm e' e''" "\<And>m. ev \<noteq> SendCommit m" for e' e'' ev
    using that by (auto simp: calm_def frame split: event.split)
  have t: "calm e' (on_time g e'')" "calm e' (e''\<lparr>m_fastViewChange := x\<rparr>)" "calm e' (e''\<lparr>m_toView := v, m_leaderFailed := x\<rparr>)"
    if "calm e' e''" for e' e'' g x v
    using that by (simp_all add: calm_def frame)
  have fin: "calm e (raise OnViewChange (snd (checkAndChangeView v (broadcastViewChangeReq env (on_cache (removeInvalidViewChange w b) e')))))"
    if "calm e e'" for v w b e'
    by (intro r calm_trans [OF calm_trans [OF calm_trans [OF that k(1)] k(2)] calm_change_view]) simp
  have "calm e (if m_lastConsensusTime (m_timeManager e) \<noteq> 0
      then (if height (m_prepareCache (m_reqCache (e\<lparr>m_fastViewChange := False\<rparr>))) > number (m_highestBlock (e\<lparr>m_fastViewChange := False\<rparr>))
        then raise (OnTimeout (m_sealingNumber (e\<lparr>m_fastViewChange := False\<rparr>))) (e\<lparr>m_fastViewChange := False\<rparr>)
        else e\<lparr>m_fastViewChange := False\<rparr>) else e)"
    by (simp add: r t)
  then show ?thesis unfolding checkTimeout_def if_P [OF True] Let_def by (intro fin t(1) r t(3)) simp_all
qed (simp add: checkTimeout_def)

lemma calm_resetConfig: "resetConfig env e = Inr e' \<Longrightarrow> calm e e'"
  by (auto simp: resetConfig_def updateConsensusNodeList_def resetConsensusTimeout_def Let_def calm_def commits_def on_time_def
      split: if_splits option.splits)

lemma report_locked:
  assumes "reportBlockWithoutLock env b e = Inr e'"
  shows "calm e e'"
proof (cases "chain_number (m_blockChain e) = 0 \<or> number (m_highestBlock e) < number (blockHeader b)")
  case True
  define e1 where "e1 = e\<lparr>m_highestBlock := blockHeader b\<rparr>"
  define e2 where "e2 = (if number (m_highestBlock e1) \<ge> m_consensusBlockNumber e1 then
                 on_cache (delInvalidViewChange (m_highestBlock e1))
                   (on_time (\<lambda>t. t\<lparr>m_lastConsensusTime := steady_clock e1, m_changeCycle := 0\<rparr>)
                     (e1\<lparr>m_view := 0, m_toView := 0, m_leaderFailed := False,
                        m_consensusBlockNumber := number (m_highestBlock e1) + 1\<rparr>))
               else e1)"
  obtain e3 where e3: "resetConfig env e2 = Inr e3"
    and e': "e' = on_cache (delCache (m_highestBlock e3))
             (raise (OnCommitBlock (number (blockHeader b)) (length (transactions b)) (m_changeCycle (m_timeManager e3))) e3)"
    using assms True unfolding reportBlockWithoutLock_def if_P [OF True] Let_def e1_def [symmetric] e2_def [symmetric]
    by (cases "resetConfig env e2") auto
  have "cleared c (delInvalidViewChange h c)" for c h by (simp add: cleared_core)
  then have "calm e e2" by (auto simp: e2_def e1_def calm_def commits_def on_cache_def on_time_def)
  moreover have "calm e2 e3" by (rule calm_resetConfig) fact
  moreover have "calm e3 e'" unfolding e' using cleared_clearing(2) by (simp add: calm_def frame)
  ultimately show ?thesis using calm_trans by blast
qed (use assms in \<open>simp add: reportBlockWithoutLock_def\<close>)

text \<open>A received packet that carries a prepare request carries a proper one.\<close>

definition proper_packet :: "pbft_env \<Rightarrow> (string \<Rightarrow> string) \<Rightarrow> PBFTMsgPacket \<Rightarrow> bool" where
  "proper_packet env post p \<longleftrightarrow> packet_id p \<noteq> PrepareReqPacket
     \<or> (case decode_prepare (data p) new_PrepareReq of Inl _ \<Rightarrow> True
        | Inr req \<Rightarrow> proposal env post (if prepareWithEmptyBlock p then req\<lparr>isEmpty := True\<rparr> else req))"

definition proper_action :: "pbft_env \<Rightarrow> (string \<Rightarrow> string) \<Rightarrow> action \<Rightarrow> PBFTEngine \<Rightarrow> bool" where
  "proper_action env post a e \<longleftrightarrow> m_view e < MAXVIEW \<and> (case a of Receive p \<Rightarrow> proper_packet env post p | _ \<Rightarrow> True)"

lemma locked_packet:
  assumes "deterministic env post" and "omitEmptyBlock env" and "locked env post e" and "proper_packet env post p"
    and "packet_id p = PrepareReqPacket" and "m_view e < MAXVIEW"
  shows "locked env post (snd (handlePrepareMsg_packet env p e))"
proof (cases "decode_prepare (data p) new_PrepareReq :: prepare result")
  case (Inr req)
  let ?req = "if prepareWithEmptyBlock p then req\<lparr>isEmpty := True\<rparr> else req"
  have "proposal env post ?req" using assms(4,5) Inr by (simp add: proper_packet_def)
  from handlePrepare_locked [OF assms(1-3) this assms(6)]
  show ?thesis using Inr by (simp add: handlePrepareMsg_packet_def Let_def case_prod_beta)
qed (use assms in \<open>simp add: handlePrepareMsg_packet_def\<close>)

lemma locked_handleMsg:
  assumes "deterministic env post" and "omitEmptyBlock env" and "locked env post e" and "proper_packet env post p" and "m_view e < MAXVIEW"
  shows "locked env post (handleMsg env p e)"
proof -
  have fwd: "locked env post x \<Longrightarrow> locked env post (if b then raise (Forward p) x else x)" for x b
    using calm_locked [OF calm_updates(1)] by simp
  show ?thesis
    unfolding handleMsg_def Let_def case_prod_beta
    using fwd locked_packet [OF assms(1-4) _ assms(5)] locked_sign [OF assms(3,5), of p]
      calm_locked [OF calm_commit_msg assms(3)] calm_locked [OF calm_view_msg assms(3)] assms(3)
    by (auto split: if_split)
qed

lemma locked_future:
  assumes "deterministic env post" and "omitEmptyBlock env" and "locked env post e" and "m_view e < MAXVIEW"
  shows "locked env post (handleFutureBlock env e)"
proof (cases "futurePrepareCache (to_uint64 (m_consensusBlockNumber e)) (m_reqCache e)")
  case (Some p)
  then have "proposal env post p"
    using lockedD(2) [OF assms(3)] by (force simp: futurePrepareCache_def prepares_ok_def list_all_iff dest: map_of_SomeD)
  then have l: "locked env post (snd (handlePrepareMsg env p e))" by (rule handlePrepare_locked [OF assms(1-3) _ assms(4)])
  have "calm e' (on_cache (eraseHandledFutureReq k) e')" for k e' by (rule calm_on_cache) (rule cleared_clearing)
  from calm_locked [OF this l] show ?thesis using Some assms(3) by (simp add: handleFutureBlock_def)
qed (use assms in \<open>simp add: handleFutureBlock_def\<close>)

lemma locked_generate:
  assumes "deterministic env post" and "omitEmptyBlock env" and "locked env post e" and "m_view e < MAXVIEW"
  shows "locked env post (generatePrepare env b e)"
proof -
  define req where "req = fst (constructPrepareReq env b (e\<lparr>m_notifyNextLeaderSeal := False\<rparr>))"
  define e1 where "e1 = snd (constructPrepareReq env b (e\<lparr>m_notifyNextLeaderSeal := False\<rparr>))"
  have k1: "calm e e1" "m_view e1 = m_view e" by (simp_all add: e1_def constructPrepareReq_def Let_def calm_def frame)
  have l1: "locked env post e1" by (rule calm_locked [OF k1(1) assms(3)])
  have "proposal env post req"
    by (simp add: req_def constructPrepareReq_def Let_def proposal_def block_of_def new_PrepareReq_block_def sign_msg_def)
  then have "locked env post (snd (handlePrepareMsg env req e1))"
    using handlePrepare_locked [OF assms(1,2) l1] k1(2) assms(4) by simp
  moreover have "calm e' (e'\<lparr>m_generatePrepare := x\<rparr>)" for e' x by (simp add: calm_def frame)
  moreover have "calm e1 (on_time g (changeViewForFastViewChange (e1\<lparr>m_leaderFailed := True\<rparr>)))" for g by (simp add: calm_def frame)
  ultimately show ?thesis
    using assms(3) l1 unfolding generatePrepare_def case_prod_beta e1_def [symmetric] req_def [symmetric]
    by (auto intro: calm_locked)
qed

lemma new_PrepareReq_fields [simp]:
  "\<not> isEmpty (new_PrepareReq :: prepare)" "view (new_PrepareReq :: prepare) = MAXVIEW" "height (new_PrepareReq :: prepare) = -1"
  by (simp_all add: new_PrepareReq_def new_PBFTMsg_def PBFTMsg.defs)

lemma locked_shouldSeal:
  assumes "deterministic env post" and "omitEmptyBlock env" and "locked env post e" and "m_view e < MAXVIEW"
  shows "locked env post (snd (engine_shouldSeal env e))"
proof -
  let ?com = "m_committedPrepareCache (m_reqCache e)"
  let ?p = "new_PrepareReq_again env e ?com"
  have "locked env post (rehandleCommitedPrepareCache env ?com e)" if "height ?com = m_consensusBlockNumber e"
  proof -
    have "proposal env post ?com" using lockedD(1,2) [OF assms(3)] that by (simp add: prepares_ok_def)
    then have p: "proposal env post ?p"
      by (simp add: proposal_def block_of_def new_PrepareReq_again_def sign_msg_def split: sum.splits option.splits)
    define e1 where "e1 = raise (SendPrepare ?p) e"
    have "calm e e1" "m_view e1 = m_view e" by (simp_all add: e1_def calm_def frame)
    then have "locked env post (snd (handlePrepareMsg env ?p e1))"
      using handlePrepare_locked [OF assms(1,2) calm_locked p] assms(3,4) by metis
    moreover have "calm e' (raise (NoteSealing n) e')" for e' n by (simp add: calm_def frame)
    ultimately show ?thesis by (simp add: rehandleCommitedPrepareCache_def Let_def e1_def) (metis calm_locked)
  qed
  then show ?thesis using assms(3) by (auto simp: engine_shouldSeal_def split: option.split)
qed

lemma locked_step:
  assumes "deterministic env post" and "omitEmptyBlock env" and "locked env post e" and "proper_action env post a e"
    and "engine_step env a e = Inr e'"
  shows "locked env post e'"
proof -
  note c = calm_locked [OF _ assms(3)]
  have v: "m_view e < MAXVIEW" using assms(4) by (simp add: proper_action_def)
  note h = assms(1-3) v
  show ?thesis
  proof (cases a)
    case (Receive p)
    then have "proper_packet env post p" using assms(4) by (simp add: proper_action_def)
    then show ?thesis using Receive assms(3,5) locked_handleMsg [OF assms(1-3) _ v] by (auto split: if_splits)
  next
    case CheckTimeout
    then show ?thesis using assms(3,5) c [OF calm_timeout] by (auto split: if_splits)
  next
    case HandleFuture
    then show ?thesis using assms(3,5) locked_future [OF h] by (auto split: if_splits)
  next
    case Garbage
    have "cleared c (collectGarbage b c)" for b c by (rule cleared_clearing)
    then have "calm e (engine_collectGarbage e)" by (simp add: engine_collectGarbage_def calm_def frame)
    then show ?thesis using Garbage assms(3,5) c by (auto split: if_splits)
  next
    case (Report n)
    then show ?thesis using assms(3,5) c [OF report_locked] by (auto split: option.splits)
  next
    case (Generate b)
    then show ?thesis using assms(5) locked_generate [OF h, of b] by simp
  next
    case ShouldSeal
    then show ?thesis using assms(5) locked_shouldSeal [OF h] by simp
  next
    case (CheckBlock b)
    then have "e' = e \<or> resetConfig env e = Inr e'"
      using assms(5) by (cases "resetConfig env e") (auto simp: checkBlock_def split: if_splits)
    then show ?thesis using assms(3) c [OF calm_resetConfig] by auto
  next
    case (Synced b)
    have "calm e (e\<lparr>m_blockChain := ch\<rparr>)" for ch by (simp add: calm_def frame)
    then show ?thesis using Synced assms(5) c by auto
  next
    case EnterGenerate
    have "calm e (generatePrepare_enter e)" by (simp add: generatePrepare_enter_def calm_def frame)
    then show ?thesis using EnterGenerate assms(5) c by simp
  next
    case (Disconnected nid)
    have "calm e (disconnected nid e)" by (simp add: disconnected_def calm_def frame cleared_core)
    then show ?thesis using Disconnected assms(5) c by simp
  next
    case (Tick s u)
    have "calm e (e\<lparr>steady_clock := s, utc_clock := u\<rparr>)" by (simp add: calm_def commits_def)
    then show ?thesis using Tick assms(5) c by simp
  next
    case (SyncStatus s)
    have "calm e (e\<lparr>m_blockSync := s\<rparr>)" by (simp add: calm_def commits_def)
    then show ?thesis using SyncStatus assms(5) c by simp
  qed
qed

lemma start_locked:
  assumes "start_engine env stored ch s steady utc = Inr e" and "\<And>p. stored = Some p \<Longrightarrow> proposal env post p"
  shows "locked env post e"
proof -
  define e0 where "e0 = on_time (initTimerManager steady 900) (new_PBFTEngine ch s steady utc)"
  have init: "(new_PBFTEngine ch s steady utc)\<lparr>m_consensusBlockNumber := 0, m_view := 0, m_toView := 0, m_leaderFailed := False,
                   m_reqCache := new_PBFTReqCache\<rparr> = new_PBFTEngine ch s steady utc"
    by (simp add: new_PBFTEngine_def)
  obtain e1 where e1: "reportBlockWithoutLock env (last ch) e0 = Inr e1"
    and e: "e = (case stored of None \<Rightarrow> e1 | Some p \<Rightarrow> on_cache (\<lambda>c. c\<lparr>m_committedPrepareCache := p\<rparr>) e1)"
    using assms(1) unfolding start_engine_def initPBFTEnv_def Let_def init
    by (cases "reportBlockWithoutLock env (last ch) e0")
      (auto simp: e0_def new_PBFTEngine_def new_TimeManager_def on_time_def)
  have "locked env post e0"
    by (simp add: locked_def e0_def new_PBFTEngine_def on_time_def commits_def prepares_ok_def live_def new_PBFTReqCache_def
        new_PrepareReq_def new_PBFTMsg_def PBFTMsg.defs)
  then have l1: "locked env post e1" using report_locked [OF e1] by (rule calm_locked [rotated])
  have "commits e0 = {}" by (simp add: e0_def new_PBFTEngine_def on_time_def commits_def)
  then have "commits e1 = {}" using report_locked [OF e1] by (simp add: calm_def)
  show ?thesis
  proof (cases stored)
    case (Some p)
    have "prepares_ok env post (m_consensusBlockNumber e1) ((m_reqCache e1)\<lparr>m_committedPrepareCache := p\<rparr>)"
      using lockedD(2) [OF l1] assms(2) [OF Some] by (simp add: prepares_ok_def live_def)
    then show ?thesis
      unfolding e Some option.case by (intro locked_caches [OF l1]) (simp_all add: frame \<open>commits e1 = {}\<close>)
  qed (use e l1 in simp)
qed

text \<open>
  C3: A node never sends commit requests for two different blocks of one height, whatever messages,
  timeouts, view changes, synchronised blocks and own proposals come in whatever order, provided that
  execution is deterministic, empty blocks are omitted, and each prepare request that is received names
  the hash of the block it carries and is marked as empty only when this block is.
\<close>

theorem one_commit_per_height:
  assumes "deterministic env post" and "omitEmptyBlock env" and "start_engine env stored ch s steady utc = Inr e0"
    and "\<forall>p. stored = Some p \<longrightarrow> proposal env post p" and "engine_reaches env (proper_action env post) e0 e"
    and "SendCommit r \<in> set (events e)" and "SendCommit r' \<in> set (events e)" and "height r = height r'"
  shows "block_hash r = block_hash r'"
proof -
  have "locked env post e0" using assms(3,4) by (auto intro: start_locked)
  with assms(5) have "locked env post e"
    by (induction rule: engine_reaches.induct) (auto dest: locked_step [OF assms(1,2)])
  from lockedD(4) [OF this _ _ assms(8)] show ?thesis using assms(6,7) unfolding commits_def by blast
qed

definition demo_block :: Block where
  "demo_block = \<lparr>blockHeader = \<lparr>number = 1, hash = replicate 32 (CHR ''b''), parentHash = replicate 32 (CHR ''g''), sealer = 0,
     sealerList = [demo_id], block_time = 1\<rparr>, transactions = [''t''], sigList = []\<rparr>"

lemma demo_deterministic: "deterministic demo_env id"
  by (simp add: deterministic_def demo_env_def)

lemma demo_env_fields:
  "pub demo_env = demo_id" "Sign demo_env h = h" "Verify demo_env i s h = (s = h)" "run_block demo_env b p = (b, Inr (Some 0))"
  "dbCommit demo_env b" "omitEmptyBlock demo_env" "\<not> allowFutureBlocks demo_env" "encodeProposal demo_env b = []"
  by (simp_all add: demo_env_def)

lemma demo_commits:
  "map (\<lambda>ev. case ev of SendCommit r \<Rightarrow> Some (height r, block_hash r) | _ \<Rightarrow> None) (events (generatePrepare demo_env demo_block demo_engine))
     = [None, None, None, None, None, Some (1, hash (blockHeader demo_block)), None, None]"
  by (simp add: generatePrepare_def constructPrepareReq_def handlePrepareMsg_def isValidPrepare_def isExistPrepare_def
     isSyncingHigherBlock_def hasConsensused_def isHashSavedAfterCommit_def isFuturePrepare_def isValidLeader_def getLeader_def
     demo_engine_def new_PBFTEngine_def new_PrepareReq_block_def sign_msg_def demo_sync_def nodeIdx_def demo_genesis_def Invalid256_def
     new_PBFTReqCache_def demo_block_def Let_def raise_def new_PrepareReq_def new_PBFTMsg_def PBFTMsg.defs zero_h256_def MAXVIEW_def
     checkSign_def getNodeIDByIndex_def getSealerByIndex_def zero_h512_def demo_id_def demo_env_fields updateViewMap_def on_cache_def
     on_time_def addRawPrepare_def clear_msg_def execPrepareAndGenerateSignMsg_def execBlock_def checkBlockValid_def base_checkBlockValid_def chain_number_def
     set_block_def needOmit_def new_PrepareReq_executed_def broadcastSignReq_def new_SignReq_def new_request_def addPrepareReq_def
     removeInvalidSignCache_def removeInvalidCommitCache_def erase_where_def addSignReq_def add_vote_def cacheExists_def entry_def
     checkAndCommit_def minValidNodes_def getSigCacheSize_def getSizeFromCache_def checkAndRemoveInvalidFutureReq_def
     updateCommittedPrepare_def broadcastCommitReq_def new_CommitReq_def addCommitReq_def checkAndSave_def getCommitCacheSize_def
     commit_prepared_def generateAndSetSigList_def commitBlock_def numberHash_def getBlockByNumber_def delCache_def
     new_TimeManager_def cong: let_weak_cong)

lemma demo_reached:
  "engine_reaches demo_env (proper_action demo_env id) demo_engine (generatePrepare demo_env demo_block demo_engine)"
  by (rule engine_next [OF engine_start, where a = "Generate demo_block"])
    (simp_all add: proper_action_def MAXVIEW_def demo_timeout)

lemma commits_image:
  "(\<lambda>r. (height r, block_hash r)) ` commits e =
     {x. Some x \<in> (\<lambda>ev. case ev of SendCommit r \<Rightarrow> Some (height r, block_hash r) | _ \<Rightarrow> None) ` set (events e)}"
  by (auto simp: commits_def image_iff split: event.splits) (metis event.exhaust)+

lemma demo_sent:
  "(\<lambda>r. (height r, block_hash r)) ` commits (generatePrepare demo_env demo_block demo_engine) = {(1, hash (blockHeader demo_block))}"
  unfolding commits_image list.set_map [symmetric] demo_commits by auto

lemma one_commit_per_height_witness:
  "block_hash ` {r \<in> commits (generatePrepare demo_env demo_block demo_engine). height r = 1} = {hash (blockHeader demo_block)}"
proof -
  define C where "C = commits (generatePrepare demo_env demo_block demo_engine)"
  have "(1, hash (blockHeader demo_block)) \<in> (\<lambda>r. (height r, block_hash r)) ` C" by (simp add: C_def demo_sent)
  then obtain r where r: "r \<in> C" "height r = 1" "block_hash r = hash (blockHeader demo_block)" by auto
  have C: "r \<in> C \<longleftrightarrow> SendCommit r \<in> set (events (generatePrepare demo_env demo_block demo_engine))" for r
    by (simp add: C_def commits_def)
  have none: "\<forall>p. None = Some p \<longrightarrow> proposal demo_env id p" by simp
  note one = one_commit_per_height [OF demo_deterministic demo_env_fields(6) demo_start none demo_reached]
  have "block_hash r' = block_hash r" if "r' \<in> C" "height r' = 1" for r'
    by (rule one) (use r(1) that(1) in \<open>simp only: C\<close>, use r(1) in \<open>simp only: C\<close>, simp only: r(2) that(2))
  then have "block_hash ` {r \<in> C. height r = 1} \<subseteq> {block_hash r}" by blast
  moreover have "block_hash r \<in> block_hash ` {r \<in> C. height r = 1}" using r(1,2) by (intro imageI) simp
  ultimately have "block_hash ` {r \<in> C. height r = 1} = {block_hash r}" by (intro equalityI) simp_all
  then show ?thesis unfolding C_def r(3) .
qed
section \<open>Ways around the lock\<close>

text \<open>The engine without its committed proposal.\<close>

definition unlocked :: "PBFTEngine \<Rightarrow> PBFTEngine" where
  "unlocked = on_cache (\<lambda>c. c\<lparr>m_committedPrepareCache := new_PrepareReq\<rparr>)"

lemma fields_hash_empty [simp]: "fields_hash env (m\<lparr>isEmpty := b\<rparr>) = fields_hash env m"
  by (simp add: fields_hash_def fieldsWithoutBlock_def)

lemma getLeader_unlocked: "getLeader (on_cache f e) = getLeader e" "getNodeIDByIndex (on_cache f e) = getNodeIDByIndex e"
  by (simp_all add: getLeader_def on_cache_def getNodeIDByIndex_def getSealerByIndex_def fun_eq_iff)



definition demo_locked :: PBFTEngine where
  "demo_locked = on_cache (\<lambda>c. c\<lparr>m_committedPrepareCache := new_PrepareReq\<lparr>height := 1\<rparr>\<rparr>) demo_engine"


end
