(* ===== verification/Quorums.thy ===== *)
theory Quorums
  imports Main
begin

text \<open>
  Quorums of nodes: the interface between the counting of votes and what the consensus protocols conclude
  from it.
\<close>

text \<open>Sets of at least \<open>q\<close> of \<open>n\<close> nodes share a node that is not among \<open>f\<close> faulty ones.\<close>

locale quorum =
  fixes n f q :: nat
  assumes overlap: "n + f < 2 * q"
begin

lemma common_node:
  assumes "A \<subseteq> {..<n}" and "B \<subseteq> {..<n}" and "q \<le> card A" and "q \<le> card B" and "finite F" and "card F \<le> f"
  shows "\<exists>i \<in> A \<inter> B. i \<notin> F"
proof (rule ccontr)
  assume "\<not> ?thesis"
  then have "card (A \<inter> B) \<le> card F" using assms(5) by (intro card_mono) auto
  moreover have "card (A \<union> B) + card (A \<inter> B) = card A + card B"
    using assms(1,2) by (metis card_Un_Int finite_subset finite_lessThan)
  moreover have "card (A \<union> B) \<le> n" using card_mono [of "{..<n}" "A \<union> B"] assms(1,2) by simp
  ultimately show False using overlap assms(3,4,6) by linarith
qed

lemma quorum_majority: "n < 2 * q"
  using overlap by simp

end

end
