(* ===== verification/PbftAgreement.thy ===== *)
theory PbftAgreement
  imports PbftSafety Quorums
begin

text \<open>
  Agreement of the nodes of a group: quorums of commit requests intersect in a node that is not faulty, and
  the lock of this node excludes two blocks of one height.
\<close>

section \<open>Agreement\<close>

lemma max_faulty_overlap: "Suc m + max_faulty (Suc m) < 2 * (Suc m - max_faulty (Suc m))"
proof -
  have "3 * (m div 3) \<le> m" by simp
  then show ?thesis unfolding max_faulty_def by simp
qed

interpretation sealer_quorum: quorum "Suc m" "max_faulty (Suc m)" "Suc m - max_faulty (Suc m)" for m
  by unfold_locales (rule max_faulty_overlap)

text \<open>The block a node appends to its chain when it has counted enough commit requests.\<close>

definition finalises :: "pbft_env \<Rightarrow> PBFTEngine \<Rightarrow> bool" where
  "finalises env e \<longleftrightarrow> m_blockChain (checkAndSave env e) \<noteq> m_blockChain e"

text \<open>
  The commit requests with good signatures in a node's cache come from where they say: a node that is not
  faulty has sent this request as a commit request.
\<close>

definition genuine :: "nat set \<Rightarrow> (nat \<Rightarrow> (int \<times> string) set) \<Rightarrow> pbft_env \<Rightarrow> PBFTEngine \<Rightarrow> bool" where
  "genuine F sent env e \<longleftrightarrow> list_all (\<lambda>(h, m). list_all (\<lambda>(k, r). checkSign env e r \<and> idx r \<notin> F \<longrightarrow> (height r, block_hash r) \<in> sent (idx r)) m)
     (m_commitCache (m_reqCache e))"

definition signs_once :: "pbft_env \<Rightarrow> PBFTEngine \<Rightarrow> bool" where
  "signs_once env e \<longleftrightarrow> (\<forall>(r :: PBFTMsg) (r' :: PBFTMsg). checkSign env e r \<and> checkSign env e r' \<and> block_hash r = block_hash r' \<and> idx r = idx r' \<longrightarrow> sig r = sig r')"

lemma finalises_quorum:
  assumes "engine_ok env S e" and "finalises env e" and "signs_once env e"
  shows "length S - max_faulty (length S) \<le> card (voters (checkSign env e)
           (entry (block_hash (m_prepareCache (m_reqCache e))) (m_commitCache (m_reqCache e))))"
proof -
  let ?h = "block_hash (m_prepareCache (m_reqCache e))" and ?q = "minValidNodes e" and ?v = "checkSign env e"
  let ?c1 = "getSigCacheSize ?v ?h ?q (m_reqCache e)"
  have rq: "requests_ok ?v (m_reqCache e)" and q: "?q = length S - max_faulty (length S)"
    using assms(1) by (simp_all add: engine_ok_def config_ok_def minValidNodes_def)
  have "?q \<le> fst (getCommitCacheSize ?v ?h ?q (snd ?c1))"
    using assms(2) by (auto simp: finalises_def checkAndSave_def Let_def case_prod_beta split: if_splits)
  moreover have "m_commitCache (snd ?c1) = m_commitCache (m_reqCache e)"
    by (simp add: getSigCacheSize_def Let_def split: prod.split)
  moreover have "requests_ok ?v (snd ?c1)" by (rule getSize_ok(1) [OF rq marks_ignored])
  ultimately show ?thesis
    using commit_voters [of ?v "snd ?c1" ?q ?h] assms(3) q unfolding signs_once_def by auto
qed

lemma voters_sent:
  assumes "engine_ok env S e" and "genuine F sent env e"
  shows "voters (checkSign env e) (entry h (m_commitCache (m_reqCache e))) \<subseteq> {..<length S}"
    "i \<in> voters (checkSign env e) (entry h (m_commitCache (m_reqCache e))) \<Longrightarrow> i \<notin> F \<Longrightarrow> \<exists>n. (n, h) \<in> sent i"
proof -
  let ?m = "entry h (m_commitCache (m_reqCache e))"
  have signed: "idx r < length S" if "checkSign env e (r :: PBFTMsg)" for r
    using that assms(1) by (auto simp: checkSign_def getNodeIDByIndex_def getSealerByIndex_def Let_def engine_ok_def
        config_ok_def split: option.splits if_splits)
  then show "voters (checkSign env e) ?m \<subseteq> {..<length S}" by (auto simp: voters_def)
  have "inner_ok (vote_ok (checkSign env e) h) ?m"
    using assms(1) requests_okD(2) [of "checkSign env e" "m_reqCache e"] by (auto simp: engine_ok_def)
  then have hash: "(k, r) \<in> set ?m \<Longrightarrow> block_hash r = h" for k r by (auto simp: inner_ok_def list_all_iff vote_ok_def)
  have "(height r, block_hash r) \<in> sent (idx r)" if "(k, r) \<in> set ?m" "checkSign env e r" "idx r \<notin> F" for k r
  proof (cases "map_of (m_commitCache (m_reqCache e)) h")
    case (Some m)
    then have "(h, m) \<in> set (m_commitCache (m_reqCache e))" by (rule map_of_SomeD)
    then show ?thesis using assms(2) that Some by (fastforce simp: genuine_def entry_def list_all_iff)
  qed (use that in \<open>simp add: entry_def\<close>)
  with hash show "i \<in> voters (checkSign env e) ?m \<Longrightarrow> i \<notin> F \<Longrightarrow> \<exists>n. (n, h) \<in> sent i"
    by (fastforce simp: voters_def)
qed

definition sent_by :: "PBFTEngine \<Rightarrow> (int \<times> string) set" where
  "sent_by e = (\<lambda>r. (height r, block_hash r)) ` commits e"


section \<open>A node alone agrees with itself\<close>

definition demo_request :: prepare where
  "demo_request = new_PrepareReq_executed demo_env demo_engine (new_PrepareReq_block demo_env demo_engine demo_block) demo_block (Some 0)"

definition demo_voted :: PBFTEngine where
  "demo_voted = broadcastCommitReq demo_env demo_request
     (broadcastSignReq demo_env demo_request (on_cache (addPrepareReq demo_request) demo_engine))"

lemma demo_request_fields:
  "height demo_request = 1" "view demo_request = 0" "block_hash demo_request = hash (blockHeader demo_block)"
  "pBlock demo_request = Some demo_block"
  by (simp_all add: demo_request_def new_PrepareReq_executed_def new_PrepareReq_block_def sign_msg_def demo_engine_def
      new_PBFTEngine_def demo_block_def)

lemma demo_voted_ok: "engine_ok demo_env [demo_id] demo_voted"
proof -
  have ok: "engine_ok demo_env [demo_id] demo_engine" by (rule start_ok [OF demo_sealers demo_start])
  define e1 where "e1 = on_cache (addPrepareReq demo_request) demo_engine"
  have "keeps demo_engine e1 (checkSign demo_env demo_engine)" by (simp add: e1_def keeps_def frame req_ok)
  then have ok1: "engine_ok demo_env [demo_id] e1" using ok by (rule keeps_ok)
  then have "config_ok demo_env [demo_id] e1" by (simp add: engine_ok_def)
  from keeps_ok [OF keeps_broadcasts(1) [OF demo_sealers(1) this] ok1]
  have ok2: "engine_ok demo_env [demo_id] (broadcastSignReq demo_env demo_request e1)" .
  then have "config_ok demo_env [demo_id] (broadcastSignReq demo_env demo_request e1)" by (simp add: engine_ok_def)
  from keeps_ok [OF keeps_broadcasts(2) [OF demo_sealers(1) this] ok2]
  show ?thesis unfolding demo_voted_def e1_def .
qed

lemma demo_votes:
  "m_commitCache (m_reqCache demo_voted) = [(hash (blockHeader demo_block), [(toHex (hash (blockHeader demo_block)) [], new_CommitReq demo_env demo_engine demo_request)])]"
  "m_signCache (m_reqCache demo_voted) = [(hash (blockHeader demo_block), [(toHex (hash (blockHeader demo_block)) [], new_SignReq demo_env demo_engine demo_request)])]"
  "m_prepareCache (m_reqCache demo_voted) = demo_request"
  "m_blockChain demo_voted = [demo_genesis]" "m_highestBlock demo_voted = blockHeader demo_genesis" "minValidNodes demo_voted = 1" "m_view demo_voted = 0"
  by (simp_all add: demo_voted_def broadcastCommitReq_def broadcastSignReq_def Let_def frame addPrepareReq_def removeInvalidSignCache_def
      removeInvalidCommitCache_def erase_where_def addSignReq_def addCommitReq_def add_vote_def cacheExists_def entry_def
      new_SignReq_def new_CommitReq_def new_request_def sign_msg_def demo_request_fields demo_env_fields demo_engine_def new_PBFTEngine_def
      new_PBFTReqCache_def raise_def on_cache_def nodeIdx_def minValidNodes_def)

lemma demo_new_vote:
  "block_hash (new_CommitReq demo_env demo_engine demo_request) = hash (blockHeader demo_block)" "height (new_CommitReq demo_env demo_engine demo_request) = 1"
  "\<not> isFuture (new_CommitReq demo_env demo_engine demo_request)" "\<not> isFuture (new_SignReq demo_env demo_engine demo_request)"
  "idx (new_CommitReq demo_env demo_engine demo_request) = 0"
  by (simp_all add: new_SignReq_def new_CommitReq_def new_request_def sign_msg_def demo_request_fields new_PBFTMsg_def nodeIdx_def demo_timeout)

lemma demo_finalises: "finalises demo_env demo_voted"
proof -
  let ?h = "hash (blockHeader demo_block)"
  let ?c1 = "getSigCacheSize (checkSign demo_env demo_voted) ?h 1 (m_reqCache demo_voted)"
  let ?c2 = "getCommitCacheSize (checkSign demo_env demo_voted) ?h 1 (snd ?c1)"
  have c1: "fst ?c1 = 1" "core (snd ?c1) = core (m_reqCache demo_voted)" "m_commitCache (snd ?c1) = m_commitCache (m_reqCache demo_voted)"
    by (simp_all add: sig_size demo_votes entry_def current_votes_def future_votes_def demo_new_vote Let_def)
      (simp add: getSigCacheSize_def Let_def demo_votes split: prod.split)
  have c2: "fst ?c2 = 1" "core (snd ?c2) = core (m_reqCache demo_voted)"
    using c1 by (simp_all add: commit_size demo_votes entry_def current_votes_def future_votes_def demo_new_vote Let_def)
  define e where "e = demo_voted\<lparr>m_reqCache := snd ?c2\<rparr>"
  have e: "m_prepareCache (m_reqCache e) = demo_request" "m_blockChain e = [demo_genesis]"
    by (simp_all add: e_def coreD [OF c2(2)] demo_votes del: One_nat_def)
  have hd: "blockHeader (snd (generateAndSetSigList q c b)) = blockHeader b" for q c b
    by (simp add: generateAndSetSigList_def Let_def split: option.split)
  have "commitBlock demo_env b [demo_genesis] = (CommitOK, [demo_genesis, b])" if "blockHeader b = blockHeader demo_block" for b
    by (simp add: commitBlock_def that demo_env_fields chain_number_def numberHash_def getBlockByNumber_def demo_block_def demo_genesis_def)
  from this [OF hd] have "m_blockChain (commit_prepared demo_env e) \<noteq> [demo_genesis]"
    by (simp add: commit_prepared_def Let_def e demo_request_fields frame)
  then show ?thesis
    using c1 c2 by (simp add: finalises_def checkAndSave_def Let_def case_prod_beta demo_votes demo_request_fields
        coreD [OF c2(2)] demo_genesis_def e_def del: One_nat_def)
qed

lemma demo_locked_replica: "locked demo_env id (generatePrepare demo_env demo_block demo_engine)"
proof -
  have "locked demo_env id demo_engine" by (rule start_locked [OF demo_start]) simp
  with demo_reached show ?thesis
    by (induction rule: engine_reaches.induct) (auto dest: locked_step [OF demo_deterministic demo_env_fields(6)])
qed


end
