(* ===== verification/RaftMessages.thy ===== *)
theory RaftMessages
  imports PbftMsg
begin

text \<open>
  The messages of the Raft consensus (\<open>libconsensus/raft/Common.h\<close>) and the packet around them
  (\<open>transDataToMessage\<close> of \<open>libconsensus/raft/RaftEngine.cpp\<close>).
\<close>

section \<open>Messages\<close>

text \<open>
  An index has 16 bits, a term is a \<open>size_t\<close>, heights are 64-bit signed integers. Flags and packet types are
  bytes, so that one that names no constant can be represented.
\<close>

record RaftMsg =
  idx :: nat
  raft_term :: nat
  height :: int
  blockHash :: string

record RaftVoteReq = RaftMsg +
  candidate :: nat
  lastLeaderTerm :: nat
  lastBlockNumber :: int

record RaftVoteResp = RaftMsg +
  voteFlag :: nat
  respLeaderTerm :: nat

record RaftHeartBeat = RaftMsg +
  leader :: nat
  uncommitedBlock :: string
  uncommitedBlockNumber :: int

record RaftHeartBeatResp = RaftMsg +
  uncommitedBlockHash :: string

definition VOTE_RESP_REJECT :: nat where "VOTE_RESP_REJECT = 0"
definition VOTE_RESP_LEADER_REJECT :: nat where "VOTE_RESP_LEADER_REJECT = 1"
definition VOTE_RESP_LASTTERM_ERROR :: nat where "VOTE_RESP_LASTTERM_ERROR = 2"
definition VOTE_RESP_OUTDATED :: nat where "VOTE_RESP_OUTDATED = 3"
definition VOTE_RESP_FIRST_VOTE :: nat where "VOTE_RESP_FIRST_VOTE = 4"
definition VOTE_RESP_DISCARD :: nat where "VOTE_RESP_DISCARD = 5"
definition VOTE_RESP_GRANTED :: nat where "VOTE_RESP_GRANTED = 6"

definition RaftVoteReqPacket :: nat where "RaftVoteReqPacket = 0"
definition RaftVoteRespPacket :: nat where "RaftVoteRespPacket = 1"
definition RaftHeartBeatPacket :: nat where "RaftHeartBeatPacket = 2"
definition RaftHeartBeatRespPacket :: nat where "RaftHeartBeatRespPacket = 3"
definition RaftPacketCount :: nat where "RaftPacketCount = 4"

lemmas raft_numbers =
  VOTE_RESP_REJECT_def VOTE_RESP_LEADER_REJECT_def VOTE_RESP_LASTTERM_ERROR_def VOTE_RESP_OUTDATED_def
  VOTE_RESP_FIRST_VOTE_def VOTE_RESP_DISCARD_def VOTE_RESP_GRANTED_def
  RaftVoteReqPacket_def RaftVoteRespPacket_def RaftHeartBeatPacket_def RaftHeartBeatRespPacket_def RaftPacketCount_def

definition hasData :: "'a RaftHeartBeat_scheme \<Rightarrow> bool" where
  "hasData hb \<longleftrightarrow> length (uncommitedBlock hb) \<noteq> 0"

section \<open>Encoding\<close>

text \<open>As in PBFT, \<open><<\<close> writes the low 32 bits of an integer.\<close>

definition stream_raft :: "'a RaftMsg_scheme \<Rightarrow> RLPStream \<Rightarrow> RLPStream result" where
  "stream_raft m s =
     rbind (append_unsigned (int (idx m)) s) (\<lambda>s.
     rbind (append_unsigned (int (raft_term m)) s) (\<lambda>s.
     rbind (append_unsigned (height m) s) (append_bytes (blockHash m) False)))"

definition stream_VoteReq :: "RaftVoteReq \<Rightarrow> RLPStream \<Rightarrow> RLPStream result" where
  "stream_VoteReq m s =
     rbind (stream_raft m s) (\<lambda>s.
     rbind (append_unsigned (int (candidate m)) s) (\<lambda>s.
     rbind (append_unsigned (int (lastLeaderTerm m)) s) (append_unsigned (lastBlockNumber m))))"

definition stream_VoteResp :: "RaftVoteResp \<Rightarrow> RLPStream \<Rightarrow> RLPStream result" where
  "stream_VoteResp m s =
     rbind (stream_raft m s) (\<lambda>s.
     rbind (append_unsigned (int (voteFlag m)) s) (append_unsigned (int (respLeaderTerm m))))"

definition stream_HeartBeat :: "RaftHeartBeat \<Rightarrow> RLPStream \<Rightarrow> RLPStream result" where
  "stream_HeartBeat m s =
     rbind (stream_raft m s) (\<lambda>s.
     rbind (append_unsigned (int (leader m)) s) (\<lambda>s.
     rbind (append_bytes (uncommitedBlock m) False s) (append_unsigned (uncommitedBlockNumber m))))"

definition stream_HeartBeatResp :: "RaftHeartBeatResp \<Rightarrow> RLPStream \<Rightarrow> RLPStream result" where
  "stream_HeartBeatResp m s = rbind (stream_raft m s) (append_bytes (uncommitedBlockHash m) False)"

definition populate_raft :: "string \<Rightarrow> RaftMsg result" where
  "populate_raft d =
     rbind (rbind (field 0 d) (toInt 2 Strict)) (\<lambda>i.
     rbind (rbind (field 1 d) (toInt 8 Strict)) (\<lambda>t.
     rbind (rbind (field 2 d) (toInt 8 Strict)) (\<lambda>h.
     rbind (rbind (field 3 d) (toHash 32 VeryStrict)) (\<lambda>bh.
       Inr \<lparr>idx = i, raft_term = t, height = to_int64 h, blockHash = bh\<rparr>))))"

definition populate_VoteReq :: "string \<Rightarrow> RaftVoteReq result" where
  "populate_VoteReq d =
     rbind (populate_raft d) (\<lambda>m.
     rbind (rbind (field 4 d) (toInt 2 Strict)) (\<lambda>c.
     rbind (rbind (field 5 d) (toInt 8 Strict)) (\<lambda>t.
     rbind (rbind (field 6 d) (toInt 8 Strict)) (\<lambda>n.
       Inr (RaftMsg.extend m \<lparr>candidate = c, lastLeaderTerm = t, lastBlockNumber = to_int64 n\<rparr>)))))"

definition populate_VoteResp :: "string \<Rightarrow> RaftVoteResp result" where
  "populate_VoteResp d =
     rbind (populate_raft d) (\<lambda>m.
     rbind (rbind (field 4 d) (toInt 1 Strict)) (\<lambda>f.
     rbind (rbind (field 5 d) (toInt 8 Strict)) (\<lambda>t.
       Inr (RaftMsg.extend m \<lparr>voteFlag = f, respLeaderTerm = t\<rparr>))))"

definition populate_HeartBeat :: "string \<Rightarrow> RaftHeartBeat result" where
  "populate_HeartBeat d =
     rbind (populate_raft d) (\<lambda>m.
     rbind (rbind (field 4 d) (toInt 2 Strict)) (\<lambda>l.
     rbind (rbind (field 5 d) (toString LaissezFaire)) (\<lambda>b.
     rbind (rbind (field 6 d) (toInt 8 Strict)) (\<lambda>n.
       Inr (RaftMsg.extend m \<lparr>leader = l, uncommitedBlock = b, uncommitedBlockNumber = to_int64 n\<rparr>)))))"

definition populate_HeartBeatResp :: "string \<Rightarrow> RaftHeartBeatResp result" where
  "populate_HeartBeatResp d =
     rbind (populate_raft d) (\<lambda>m.
     rbind (rbind (field 4 d) (toHash 32 Strict)) (\<lambda>h.
       Inr (RaftMsg.extend m \<lparr>uncommitedBlockHash = h\<rparr>)))"

text \<open>The worker reads the fields out of the string that is the only item of a packet's data.\<close>

definition read_with :: "(string \<Rightarrow> 'm result) \<Rightarrow> string \<Rightarrow> 'm result" where
  "read_with reader bs = rbind (new_RLP bs VeryStrict) (\<lambda>d. rbind (field 0 d) reader)"

section \<open>Packets\<close>

record RaftMsgPacket =
  nodeIdx :: nat
  nodeId :: string
  packetType :: nat
  data :: string
  endpoint :: string

definition new_RaftMsgPacket :: RaftMsgPacket where
  "new_RaftMsgPacket = \<lparr>nodeIdx = 0, nodeId = replicate 64 (CHR 0x00), packetType = RaftVoteReqPacket, data = [], endpoint = []\<rparr>"

definition encode_raft_packet :: "RaftMsgPacket \<Rightarrow> string result" where
  "encode_raft_packet p =
     rbind (rbind (append_unsigned (int (packetType p)) new_stream) (append_bytes (data p) False)) out"

definition decode_raft_packet :: "string \<Rightarrow> RaftMsgPacket \<Rightarrow> RaftMsgPacket result" where
  "decode_raft_packet bs p =
     rbind (rbind (new_RLP (cropped bs 0 1) VeryStrict) (toInt 4 ThrowOnFail)) (\<lambda>t.
     rbind (rbind (new_RLP (cropped_from bs 1) VeryStrict) (toString LaissezFaire)) (\<lambda>d.
       Inr (p\<lparr>packetType := t mod 256, data := d\<rparr>)))"

definition raft_setOtherField :: "nat \<Rightarrow> string \<Rightarrow> string \<Rightarrow> RaftMsgPacket \<Rightarrow> RaftMsgPacket" where
  "raft_setOtherField i n e p = p\<lparr>nodeIdx := i, nodeId := n, endpoint := e\<rparr>"

definition transDataToMessage :: "(RLPStream \<Rightarrow> RLPStream result) \<Rightarrow> nat \<Rightarrow> string result" where
  "transDataToMessage write t =
     rbind (wrap_fields write) (\<lambda>d. encode_raft_packet (new_RaftMsgPacket\<lparr>data := d, packetType := t\<rparr>))"

section \<open>What a receiver reads\<close>

text \<open>An unsigned number of 32 bits as an item.\<close>

abbreviation word32 :: "int \<Rightarrow> item" where "word32 i \<equiv> number (nat (i mod 2 ^ 32))"

definition raft_items :: "'a RaftMsg_scheme \<Rightarrow> item list" where
  "raft_items m = [word32 (int (idx m)), word32 (int (raft_term m)), word32 (height m), Data (blockHash m)]"

lemma stream_raft_items:
  "length (blockHash m) = 32 \<Longrightarrow> stream_raft m \<lparr>m_out = o1, m_listStack = []\<rparr>
     = Inr \<lparr>m_out = o1 @ encodings (raft_items m), m_listStack = []\<rparr>"
  by (simp add: stream_raft_def raft_items_def writes_open fits_def del: encoding.simps)

lemma length_word32: "length (encoding (word32 i)) \<le> 5"
  using length_number [OF bytes_of_unsigned, of i] by (simp del: encoding.simps)

lemma length_raft_items: "length (blockHash m) = 32 \<Longrightarrow> length (encodings (raft_items m)) \<le> 60"
  using length_word32 [of "int (idx m)"] length_word32 [of "int (raft_term m)"] length_word32 [of "height m"] data_bound [of "blockHash m"]
  by (simp add: raft_items_def fits_def del: encoding.simps)

lemma read_word32:
  "toInt 8 Strict (encoding (word32 i)) = Inr (nat (i mod 2 ^ 32))"
  "i = int k \<Longrightarrow> k < 2 ^ 16 \<Longrightarrow> toInt 2 Strict (encoding (word32 i)) = Inr k"
  "i = int k \<Longrightarrow> k < 256 \<Longrightarrow> toInt 1 Strict (encoding (word32 i)) = Inr k"
proof -
  have "bytesRequired (nat (i mod 2 ^ 32)) \<le> 8" using bytes_of_unsigned [of i] by simp
  then show "toInt 8 Strict (encoding (word32 i)) = Inr (nat (i mod 2 ^ 32))" by (rule toInt_compact) simp
  show "toInt 2 Strict (encoding (word32 i)) = Inr k" if "i = int k" "k < 2 ^ 16"
  proof -
    from that have "nat (i mod 2 ^ 32) = k" by simp
    moreover have "bytesRequired k \<le> 2" using that bytesRequired_le [of k 2] by simp
    ultimately show ?thesis by (simp only:) (rule toInt_compact, simp_all)
  qed
  show "toInt 1 Strict (encoding (word32 i)) = Inr k" if "i = int k" "k < 256"
  proof -
    from that have "nat (i mod 2 ^ 32) = k" by simp
    moreover have "bytesRequired k \<le> 1" using that bytesRequired_le [of k 1] by simp
    ultimately show ?thesis by (simp only:) (rule toInt_compact, simp_all)
  qed
qed

lemma raft_items_at:
  "item_at (raft_items m @ ys) 0 = encoding (word32 (int (idx m)))" "item_at (raft_items m @ ys) 1 = encoding (word32 (int (raft_term m)))"
  "item_at (raft_items m @ ys) 2 = encoding (word32 (height m))" "item_at (raft_items m @ ys) 3 = encoding (Data (blockHash m))"
  by (simp_all add: item_at_def raft_items_def del: encoding.simps)

lemma raft_items_extra: "item_at (raft_items m @ ys) (i + 4) = item_at ys i"
  by (simp add: item_at_def raft_items_def del: encoding.simps)

text \<open>What is read of the common fields: the term and the height modulo \<open>2 ^ 32\<close>.\<close>

definition received :: "'a RaftMsg_scheme \<Rightarrow> RaftMsg" where
  "received m = \<lparr>idx = idx m, raft_term = raft_term m mod 2 ^ 32, height = height m mod 2 ^ 32, blockHash = blockHash m\<rparr>"

lemma populate_raft_items:
  assumes "length (blockHash m) = 32" and "idx m < 2 ^ 16"
    and at: "\<And>i. i < 4 \<Longrightarrow> field i d = Inr (item_at (raft_items m @ ys) i)"
  shows "populate_raft d = Inr (received m)"
proof -
  have f: "field 0 d = Inr (encoding (word32 (int (idx m))))" "field 1 d = Inr (encoding (word32 (int (raft_term m))))"
    "field 2 d = Inr (encoding (word32 (height m)))" "field 3 d = Inr (encoding (Data (blockHash m)))"
    using at [of 0] at [of 1] at [of 2] at [of 3] by (simp_all only: raft_items_at)
  have h: "toHash 32 VeryStrict (encoding (Data (blockHash m))) = Inr (blockHash m)" by (rule toHash_strict [OF assms(1)]) simp
  have t: "nat (int k mod 2 ^ 32) = k mod 2 ^ 32" for k by (simp add: nat_mod_distrib)
  show ?thesis
    unfolding populate_raft_def f
    by (simp only: rbind_simps read_word32(1) read_word32(2) [OF refl assms(2)] h unsigned_read) (simp only: t received_def)
qed


text \<open>A packet written around the items \<open>xs\<close> of a message, and its reading.\<close>

lemma packet_type_read:
  assumes "t < 4"
  shows "rbind (new_RLP (encoding (word32 (int t))) VeryStrict) (toInt 4 ThrowOnFail) = Inr t" "length (encoding (word32 (int t))) = 1"
proof -
  have w: "nat (int t mod 2 ^ 32) = t" using assms by simp
  have "t = 0 \<or> t = 1 \<or> t = 2 \<or> t = 3" using assms by auto
  then have b: "number t = Data (if t = 0 then [] else [char_of t])"
    by (elim disjE) (simp_all add: compact_0 bytesRequired.simps)
  then have e: "encoding (number t) = [char_of (if t = 0 then 128 else t)]"
    using assms by (simp add: item_header_def byte_at_def)
  show "length (encoding (word32 (int t))) = 1" unfolding w e by simp
  have g: "requireGood (encoding (number t)) = Inr ()" "payload (encoding (number t)) = Inr (if t = 0 then [] else [char_of t])"
      "\<not> isList (encoding (number t))"
    unfolding b using data_facts [of "if t = 0 then [] else [char_of t]"] by (simp_all add: fits_def del: encoding.simps)
  have i: "isInt (encoding (number t)) = Inr True"
    unfolding e isInt_def using g(1) assms unfolding e by (simp add: byte_at_def isNull_def rlp_constants)
  have "toInt 4 ThrowOnFail (encoding (number t)) = Inr t"
    unfolding toInt_def g(1) i using g(2,3) assms by (simp add: e isNull_def flag_def rlp_flags del: encoding.simps)
  then show "rbind (new_RLP (encoding (word32 (int t))) VeryStrict) (toInt 4 ThrowOnFail) = Inr t"
    unfolding w by (subst new_RLP_encoding) (simp_all add: e fits_def del: encoding.simps)
qed

lemma message_bound:
  assumes "length (encodings xs) < 2 ^ 63"
  shows "length (encoding (Items [Data (encodings xs)])) \<le> 2 ^ 63 + 18"
proof -
  have f: "fits (length (encodings xs))" using assms by (simp add: fits_def)
  have "length (encoding (Data (encodings xs))) \<le> 2 ^ 63 + 9" using data_bound [OF f] assms by linarith
  moreover from this have "fits (length (encoding (Data (encodings xs))))" by (simp add: fits_def del: encoding.simps)
  ultimately show ?thesis
    using header_bound [of "length (encoding (Data (encodings xs)))" 192] by (simp add: Let_def del: encoding.simps(1))
qed

lemma packet_roundtrip:
  assumes wr: "writer new_stream = Inr \<lparr>m_out = encodings xs, m_listStack = []\<rparr>" and len: "length (encodings xs) < 2 ^ 63"
    and t: "t < 4"
  shows "\<exists>bs d. transDataToMessage writer t = Inr bs \<and> decode_raft_packet bs p = Inr (p\<lparr>packetType := t, data := d\<rparr>)
    \<and> read_with reader d = reader (encoding (Data (encodings xs))) \<and> wrap_fields writer = Inr d"
proof -
  let ?d = "encoding (Items [Data (encodings xs)])" and ?t = "encoding (word32 (int t))"
  have fit: "fits (length (encodings xs) + 18)" using len by (simp add: fits_def)
  note w = wrapped [of writer xs, OF wr fit]
  have l: "length ?d \<le> 2 ^ 63 + 18" by (rule message_bound [OF len])
  then have f: "fits (length ?d)" by (simp add: fits_def del: encoding.simps)
  have "encode_raft_packet (new_RaftMsgPacket\<lparr>data := ?d, packetType := t\<rparr>) = Inr (?t @ encoding (Data ?d))"
    by (simp add: encode_raft_packet_def new_stream_def writes_open f out_def del: encoding.simps)
  then have "transDataToMessage writer t = Inr (?t @ encoding (Data ?d))"
    unfolding transDataToMessage_def w(1) by simp
  moreover have "decode_raft_packet (?t @ encoding (Data ?d)) p = Inr (p\<lparr>packetType := t, data := ?d\<rparr>)"
  proof -
    have c: "cropped (?t @ bs) 0 1 = ?t" "cropped_from (?t @ bs) 1 = bs" for bs
      using packet_type_read(2) [OF t] by (simp_all add: cropped_def cropped_from_def del: encoding.simps)
    have "new_RLP (encoding (Data ?d)) VeryStrict = Inr (encoding (Data ?d))"
      by (rule new_RLP_encoding) (use data_bound [OF f] l in \<open>simp add: fits_def del: encoding.simps\<close>)
    then show ?thesis
      unfolding decode_raft_packet_def c packet_type_read(1) [OF t] by (simp add: toString_data [OF f] del: encoding.simps) (use t in simp)
  qed
  moreover have "read_with reader ?d = reader (encoding (Data (encodings xs)))"
    unfolding read_with_def w(2) rbind_simps w(3) ..
  ultimately show ?thesis using w(1) by blast
qed

definition raft_ok :: "'a RaftMsg_scheme \<Rightarrow> bool" where
  "raft_ok m \<longleftrightarrow> length (blockHash m) = 32 \<and> idx m < 2 ^ 16"

text \<open>A message \<open>m\<close> reaches the worker of the receiver, out of a packet of type \<open>t\<close>.\<close>

definition delivers :: "(RLPStream \<Rightarrow> RLPStream result) \<Rightarrow> nat \<Rightarrow> (string \<Rightarrow> 'm result) \<Rightarrow> 'm \<Rightarrow> bool" where
  "delivers writer t reader m \<longleftrightarrow>
     (\<exists>bs d. transDataToMessage writer t = Inr bs \<and> decode_raft_packet bs new_RaftMsgPacket = Inr (new_RaftMsgPacket\<lparr>packetType := t, data := d\<rparr>)
        \<and> read_with reader d = Inr m)"

lemma delivers_raft:
  assumes ok: "length (blockHash m) = 32" "idx m < 2 ^ 16" and t: "t < 4"
    and wr: "writer new_stream = Inr \<lparr>m_out = encodings (raft_items m @ ys), m_listStack = []\<rparr>" and ys: "length (encodings ys) < 2 ^ 62"
    and rd: "\<And>e. populate_raft e = Inr (received m) \<Longrightarrow> (\<And>i. i < 4 \<Longrightarrow> field (i + 4) e = Inr (item_at ys i)) \<Longrightarrow> reader e = Inr x"
  shows "delivers writer t reader x"
proof -
  let ?xs = "raft_items m @ ys"
  have len: "length (encodings ?xs) < 2 ^ 63" using length_raft_items [OF ok(1)] ys by simp
  then have "fits (length (encodings ?xs) + 18)" by (simp add: fits_def)
  note w = wrapped(4) [of writer ?xs, OF wr this]
  have "populate_raft (encoding (Data (encodings ?xs))) = Inr (received m)"
    by (rule populate_raft_items [OF ok, where ys = ys]) (rule w, simp)
  moreover have "field (i + 4) (encoding (Data (encodings ?xs))) = Inr (item_at ys i)" if "i < 4" for i
    using w [of "i + 4"] that raft_items_extra [of m ys i] by (simp only:) simp
  ultimately have "reader (encoding (Data (encodings ?xs))) = Inr x" by (rule rd)
  with packet_roundtrip [where writer = writer and xs = ?xs and reader = reader and p = new_RaftMsgPacket, OF wr len t] show ?thesis
    unfolding delivers_def by metis
qed

lemma items_3: "item_at [a, b, c] 0 = encoding a" "item_at [a, b, c] 1 = encoding b" "item_at [a, b, c] 2 = encoding c"
  "item_at [a, b] 0 = encoding a" "item_at [a, b] 1 = encoding b" "item_at [a] 0 = encoding a"
  by (simp_all add: item_at_def del: encoding.simps)

lemma mod_int: "nat (int k mod 2 ^ 32) = k mod 2 ^ 32"
  by (simp add: nat_mod_distrib)

lemma deliver_VoteReq:
  assumes "length (blockHash m) = 32" and "idx m < 2 ^ 16" and "candidate m < 2 ^ 16"
  shows "delivers (stream_VoteReq m) RaftVoteReqPacket populate_VoteReq
    (RaftMsg.extend (received m) \<lparr>candidate = candidate m, lastLeaderTerm = lastLeaderTerm m mod 2 ^ 32, lastBlockNumber = lastBlockNumber m mod 2 ^ 32\<rparr>)"
proof (rule delivers_raft [OF assms(1,2), where ys = "[word32 (int (candidate m)), word32 (int (lastLeaderTerm m)), word32 (lastBlockNumber m)]"])
  fix e assume e: "populate_raft e = Inr (received m)"
    "\<And>i. i < 4 \<Longrightarrow> field (i + 4) e = Inr (item_at [word32 (int (candidate m)), word32 (int (lastLeaderTerm m)), word32 (lastBlockNumber m)] i)"
  have "field 4 e = Inr (encoding (word32 (int (candidate m))))" "field 5 e = Inr (encoding (word32 (int (lastLeaderTerm m))))"
      "field 6 e = Inr (encoding (word32 (lastBlockNumber m)))"
    using e(2) [of 0] e(2) [of 1] e(2) [of 2] by (simp_all add: item_at_def del: encoding.simps)
  then show "populate_VoteReq e = Inr (RaftMsg.extend (received m)
      \<lparr>candidate = candidate m, lastLeaderTerm = lastLeaderTerm m mod 2 ^ 32, lastBlockNumber = lastBlockNumber m mod 2 ^ 32\<rparr>)"
    unfolding populate_VoteReq_def e(1)
    by (simp only: rbind_simps read_word32(1) read_word32(2) [OF refl assms(3)] unsigned_read) (simp only: mod_int)
qed (use length_word32 [of "int (candidate m)"] length_word32 [of "int (lastLeaderTerm m)"] length_word32 [of "lastBlockNumber m"]
  in \<open>simp_all add: raft_numbers stream_VoteReq_def new_stream_def stream_raft_items [OF assms(1)] writes_open del: encoding.simps\<close>)

lemma deliver_VoteResp:
  assumes "length (blockHash m) = 32" and "idx m < 2 ^ 16" and "voteFlag m < 256"
  shows "delivers (stream_VoteResp m) RaftVoteRespPacket populate_VoteResp
    (RaftMsg.extend (received m) \<lparr>voteFlag = voteFlag m, respLeaderTerm = respLeaderTerm m mod 2 ^ 32\<rparr>)"
proof (rule delivers_raft [OF assms(1,2), where ys = "[word32 (int (voteFlag m)), word32 (int (respLeaderTerm m))]"])
  fix e assume e: "populate_raft e = Inr (received m)"
    "\<And>i. i < 4 \<Longrightarrow> field (i + 4) e = Inr (item_at [word32 (int (voteFlag m)), word32 (int (respLeaderTerm m))] i)"
  have "field 4 e = Inr (encoding (word32 (int (voteFlag m))))" "field 5 e = Inr (encoding (word32 (int (respLeaderTerm m))))"
    using e(2) [of 0] e(2) [of 1] by (simp_all add: item_at_def del: encoding.simps)
  then show "populate_VoteResp e = Inr (RaftMsg.extend (received m) \<lparr>voteFlag = voteFlag m, respLeaderTerm = respLeaderTerm m mod 2 ^ 32\<rparr>)"
    unfolding populate_VoteResp_def e(1)
    by (simp only: rbind_simps read_word32(1) read_word32(3) [OF refl assms(3)]) (simp only: mod_int)
qed (use length_word32 [of "int (voteFlag m)"] length_word32 [of "int (respLeaderTerm m)"]
  in \<open>simp_all add: raft_numbers stream_VoteResp_def new_stream_def stream_raft_items [OF assms(1)] writes_open del: encoding.simps\<close>)

lemma deliver_HeartBeat:
  assumes "length (blockHash m) = 32" and "idx m < 2 ^ 16" and "leader m < 2 ^ 16" and "length (uncommitedBlock m) < 2 ^ 61"
  shows "delivers (stream_HeartBeat m) RaftHeartBeatPacket populate_HeartBeat
    (RaftMsg.extend (received m) \<lparr>leader = leader m, uncommitedBlock = uncommitedBlock m, uncommitedBlockNumber = uncommitedBlockNumber m mod 2 ^ 32\<rparr>)"
proof (rule delivers_raft [OF assms(1,2), where ys = "[word32 (int (leader m)), Data (uncommitedBlock m), word32 (uncommitedBlockNumber m)]"])
  fix e assume e: "populate_raft e = Inr (received m)"
    "\<And>i. i < 4 \<Longrightarrow> field (i + 4) e = Inr (item_at [word32 (int (leader m)), Data (uncommitedBlock m), word32 (uncommitedBlockNumber m)] i)"
  have "field 4 e = Inr (encoding (word32 (int (leader m))))" "field 5 e = Inr (encoding (Data (uncommitedBlock m)))"
      "field 6 e = Inr (encoding (word32 (uncommitedBlockNumber m)))"
    using e(2) [of 0] e(2) [of 1] e(2) [of 2] by (simp_all add: item_at_def del: encoding.simps)
  moreover have "fits (length (uncommitedBlock m))" using assms(4) by (simp add: fits_def)
  ultimately show "populate_HeartBeat e = Inr (RaftMsg.extend (received m)
      \<lparr>leader = leader m, uncommitedBlock = uncommitedBlock m, uncommitedBlockNumber = uncommitedBlockNumber m mod 2 ^ 32\<rparr>)"
    unfolding populate_HeartBeat_def e(1)
    by (simp only: rbind_simps read_word32(1) read_word32(2) [OF refl assms(3)] toString_data unsigned_read)
qed (use length_word32 [of "int (leader m)"] data_bound [of "uncommitedBlock m"] length_word32 [of "uncommitedBlockNumber m"] assms(4)
  in \<open>simp_all add: raft_numbers stream_HeartBeat_def new_stream_def stream_raft_items [OF assms(1)] writes_open fits_def del: encoding.simps\<close>)

lemma deliver_HeartBeatResp:
  assumes "length (blockHash m) = 32" and "idx m < 2 ^ 16" and "length (uncommitedBlockHash m) = 32"
  shows "delivers (stream_HeartBeatResp m) RaftHeartBeatRespPacket populate_HeartBeatResp
    (RaftMsg.extend (received m) \<lparr>uncommitedBlockHash = uncommitedBlockHash m\<rparr>)"
proof (rule delivers_raft [OF assms(1,2), where ys = "[Data (uncommitedBlockHash m)]"])
  fix e assume e: "populate_raft e = Inr (received m)" "\<And>i. i < 4 \<Longrightarrow> field (i + 4) e = Inr (item_at [Data (uncommitedBlockHash m)] i)"
  have "field 4 e = Inr (encoding (Data (uncommitedBlockHash m)))" using e(2) [of 0] by (simp add: item_at_def del: encoding.simps)
  moreover have "toHash 32 Strict (encoding (Data (uncommitedBlockHash m))) = Inr (uncommitedBlockHash m)"
    using data_facts [of "uncommitedBlockHash m"] assms(3) by (simp add: toHash_def fits_def flag_def rlp_flags Strict_def Let_def del: encoding.simps)
  ultimately show "populate_HeartBeatResp e = Inr (RaftMsg.extend (received m) \<lparr>uncommitedBlockHash = uncommitedBlockHash m\<rparr>)"
    unfolding populate_HeartBeatResp_def e(1) by (simp only: rbind_simps)
qed (use data_bound [of "uncommitedBlockHash m"] assms(3)
  in \<open>simp_all add: raft_numbers stream_HeartBeatResp_def new_stream_def stream_raft_items [OF assms(1)] writes_open fits_def del: encoding.simps\<close>)

text \<open>
  C16: The four messages of Raft reach the worker of the receiver as they were sent, except that terms and
  block numbers arrive modulo \<open>2 ^ 32\<close>: an undefined block number -1 arrives as \<open>2 ^ 32 - 1\<close>, and from term
  \<open>2 ^ 32\<close> on a candidate asks for a term in the past.
\<close>

theorem raft_messages_delivered:
  assumes "raft_ok q" "candidate q < 2 ^ 16" and "raft_ok r" "voteFlag r < 256"
    and "raft_ok b" "leader b < 2 ^ 16" "length (uncommitedBlock b) < 2 ^ 61" and "raft_ok a" "length (uncommitedBlockHash a) = 32"
  shows "delivers (stream_VoteReq q) RaftVoteReqPacket populate_VoteReq
      (RaftMsg.extend (received q) \<lparr>candidate = candidate q, lastLeaderTerm = lastLeaderTerm q mod 2 ^ 32, lastBlockNumber = lastBlockNumber q mod 2 ^ 32\<rparr>)
    \<and> delivers (stream_VoteResp r) RaftVoteRespPacket populate_VoteResp
      (RaftMsg.extend (received r) \<lparr>voteFlag = voteFlag r, respLeaderTerm = respLeaderTerm r mod 2 ^ 32\<rparr>)
    \<and> delivers (stream_HeartBeat b) RaftHeartBeatPacket populate_HeartBeat
      (RaftMsg.extend (received b) \<lparr>leader = leader b, uncommitedBlock = uncommitedBlock b, uncommitedBlockNumber = uncommitedBlockNumber b mod 2 ^ 32\<rparr>)
    \<and> delivers (stream_HeartBeatResp a) RaftHeartBeatRespPacket populate_HeartBeatResp
      (RaftMsg.extend (received a) \<lparr>uncommitedBlockHash = uncommitedBlockHash a\<rparr>)"
  using assms deliver_VoteReq [of q] deliver_VoteResp [of r] deliver_HeartBeat [of b] deliver_HeartBeatResp [of a]
  unfolding raft_ok_def by blast

definition demo_raft :: RaftMsg where
  "demo_raft = \<lparr>idx = 1, raft_term = 4294967299, height = -1, blockHash = zero_h256\<rparr>"

lemma raft_messages_delivered_witness:
  "delivers (stream_VoteReq (RaftMsg.extend demo_raft \<lparr>candidate = 1, lastLeaderTerm = 2, lastBlockNumber = 7\<rparr>)) RaftVoteReqPacket populate_VoteReq
     \<lparr>idx = 1, raft_term = 3, height = 4294967295, blockHash = zero_h256, candidate = 1, lastLeaderTerm = 2, lastBlockNumber = 7\<rparr>"
proof -
  let ?q = "RaftMsg.extend demo_raft \<lparr>candidate = 1, lastLeaderTerm = 2, lastBlockNumber = 7\<rparr>"
    and ?r = "RaftMsg.extend demo_raft \<lparr>voteFlag = 6, respLeaderTerm = 2\<rparr>"
    and ?b = "RaftMsg.extend demo_raft \<lparr>leader = 1, uncommitedBlock = ''b'', uncommitedBlockNumber = 8\<rparr>"
    and ?a = "RaftMsg.extend demo_raft \<lparr>uncommitedBlockHash = zero_h256\<rparr>"
  have ok: "raft_ok ?q" "candidate ?q < 2 ^ 16" "raft_ok ?r" "voteFlag ?r < 256" "raft_ok ?b" "leader ?b < 2 ^ 16"
      "length (uncommitedBlock ?b) < 2 ^ 61" "raft_ok ?a" "length (uncommitedBlockHash ?a) = 32"
    by (simp_all add: raft_ok_def demo_raft_def RaftMsg.defs zero_h256_def)
  show ?thesis
    using conjunct1 [OF raft_messages_delivered [OF ok]] by (simp add: demo_raft_def received_def RaftMsg.defs)
qed

end
