(* ===== verification/RaftNode.thy ===== *)
theory RaftNode
  imports PbftEngine RaftMessages
begin

text \<open>
  The Raft engine (\<open>libconsensus/raft/RaftEngine.h\<close>, \<open>RaftEngine.cpp\<close>).

  The worker thread runs in one of three loops, whose local variables are part of its position; one round
  of a loop is one step, and so is each call of the sealer's thread, of the network and of the
  synchronisation. An exception in a round ends the worker, which nothing starts again
  (\<open>libdevcore/Worker.cpp\<close>). Times are in milliseconds. A number that \<open>rand\<close> returns is the next of a sequence.
\<close>

section \<open>State\<close>

datatype RaftRole = EN_STATE_LEADER | EN_STATE_FOLLOWER | EN_STATE_CANDIDATE

datatype HandleVoteResult = TO_LEADER | TO_FOLLOWER | NONE

record VoteState =
  vote :: nat
  unVote :: nat
  lastTermErr :: nat
  firstVote :: nat
  discardedVote :: nat
  outdated :: nat

definition new_VoteState :: VoteState where
  "new_VoteState = \<lparr>vote = 0, unVote = 0, lastTermErr = 0, firstVote = 0, discardedVote = 0, outdated = 0\<rparr>"

definition totalVoteCount :: "VoteState \<Rightarrow> nat" where
  "totalVoteCount v = vote v + unVote v + lastTermErr v + firstVote v + discardedVote v + outdated v"

text \<open>What the engine sends to a node, and what it tells the other modules.\<close>

datatype raft_message =
    VoteReq RaftVoteReq
  | VoteResp RaftVoteResp
  | HeartBeat RaftHeartBeat
  | HeartBeatResp RaftHeartBeatResp

fun message_bytes :: "raft_message \<Rightarrow> string result" where
  "message_bytes (VoteReq m) = transDataToMessage (stream_VoteReq m) RaftVoteReqPacket"
| "message_bytes (VoteResp m) = transDataToMessage (stream_VoteResp m) RaftVoteRespPacket"
| "message_bytes (HeartBeat m) = transDataToMessage (stream_HeartBeat m) RaftHeartBeatPacket"
| "message_bytes (HeartBeatResp m) = transDataToMessage (stream_HeartBeatResp m) RaftHeartBeatRespPacket"

datatype raft_event =
    Send string raft_message
  | NoteSealingBlock int
  | DropHandled Block
  | BadBlock Block

text \<open>What the engine is built on beside what PBFT is built on: the encoding of whole blocks.\<close>

record raft_env =
  base :: pbft_env
  encodeBlock :: "Block \<Rightarrow> string"
  readBlock :: "string \<Rightarrow> Block result"

text \<open>
  Where the worker is: at the head of its loop, or in the loop of one of the roles with its local variables,
  or ended by an exception.
\<close>

datatype position =
    Idle
  | Leading "(string, nat) umap"
  | Following
  | Candidating VoteState
  | Stopped exn

record RaftEngine =
  m_idx :: nat
  m_nodeNum :: nat
  m_f :: nat
  m_cfgErr :: bool
  m_sealer :: bool
  m_sealerList :: "string list"
  m_maxBlockTransactions :: nat
  m_highestBlock :: BlockHeader
  m_consensusBlockNumber :: int
  m_blockChain :: "Block list"
  m_electTimeout :: nat
  m_minElectTimeout :: nat
  m_maxElectTimeout :: nat
  m_minElectTimeoutInit :: nat
  m_maxElectTimeoutInit :: nat
  m_minElectTimeoutBoundary :: nat
  m_maxElectTimeoutBoundary :: nat
  m_lastElectTime :: nat
  m_heartbeatTimeout :: nat
  m_heartbeatInterval :: nat
  m_heartbeatCount :: nat
  m_lastHeartbeatTime :: nat
  m_lastHeartbeatReset :: nat
  m_increaseTime :: nat
  m_msgQueue :: "RaftMsgPacket list"
  m_state :: RaftRole
  m_firstVote :: nat
  m_term :: nat
  m_lastLeaderTerm :: nat
  m_leader :: nat
  m_vote :: nat
  m_memberBlock :: "(string, int \<times> string) umap"
  m_lastBlockTime :: nat
  m_uncommittedBlock :: Block
  m_uncommittedBlockNumber :: int
  m_commitReady :: bool
  m_waitingForCommitting :: bool
  m_commitFingerPrint :: "string \<Rightarrow> nat set"
  worker :: position
  committing :: "Block option"
  sessions :: "string list"
  isSyncing :: bool
  steady_clock :: nat
  utc_clock :: nat
  randoms :: "nat \<Rightarrow> nat"
  raft_events :: "raft_event list"

definition emit :: "raft_event \<Rightarrow> RaftEngine \<Rightarrow> RaftEngine" where
  "emit ev e = e\<lparr>raft_events := raft_events e @ [ev]\<rparr>"

definition InvalidIndex :: nat where "InvalidIndex = 65535"
definition s_heartBeatIntervalRatio :: nat where "s_heartBeatIntervalRatio = 4"

text \<open>A block without a time stamp counts as none.\<close>

definition empty_block :: Block where
  "empty_block = \<lparr>blockHeader = new_BlockHeader, transactions = [], sigList = []\<rparr>"

definition block_set :: "Block \<Rightarrow> bool" where
  "block_set b \<longleftrightarrow> block_time (blockHeader b) \<noteq> 2 ^ 64 - 1"

definition u32 :: "int \<Rightarrow> nat" where "u32 i = nat (i mod 2 ^ 32)"

text \<open>\<open>size_t\<close> arithmetic on terms.\<close>

definition next_term :: "nat \<Rightarrow> nat" where "next_term t = (t + 1) mod 2 ^ 64"
definition prev_term :: "nat \<Rightarrow> nat" where "prev_term t = (t + 2 ^ 64 - 1) mod 2 ^ 64"

section \<open>Time\<close>

definition resetElectTimeout :: "RaftEngine \<Rightarrow> RaftEngine" where
  "resetElectTimeout e =
     (let r = randoms e 0 mod 100; span = u32 (int (m_maxElectTimeout e) - int (m_minElectTimeout e))
      in e\<lparr>m_electTimeout := u32 (int (m_minElectTimeout e) + int (u32 (int (r * span)) div 100)),
           m_lastElectTime := steady_clock e, randoms := (\<lambda>i. randoms e (Suc i))\<rparr>)"

definition increaseElectTime :: "RaftEngine \<Rightarrow> RaftEngine" where
  "increaseElectTime e =
     (if u32 (int (m_maxElectTimeout e + m_increaseTime e)) > m_maxElectTimeoutBoundary e
      then e\<lparr>m_maxElectTimeout := m_maxElectTimeoutBoundary e\<rparr>
      else e\<lparr>m_maxElectTimeout := u32 (int (m_maxElectTimeout e + m_increaseTime e)),
             m_minElectTimeout := u32 (int (m_minElectTimeout e + m_increaseTime e))\<rparr>)"

definition recoverElectTime :: "RaftEngine \<Rightarrow> RaftEngine" where
  "recoverElectTime e = e\<lparr>m_maxElectTimeout := m_maxElectTimeoutInit e, m_minElectTimeout := m_minElectTimeoutInit e\<rparr>"

definition checkElectTimeout :: "RaftEngine \<Rightarrow> bool" where
  "checkElectTimeout e \<longleftrightarrow> int (steady_clock e) - int (m_lastElectTime e) \<ge> int (m_electTimeout e)"

definition checkHeartbeatTimeout :: "RaftEngine \<Rightarrow> bool" where
  "checkHeartbeatTimeout e \<longleftrightarrow> int (steady_clock e) - int (m_lastHeartbeatReset e) \<ge> int (m_heartbeatTimeout e)"

definition raft_reachBlockIntervalTime :: "RaftEngine \<Rightarrow> bool" where
  "raft_reachBlockIntervalTime e \<longleftrightarrow> nat ((int (steady_clock e) - int (m_lastBlockTime e)) mod 2 ^ 64) \<ge> 1000"

definition resetLastBlockTime :: "RaftEngine \<Rightarrow> RaftEngine" where
  "resetLastBlockTime e = e\<lparr>m_lastBlockTime := steady_clock e\<rparr>"

section \<open>Roles\<close>

definition switchToFollower :: "nat \<Rightarrow> RaftEngine \<Rightarrow> RaftEngine" where
  "switchToFollower l e =
     (let e = e\<lparr>m_leader := l, m_state := EN_STATE_FOLLOWER, m_heartbeatCount := 0\<rparr>
      in resetElectTimeout
           (if m_waitingForCommitting e
            then e\<lparr>m_uncommittedBlock := empty_block, m_uncommittedBlockNumber := 0, m_commitReady := True\<rparr> else e))"

definition raft_faulty :: "nat \<Rightarrow> nat" where
  "raft_faulty n = (n - 1) div 2"

definition raft_resetConfig :: "raft_env \<Rightarrow> RaftEngine \<Rightarrow> RaftEngine" where
  "raft_resetConfig env e0 =
     (let e = e0\<lparr>m_maxBlockTransactions := tx_count_limit (base env) (m_blockChain e0),
                 m_sealerList := sort (chain_sealers (base env) (m_blockChain e0))\<rparr>;
          nodeNum = length (m_sealerList e); i = index_of (pub (base env)) 0 (m_sealerList e)
      in if nodeNum = 0 then e\<lparr>m_cfgErr := True\<rparr>
         else if i < 0 then e\<lparr>m_cfgErr := True, m_sealer := False\<rparr>
         else if nodeNum \<noteq> m_nodeNum e \<or> i \<noteq> int (m_idx e)
         then resetElectTimeout (switchToFollower InvalidIndex
                (e\<lparr>m_sealer := True, m_nodeNum := nodeNum mod 65536, m_idx := nat i mod 65536,
                   m_f := raft_faulty (nodeNum mod 65536), m_cfgErr := False\<rparr>))
         else e\<lparr>m_sealer := True, m_cfgErr := False\<rparr>)"

definition switchToCandidate :: "raft_env \<Rightarrow> RaftEngine \<Rightarrow> RaftEngine" where
  "switchToCandidate env e =
     (let e = raft_resetConfig env e
      in resetElectTimeout (e\<lparr>m_term := next_term (m_term e), m_leader := InvalidIndex, m_state := EN_STATE_CANDIDATE\<rparr>))"

definition switchToLeader :: "RaftEngine \<Rightarrow> RaftEngine" where
  "switchToLeader e = recoverElectTime (e\<lparr>m_leader := m_idx e, m_state := EN_STATE_LEADER\<rparr>)"

definition setLeader :: "nat \<Rightarrow> RaftEngine \<Rightarrow> RaftEngine" where
  "setLeader l e = e\<lparr>m_leader := l\<rparr>"

definition setVote :: "nat \<Rightarrow> RaftEngine \<Rightarrow> RaftEngine" where
  "setVote c e = e\<lparr>m_vote := c\<rparr>"

definition wonElection :: "nat \<Rightarrow> RaftEngine \<Rightarrow> bool" where
  "wonElection votes e \<longleftrightarrow> votes \<ge> m_nodeNum e - m_f e"

definition isMajorityVote :: "nat \<Rightarrow> RaftEngine \<Rightarrow> bool" where
  "isMajorityVote votes e \<longleftrightarrow> votes \<ge> m_nodeNum e - m_f e"

text \<open>
  The index that stands for none is compared with a 256-bit constant, which no index equals, so every
  heartbeat is counted.
\<close>

definition clearFirstVoteCache :: "RaftEngine \<Rightarrow> RaftEngine" where
  "clearFirstVoteCache e =
     (if m_firstVote e \<noteq> Invalid256 then
        let e = e\<lparr>m_heartbeatCount := m_heartbeatCount e + 1\<rparr>
        in if m_heartbeatCount e \<ge> 2 * s_heartBeatIntervalRatio
           then e\<lparr>m_heartbeatCount := 0, m_firstVote := InvalidIndex\<rparr> else e
      else e)"

section \<open>Messages\<close>

definition broadcastMsg :: "raft_message \<Rightarrow> RaftEngine \<Rightarrow> RaftEngine" where
  "broadcastMsg m e =
     fold (\<lambda>nid e. if index_of nid 0 (m_sealerList e) < 0 then e else emit (Send nid m) e) (sessions e) e"

definition sendResponse :: "string \<Rightarrow> raft_message \<Rightarrow> RaftEngine \<Rightarrow> RaftEngine" where
  "sendResponse nid m e =
     (if nid \<in> set (sessions e) \<and> \<not> index_of nid 0 (m_sealerList e) < 0 then emit (Send nid m) e else e)"

definition own_msg :: "RaftEngine \<Rightarrow> RaftMsg" where
  "own_msg e = \<lparr>idx = m_idx e, raft_term = m_term e, height = number (m_highestBlock e), blockHash = hash (m_highestBlock e)\<rparr>"

definition generateHeartbeat :: "raft_env \<Rightarrow> RaftEngine \<Rightarrow> RaftHeartBeat \<times> RaftEngine" where
  "generateHeartbeat env e =
     (if block_set (m_uncommittedBlock e) then
        let h = hash (blockHeader (m_uncommittedBlock e))
        in (RaftMsg.extend (own_msg e) \<lparr>leader = m_idx e, uncommitedBlock = encodeBlock env (m_uncommittedBlock e),
              uncommitedBlockNumber = m_consensusBlockNumber e\<rparr>,
            e\<lparr>m_commitFingerPrint := (m_commitFingerPrint e)(h := insert (m_idx e) (m_commitFingerPrint e h))\<rparr>)
      else (RaftMsg.extend (own_msg e) \<lparr>leader = m_idx e, uncommitedBlock = [], uncommitedBlockNumber = 0\<rparr>, e))"

definition broadcastHeartbeat :: "raft_env \<Rightarrow> RaftEngine \<Rightarrow> RaftEngine" where
  "broadcastHeartbeat env e =
     (if int (steady_clock e) - int (m_lastHeartbeatTime e) \<ge> int (m_heartbeatInterval e) then
        case generateHeartbeat env (e\<lparr>m_lastHeartbeatTime := steady_clock e\<rparr>) of
          (hb, e) \<Rightarrow> clearFirstVoteCache (broadcastMsg (HeartBeat hb) e)
      else e)"

text \<open>The number of the last block of a node: its chain's, or one more while a block waits to be committed.\<close>

definition last_block_number :: "RaftEngine \<Rightarrow> int" where
  "last_block_number e =
     (if block_set (m_uncommittedBlock e) then chain_number (m_blockChain e) + 1 else chain_number (m_blockChain e))"

definition generateVoteReq :: "RaftEngine \<Rightarrow> RaftVoteReq" where
  "generateVoteReq e =
     RaftMsg.extend (own_msg e) \<lparr>candidate = m_idx e, lastLeaderTerm = m_lastLeaderTerm e, lastBlockNumber = last_block_number e\<rparr>"

definition broadcastVoteReq :: "RaftEngine \<Rightarrow> RaftEngine" where
  "broadcastVoteReq e = broadcastMsg (VoteReq (generateVoteReq e)) e"

text \<open>
  A request for a vote. For a leader the first branch only sets the flag of the answer and goes on.
\<close>

definition handleVoteRequest :: "string \<Rightarrow> RaftVoteReq \<Rightarrow> RaftEngine \<Rightarrow> bool \<times> RaftEngine" where
  "handleVoteRequest nid req e =
     (let resp = (\<lambda>flag. VoteResp (RaftMsg.extend (own_msg e) \<lparr>voteFlag = flag, respLeaderTerm = m_lastLeaderTerm e\<rparr>))
      in if raft_term req \<le> m_term e \<and> m_state e \<noteq> EN_STATE_LEADER then
           (False, sendResponse nid (resp (if raft_term req = m_term e then VOTE_RESP_DISCARD else VOTE_RESP_REJECT)) e)
         else if lastLeaderTerm req < m_lastLeaderTerm e then (False, sendResponse nid (resp VOTE_RESP_LASTTERM_ERROR) e)
         else if lastBlockNumber req < last_block_number e then (False, sendResponse nid (resp VOTE_RESP_OUTDATED) e)
         else if m_firstVote e = InvalidIndex then
           (False, sendResponse nid (resp VOTE_RESP_FIRST_VOTE) (e\<lparr>m_firstVote := candidate req\<rparr>))
         else
           let granted = RaftMsg.extend ((own_msg e)\<lparr>raft_term := raft_term req\<rparr>)
                           \<lparr>voteFlag = VOTE_RESP_GRANTED, respLeaderTerm = m_lastLeaderTerm e\<rparr>;
               e = setVote (candidate req)
                     (e\<lparr>m_term := raft_term req, m_leader := InvalidIndex, m_vote := InvalidIndex, m_firstVote := candidate req\<rparr>)
           in (True, resetElectTimeout (sendResponse nid (VoteResp granted) e)))"

definition handleVoteResponse :: "RaftVoteResp \<Rightarrow> VoteState \<Rightarrow> RaftEngine \<Rightarrow> HandleVoteResult \<times> VoteState \<times> RaftEngine" where
  "handleVoteResponse resp v e =
     (if raft_term resp < prev_term (m_term e) then (NONE, v, e)
      else if voteFlag resp = VOTE_RESP_REJECT then
        let v = v\<lparr>unVote := unVote v + 1\<rparr>
        in if isMajorityVote (unVote v) e then (TO_FOLLOWER, v, increaseElectTime e) else (NONE, v, e)
      else if voteFlag resp = VOTE_RESP_LEADER_REJECT then
        (TO_FOLLOWER, v, increaseElectTime (e\<lparr>m_term := raft_term resp, m_lastLeaderTerm := respLeaderTerm resp\<rparr>))
      else if voteFlag resp = VOTE_RESP_LASTTERM_ERROR then
        let v = v\<lparr>lastTermErr := lastTermErr v + 1\<rparr>
        in if isMajorityVote (lastTermErr v) e then (TO_FOLLOWER, v, increaseElectTime e) else (NONE, v, e)
      else if voteFlag resp = VOTE_RESP_FIRST_VOTE then
        let v = v\<lparr>firstVote := firstVote v + 1\<rparr>
        in if isMajorityVote (firstVote v) e then (TO_FOLLOWER, v, e\<lparr>m_term := prev_term (m_term e)\<rparr>) else (NONE, v, e)
      else if voteFlag resp = VOTE_RESP_DISCARD then (NONE, v\<lparr>discardedVote := discardedVote v + 1\<rparr>, e)
      else if voteFlag resp = VOTE_RESP_OUTDATED then (NONE, v\<lparr>outdated := outdated v + 1\<rparr>, e)
      else if voteFlag resp = VOTE_RESP_GRANTED then
        let v = v\<lparr>vote := vote v + 1\<rparr>
        in if isMajorityVote (vote v) e then (TO_LEADER, v, e) else (NONE, v, e)
      else (NONE, v, e))"

text \<open>
  A heartbeat: the answer, then whether the node steps down. Each of the three conditions reads the term
  that the one before may have set.
\<close>

definition step_down :: "RaftHeartBeat \<Rightarrow> (RaftEngine \<Rightarrow> bool) \<Rightarrow> bool \<times> RaftEngine \<Rightarrow> bool \<times> RaftEngine" where
  "step_down hb cond x =
     (case x of (down, e) \<Rightarrow> if cond e then (True, e\<lparr>m_term := raft_term hb, m_vote := InvalidIndex\<rparr>) else (down, e))"

definition handleHeartbeat :: "raft_env \<Rightarrow> string \<Rightarrow> RaftHeartBeat \<Rightarrow> RaftEngine \<Rightarrow> (bool \<times> RaftEngine) result" where
  "handleHeartbeat env nid hb e =
     (if raft_term hb < m_term e \<and> raft_term hb \<le> m_lastLeaderTerm e then Inr (False, e)
      else if hasData hb \<and> uncommitedBlockNumber hb - 1 \<noteq> number (m_highestBlock e) then Inr (False, e)
      else rbind (if hasData hb then
                    rbind (readBlock env (uncommitedBlock hb)) (\<lambda>b.
                      Inr (hash (blockHeader b), e\<lparr>m_uncommittedBlock := b, m_uncommittedBlockNumber := uncommitedBlockNumber hb\<rparr>))
                  else Inr (zero_h256, e)) (\<lambda>(h, e).
        let e = sendResponse nid (HeartBeatResp (RaftMsg.extend (own_msg e) \<lparr>uncommitedBlockHash = h\<rparr>)) e
        in case step_down hb (\<lambda>e. m_state e = EN_STATE_CANDIDATE \<and> raft_term hb \<ge> m_term e)
                (step_down hb (\<lambda>e. raft_term hb > m_term e)
                  (step_down hb (\<lambda>e. raft_term hb > m_lastLeaderTerm e) (False, e))) of
             (down, e) \<Rightarrow> Inr (down, resetElectTimeout ((clearFirstVoteCache e)\<lparr>m_lastLeaderTerm := raft_term hb\<rparr>))))"

section \<open>Committing\<close>

definition raft_checkBlockValid :: "raft_env \<Rightarrow> Block \<Rightarrow> RaftEngine \<Rightarrow> unit result" where
  "raft_checkBlockValid env b e =
     rbind (base_checkBlockValid (base env) (m_maxBlockTransactions e) (utc_clock e) (m_blockChain e) b) (\<lambda>_.
       if m_sealerList e \<noteq> sealerList (blockHeader b) then Inl BlockSealerListWrong else Inr ())"

definition raft_execBlock :: "raft_env \<Rightarrow> Block \<Rightarrow> RaftEngine \<Rightarrow> Block result \<times> RaftEngine" where
  "raft_execBlock env b e =
     (case raft_checkBlockValid env b e of
        Inl x \<Rightarrow> (Inl x, e)
      | Inr _ \<Rightarrow>
          let e = emit (NoteSealingBlock (number (blockHeader b))) e
          in case run_block (base env) b (blockHeader (last (m_blockChain e))) of
               (b', Inl x) \<Rightarrow> (Inl x, e)
             | (b', Inr _) \<Rightarrow> (Inr b', e))"

definition raft_checkAndSave :: "raft_env \<Rightarrow> Block \<Rightarrow> RaftEngine \<Rightarrow> RaftEngine" where
  "raft_checkAndSave env b e =
     (case commitBlock (base env) b (m_blockChain e) of
        (CommitOK, ch) \<Rightarrow>
          emit (DropHandled b) (e\<lparr>m_blockChain := ch, m_uncommittedBlock := empty_block, m_uncommittedBlockNumber := 0\<rparr>)
      | (_, ch) \<Rightarrow> emit (BadBlock b) e)"

definition checkAndExecute :: "raft_env \<Rightarrow> Block \<Rightarrow> RaftEngine \<Rightarrow> bool \<times> RaftEngine" where
  "checkAndExecute env b e =
     (case raft_execBlock env b e of
        (Inl _, e) \<Rightarrow> (False, e)
      | (Inr b', e) \<Rightarrow> (True, raft_checkAndSave env b' e))"

definition raft_reportBlock :: "raft_env \<Rightarrow> Block \<Rightarrow> RaftEngine \<Rightarrow> RaftEngine" where
  "raft_reportBlock env b e =
     (if chain_number (m_blockChain e) = 0 \<or> number (m_highestBlock e) < number (blockHeader b) then
        let e = e\<lparr>m_lastBlockTime := steady_clock e, m_highestBlock := blockHeader (last (m_blockChain e))\<rparr>;
            e = e\<lparr>m_commitFingerPrint := (m_commitFingerPrint e)(hash (blockHeader (m_uncommittedBlock e)) := {}),
                  m_uncommittedBlock := empty_block, m_uncommittedBlockNumber := 0,
                  m_consensusBlockNumber := (if number (m_highestBlock e) \<ge> m_consensusBlockNumber e
                                             then number (m_highestBlock e) + 1 else m_consensusBlockNumber e)\<rparr>
        in raft_resetConfig env e
      else e)"

text \<open>The block is committed by the sealer's thread when it waits for that, else by the worker itself.\<close>

definition commit_uncommitted :: "raft_env \<Rightarrow> RaftEngine \<Rightarrow> RaftEngine" where
  "commit_uncommitted env e =
     (if m_waitingForCommitting e then e\<lparr>m_commitReady := True\<rparr>
      else let e = snd (checkAndExecute env (m_uncommittedBlock e) e)
           in raft_reportBlock env (m_uncommittedBlock e) e)"

definition tryCommitUncommitedBlock :: "raft_env \<Rightarrow> RaftHeartBeatResp \<Rightarrow> RaftEngine \<Rightarrow> RaftEngine" where
  "tryCommitUncommitedBlock env resp e =
     (if \<not> block_set (m_uncommittedBlock e) then e
      else if m_uncommittedBlockNumber e \<noteq> m_consensusBlockNumber e
      then e\<lparr>m_uncommittedBlock := empty_block, m_uncommittedBlockNumber := 0\<rparr>
      else
        let h = hash (blockHeader (m_uncommittedBlock e)); ack = uncommitedBlockHash resp
        in if ack \<noteq> zero_h256 \<and> ack = h then
             let e = e\<lparr>m_commitFingerPrint := (m_commitFingerPrint e)(h := insert (idx resp) (m_commitFingerPrint e h))\<rparr>
             in if card (m_commitFingerPrint e h) \<ge> m_nodeNum e - m_f e then commit_uncommitted env e else e
           else if ack = zero_h256 then commit_uncommitted env e
           else e)"

section \<open>The loops of the worker\<close>

definition tryPop :: "RaftEngine \<Rightarrow> RaftMsgPacket option \<times> RaftEngine" where
  "tryPop e = (case m_msgQueue e of [] \<Rightarrow> (None, e) | p # ps \<Rightarrow> (Some p, e\<lparr>m_msgQueue := ps\<rparr>))"

text \<open>The leader counts the answers of each node since it has last heard of enough of them.\<close>

definition count_heartbeat :: "string \<Rightarrow> (string, nat) umap \<Rightarrow> RaftEngine \<Rightarrow> (string, nat) umap \<times> RaftEngine" where
  "count_heartbeat nid log e =
     (let log = AList.update nid (case map_of log nid of None \<Rightarrow> 1 | Some n \<Rightarrow> n + 1) log;
          count = length (filter (\<lambda>(_, n). n > 0) log)
      in if count + 1 \<ge> m_nodeNum e - m_f e
         then (map (\<lambda>(k, n). (k, if n > 0 then n - 1 else n)) log, e\<lparr>m_lastHeartbeatReset := steady_clock e\<rparr>)
         else (log, e))"

text \<open>How a round ends: the loop goes on, it is left, or an exception is thrown.\<close>

datatype round = Continue | Break | Throws exn

definition leader_packet :: "raft_env \<Rightarrow> RaftMsgPacket \<Rightarrow> (string, nat) umap \<Rightarrow> RaftEngine \<Rightarrow> round \<times> (string, nat) umap \<times> RaftEngine" where
  "leader_packet env p log e =
     (if packetType p = RaftVoteReqPacket then
        case read_with populate_VoteReq (data p) of
          Inl x \<Rightarrow> (Throws x, log, e)
        | Inr req \<Rightarrow>
            (case handleVoteRequest (nodeId p) req e of
               (True, e) \<Rightarrow> (Break, log, switchToFollower InvalidIndex e)
             | (False, e) \<Rightarrow> (Continue, log, e))
      else if packetType p = RaftHeartBeatPacket then
        case rbind (read_with populate_HeartBeat (data p)) (\<lambda>hb. rbind (handleHeartbeat env (nodeId p) hb e) (\<lambda>r. Inr (hb, r))) of
          Inl x \<Rightarrow> (Throws x, log, e)
        | Inr (hb, True, e) \<Rightarrow> (Break, log, switchToFollower (leader hb) e)
        | Inr (hb, False, e) \<Rightarrow> (Continue, log, e)
      else if packetType p = RaftHeartBeatRespPacket then
        case read_with populate_HeartBeatResp (data p) of
          Inl x \<Rightarrow> (Throws x, log, e)
        | Inr resp \<Rightarrow>
            if raft_term resp \<noteq> m_term e then (Continue, log, e)
            else (case count_heartbeat (nodeId p) log
                         (e\<lparr>m_memberBlock := AList.update (nodeId p) (height resp, blockHash resp) (m_memberBlock e)\<rparr>) of
                    (log, e) \<Rightarrow> (Continue, log, tryCommitUncommitedBlock env resp e))
      else (Continue, log, e))"

definition lonely_resp :: RaftHeartBeatResp where
  "lonely_resp = \<lparr>idx = 0, raft_term = 0, height = 0, blockHash = zero_h256, uncommitedBlockHash = zero_h256\<rparr>"

definition runAsLeaderImp :: "raft_env \<Rightarrow> (string, nat) umap \<Rightarrow> RaftEngine \<Rightarrow> round \<times> (string, nat) umap \<times> RaftEngine" where
  "runAsLeaderImp env log e =
     (if m_state e \<noteq> EN_STATE_LEADER \<or> \<not> m_sealer e then (Break, log, e)
      else if m_nodeNum e > 1 then
        if checkHeartbeatTimeout e then (Break, log, switchToCandidate env e)
        else case tryPop (broadcastHeartbeat env e) of
               (None, e) \<Rightarrow> (Continue, log, e)
             | (Some p, e) \<Rightarrow> leader_packet env p log e
      else (Continue, log, tryCommitUncommitedBlock env lonely_resp e))"

definition candidate_packet :: "raft_env \<Rightarrow> RaftMsgPacket \<Rightarrow> VoteState \<Rightarrow> RaftEngine \<Rightarrow> round \<times> VoteState \<times> RaftEngine" where
  "candidate_packet env p v e =
     (if packetType p = RaftVoteReqPacket then
        case read_with populate_VoteReq (data p) of
          Inl x \<Rightarrow> (Throws x, v, e)
        | Inr req \<Rightarrow>
            (case handleVoteRequest (nodeId p) req e of
               (True, e) \<Rightarrow> (Break, v, switchToFollower InvalidIndex e)
             | (False, e) \<Rightarrow> (Continue, v, e))
      else if packetType p = RaftVoteRespPacket then
        case read_with populate_VoteResp (data p) of
          Inl x \<Rightarrow> (Throws x, v, e)
        | Inr resp \<Rightarrow>
            (case handleVoteResponse resp v e of
               (TO_LEADER, v, e) \<Rightarrow> (Break, v, switchToLeader e)
             | (TO_FOLLOWER, v, e) \<Rightarrow> (Break, v, switchToFollower InvalidIndex e)
             | (NONE, v, e) \<Rightarrow> (Continue, v, e))
      else if packetType p = RaftHeartBeatPacket then
        case rbind (read_with populate_HeartBeat (data p)) (\<lambda>hb. rbind (handleHeartbeat env (nodeId p) hb e) (\<lambda>r. Inr (hb, r))) of
          Inl x \<Rightarrow> (Throws x, v, e)
        | Inr (hb, True, e) \<Rightarrow> (Break, v, switchToFollower (leader hb) e)
        | Inr (hb, False, e) \<Rightarrow> (Continue, v, e)
      else (Continue, v, e))"

text \<open>
  A candidate whose time is up tries again when enough nodes have answered, else it goes back to the term
  before.
\<close>

definition runAsCandidateImp :: "raft_env \<Rightarrow> VoteState \<Rightarrow> RaftEngine \<Rightarrow> round \<times> VoteState \<times> RaftEngine" where
  "runAsCandidateImp env v e =
     (if m_state e \<noteq> EN_STATE_CANDIDATE \<or> \<not> m_sealer e then (Break, v, e)
      else if checkElectTimeout e then
        (Break, v,
         if isMajorityVote (totalVoteCount v) e then switchToCandidate env e
         else let e = increaseElectTime e in switchToFollower InvalidIndex (e\<lparr>m_term := prev_term (m_term e)\<rparr>))
      else case tryPop e of
             (None, e) \<Rightarrow> (Continue, v, e)
           | (Some p, e) \<Rightarrow> candidate_packet env p v e)"

definition follower_packet :: "raft_env \<Rightarrow> RaftMsgPacket \<Rightarrow> RaftEngine \<Rightarrow> round \<times> RaftEngine" where
  "follower_packet env p e =
     (if packetType p = RaftVoteReqPacket then
        case read_with populate_VoteReq (data p) of
          Inl x \<Rightarrow> (Throws x, e)
        | Inr req \<Rightarrow> (case handleVoteRequest (nodeId p) req e of (granted, e) \<Rightarrow> (if granted then Break else Continue, e))
      else if packetType p = RaftHeartBeatPacket then
        case read_with populate_HeartBeat (data p) of
          Inl x \<Rightarrow> (Throws x, e)
        | Inr hb \<Rightarrow>
            let e = (if m_leader e = Invalid256 then setLeader (leader hb) e else e)
            in (case handleHeartbeat env (nodeId p) hb e of
                  Inl x \<Rightarrow> (Throws x, e)
                | Inr (down, e) \<Rightarrow> (Continue, if down then setLeader (leader hb) e else e))
      else (Continue, e))"

definition runAsFollowerImp :: "raft_env \<Rightarrow> RaftEngine \<Rightarrow> round \<times> RaftEngine" where
  "runAsFollowerImp env e =
     (if m_state e \<noteq> EN_STATE_FOLLOWER \<or> \<not> m_sealer e then (Break, e)
      else if checkElectTimeout e then (Break, switchToCandidate env e)
      else case tryPop e of
             (None, e) \<Rightarrow> (Continue, e)
           | (Some p, e) \<Rightarrow> follower_packet env p e)"

text \<open>The beginnings of \<open>runAsLeader\<close> and \<open>runAsCandidate\<close>, before their loops.\<close>

definition runAsLeader :: "RaftEngine \<Rightarrow> RaftEngine" where
  "runAsLeader e =
     e\<lparr>m_firstVote := InvalidIndex, m_lastLeaderTerm := m_term e, m_lastHeartbeatReset := steady_clock e,
       m_lastHeartbeatTime := steady_clock e, worker := Leading []\<rparr>"

definition runAsCandidate :: "RaftEngine \<Rightarrow> RaftEngine" where
  "runAsCandidate e =
     (if m_state e \<noteq> EN_STATE_CANDIDATE \<or> \<not> m_sealer e then e
      else
        let e = broadcastVoteReq e; v = new_VoteState\<lparr>vote := 1\<rparr>;
            e = (setVote (m_idx e) e)\<lparr>m_firstVote := m_idx e\<rparr>
        in if wonElection (vote v) e then switchToLeader e else e\<lparr>worker := Candidating v\<rparr>)"

definition workLoop :: "raft_env \<Rightarrow> RaftEngine \<Rightarrow> RaftEngine" where
  "workLoop env e =
     (if isSyncing e then e
      else let e = raft_resetConfig env e
           in if m_cfgErr e \<or> \<not> m_sealer e then e
              else case m_state e of
                     EN_STATE_LEADER \<Rightarrow> runAsLeader e
                   | EN_STATE_FOLLOWER \<Rightarrow> e\<lparr>worker := Following\<rparr>
                   | EN_STATE_CANDIDATE \<Rightarrow> runAsCandidate e)"

text \<open>One round of the worker, wherever it is.\<close>

fun after_round :: "position \<Rightarrow> round \<Rightarrow> position" where
  "after_round p Continue = p"
| "after_round p Break = Idle"
| "after_round p (Throws x) = Stopped x"

definition work :: "raft_env \<Rightarrow> RaftEngine \<Rightarrow> RaftEngine" where
  "work env e =
     (case worker e of
        Idle \<Rightarrow> workLoop env e
      | Leading log \<Rightarrow>
          if isSyncing e then e\<lparr>worker := Idle\<rparr>
          else (case runAsLeaderImp env log e of (r, log, e) \<Rightarrow> e\<lparr>worker := after_round (Leading log) r\<rparr>)
      | Following \<Rightarrow>
          if isSyncing e then e\<lparr>worker := Idle\<rparr>
          else (case runAsFollowerImp env e of (r, e) \<Rightarrow> e\<lparr>worker := after_round Following r\<rparr>)
      | Candidating v \<Rightarrow>
          if isSyncing e then e\<lparr>worker := Idle\<rparr>
          else (case runAsCandidateImp env v e of (r, v, e) \<Rightarrow> e\<lparr>worker := after_round (Candidating v) r\<rparr>)
      | Stopped x \<Rightarrow> e)"

section \<open>The network and the sealer\<close>

definition raft_isValidReq :: "raft_env \<Rightarrow> string \<Rightarrow> string \<Rightarrow> RaftEngine \<Rightarrow> int option" where
  "raft_isValidReq env buffer nid e =
     (let peerIndex = index_of nid 0 (m_sealerList e);
          own = (if m_idx e < length (m_sealerList e) then m_sealerList e ! m_idx e else zero_h512)
      in if length buffer = 0 \<or> peerIndex < 0 \<or> own = zero_h512 \<or> nid = own then None else Some peerIndex)"

definition onRecvRaftMessage :: "raft_env \<Rightarrow> string \<Rightarrow> string \<Rightarrow> string \<Rightarrow> RaftEngine \<Rightarrow> RaftEngine" where
  "onRecvRaftMessage env buffer nid ep e =
     (case raft_isValidReq env buffer nid e of
        None \<Rightarrow> e
      | Some peerIndex \<Rightarrow>
          (case decode_raft_packet buffer new_RaftMsgPacket of
             Inl _ \<Rightarrow> e
           | Inr p \<Rightarrow>
               let p = raft_setOtherField (nat peerIndex mod 65536) nid ep p
               in if packetType p < RaftPacketCount then e\<lparr>m_msgQueue := m_msgQueue e @ [p]\<rparr> else e))"

text \<open>\<open>raft_commit\<close> is what the sealer's thread does before it waits, \<open>commit_woken\<close> what it does after.\<close>

definition raft_commit :: "Block \<Rightarrow> RaftEngine \<Rightarrow> RaftEngine" where
  "raft_commit b e =
     e\<lparr>m_uncommittedBlock := b, m_uncommittedBlockNumber := m_consensusBlockNumber e, m_waitingForCommitting := True,
       m_commitReady := False, committing := Some b\<rparr>"

definition commit_woken :: "raft_env \<Rightarrow> Block \<Rightarrow> RaftEngine \<Rightarrow> bool \<times> RaftEngine" where
  "commit_woken env b e =
     (let e = e\<lparr>m_commitReady := False, m_waitingForCommitting := False, committing := None\<rparr>
      in if \<not> block_set (m_uncommittedBlock e) then (False, e)
         else if m_state e \<noteq> EN_STATE_LEADER then (False, e)
         else checkAndExecute env b e)"

definition raft_shouldSeal :: "RaftEngine \<Rightarrow> bool" where
  "raft_shouldSeal e \<longleftrightarrow>
     m_state e = EN_STATE_LEADER \<and> \<not> m_cfgErr e \<and> m_sealer e
     \<and> \<not> list_ex (\<lambda>(_, n, h). n mod 2 ^ 256 > number (m_highestBlock e) mod 2 ^ 256) (m_memberBlock e)
     \<and> 1 + length (filter (\<lambda>(_, n, h). n mod 2 ^ 256 = number (m_highestBlock e) mod 2 ^ 256 \<and> h = hash (m_highestBlock e)) (m_memberBlock e))
         \<ge> m_nodeNum e - m_f e
     \<and> \<not> block_set (m_uncommittedBlock e)"

section \<open>The engine as a state machine\<close>

definition initRaftEnv :: "raft_env \<Rightarrow> RaftEngine \<Rightarrow> RaftEngine" where
  "initRaftEnv env e =
     (let e = raft_resetConfig env e; lo = m_minElectTimeout e; hi = m_maxElectTimeout e; span = u32 (int hi - int lo)
      in resetElectTimeout
           (e\<lparr>m_minElectTimeoutInit := lo, m_maxElectTimeoutInit := hi, m_minElectTimeoutBoundary := lo,
              m_maxElectTimeoutBoundary := u32 (int (hi + span div 2)),
              m_lastElectTime := steady_clock e, m_lastHeartbeatTime := steady_clock e, m_heartbeatTimeout := lo,
              m_heartbeatInterval := lo div s_heartBeatIntervalRatio, m_increaseTime := span div 4\<rparr>))"

text \<open>
  The engine as it is constructed; members that the constructor does not set are 0 and are set before
  they are read, except the time of the last block.
\<close>

definition new_RaftEngine :: "nat \<Rightarrow> nat \<Rightarrow> Block list \<Rightarrow> nat \<Rightarrow> nat \<Rightarrow> (nat \<Rightarrow> nat) \<Rightarrow> RaftEngine" where
  "new_RaftEngine minElectTime maxElectTime ch steady utc rs =
     \<lparr>m_idx = 0, m_nodeNum = 0, m_f = 0, m_cfgErr = False, m_sealer = False, m_sealerList = [], m_maxBlockTransactions = 1000,
      m_highestBlock = new_BlockHeader, m_consensusBlockNumber = 0, m_blockChain = ch, m_electTimeout = 0,
      m_minElectTimeout = minElectTime, m_maxElectTimeout = maxElectTime, m_minElectTimeoutInit = 0, m_maxElectTimeoutInit = 0,
      m_minElectTimeoutBoundary = 0, m_maxElectTimeoutBoundary = 0, m_lastElectTime = 0, m_heartbeatTimeout = 0,
      m_heartbeatInterval = 0, m_heartbeatCount = 0, m_lastHeartbeatTime = 0, m_lastHeartbeatReset = 0, m_increaseTime = 0,
      m_msgQueue = [], m_state = EN_STATE_FOLLOWER, m_firstVote = InvalidIndex, m_term = 0, m_lastLeaderTerm = 0,
      m_leader = 0, m_vote = 0, m_memberBlock = [], m_lastBlockTime = 0, m_uncommittedBlock = empty_block,
      m_uncommittedBlockNumber = 0, m_commitReady = False, m_waitingForCommitting = False, m_commitFingerPrint = (\<lambda>_. {}),
      worker = Idle, committing = None, sessions = [], isSyncing = False, steady_clock = steady, utc_clock = utc,
      randoms = rs, raft_events = []\<rparr>"

text \<open>
  The steps of a node: a round of its worker, a packet from the network, the sealer's thread, a report of the
  highest block, and the changes of the world around it.
\<close>

inductive around_step :: "raft_env \<Rightarrow> RaftEngine \<Rightarrow> RaftEngine \<Rightarrow> bool" for env where
  raft_receive: "around_step env e (onRecvRaftMessage env buffer nid ep e)"
| raft_commit_begin: "committing e = None \<Longrightarrow> around_step env e (raft_commit b e)"
| raft_commit_end: "committing e = Some b \<Longrightarrow> m_commitReady e \<Longrightarrow> around_step env e (snd (commit_woken env b e))"
| raft_report: "around_step env e (raft_reportBlock env b e)"
| raft_reset_time: "around_step env e (resetLastBlockTime e)"
| raft_synced: "around_step env e (e\<lparr>m_blockChain := snd (commitBlock (base env) b (m_blockChain e))\<rparr>)"
| raft_world: "steady_clock e \<le> s \<Longrightarrow> around_step env e (e\<lparr>steady_clock := s, utc_clock := u, isSyncing := y, sessions := ns\<rparr>)"

inductive raft_step :: "raft_env \<Rightarrow> RaftEngine \<Rightarrow> RaftEngine \<Rightarrow> bool" for env where
  raft_work: "raft_step env e (work env e)"
| raft_around: "around_step env e e' \<Longrightarrow> raft_step env e e'"

inductive raft_reaches :: "raft_env \<Rightarrow> RaftEngine \<Rightarrow> RaftEngine \<Rightarrow> bool" for env e0 where
  raft_start: "raft_reaches env e0 e0"
| raft_next: "raft_reaches env e0 e \<Longrightarrow> raft_step env e e' \<Longrightarrow> raft_reaches env e0 e'"

inductive_cases around_stepE: "around_step env e e'"
inductive_cases raft_stepE: "raft_step env e e'"

end
