(* ===== verification/RaftTimes.thy ===== *)
theory RaftTimes
  imports RaftNode
begin

text \<open>
  What holds in every state a Raft node reaches: the bounds of its timeouts, and what a node has counted that
  becomes leader.
\<close>

section \<open>Timeouts\<close>

text \<open>
  The election timeouts of a node configured with \<open>lo\<close> and \<open>hi\<close>: they grow together until the upper one
  is at its boundary.
\<close>

definition elect_ok :: "nat \<Rightarrow> nat \<Rightarrow> RaftEngine \<Rightarrow> bool" where
  "elect_ok lo hi e \<longleftrightarrow>
     m_minElectTimeoutInit e = lo \<and> m_maxElectTimeoutInit e = hi \<and> m_maxElectTimeoutBoundary e = hi + (hi - lo) div 2
     \<and> m_increaseTime e = (hi - lo) div 4 \<and> lo \<le> m_minElectTimeout e \<and> m_minElectTimeout e \<le> m_maxElectTimeout e
     \<and> m_maxElectTimeout e \<le> hi + (hi - lo) div 2
     \<and> lo \<le> m_electTimeout e \<and> m_electTimeout e \<le> hi + (hi - lo) div 2"

lemma u32_id: "i < 2 ^ 32 \<Longrightarrow> u32 (int i) = i"
  by (simp add: u32_def)

lemma elect_resetElectTimeout:
  assumes "elect_ok lo hi e" and "lo \<le> hi" and "hi < 2 ^ 24"
  shows "elect_ok lo hi (resetElectTimeout e)"
proof -
  let ?r = "randoms e 0 mod 100" and ?span = "m_maxElectTimeout e - m_minElectTimeout e"
  have b: "m_minElectTimeout e \<le> m_maxElectTimeout e" "m_maxElectTimeout e \<le> hi + (hi - lo) div 2" "lo \<le> m_minElectTimeout e"
    using assms(1) by (simp_all add: elect_ok_def)
  then have s: "u32 (int (m_maxElectTimeout e) - int (m_minElectTimeout e)) = ?span"
    using assms(2,3) by (simp add: u32_def nat_mod_distrib flip: of_nat_diff)
  have r: "?r \<le> 99" by simp
  have "(hi - lo) div 2 \<le> hi" using div_le_dividend [of "hi - lo" 2] by linarith
  note b = b this
  have span: "?span < 2 ^ 25" using b assms(3) by simp
  have "?r * ?span \<le> 99 * ?span" using r by (intro mult_right_mono) auto
  then have p: "?r * ?span \<le> 99 * ?span" .
  then have m: "u32 (int (?r * ?span)) = ?r * ?span" by (intro u32_id le_less_trans [OF p]) (use span in simp)
  have d: "?r * ?span div 100 \<le> ?span" using p by linarith
  have le: "m_minElectTimeout e + ?r * ?span div 100 \<le> m_maxElectTimeout e" using d b(1) by linarith
  have "m_minElectTimeout e + ?r * ?span div 100 < 2 ^ 32" by (rule le_less_trans [OF le]) (use b assms(3) in simp)
  then have t: "u32 (int (m_minElectTimeout e) + int (?r * ?span div 100)) = m_minElectTimeout e + ?r * ?span div 100"
    unfolding of_nat_add [symmetric] by (rule u32_id)
  have "m_minElectTimeout e + ?r * ?span div 100 \<le> hi + (hi - lo) div 2" using le b(2) by (rule le_trans)
  with assms(1) b show ?thesis
    unfolding resetElectTimeout_def Let_def s m t by (simp add: elect_ok_def)
qed

lemma reset_again: "resetElectTimeout e = resetElectTimeout (e\<lparr>m_electTimeout := t\<rparr>)"
  by (simp add: resetElectTimeout_def Let_def)

lemma elect_increaseElectTime:
  assumes "elect_ok lo hi e" and "lo \<le> hi" and "hi < 2 ^ 24"
  shows "elect_ok lo hi (increaseElectTime e)"
proof -
  have e: "m_increaseTime e = (hi - lo) div 4" "m_maxElectTimeout e \<le> hi + (hi - lo) div 2" "m_minElectTimeout e \<le> m_maxElectTimeout e"
    using assms(1) by (simp_all add: elect_ok_def)
  moreover have "(hi - lo) div 2 \<le> hi" "(hi - lo) div 4 \<le> hi" using div_le_dividend [of "hi - lo" 2] div_le_dividend [of "hi - lo" 4] by linarith+
  ultimately have "m_maxElectTimeout e + m_increaseTime e < 2 ^ 32" "m_minElectTimeout e + m_increaseTime e < 2 ^ 32" using assms(3) by simp_all
  then have u: "u32 (int (m_maxElectTimeout e + m_increaseTime e)) = m_maxElectTimeout e + m_increaseTime e"
    "u32 (int (m_minElectTimeout e + m_increaseTime e)) = m_minElectTimeout e + m_increaseTime e" by (simp_all only: u32_id)
  show ?thesis unfolding increaseElectTime_def u using assms(1) by (auto simp: elect_ok_def)
qed

lemma elect_recoverElectTime: "elect_ok lo hi e \<Longrightarrow> lo \<le> hi \<Longrightarrow> elect_ok lo hi (recoverElectTime e)"
  by (simp add: elect_ok_def recoverElectTime_def)

lemma elect_emit:
  assumes "elect_ok lo hi e"
  shows "elect_ok lo hi (emit ev e)" "elect_ok lo hi (broadcastMsg m e)" "elect_ok lo hi (sendResponse nid m e)"
    "elect_ok lo hi (clearFirstVoteCache e)" "elect_ok lo hi (snd (generateHeartbeat env e))" "elect_ok lo hi (snd (tryPop e))"
proof -
  have emit: "elect_ok lo hi (emit ev e)" if "elect_ok lo hi e" for ev e using that by (simp add: emit_def elect_ok_def)
  have "elect_ok lo hi (fold (\<lambda>nid e. if index_of nid 0 (m_sealerList e) < 0 then e else emit (Send nid m) e) ns e)" for ns
    using assms by (induction ns arbitrary: e) (auto intro: emit)
  then show "elect_ok lo hi (broadcastMsg m e)" by (simp add: broadcastMsg_def)
  show "elect_ok lo hi (emit ev e)" "elect_ok lo hi (sendResponse nid m e)" using assms emit by (simp_all add: sendResponse_def)
  show "elect_ok lo hi (clearFirstVoteCache e)" "elect_ok lo hi (snd (generateHeartbeat env e))" "elect_ok lo hi (snd (tryPop e))"
    using assms by (simp_all add: clearFirstVoteCache_def generateHeartbeat_def tryPop_def Let_def elect_ok_def split: list.split)
qed

text \<open>The bounds of the configuration that the lemmas below assume.\<close>

definition times_ok :: "nat \<Rightarrow> nat \<Rightarrow> bool" where
  "times_ok lo hi \<longleftrightarrow> lo \<le> hi \<and> hi < 2 ^ 24"

lemma elect_roles:
  assumes "times_ok lo hi" and "elect_ok lo hi e"
  shows "elect_ok lo hi (switchToFollower l e)" "elect_ok lo hi (raft_resetConfig env e)" "elect_ok lo hi (switchToCandidate env e)"
    "elect_ok lo hi (switchToLeader e)" "elect_ok lo hi (increaseElectTime e)" "elect_ok lo hi (resetElectTimeout e)"
proof -
  have b: "lo \<le> hi" "hi < 2 ^ 24" using assms(1) by (simp_all add: times_ok_def)
  note reset = elect_resetElectTimeout [OF _ b]
  have f: "elect_ok lo hi (switchToFollower l e)" if "elect_ok lo hi e" for e l
    unfolding switchToFollower_def Let_def by (rule reset) (use that in \<open>simp add: elect_ok_def\<close>)
  have c: "elect_ok lo hi (raft_resetConfig env e)" if "elect_ok lo hi e" for e
    using that by (auto simp: raft_resetConfig_def Let_def intro!: reset f) (simp_all add: elect_ok_def)
  show "elect_ok lo hi (switchToFollower l e)" "elect_ok lo hi (raft_resetConfig env e)" using f c assms(2) by blast+
  show "elect_ok lo hi (switchToCandidate env e)"
    unfolding switchToCandidate_def Let_def by (rule reset) (use c [OF assms(2)] in \<open>simp add: elect_ok_def\<close>)
  show "elect_ok lo hi (switchToLeader e)"
    unfolding switchToLeader_def by (rule elect_recoverElectTime [OF _ b(1)]) (use assms(2) in \<open>simp add: elect_ok_def\<close>)
  show "elect_ok lo hi (increaseElectTime e)" "elect_ok lo hi (resetElectTimeout e)"
    using elect_increaseElectTime reset assms b by blast+
qed

lemma elect_fields:
  "elect_ok lo hi (e\<lparr>m_term := t\<rparr>) = elect_ok lo hi e" "elect_ok lo hi (e\<lparr>m_vote := n\<rparr>) = elect_ok lo hi e"
  "elect_ok lo hi (e\<lparr>m_lastLeaderTerm := t\<rparr>) = elect_ok lo hi e" "elect_ok lo hi (e\<lparr>worker := w\<rparr>) = elect_ok lo hi e"
  "elect_ok lo hi (e\<lparr>m_firstVote := n\<rparr>) = elect_ok lo hi e" "elect_ok lo hi (e\<lparr>m_leader := n\<rparr>) = elect_ok lo hi e"
  "elect_ok lo hi (e\<lparr>m_uncommittedBlock := b\<rparr>) = elect_ok lo hi e" "elect_ok lo hi (e\<lparr>m_uncommittedBlockNumber := i\<rparr>) = elect_ok lo hi e"
  "elect_ok lo hi (e\<lparr>m_blockChain := ch\<rparr>) = elect_ok lo hi e" "elect_ok lo hi (e\<lparr>m_commitReady := x\<rparr>) = elect_ok lo hi e"
  "elect_ok lo hi (e\<lparr>m_waitingForCommitting := x\<rparr>) = elect_ok lo hi e" "elect_ok lo hi (e\<lparr>m_commitFingerPrint := fp\<rparr>) = elect_ok lo hi e"
  "elect_ok lo hi (e\<lparr>m_lastHeartbeatReset := t\<rparr>) = elect_ok lo hi e" "elect_ok lo hi (e\<lparr>m_lastHeartbeatTime := t\<rparr>) = elect_ok lo hi e"
  "elect_ok lo hi (e\<lparr>m_memberBlock := mb\<rparr>) = elect_ok lo hi e" "elect_ok lo hi (e\<lparr>committing := cb\<rparr>) = elect_ok lo hi e"
  "elect_ok lo hi (e\<lparr>m_lastBlockTime := t\<rparr>) = elect_ok lo hi e" "elect_ok lo hi (e\<lparr>m_highestBlock := h\<rparr>) = elect_ok lo hi e"
  "elect_ok lo hi (e\<lparr>m_consensusBlockNumber := i\<rparr>) = elect_ok lo hi e" "elect_ok lo hi (e\<lparr>m_msgQueue := q\<rparr>) = elect_ok lo hi e"
  "elect_ok lo hi (e\<lparr>steady_clock := t\<rparr>) = elect_ok lo hi e" "elect_ok lo hi (e\<lparr>utc_clock := t\<rparr>) = elect_ok lo hi e"
  "elect_ok lo hi (e\<lparr>isSyncing := x\<rparr>) = elect_ok lo hi e" "elect_ok lo hi (e\<lparr>sessions := ns\<rparr>) = elect_ok lo hi e"
  by (simp_all add: elect_ok_def)

lemma elect_commit:
  assumes "times_ok lo hi" and "elect_ok lo hi e"
  shows "elect_ok lo hi (snd (checkAndExecute env b e))" "elect_ok lo hi (raft_reportBlock env b e)"
    "elect_ok lo hi (tryCommitUncommitedBlock env resp e)"
proof -
  have x: "elect_ok lo hi (snd (checkAndExecute env b e))" if "elect_ok lo hi e" for b e
    using that by (auto simp: checkAndExecute_def raft_execBlock_def raft_checkAndSave_def Let_def elect_fields elect_emit
        split: sum.split prod.split CommitResult.split)
  have r: "elect_ok lo hi (raft_reportBlock env b e)" if "elect_ok lo hi e" for b e
    using that by (auto simp: raft_reportBlock_def Let_def elect_fields intro!: elect_roles(2) [OF assms(1)])
  show "elect_ok lo hi (snd (checkAndExecute env b e))" "elect_ok lo hi (raft_reportBlock env b e)" using x r assms(2) by blast+
  show "elect_ok lo hi (tryCommitUncommitedBlock env resp e)"
    using assms(2) by (auto simp: tryCommitUncommitedBlock_def commit_uncommitted_def Let_def elect_fields intro!: r x)
qed

lemma elect_handlers:
  assumes "times_ok lo hi" and "elect_ok lo hi e"
  shows "elect_ok lo hi (snd (handleVoteRequest nid req e))" "elect_ok lo hi (snd (snd (handleVoteResponse resp v e)))"
    "handleHeartbeat env nid hb e = Inr (down, e') \<Longrightarrow> elect_ok lo hi e'"
proof -
  show "elect_ok lo hi (snd (handleVoteRequest nid req e))"
    using assms(2) by (auto simp: handleVoteRequest_def Let_def setVote_def elect_fields intro!: elect_emit elect_roles(6) [OF assms(1)])
  show "elect_ok lo hi (snd (snd (handleVoteResponse resp v e)))"
    using assms(2) by (auto simp: handleVoteResponse_def Let_def elect_fields intro!: elect_roles(5) [OF assms(1)])
  show "elect_ok lo hi e'" if "handleHeartbeat env nid hb e = Inr (down, e')"
    using that assms(2) by (auto simp: handleHeartbeat_def Let_def step_down_def rbind_def elect_fields split: if_splits sum.splits prod.splits
        intro!: elect_roles(6) [OF assms(1)] elect_emit)
qed

lemma elect_packets:
  assumes t: "times_ok lo hi" and e: "elect_ok lo hi e"
  shows "elect_ok lo hi (snd (snd (leader_packet env p log e)))" "elect_ok lo hi (snd (snd (candidate_packet env p v e)))"
    "elect_ok lo hi (snd (follower_packet env p e))"
proof -
  have q: "elect_ok lo hi e'" if "handleVoteRequest nid req e = (x, e')" for nid req x e'
    using elect_handlers(1) [OF t e, of nid req] that by simp
  have a: "elect_ok lo hi e'" if "handleVoteResponse resp v e = (x, v', e')" for resp v' x e'
    using elect_handlers(2) [OF t e, of resp v] that by simp
  have h: "elect_ok lo hi e'" if "handleHeartbeat env nid hb d = Inr (x, e')" "elect_ok lo hi d" for nid hb x e' d
    using elect_handlers(3) [OF t that(2)] that(1) by blast
  have c: "elect_ok lo hi (snd (count_heartbeat nid log d))" if "elect_ok lo hi d" for nid d
    using that by (simp add: count_heartbeat_def Let_def elect_fields)
  have c': "elect_ok lo hi d'" if "count_heartbeat nid log (e\<lparr>m_memberBlock := mb\<rparr>) = (l, d')" for nid mb l d'
    using c [of "e\<lparr>m_memberBlock := mb\<rparr>" nid] that e by (simp add: elect_fields)
  note parts = elect_roles [OF t] elect_commit [OF t] elect_fields
  show "elect_ok lo hi (snd (snd (leader_packet env p log e)))"
    using e by (auto simp: leader_packet_def rbind_def parts split: sum.splits prod.splits bool.splits dest: q h c')
  show "elect_ok lo hi (snd (snd (candidate_packet env p v e)))"
    using e by (auto simp: candidate_packet_def rbind_def parts split: sum.splits prod.splits bool.splits HandleVoteResult.splits dest: q h a)
  show "elect_ok lo hi (snd (follower_packet env p e))"
    using e by (auto simp: follower_packet_def setLeader_def Let_def parts split: sum.splits prod.splits dest: q h)
qed

lemma elect_work:
  assumes t: "times_ok lo hi" and e: "elect_ok lo hi e"
  shows "elect_ok lo hi (work env e)"
proof -
  note parts = elect_roles [OF t] elect_commit [OF t] elect_fields
  have b: "elect_ok lo hi (broadcastHeartbeat env d)" if "elect_ok lo hi d" for d
  proof -
    have "elect_ok lo hi (snd (generateHeartbeat env (d\<lparr>m_lastHeartbeatTime := steady_clock d\<rparr>)))"
      by (rule elect_emit(5)) (use that in \<open>simp add: elect_fields\<close>)
    then show ?thesis using that by (auto simp: broadcastHeartbeat_def split: prod.split intro!: elect_emit)
  qed
  have p: "elect_ok lo hi d'" if "tryPop d = (x, d')" "elect_ok lo hi d" for d x d'
    using elect_emit(6) [OF that(2)] that(1) by simp
  have l: "elect_ok lo hi (snd (snd (runAsLeaderImp env log e)))" for log
    using e by (auto simp: runAsLeaderImp_def parts split: prod.split option.split intro: elect_packets(1) [OF t] dest!: p intro!: b)
  have c: "elect_ok lo hi (snd (snd (runAsCandidateImp env v e)))" for v
    using e by (auto simp: runAsCandidateImp_def Let_def parts split: prod.split option.split intro: elect_packets(2) [OF t] dest!: p)
  have f: "elect_ok lo hi (snd (runAsFollowerImp env e))"
    using e by (auto simp: runAsFollowerImp_def parts split: prod.split option.split intro: elect_packets(3) [OF t] dest!: p)
  have i: "elect_ok lo hi (workLoop env e)"
  proof -
    have r: "elect_ok lo hi (raft_resetConfig env e)" using e by (simp add: parts)
    have "elect_ok lo hi (runAsCandidate d)" if "elect_ok lo hi d" for d
    proof -
      have "elect_ok lo hi (broadcastVoteReq d)" using that by (simp add: broadcastVoteReq_def elect_emit)
      then show ?thesis using that by (simp add: runAsCandidate_def Let_def setVote_def parts)
    qed
    then show ?thesis using e r by (simp add: workLoop_def Let_def runAsLeader_def elect_fields split: RaftRole.split)
  qed
  show ?thesis
    unfolding work_def using e l c f i
    by (auto simp: elect_fields split: position.split prod.split) (metis snd_conv)+
qed

lemma elect_around:
  assumes t: "times_ok lo hi" and "around_step env e e'" and e: "elect_ok lo hi e"
  shows "elect_ok lo hi e'"
  using assms(2)
proof cases
  case (raft_receive buffer nid ep)
  then show ?thesis using e by (simp add: onRecvRaftMessage_def Let_def elect_fields split: option.split sum.split)
next
  case (raft_commit_end b)
  then show ?thesis using e by (simp add: commit_woken_def Let_def elect_fields elect_commit [OF t])
qed (use e in \<open>simp_all add: raft_commit_def resetLastBlockTime_def elect_fields elect_commit [OF t]\<close>)

lemma elect_step: "times_ok lo hi \<Longrightarrow> raft_step env e e' \<Longrightarrow> elect_ok lo hi e \<Longrightarrow> elect_ok lo hi e'"
  by (elim raft_stepE) (auto intro: elect_work elect_around)

definition raft_started :: "raft_env \<Rightarrow> nat \<Rightarrow> nat \<Rightarrow> RaftEngine \<Rightarrow> bool" where
  "raft_started env lo hi e \<longleftrightarrow> (\<exists>ch steady utc rs. e = initRaftEnv env (new_RaftEngine lo hi ch steady utc rs))"

lemma elect_started:
  assumes "times_ok lo hi" and "raft_started env lo hi e"
  shows "elect_ok lo hi e"
proof -
  obtain ch steady utc rs where e: "e = initRaftEnv env (new_RaftEngine lo hi ch steady utc rs)"
    using assms(2) by (auto simp: raft_started_def)
  have keep: "m_minElectTimeout (raft_resetConfig env d) = m_minElectTimeout d" "m_maxElectTimeout (raft_resetConfig env d) = m_maxElectTimeout d" for d
    by (simp_all add: raft_resetConfig_def switchToFollower_def resetElectTimeout_def Let_def)
  have b: "lo \<le> hi" "hi < 2 ^ 24" using assms(1) by (simp_all add: times_ok_def)
  have "(hi - lo) div 2 \<le> hi" using div_le_dividend [of "hi - lo" 2] by linarith
  then have "hi + (hi - lo) div 2 < 2 ^ 32" using b(2) by simp
  moreover have "u32 (int hi - int lo) = hi - lo" using u32_id [of "hi - lo"] b by (simp flip: of_nat_diff)
  ultimately have u: "u32 (int hi - int lo) = hi - lo" "u32 (int (hi + (hi - lo) div 2)) = hi + (hi - lo) div 2"
    by (simp_all only: u32_id)
  have d: "m_minElectTimeout (raft_resetConfig env (new_RaftEngine lo hi ch steady utc rs)) = lo"
    "m_maxElectTimeout (raft_resetConfig env (new_RaftEngine lo hi ch steady utc rs)) = hi"
    by (simp_all add: keep new_RaftEngine_def)
  show ?thesis
    unfolding e initRaftEnv_def Let_def d
    by (subst reset_again [of _ lo], rule elect_resetElectTimeout [OF _ b]) (use b u in \<open>simp add: elect_ok_def d\<close>)
qed


text \<open>
  C15: The election timeouts of a node stay between the configured minimum and half a span above the
  configured maximum, whatever elections it loses: with the minimum at most the maximum (and both below
  four hours), no arithmetic of 32 bits wraps.
\<close>

theorem elect_timeout_bounds:
  assumes "lo \<le> hi" and "hi < 2 ^ 24" and "raft_started env lo hi e0" and "raft_reaches env e0 e"
  shows "lo \<le> m_minElectTimeout e \<and> m_minElectTimeout e \<le> m_maxElectTimeout e \<and> m_maxElectTimeout e \<le> hi + (hi - lo) div 2
    \<and> lo \<le> m_electTimeout e \<and> m_electTimeout e \<le> hi + (hi - lo) div 2"
proof -
  have t: "times_ok lo hi" using assms(1,2) by (simp add: times_ok_def)
  from assms(4) have "elect_ok lo hi e"
    by (induction rule: raft_reaches.induct) (auto intro: elect_started [OF t assms(3)] elect_step [OF t])
  then show ?thesis by (simp add: elect_ok_def)
qed

section \<open>A group of three nodes\<close>

definition raft_demo :: "string \<Rightarrow> raft_env" where
  "raft_demo x = \<lparr>base = \<lparr>pub = x, Sign = (\<lambda>h. h), Verify = (\<lambda>_ s h. s = h), Hash = (\<lambda>_. zero_h256),
     run_block = (\<lambda>b _. (b, Inr (Some 0))), decodeBlock = (\<lambda>_. Inl Malformed), encodeProposal = (\<lambda>_. []),
     dbCommit = (\<lambda>_. True), chain_sealers = (\<lambda>_. [''a'', ''b'', ''c'']), tx_count_limit = (\<lambda>_. 1000),
     consensusTimeout = (\<lambda>_. None), omitEmptyBlock = True, allowFutureBlocks = False, m_enableTTLOptimize = False\<rparr>,
     encodeBlock = (\<lambda>_. []), readBlock = (\<lambda>_. Inl Malformed)\<rparr>"

definition raft_demo_start :: "string \<Rightarrow> RaftEngine" where
  "raft_demo_start x = initRaftEnv (raft_demo x) (new_RaftEngine 1000 2000 [empty_block] 0 0 (\<lambda>_. 50))"

text \<open>The node when its timeout has passed.\<close>

definition raft_demo_late :: "string \<Rightarrow> RaftEngine" where
  "raft_demo_late x = (raft_demo_start x)\<lparr>steady_clock := 3000, utc_clock := 3000, isSyncing := False, sessions := [''b'']\<rparr>"

lemma demo_sorted: "sort [''a'', ''b'', ''c''] = [''a'', ''b'', ''c'']"
  by code_simp

definition demo_index :: "string \<Rightarrow> nat" where
  "demo_index x = (if x = ''a'' then 0 else 2)"

lemma new_engine_fields:
  assumes "e = new_RaftEngine lo hi ch s u rs"
  shows "m_idx e = 0" "m_nodeNum e = 0" "m_f e = 0" "\<not> m_cfgErr e" "m_blockChain e = ch" "m_minElectTimeout e = lo" "m_maxElectTimeout e = hi"
    "\<not> m_waitingForCommitting e" "m_state e = EN_STATE_FOLLOWER" "m_heartbeatCount e = 0" "randoms e = rs" "steady_clock e = s" "m_maxBlockTransactions e = 1000"
    "m_lastElectTime e = 0" "m_lastHeartbeatTime e = 0" "worker e = Idle" "m_msgQueue e = []" "\<not> isSyncing e" "m_term e = 0" "sessions e = []" "m_firstVote e = InvalidIndex" "\<not> m_commitReady e" "m_commitFingerPrint e = (\<lambda>_. {})"
  by (simp_all add: assms new_RaftEngine_def)

definition demo_fresh :: RaftEngine where
  "demo_fresh = new_RaftEngine 1000 2000 [empty_block] 0 0 (\<lambda>_. 50)"

lemmas fresh_fields [simp] = new_engine_fields [OF demo_fresh_def]

lemma demo_started:
  assumes "x = ''a'' \<or> x = ''c''"
  shows "raft_demo_start x = demo_fresh
    \<lparr>m_idx := demo_index x, m_nodeNum := 3, m_f := 1, m_sealer := True, m_sealerList := [''a'', ''b'', ''c''],
     m_electTimeout := 1500, m_minElectTimeoutInit := 1000, m_maxElectTimeoutInit := 2000, m_minElectTimeoutBoundary := 1000,
     m_maxElectTimeoutBoundary := 2500, m_heartbeatTimeout := 1000, m_heartbeatInterval := 250, m_increaseTime := 250, m_leader := InvalidIndex\<rparr>"
proof -
  have i: "index_of x 0 [''a'', ''b'', ''c''] = int (demo_index x)" "demo_index x < 3" using assms by (auto simp: demo_index_def)
  have z: "demo_fresh\<lparr>m_maxBlockTransactions := 1000\<rparr> = demo_fresh" by (simp add: demo_fresh_def new_RaftEngine_def)
  have c: "raft_resetConfig (raft_demo x) demo_fresh = demo_fresh\<lparr>m_sealerList := [''a'', ''b'', ''c''], m_sealer := True, m_nodeNum := 3, m_idx := demo_index x, 
     m_f := 1, m_leader := InvalidIndex, m_electTimeout := 1500\<rparr>"
    using i by (simp add: raft_resetConfig_def raft_demo_def demo_sorted Let_def z switchToFollower_def resetElectTimeout_def u32_def raft_faulty_def)
  show ?thesis
    unfolding raft_demo_start_def demo_fresh_def [symmetric] initRaftEnv_def Let_def c
    by (simp add: resetElectTimeout_def u32_def s_heartBeatIntervalRatio_def)
qed

lemma elect_timeout_bounds_witness:
  "1000 \<le> m_electTimeout (raft_demo_late ''a'') \<and> m_electTimeout (raft_demo_late ''a'') \<le> 2500"
proof -
  have s: "raft_started (raft_demo ''a'') 1000 2000 (raft_demo_start ''a'')" by (auto simp: raft_started_def raft_demo_start_def)
  have "raft_reaches (raft_demo ''a'') (raft_demo_start ''a'') (raft_demo_late ''a'')"
    unfolding raft_demo_late_def by (rule raft_next [OF raft_start], rule raft_around, rule raft_world) (simp add: demo_started new_RaftEngine_def)
  from elect_timeout_bounds [OF _ _ s this] show ?thesis by simp
qed

end
