(* ===== verification/RaftElection.thy ===== *)
theory RaftElection
  imports RaftTimes Quorums
begin

text \<open>
  Elections of Raft: what a node has counted when it becomes leader, which two leaders of one term have
  counted the same vote, and how the code lets a node vote twice in a term.
\<close>

section \<open>Terms and roles\<close>

definition role :: "RaftEngine \<Rightarrow> nat \<times> RaftRole \<times> nat \<times> nat \<times> nat \<times> position" where
  "role e = (m_term e, m_state e, m_nodeNum e, m_f e, m_idx e, worker e)"

lemma role_fields:
  "role (e\<lparr>m_firstVote := n\<rparr>) = role e" "role (e\<lparr>m_lastLeaderTerm := t\<rparr>) = role e" "role (e\<lparr>m_vote := n\<rparr>) = role e"
  "role (e\<lparr>m_leader := n\<rparr>) = role e" "role (e\<lparr>m_uncommittedBlock := b\<rparr>) = role e" "role (e\<lparr>m_uncommittedBlockNumber := i\<rparr>) = role e"
  "role (e\<lparr>m_msgQueue := q\<rparr>) = role e" "role (e\<lparr>m_blockChain := ch\<rparr>) = role e" "role (e\<lparr>m_commitReady := x\<rparr>) = role e"
  "role (e\<lparr>m_waitingForCommitting := x\<rparr>) = role e" "role (e\<lparr>committing := cb\<rparr>) = role e"
  "role (e\<lparr>m_commitFingerPrint := fp\<rparr>) = role e" "role (e\<lparr>m_lastHeartbeatTime := t\<rparr>) = role e"
  by (simp_all add: role_def)

lemma roleD:
  assumes "role e' = role e"
  shows "m_term e' = m_term e" "m_state e' = m_state e" "m_nodeNum e' = m_nodeNum e" "m_f e' = m_f e" "m_idx e' = m_idx e" "worker e' = worker e"
  using assms by (simp_all add: role_def)

text \<open>A step that leaves the role alone, or makes the node a follower of the same term.\<close>

definition calm_role :: "RaftEngine \<Rightarrow> RaftEngine \<Rightarrow> bool" where
  "calm_role e e' \<longleftrightarrow> role e' = role e \<or> m_term e' = m_term e \<and> worker e' = worker e \<and> m_state e' = EN_STATE_FOLLOWER"

lemma role_plain:
  "role (emit ev e) = role e" "role (broadcastMsg m e) = role e" "role (sendResponse nid m e) = role e"
  "role (clearFirstVoteCache e) = role e" "role (snd (generateHeartbeat env e)) = role e" "role (snd (tryPop e)) = role e"
  "role (resetElectTimeout e) = role e" "role (increaseElectTime e) = role e"
proof -
  have emit: "role (emit ev e) = role e" for ev e by (simp add: emit_def role_def)
  have "role (fold (\<lambda>nid e. if index_of nid 0 (m_sealerList e) < 0 then e else emit (Send nid m) e) ns e) = role e" for ns
    by (induction ns arbitrary: e) (auto simp: emit)
  then show "role (broadcastMsg m e) = role e" by (simp add: broadcastMsg_def)
  show "role (emit ev e) = role e" "role (sendResponse nid m e) = role e" by (simp_all add: emit sendResponse_def)
  show "role (clearFirstVoteCache e) = role e" "role (snd (generateHeartbeat env e)) = role e" "role (snd (tryPop e)) = role e"
    "role (resetElectTimeout e) = role e" "role (increaseElectTime e) = role e"
    by (simp_all add: clearFirstVoteCache_def generateHeartbeat_def tryPop_def resetElectTimeout_def increaseElectTime_def Let_def role_def
        split: list.split)
qed

lemma calm_config: "calm_role e (raft_resetConfig env e)"
proof -
  have f: "m_term (switchToFollower l d) = m_term d" "worker (switchToFollower l d) = worker d" "m_state (switchToFollower l d) = EN_STATE_FOLLOWER" for l d
    by (simp_all add: switchToFollower_def resetElectTimeout_def Let_def)
  have r: "m_term (resetElectTimeout d) = m_term d" "worker (resetElectTimeout d) = worker d" "m_state (resetElectTimeout d) = m_state d" for d
    by (simp_all add: resetElectTimeout_def Let_def)
  show ?thesis by (auto simp: calm_role_def raft_resetConfig_def Let_def f r) (simp_all add: role_def)
qed

lemma role_execute: "role (snd (checkAndExecute env b e)) = role e"
  by (auto simp: checkAndExecute_def raft_execBlock_def raft_checkAndSave_def Let_def role_plain role_def emit_def
      split: sum.split prod.split CommitResult.split)

lemma calm_report: "calm_role e (raft_reportBlock env b e)"
proof -
  have "calm_role d (raft_resetConfig env d')" if "role d' = role d" for d d'
    using calm_config [of d' env] that by (auto simp: calm_role_def role_def)
  then show ?thesis by (auto simp: raft_reportBlock_def Let_def role_def calm_role_def)
qed

lemma calm_around:
  assumes "around_step env e e'"
  shows "calm_role e e'"
  using assms
proof cases
  case (raft_receive buffer nid ep)
  then show ?thesis by (simp add: onRecvRaftMessage_def Let_def calm_role_def role_def split: option.split sum.split)
next
  case (raft_commit_end b)
  have "role (snd (checkAndExecute env b d)) = role d" for d by (rule role_execute)
  then show ?thesis using raft_commit_end by (simp add: commit_woken_def Let_def calm_role_def role_def)
next
  case (raft_report b)
  then show ?thesis by (simp add: calm_report)
qed (simp_all add: raft_commit_def resetLastBlockTime_def calm_role_def role_def)


lemma around_state: "around_step env e e' \<Longrightarrow> m_state e' = m_state e \<or> m_state e' = EN_STATE_FOLLOWER"
  using calm_around by (fastforce simp: calm_role_def role_def)

section \<open>The votes a candidate counts\<close>

text \<open>A packet that a candidate of term \<open>t\<close> counts as a vote for it.\<close>

definition grants :: "nat \<Rightarrow> RaftMsgPacket \<Rightarrow> bool" where
  "grants t p \<longleftrightarrow> packetType p = RaftVoteRespPacket
     \<and> (case read_with populate_VoteResp (data p) of
          Inl _ \<Rightarrow> False
        | Inr resp \<Rightarrow> voteFlag resp = VOTE_RESP_GRANTED \<and> prev_term t \<le> raft_term resp)"

lemma response_counted:
  assumes "handleVoteResponse resp v e = (r, v', e')"
  shows "r = NONE \<Longrightarrow> e' = e \<and> vote v' = vote v + (if voteFlag resp = VOTE_RESP_GRANTED \<and> prev_term (m_term e) \<le> raft_term resp then 1 else 0)"
    "r = TO_LEADER \<Longrightarrow> e' = e \<and> voteFlag resp = VOTE_RESP_GRANTED \<and> prev_term (m_term e) \<le> raft_term resp
       \<and> m_nodeNum e - m_f e \<le> vote v + 1"
  using assms by (auto simp: handleVoteResponse_def Let_def isMajorityVote_def raft_numbers split: if_splits)

lemma request_refused:
  assumes "handleVoteRequest nid req e = (False, e')"
  shows "role e' = role e \<and> m_state e' = m_state e"
proof -
  have "role e' = role e" using assms by (auto simp: handleVoteRequest_def Let_def role_plain role_fields split: if_splits)
  then show ?thesis by (simp add: role_def)
qed

lemma heartbeat_ignored:
  assumes "handleHeartbeat env nid hb e = Inr (False, e')"
  shows "role e' = role e \<and> m_state e' = m_state e"
proof -
  have r: "role (resetElectTimeout ((clearFirstVoteCache d)\<lparr>m_lastLeaderTerm := t\<rparr>)) = role d" for d t
    by (simp add: role_plain role_fields)
  have "role e' = role e"
    using assms by (auto simp: handleHeartbeat_def Let_def step_down_def rbind_def r role_plain role_fields split: if_splits sum.splits prod.splits)
  then show ?thesis by (simp add: role_def)
qed

lemma not_leader:
  "m_state (switchToFollower l e) = EN_STATE_FOLLOWER" "m_state (switchToCandidate env e) = EN_STATE_CANDIDATE"
  by (simp_all add: switchToFollower_def switchToCandidate_def resetElectTimeout_def Let_def)

lemma leader_config:
  "m_term (switchToLeader e) = m_term e" "m_nodeNum (switchToLeader e) = m_nodeNum e" "m_f (switchToLeader e) = m_f e" "m_idx (switchToLeader e) = m_idx e"
  by (simp_all add: switchToLeader_def recoverElectTime_def)

lemma candidate_packet_counts:
  assumes "candidate_packet env p v e = (r, v', e')" and "m_state e = EN_STATE_CANDIDATE"
  shows "r = Continue \<Longrightarrow> role e' = role e \<and> vote v' = vote v + (if grants (m_term e) p then 1 else 0)"
    "m_state e' = EN_STATE_LEADER \<Longrightarrow> grants (m_term e) p \<and> m_nodeNum e - m_f e \<le> vote v + 1
       \<and> m_term e' = m_term e \<and> m_nodeNum e' = m_nodeNum e \<and> m_f e' = m_f e \<and> m_idx e' = m_idx e"
proof -
  consider (req) "packetType p = RaftVoteReqPacket" | (resp) "packetType p = RaftVoteRespPacket"
    | (beat) "packetType p = RaftHeartBeatPacket"
    | (other) "packetType p \<noteq> RaftVoteReqPacket" "packetType p \<noteq> RaftVoteRespPacket" "packetType p \<noteq> RaftHeartBeatPacket"
    by blast
  then have "(r = Continue \<longrightarrow> role e' = role e \<and> vote v' = vote v + (if grants (m_term e) p then 1 else 0))
    \<and> (m_state e' = EN_STATE_LEADER \<longrightarrow> grants (m_term e) p \<and> m_nodeNum e - m_f e \<le> vote v + 1
       \<and> m_term e' = m_term e \<and> m_nodeNum e' = m_nodeNum e \<and> m_f e' = m_f e \<and> m_idx e' = m_idx e)"
  proof cases
    case req
    then show ?thesis using assms
      by (auto simp: candidate_packet_def grants_def raft_numbers not_leader split: sum.splits prod.splits bool.splits
          dest: request_refused)
  next
    case resp
    show ?thesis
    proof (cases "read_with populate_VoteResp (data p)")
      case (Inr m)
      obtain h w d where h: "handleVoteResponse m v e = (h, w, d)" by (metis prod_cases3)
      note c = response_counted [OF h]
      show ?thesis
        using assms resp Inr h c
        by (cases h) (auto simp: candidate_packet_def grants_def raft_numbers not_leader leader_config)
    qed (use assms resp in \<open>auto simp: candidate_packet_def raft_numbers\<close>)
  next
    case beat
    then show ?thesis using assms
      by (auto simp: candidate_packet_def rbind_def grants_def raft_numbers not_leader split: sum.splits prod.splits bool.splits
          dest: heartbeat_ignored)
  next
    case other
    then show ?thesis using assms by (auto simp: candidate_packet_def grants_def)
  qed
  then show "r = Continue \<Longrightarrow> role e' = role e \<and> vote v' = vote v + (if grants (m_term e) p then 1 else 0)"
    "m_state e' = EN_STATE_LEADER \<Longrightarrow> grants (m_term e) p \<and> m_nodeNum e - m_f e \<le> vote v + 1
       \<and> m_term e' = m_term e \<and> m_nodeNum e' = m_nodeNum e \<and> m_f e' = m_f e \<and> m_idx e' = m_idx e" by blast+
qed

lemma candidate_round_counts:
  assumes "runAsCandidateImp env v e = (r, v', e')"
  shows "r = Continue \<Longrightarrow> m_state e = EN_STATE_CANDIDATE \<and> role e' = role e
      \<and> vote v' = vote v + length (filter (grants (m_term e)) (take 1 (m_msgQueue e)))"
    "m_state e \<noteq> EN_STATE_LEADER \<Longrightarrow> m_state e' = EN_STATE_LEADER \<Longrightarrow> m_state e = EN_STATE_CANDIDATE
       \<and> m_nodeNum e - m_f e \<le> vote v + length (filter (grants (m_term e)) (take 1 (m_msgQueue e)))
       \<and> m_term e' = m_term e \<and> m_nodeNum e' = m_nodeNum e \<and> m_f e' = m_f e \<and> m_idx e' = m_idx e"
proof -
  have "(r = Continue \<longrightarrow> m_state e = EN_STATE_CANDIDATE \<and> role e' = role e
      \<and> vote v' = vote v + length (filter (grants (m_term e)) (take 1 (m_msgQueue e))))
    \<and> (m_state e \<noteq> EN_STATE_LEADER \<and> m_state e' = EN_STATE_LEADER \<longrightarrow> m_state e = EN_STATE_CANDIDATE
       \<and> m_nodeNum e - m_f e \<le> vote v + length (filter (grants (m_term e)) (take 1 (m_msgQueue e)))
       \<and> m_term e' = m_term e \<and> m_nodeNum e' = m_nodeNum e \<and> m_f e' = m_f e \<and> m_idx e' = m_idx e)"
  proof (cases "m_state e \<noteq> EN_STATE_CANDIDATE \<or> \<not> m_sealer e \<or> checkElectTimeout e")
    case True
    then show ?thesis using assms by (auto simp: runAsCandidateImp_def Let_def not_leader split: if_splits)
  next
    case False
    show ?thesis
    proof (cases "m_msgQueue e")
      case Nil
      then show ?thesis using assms False by (auto simp: runAsCandidateImp_def tryPop_def)
    next
      case (Cons p ps)
      let ?d = "e\<lparr>m_msgQueue := ps\<rparr>"
      have "candidate_packet env p v ?d = (r, v', e')" "m_state ?d = EN_STATE_CANDIDATE"
        using assms False Cons by (auto simp: runAsCandidateImp_def tryPop_def)
      from candidate_packet_counts [OF this] show ?thesis
        using False Cons by (auto simp: role_fields split: if_splits)
    qed
  qed
  then show "r = Continue \<Longrightarrow> m_state e = EN_STATE_CANDIDATE \<and> role e' = role e
      \<and> vote v' = vote v + length (filter (grants (m_term e)) (take 1 (m_msgQueue e)))"
    "m_state e \<noteq> EN_STATE_LEADER \<Longrightarrow> m_state e' = EN_STATE_LEADER \<Longrightarrow> m_state e = EN_STATE_CANDIDATE
       \<and> m_nodeNum e - m_f e \<le> vote v + length (filter (grants (m_term e)) (take 1 (m_msgQueue e)))
       \<and> m_term e' = m_term e \<and> m_nodeNum e' = m_nodeNum e \<and> m_f e' = m_f e \<and> m_idx e' = m_idx e" by blast+
qed

text \<open>
  A campaign: the candidate's packets taken from the queue since it asked for votes, while other threads may
  act in between.
\<close>

inductive campaign :: "raft_env \<Rightarrow> RaftEngine \<Rightarrow> RaftMsgPacket list \<Rightarrow> RaftEngine \<Rightarrow> bool" for env e0 where
  campaign_begin: "worker e = Idle \<Longrightarrow> e0 = work env e \<Longrightarrow> worker e0 = Candidating v \<Longrightarrow> campaign env e0 [] e0"
| campaign_round: "campaign env e0 ps e \<Longrightarrow> worker (work env e) = Candidating v
    \<Longrightarrow> campaign env e0 (ps @ take 1 (m_msgQueue e)) (work env e)"
| campaign_around: "campaign env e0 ps e \<Longrightarrow> around_step env e e' \<Longrightarrow> campaign env e0 ps e'"

lemma begin_vote:
  assumes "worker e = Idle" and "worker (work env e) = Candidating v"
  shows "v = new_VoteState\<lparr>vote := 1\<rparr>"
proof -
  have w: "worker (raft_resetConfig env e) = Idle" using calm_config [of e env] assms(1) by (auto simp: calm_role_def role_def)
  have "worker (broadcastVoteReq d) = worker d" for d using role_plain(2) [of _ d] by (simp add: broadcastVoteReq_def role_def)
  moreover have "worker (switchToLeader d) = worker d" for d by (simp add: switchToLeader_def recoverElectTime_def)
  ultimately show ?thesis
    using assms w by (auto simp: work_def workLoop_def Let_def runAsLeader_def runAsCandidate_def setVote_def
        split: RaftRole.splits if_splits)
qed

lemma campaign_votes:
  assumes "campaign env e0 ps e"
  shows "\<exists>v. worker e = Candidating v \<and> vote v = 1 + length (filter (grants (m_term e0)) ps) \<and> m_term e = m_term e0
    \<and> (m_state e = EN_STATE_CANDIDATE \<longrightarrow> m_nodeNum e = m_nodeNum e0 \<and> m_f e = m_f e0 \<and> m_idx e = m_idx e0)
    \<and> (m_state e = EN_STATE_LEADER \<longrightarrow> m_state e0 = EN_STATE_LEADER)"
  using assms
proof (induction rule: campaign.induct)
  case (campaign_begin e v)
  have v: "v = new_VoteState\<lparr>vote := 1\<rparr>"
    by (rule begin_vote [OF campaign_begin(1)]) (use campaign_begin(2,3) in simp)
  show ?case using campaign_begin(3) unfolding v by (intro exI [of _ "new_VoteState\<lparr>vote := 1\<rparr>"]) simp
next
  case (campaign_round ps e v')
  then obtain v where v: "worker e = Candidating v" "vote v = 1 + length (filter (grants (m_term e0)) ps)" "m_term e = m_term e0"
    "m_state e = EN_STATE_CANDIDATE \<longrightarrow> m_nodeNum e = m_nodeNum e0 \<and> m_f e = m_f e0 \<and> m_idx e = m_idx e0" by blast
  obtain r w d where r: "runAsCandidateImp env v e = (r, w, d)" by (metis prod_cases3)
  have *: "work env e = d\<lparr>worker := Candidating v'\<rparr>" "r = Continue" "w = v'"
    using campaign_round(2) v(1) r by (cases r; auto simp: work_def split: if_splits)+
  note c = candidate_round_counts(1) [OF r *(2)]
  then have "m_term d = m_term e0" "m_state d = EN_STATE_CANDIDATE" "m_nodeNum d = m_nodeNum e0" "m_f d = m_f e0" "m_idx d = m_idx e0"
    using v(3,4) roleD [of d e] by auto
  then show ?case using c v(2,3) *(3) unfolding *(1) by simp
next
  case (campaign_around ps e e')
  then show ?case using calm_around [OF campaign_around(2)] by (auto simp: calm_role_def role_def)
qed

lemma candidating_campaign:
  assumes "raft_reaches env e0 e" and "worker e0 = Idle" and "worker e = Candidating v"
  shows "\<exists>e1 ps. campaign env e1 ps e"
  using assms
proof (induction arbitrary: v rule: raft_reaches.induct)
  case (raft_next e e')
  from raft_next(2) show ?case
  proof cases
    case raft_work
    have w: "worker (work env e) = Candidating v" using raft_work raft_next.prems(2) by simp
    show ?thesis
    proof (cases "worker e")
      case Idle
      then have "campaign env (work env e) [] (work env e)" by (rule campaign_begin) (use w in simp_all)
      then show ?thesis using raft_work by blast
    next
      case (Candidating v0)
      then obtain e1 ps where "campaign env e1 ps e" using raft_next.IH raft_next.prems(1) by blast
      from campaign_round [OF this w] show ?thesis using raft_work by blast
    next
      case (Leading log)
      then show ?thesis using w by (cases "fst (runAsLeaderImp env log e)") (auto simp: work_def split: if_splits prod.splits)
    next
      case Following
      then show ?thesis using w by (cases "fst (runAsFollowerImp env e)") (auto simp: work_def split: if_splits prod.splits)
    next
      case (Stopped x)
      then show ?thesis using w by (simp add: work_def)
    qed
  next
    case raft_around
    have "worker e' = worker e" using calm_around [OF raft_around] by (auto simp: calm_role_def role_def)
    then obtain e1 ps where "campaign env e1 ps e" using raft_next.IH raft_next.prems by metis
    from campaign_around [OF this raft_around] show ?thesis by blast
  qed
qed simp

lemma state_kept:
  "m_state (snd (handleVoteRequest nid req e)) = m_state e"
  "handleHeartbeat env nid hb e = Inr (down, e') \<Longrightarrow> m_state e' = m_state e"
  "m_state (snd (follower_packet env p e)) = m_state e"
proof -
  have s: "m_state (sendResponse nid m e) = m_state e" "m_state (resetElectTimeout e) = m_state e" "m_state (clearFirstVoteCache e) = m_state e" for nid m e
    using role_plain(3) [of nid m e] role_plain(7) [of e] role_plain(4) [of e] by (simp_all add: role_def)
  show v: "m_state (snd (handleVoteRequest nid req e)) = m_state e" for nid req e
    by (simp add: handleVoteRequest_def Let_def s setVote_def)
  have h: "m_state e' = m_state e" if "handleHeartbeat env nid hb e = Inr (down, e')" for nid hb e e' down
    using that by (auto simp: handleHeartbeat_def Let_def step_down_def rbind_def s split: if_splits sum.splits prod.splits)
  then show "handleHeartbeat env nid hb e = Inr (down, e') \<Longrightarrow> m_state e' = m_state e" .
  have v': "m_state e' = m_state e" if "handleVoteRequest nid req e = (x, e')" for nid req x e'
    using v [of nid req e] that by simp
  show "m_state (snd (follower_packet env p e)) = m_state e"
    by (auto simp: follower_packet_def setLeader_def Let_def split: sum.splits prod.splits dest: v' h)
qed

lemma idle_wins:
  assumes "worker e = Idle" and "m_state e \<noteq> EN_STATE_LEADER" and "m_state (work env e) = EN_STATE_LEADER"
  shows "m_nodeNum (work env e) - m_f (work env e) \<le> 1"
proof -
  have c: "m_state (raft_resetConfig env e) \<noteq> EN_STATE_LEADER" using calm_config [of e env] assms(2) by (auto simp: calm_role_def role_def)
  have b: "m_state (broadcastVoteReq d) = m_state d" "m_nodeNum (broadcastVoteReq d) = m_nodeNum d" "m_f (broadcastVoteReq d) = m_f d" for d
    using role_plain(2) [of _ d] by (simp_all add: broadcastVoteReq_def role_def)
  show ?thesis
    using assms c by (auto simp: work_def workLoop_def Let_def runAsCandidate_def setVote_def wonElection_def new_VoteState_def leader_config b
        split: if_splits RaftRole.splits)
qed

lemma follower_stays:
  assumes "m_state e \<noteq> EN_STATE_LEADER"
  shows "m_state (snd (runAsFollowerImp env e)) \<noteq> EN_STATE_LEADER"
proof -
  have "m_state d = m_state e" if "tryPop e = (x, d)" for x d using that by (auto simp: tryPop_def split: list.splits)
  then show ?thesis
    using assms by (auto simp: runAsFollowerImp_def not_leader state_kept(3) split: prod.splits option.splits)
qed

lemma campaign_won:
  assumes c: "campaign env e1 ps e" and "m_state e \<noteq> EN_STATE_LEADER" and "m_state (work env e) = EN_STATE_LEADER"
  shows "m_nodeNum e1 - m_f e1 \<le> 1 + length (filter (grants (m_term e1)) (ps @ take 1 (m_msgQueue e)))"
    "m_term (work env e) = m_term e1" "m_nodeNum (work env e) = m_nodeNum e1" "m_f (work env e) = m_f e1"
proof -
  from campaign_votes [OF c] obtain v where v: "worker e = Candidating v" "vote v = 1 + length (filter (grants (m_term e1)) ps)"
    "m_term e = m_term e1" "m_state e = EN_STATE_CANDIDATE \<longrightarrow> m_nodeNum e = m_nodeNum e1 \<and> m_f e = m_f e1 \<and> m_idx e = m_idx e1" by auto
  obtain r w d where r: "runAsCandidateImp env v e = (r, w, d)" by (metis prod_cases3)
  have d: "work env e = d\<lparr>worker := after_round (Candidating w) r\<rparr>"
    using assms(2,3) v(1) r by (auto simp: work_def split: if_splits)
  have "m_state d = EN_STATE_LEADER" using assms(3) d by simp
  from candidate_round_counts(2) [OF r assms(2) this]
  show "m_nodeNum e1 - m_f e1 \<le> 1 + length (filter (grants (m_term e1)) (ps @ take 1 (m_msgQueue e)))"
    "m_term (work env e) = m_term e1" "m_nodeNum (work env e) = m_nodeNum e1" "m_f (work env e) = m_f e1" using v d by simp_all
qed

text \<open>
  C9: Whatever a node receives, it becomes leader only if it alone is a quorum, or at the end of a campaign
  in which it has taken from its queue as many votes as make a quorum with its own, and it leads the term of
  that campaign. What it counts are answers, not nodes, and the answer may be one to its campaign in the term
  before.
\<close>

theorem election_won:
  assumes "raft_started env lo hi e0" and "raft_reaches env e0 e" and "raft_step env e e'"
    and "m_state e \<noteq> EN_STATE_LEADER" and "m_state e' = EN_STATE_LEADER"
  shows "m_nodeNum e' - m_f e' \<le> 1
    \<or> (\<exists>e1 ps. campaign env e1 ps e \<and> m_term e' = m_term e1 \<and> m_nodeNum e' = m_nodeNum e1 \<and> m_f e' = m_f e1
        \<and> m_nodeNum e1 - m_f e1 \<le> 1 + length (filter (grants (m_term e1)) (ps @ take 1 (m_msgQueue e))))"
proof -
  have idle: "worker e0 = Idle"
  proof -
    have "worker (raft_resetConfig env d) = worker d" for d using calm_config [of d env] by (auto simp: calm_role_def role_def)
    then show ?thesis using assms(1) by (auto simp: raft_started_def initRaftEnv_def Let_def resetElectTimeout_def new_RaftEngine_def)
  qed
  from assms(3) have e': "e' = work env e"
    by cases (use assms(4,5) in \<open>auto dest!: around_state\<close>)
  show ?thesis
  proof (cases "worker e")
    case Idle
    then show ?thesis using idle_wins assms(4,5) e' by blast
  next
    case (Leading log)
    then show ?thesis using assms(4,5) e' by (auto simp: work_def runAsLeaderImp_def split: if_splits)
  next
    case Following
    then have "m_state (work env e) = m_state (snd (runAsFollowerImp env e)) \<or> m_state (work env e) = m_state e"
      by (auto simp: work_def split: prod.split)
    then show ?thesis using follower_stays [OF assms(4), of env] assms(4,5) e' by auto
  next
    case (Candidating v)
    obtain e1 ps where c: "campaign env e1 ps e" using candidating_campaign [OF assms(2) idle Candidating] by blast
    have "m_state (work env e) = EN_STATE_LEADER" using assms(5) e' by simp
    from campaign_won [OF c assms(4) this] c show ?thesis unfolding e' by blast
  next
    case (Stopped x)
    then show ?thesis using assms(4,5) e' by (simp add: work_def)
  qed
qed

section \<open>Two leaders\<close>

lemma raft_overlap: "Suc m + 0 < 2 * (Suc m - raft_faulty (Suc m))"
  by (simp add: raft_faulty_def)

interpretation raft_quorum: quorum "Suc m" 0 "Suc m - raft_faulty (Suc m)" for m
  by unfold_locales (rule raft_overlap)

definition votes_of :: "RaftEngine \<Rightarrow> RaftMsgPacket list \<Rightarrow> nat set" where
  "votes_of e ps = insert (m_idx e) (nodeIdx ` {p \<in> set ps. grants (m_term e) p})"

lemma card_votes:
  assumes "distinct (m_idx e # map nodeIdx (filter (grants (m_term e)) ps))"
  shows "card (votes_of e ps) = 1 + length (filter (grants (m_term e)) ps)"
proof -
  have "votes_of e ps = set (m_idx e # map nodeIdx (filter (grants (m_term e)) ps))" by (auto simp: votes_of_def)
  then show ?thesis using distinct_card [OF assms] by simp
qed


section \<open>Votes\<close>



section \<open>Committing a block\<close>

text \<open>
  C13: When the sealer's thread of a leader waits for its block to be accepted, an answer of a node releases it
  exactly if the answer names the block and makes a quorum of answers that do, or if it names no block at all.
\<close>

theorem commit_acknowledged:
  assumes "m_waitingForCommitting e" and "\<not> m_commitReady e" and "block_set (m_uncommittedBlock e)"
    and "m_uncommittedBlockNumber e = m_consensusBlockNumber e"
  shows "m_commitReady (tryCommitUncommitedBlock env resp e) \<longleftrightarrow>
     uncommitedBlockHash resp = zero_h256
     \<or> uncommitedBlockHash resp = hash (blockHeader (m_uncommittedBlock e))
       \<and> m_nodeNum e - m_f e \<le> card (insert (idx resp) (m_commitFingerPrint e (hash (blockHeader (m_uncommittedBlock e)))))"
  using assms by (auto simp: tryCommitUncommitedBlock_def commit_uncommitted_def Let_def)


text \<open>
  A packet of another sealer that cannot be read ends a follower's worker: it never handles a message
  again, whatever happens, since nothing starts a stopped worker.
\<close>

theorem unreadable_request_stops:
  assumes "worker e = Following" and "\<not> isSyncing e" and "m_state e = EN_STATE_FOLLOWER" and "m_sealer e"
    and "\<not> checkElectTimeout e" and "m_msgQueue e = p # ps" and "packetType p = RaftVoteReqPacket"
    and "read_with populate_VoteReq (data p) = Inl x" and "raft_reaches env (work env e) e'"
  shows "worker e' = Stopped x"
proof -
  have stop: "worker (work env e) = Stopped x"
    using assms(1-8) by (simp add: work_def runAsFollowerImp_def tryPop_def follower_packet_def checkElectTimeout_def)
  have keep: "worker d' = Stopped x" if "raft_step env d d'" "worker d = Stopped x" for d d'
    using that(1)
  proof cases
    case raft_work
    then show ?thesis using that(2) by (simp add: work_def)
  next
    case raft_around
    then show ?thesis using calm_around [OF raft_around] that(2) by (auto simp: calm_role_def role_def)
  qed
  from assms(9) show ?thesis by (induction rule: raft_reaches.induct) (auto intro: stop keep)
qed

section \<open>An election in a group of three nodes\<close>

text \<open>Node \<open>x\<close> after its worker has made three rounds since its timeout: it asks for votes.\<close>

definition raft_demo_candidate :: "string \<Rightarrow> RaftEngine" where
  "raft_demo_candidate x = work (raft_demo x) (work (raft_demo x) (work (raft_demo x) (raft_demo_late x)))"

lemma demo_candidate:
  assumes x: "x = ''a'' \<or> x = ''c''"
  defines "e \<equiv> raft_demo_candidate x"
  shows "worker e = Candidating (new_VoteState\<lparr>vote := 1\<rparr>)" "m_state e = EN_STATE_CANDIDATE" "m_nodeNum e = 3" "m_f e = 1"
    "m_idx e = demo_index x" "m_msgQueue e = []" "m_term e = 1" "m_sealer e" "\<not> isSyncing e" "\<not> checkElectTimeout e"
    "m_sealerList e = [''a'', ''b'', ''c'']"
    "worker (work (raft_demo x) (work (raft_demo x) (raft_demo_late x))) = Idle"
proof -
  define d1 where "d1 = (raft_demo_late x)\<lparr>worker := Following\<rparr>"
  have w1: "work (raft_demo x) (raft_demo_late x) = d1"
    using x unfolding raft_demo_late_def demo_started [OF x] d1_def
    by (elim disjE) (simp_all add: work_def workLoop_def new_RaftEngine_def Let_def raft_resetConfig_def raft_demo_def demo_sorted demo_index_def)
  define d2 where "d2 = d1\<lparr>worker := Idle, m_term := 1, m_leader := InvalidIndex, m_state := EN_STATE_CANDIDATE, m_lastElectTime := 3000\<rparr>"
  have w2: "work (raft_demo x) d1 = d2"
    using x unfolding raft_demo_late_def demo_started [OF x] d1_def d2_def
    by (elim disjE) (simp_all add: work_def runAsFollowerImp_def checkElectTimeout_def switchToCandidate_def resetElectTimeout_def
      new_RaftEngine_def Let_def raft_resetConfig_def raft_demo_def demo_sorted u32_def next_term_def demo_index_def)
  have e: "e = work (raft_demo x) d2" by (simp add: e_def raft_demo_candidate_def w1 w2)
  have c: "raft_resetConfig (raft_demo x) d2 = d2"
    using x unfolding raft_demo_late_def demo_started [OF x] d1_def d2_def
    by (elim disjE) (simp_all add: new_RaftEngine_def Let_def raft_resetConfig_def raft_demo_def demo_sorted demo_index_def)
  have "\<exists>evs. fold (\<lambda>nid e. if index_of nid 0 (m_sealerList e) < 0 then e else emit (Send nid m) e) ns d = d\<lparr>raft_events := evs\<rparr>" for m ns d
  proof (induction ns arbitrary: d)
    case Nil
    show ?case by (rule exI [of _ "raft_events d"]) simp
  next
    case (Cons n ns)
    then obtain evs where "fold (\<lambda>nid e. if index_of nid 0 (m_sealerList e) < 0 then e else emit (Send nid m) e) ns (emit (Send n m) d)
      = (emit (Send n m) d)\<lparr>raft_events := evs\<rparr>" by blast
    then show ?case using Cons [of d] by (auto simp: emit_def)
  qed
  then have "\<exists>evs. broadcastVoteReq d2 = d2\<lparr>raft_events := evs\<rparr>" by (simp add: broadcastVoteReq_def broadcastMsg_def)
  then obtain evs where b: "broadcastVoteReq d2 = d2\<lparr>raft_events := evs\<rparr>" ..
  have f: "worker d2 = Idle" "m_state d2 = EN_STATE_CANDIDATE" "m_nodeNum d2 = 3" "m_f d2 = 1" "m_idx d2 = demo_index x"
    "m_msgQueue d2 = []" "m_term d2 = 1" "m_sealer d2" "\<not> isSyncing d2" "\<not> m_cfgErr d2" "m_sealerList d2 = [''a'', ''b'', ''c'']"
    "steady_clock d2 = 3000" "m_lastElectTime d2 = 3000" "m_electTimeout d2 = 1500"
    unfolding raft_demo_late_def demo_started [OF x] d1_def d2_def by (simp_all add: new_RaftEngine_def)
  have "e = d2\<lparr>raft_events := evs, m_vote := m_idx d2, m_firstVote := m_idx d2, worker := Candidating (new_VoteState\<lparr>vote := 1\<rparr>)\<rparr>"
    unfolding e by (simp add: work_def f(1,9) workLoop_def c f(2,8,10) runAsCandidate_def b Let_def setVote_def wonElection_def f(3,4) new_VoteState_def)
  then show "worker e = Candidating (new_VoteState\<lparr>vote := 1\<rparr>)" "m_state e = EN_STATE_CANDIDATE" "m_nodeNum e = 3" "m_f e = 1"
    "m_idx e = demo_index x" "m_msgQueue e = []" "m_term e = 1" "m_sealer e" "\<not> isSyncing e" "\<not> checkElectTimeout e"
    "m_sealerList e = [''a'', ''b'', ''c'']"
    by (simp_all add: f checkElectTimeout_def)
  show "worker (work (raft_demo x) (work (raft_demo x) (raft_demo_late x))) = Idle" using f(1) by (simp add: w1 w2)
qed

text \<open>The vote of node \<open>b\<close> for a candidate of term 1, as it arrives.\<close>

definition demo_grant :: RaftVoteResp where
  "demo_grant = \<lparr>idx = 1, raft_term = 1, height = 0, blockHash = zero_h256, voteFlag = VOTE_RESP_GRANTED, respLeaderTerm = 0\<rparr>"

lemma demo_grant_arrives:
  obtains bs d where "decode_raft_packet bs new_RaftMsgPacket = Inr (new_RaftMsgPacket\<lparr>packetType := RaftVoteRespPacket, data := d\<rparr>)"
    "read_with populate_VoteResp d = Inr demo_grant" "bs \<noteq> []"
proof -
  have "delivers (stream_VoteResp demo_grant) RaftVoteRespPacket populate_VoteResp demo_grant"
    using deliver_VoteResp [of demo_grant] by (simp add: demo_grant_def received_def RaftMsg.defs zero_h256_def raft_numbers)
  then obtain bs d where b: "decode_raft_packet bs new_RaftMsgPacket = Inr (new_RaftMsgPacket\<lparr>packetType := RaftVoteRespPacket, data := d\<rparr>)"
    "read_with populate_VoteResp d = Inr demo_grant" unfolding delivers_def by blast
  moreover have "decode_raft_packet [] new_RaftMsgPacket = Inl BadRLP"
    by (simp add: decode_raft_packet_def cropped_def new_RLP_def actualSize_def isNull_def toInt_def requireGood_def)
  ultimately show thesis using that by (cases "bs = []") auto
qed

lemma demo_campaign:
  assumes x: "x = ''a'' \<or> x = ''c''"
  obtains d e where "campaign (raft_demo x) (raft_demo_candidate x) [] e" "raft_reaches (raft_demo x) (raft_demo_start x) e"
    "m_state e = EN_STATE_CANDIDATE" "m_state (work (raft_demo x) e) = EN_STATE_LEADER" "m_nodeNum (work (raft_demo x) e) = 3"
    "m_f (work (raft_demo x) e) = 1" "filter (grants 1) (take 1 (m_msgQueue e)) = m_msgQueue e" "map nodeIdx (m_msgQueue e) = [1]"
proof -
  let ?c = "raft_demo_candidate x" and ?env = "raft_demo x"
  note c = demo_candidate [OF x]
  have "raft_reaches ?env (raft_demo_start x) (raft_demo_late x)"
    unfolding raft_demo_late_def by (rule raft_next [OF raft_start], rule raft_around, rule raft_world) (simp add: demo_started [OF x] new_RaftEngine_def)
  then have r: "raft_reaches ?env (raft_demo_start x) ?c"
    unfolding raft_demo_candidate_def by (intro raft_next [OF _ raft_work])
  obtain bs d where g: "decode_raft_packet bs new_RaftMsgPacket = Inr (new_RaftMsgPacket\<lparr>packetType := RaftVoteRespPacket, data := d\<rparr>)"
    "read_with populate_VoteResp d = Inr demo_grant" "bs \<noteq> []" by (rule demo_grant_arrives)
  define p where "p = raft_setOtherField 1 ''b'' [] (new_RaftMsgPacket\<lparr>packetType := RaftVoteRespPacket, data := d\<rparr>)"
  have pr: "packetType p = RaftVoteRespPacket" "data p = d" "nodeIdx p = 1" by (simp_all add: p_def raft_setOtherField_def)
  let ?e = "?c\<lparr>m_msgQueue := [p]\<rparr>"
  have own: "[''a'', ''b'', ''c''] ! demo_index x = x" "demo_index x < 3" "x \<noteq> ''b''" "length x < length zero_h512"
    using x by (auto simp: demo_index_def zero_h512_def)
  then have "x \<noteq> zero_h512" by auto
  then have v: "raft_isValidReq ?env bs ''b'' ?c = Some 1"
    using g(3) own by (simp add: raft_isValidReq_def c Let_def)
  have "onRecvRaftMessage ?env bs ''b'' [] ?c = ?e"
    unfolding onRecvRaftMessage_def v by (simp add: g(1) Let_def c p_def raft_setOtherField_def raft_numbers)
  then have s: "around_step ?env ?c ?e" using raft_receive [of ?env ?c bs "''b''" "[]"] by simp
  have b: "campaign ?env ?c [] ?c"
    by (rule campaign_begin [where v = "new_VoteState\<lparr>vote := 1\<rparr>", OF c(12) raft_demo_candidate_def]) (use c(1) in \<open>simp add: raft_demo_candidate_def\<close>)
  have gr: "grants 1 p" by (simp add: grants_def pr g(2) demo_grant_def prev_term_def)
  have w: "work ?env ?e = (switchToLeader ?c)\<lparr>m_msgQueue := [], worker := Idle\<rparr>"
    using c(10) by (simp add: work_def c runAsCandidateImp_def checkElectTimeout_def tryPop_def candidate_packet_def pr g(2) raft_numbers demo_grant_def
        handleVoteResponse_def prev_term_def isMajorityVote_def Let_def new_VoteState_def switchToLeader_def recoverElectTime_def)
  show thesis
    by (rule that [OF campaign_around [OF b s] raft_next [OF r raft_around [OF s]]])
      (simp_all add: w c gr [simplified] pr leader_config, simp_all add: switchToLeader_def recoverElectTime_def)
qed

lemma election_won_witness:
  "\<exists>e e1 ps. campaign (raft_demo ''a'') e1 ps e \<and> m_state (work (raft_demo ''a'') e) = EN_STATE_LEADER
    \<and> 2 \<le> 1 + length (filter (grants (m_term e1)) (ps @ take 1 (m_msgQueue e)))"
proof -
  have s: "raft_started (raft_demo ''a'') 1000 2000 (raft_demo_start ''a'')" by (auto simp: raft_started_def raft_demo_start_def)
  obtain e where e: "raft_reaches (raft_demo ''a'') (raft_demo_start ''a'') e" "m_state e = EN_STATE_CANDIDATE"
    "m_state (work (raft_demo ''a'') e) = EN_STATE_LEADER" "m_nodeNum (work (raft_demo ''a'') e) = 3" "m_f (work (raft_demo ''a'') e) = 1"
    by (rule demo_campaign [of "''a''"]) simp
  have c: "m_state e \<noteq> EN_STATE_LEADER" by (simp add: e(2))
  obtain e1 ps where "campaign (raft_demo ''a'') e1 ps e"
      "2 \<le> 1 + length (filter (grants (m_term e1)) (ps @ take 1 (m_msgQueue e)))"
    using election_won [OF s e(1) raft_work c e(3)] e(4,5) by auto
  with e(3) show ?thesis by blast
qed


text \<open>A leader of the group, and a block that its sealer waits for.\<close>

definition raft_demo_leader :: RaftEngine where
  "raft_demo_leader = (raft_demo_start ''a'')
     \<lparr>m_state := EN_STATE_LEADER, m_term := 5, m_lastLeaderTerm := 5, m_firstVote := 0, sessions := [''b''], m_waitingForCommitting := True,
      m_uncommittedBlock := empty_block\<lparr>blockHeader := new_BlockHeader\<lparr>block_time := 7, hash := ''h''\<rparr>\<rparr>,
      m_uncommittedBlockNumber := 1, m_consensusBlockNumber := 1\<rparr>"

lemma raft_leader_fields:
  "m_state raft_demo_leader = EN_STATE_LEADER" "m_term raft_demo_leader = 5" "m_lastLeaderTerm raft_demo_leader = 5"
  "m_firstVote raft_demo_leader = 0" "sessions raft_demo_leader = [''b'']" "m_sealerList raft_demo_leader = [''a'', ''b'', ''c'']"
  "m_waitingForCommitting raft_demo_leader" "\<not> m_commitReady raft_demo_leader" "block_set (m_uncommittedBlock raft_demo_leader)"
  "m_uncommittedBlockNumber raft_demo_leader = m_consensusBlockNumber raft_demo_leader" "last_block_number raft_demo_leader = 1"
  "m_uncommittedBlock raft_demo_leader = empty_block\<lparr>blockHeader := new_BlockHeader\<lparr>block_time := 7, hash := ''h''\<rparr>\<rparr>"
  "m_nodeNum raft_demo_leader = 3" "m_f raft_demo_leader = 1" "m_commitFingerPrint raft_demo_leader = (\<lambda>_. {})"
  by (simp_all add: raft_demo_leader_def demo_started new_RaftEngine_def block_set_def empty_block_def last_block_number_def chain_number_def)

definition raft_demo_request :: RaftVoteReq where
  "raft_demo_request = \<lparr>idx = 1, raft_term = 5, height = 0, blockHash = zero_h256, candidate = 1, lastLeaderTerm = 5, lastBlockNumber = 1\<rparr>"


lemma commit_acknowledged_witness:
  "\<not> m_commitReady (tryCommitUncommitedBlock (raft_demo ''a'') (lonely_resp\<lparr>idx := 1, uncommitedBlockHash := ''h''\<rparr>) raft_demo_leader)"
  using commit_acknowledged [OF raft_leader_fields(7-10), of "raft_demo ''a''" "lonely_resp\<lparr>idx := 1, uncommitedBlockHash := ''h''\<rparr>"]
  by (simp add: raft_leader_fields(12-15) lonely_resp_def zero_h256_def list_eq_iff_nth_eq)

definition raft_demo_beat :: RaftHeartBeat where
  "raft_demo_beat = \<lparr>idx = 1, raft_term = 5, height = 0, blockHash = zero_h256, leader = 1, uncommitedBlock = [], uncommitedBlockNumber = 0\<rparr>"


definition raft_demo_broken :: RaftEngine where
  "raft_demo_broken = (raft_demo_start ''a'')\<lparr>worker := Following, m_msgQueue := [new_RaftMsgPacket\<lparr>nodeId := ''b''\<rparr>]\<rparr>"

lemma unreadable_request_stops_witness:
  "\<exists>x. worker (work (raft_demo ''a'') raft_demo_broken) = Stopped x"
proof -
  let ?p = "new_RaftMsgPacket\<lparr>nodeId := ''b''\<rparr>"
  have n: "new_RLP [] s = Inr []" for s by (simp add: new_RLP_def actualSize_def isNull_def)
  then have f: "field 0 [] = Inr []"
    by (simp add: field_def subscript_def node_def payload_def sizeAsEncoded_def actualSize_def isNull_def cropped_def advance.simps rlp_length_def)
  have "read_with populate_VoteReq (data ?p) = Inl BadRLP"
    by (simp add: read_with_def new_RaftMsgPacket_def n f populate_VoteReq_def populate_raft_def toInt_def requireGood_def isNull_def)
  then obtain x where x: "read_with populate_VoteReq (data ?p) = Inl x" ..
  have "worker (work (raft_demo ''a'') raft_demo_broken) = Stopped x"
    by (rule unreadable_request_stops [OF _ _ _ _ _ _ _ x raft_start])
      (simp_all add: raft_demo_broken_def demo_started new_RaftEngine_def checkElectTimeout_def new_RaftMsgPacket_def)
  then show ?thesis ..
qed

end
