(* ===== verification/Spec2Isabelle.thy ===== *)
theory Spec2Isabelle
  imports ShardTree ShardHierarchy StateStats ExecuterInit EpochBatches Coordinator ShardExecution MasterChange Executer Rlp Packets ThreadMaster Node
    DagTransfer PbftAgreement RaftElection
begin

text \<open>
  HieraChain is a sharded consortium blockchain built on FISCO-BCOS. The shards form a tree: the leaves
  execute transactions on their own states, an inner shard coordinates the transactions that span several
  of its descendants. This development models the program's own logic in the order in which a transaction
  meets it, with one theory or a few for each part; the directories are those of the repository.

  \<^bold>\<open>The parts and how they interact\<close>

  A group of nodes agrees on blocks by PBFT (\<open>libconsensus/pbft\<close>). An agreed block is executed in one of
  two ways. Where it runs in parallel, \<open>libblockverifier\<close> builds a graph of the conflicts of its transactions
  and several threads work it off; the precompiled transfer contract declares the fields it touches.
  In the shards, \<open>processConsensusBlock\<close> of the plugin (\<open>libplugin/TransactionExecuter.cpp\<close>) walks over the
  agreed transactions and dispatches them: a shard's own transactions are executed or queued behind the
  states they need, transactions over several shards are accumulated by the coordinator, cut into epochs,
  sent as batches to the participants and worked off there from one queue for each coordinator. Read-write
  sets, votes and commits travel between shards in packets of \<open>libsync\<close> that carry protocol buffers in RLP;
  the threads of \<open>libplugin/SyncThreadMaster.cpp\<close> take them from the queues of the message manager and either
  update the executer or propose them to the consensus. A shard that is accessed mostly from elsewhere may
  hand the write right of a state to another shard.

  \<^bold>\<open>Theories and code\<close>

  Shared: \<open>Prelude\<close> has the result type of code that throws, checked accesses, decimal numbers, joined and
  split strings, ordered maps and counters.

  The shards: \<open>ShardTree\<close> is \<open>hieraShardTree.cpp\<close> (\<open>buildFromJson\<close>, lookups, common ancestors),
  \<open>ShardHierarchy\<close> the class \<open>Hierarchical_Shard\<close> and \<open>StateStats\<close> the class \<open>LRU_StatesInfo\<close> of
  \<open>libplugin/Common.h\<close>, \<open>Containers\<close> its other containers. \<open>BlockingQueues\<close> is \<open>BlockingTxQueue.cpp\<close>.
  \<open>HexCodec\<close> covers the conversions of \<open>libdevcore\<close> and the data field of a transaction.

  The executer: \<open>ExecuterState\<close> is the record of the members of \<open>TransactionExecuter\<close> with its guarded
  accessors, \<open>ExecuterInit\<close> its construction from the tree. \<open>Coordinator\<close> has \<open>accumulateSubTxs\<close>,
  \<open>checkSubTxsContainers\<close> and the sending of epochs; \<open>EpochProcessing\<close> and \<open>EpochBatches\<close> what a shard does with
  an epoch (\<open>processOrderedBatchedSubInterShardTxs\<close>, \<open>processReorderedTxs\<close>); \<open>ShardExecution\<close> the execution,
  the queues, the read-write sets and the commit replies; \<open>MasterChange\<close> the moving of write rights;
  \<open>Executer\<close> the dispatch of blocks.

  Messages: \<open>Rlp\<close> is reader and writer of \<open>libdevcore/RLP\<close>, \<open>Packets\<close> the packets of \<open>libsync\<close> and the
  message manager, \<open>ThreadMaster\<close> the receiving threads, \<open>Node\<close> their interleaving with the executer.

  Parallel blocks: \<open>Dag\<close> is the graph of \<open>libblockverifier\<close>, \<open>DagRun\<close> the threads of
  \<open>parallelExecuteBlock\<close>, \<open>DagTransfer\<close> the contract \<open>DagTransferPrecompiled.cpp\<close>.

  Consensus: \<open>PbftMsg\<close> has the messages of \<open>libconsensus/pbft/Common.h\<close>, \<open>PbftCache\<close> the request cache
  \<open>PBFTReqCache\<close>, \<open>PbftEngine\<close> the state of \<open>PBFTEngine\<close> with its base class and timer and each handler,
  \<open>PbftSteps\<close> its operations as steps and the reachable states, \<open>PbftViews\<close>, \<open>PbftSafety\<close> and \<open>PbftAgreement\<close>
  what holds in them.

  \<^bold>\<open>How state and operations correspond\<close>

  A class is a record with a field for each member, a method a function from the record to the record,
  and where it can throw, to \<open>error + record\<close>: \<open>Inl\<close> is the exception (or the access out of bounds that
  C++ leaves undefined), \<open>Inr\<close> the new state. \<open>std::map\<close> is a map (\<open>'k \<rightharpoonup> 'v\<close>) or an ordered association list
  where the code iterates, an \<open>unordered_map\<close> a list of its entries, so that a theorem over all lists covers
  every iteration order. Bytes are strings. Integers are unbounded except where the width matters; there
  \<open>mod 2 ^ n\<close> is written out. What one mutex protects is one step. Endless loops of threads are modelled by
  one round, the round is a step of the node. What a component gives away (packets, notifications) is
  appended to a list of the record.

  \<^bold>\<open>What the lemmas show\<close>

  Execution in parallel gives the result of the order of the block, and it never blocks, for every
  schedule (\<open>DagRun\<close>); the transfer contract keeps the contract for that and conserves the sum of the
  balances (\<open>DagTransfer\<close>), except for the balance query, which has no tag. Epochs arrive as they were sent,
  are processed in the order of their numbers without a gap, and are cut into maximal batches
  (\<open>Coordinator\<close>, \<open>EpochProcessing\<close>, \<open>EpochBatches\<close>). A state is locked exactly while a queued transaction uses
  it (\<open>BlockingQueues\<close>); a transaction of the shard itself runs at once exactly if none of its states is
  locked (\<open>ShardExecution\<close>). A moved state is written where it now lives (\<open>MasterChange\<close>, \<open>Node\<close>). Messages
  are decoded to what was sent and reach the queue of their kind (\<open>Rlp\<close>, \<open>Packets\<close>), a worker drains its queue
  (\<open>Node\<close>). A PBFT node sends commit requests for at most one block of a height, changes its view only with
  a quorum, keeps its cache well-formed, and two nodes that append a block of one height append the same
  (\<open>PbftSafety\<close>, \<open>PbftViews\<close>, \<open>PbftAgreement\<close>), the last under the hypothesis that counted votes were sent as such,
  which the code does not ensure by itself.

  Contracts between components are locales: \<open>lock_queue\<close> (interpreted on the blocking queue),
  \<open>parallel_contract\<close> (on the transfer contract) and \<open>quorum\<close> (on the number of sealers and of tolerated faults).

  \<^bold>\<open>Bounds and fuel\<close>

  Recursion that is not structural is a \<open>function\<close> with a measure: reading RLP and the lists of ancestors end
  because the input shrinks, draining cached epochs because the epoch number grows up to the largest cached
  one. Building the tree follows a map of children that may be cyclic; its fuel is the
  depth of the recursion, running out of it the stack overflow of the program. It ends with a result
  whenever the topology has a rank that decreases from parents to children, with a depth one above the
  rank of the root's children. The ancestors of a shard and the random redrawing, which may not end, are
  partial functions with value \<open>None\<close> for no end.

  \<^bold>\<open>Not modelled\<close>

  Cryptography, hashes, the database, the contents of protocol buffers and the execution of one
  transaction are parameters: functions of an environment record, of which only what a theorem names is
  assumed. Logging, metrics and locks are left out. The virtual machine (\<open>libinterpreter\<close>, \<open>libexecutive\<close>) is
  upstream code whose call from the executer is commented out, so a call is recorded. Network, RPC, storage,
  the ledger's configuration, the benchmark and the generated code of the protocol buffers are not modelled,
  because they are input and output or come from upstream; of the consensus neither the rotating leaders,
  nor partially filled proposals, nor the forwarding of packets by time to live.
\<close>

end
